(* ===== verification/Prelude.thy ===== *)
theory Prelude
  imports Main "HOL-Library.Word" "HOL-Library.Monad_Syntax"
begin

text \<open>
  Shared vocabulary of the development: the fixed-width integer types of the C++ code, the
  byte-order functions of Winsock, the clock, the containers the components share, and the
  generic facts the component theories use.  Ports and lengths are kept at their width
  (\<^typ>\<open>16 word\<close>, \<^typ>\<open>32 word\<close>); all supported targets are little endian.
\<close>

unbundle bit_operations_syntax

type_synonym u8 = "8 word"
type_synonym u16 = "16 word"
type_synonym u32 = "32 word"
type_synonym u64 = "64 word"

text \<open>A \<^verbatim>\<open>std::chrono::steady_clock::time_point\<close>, in nanoseconds; differences are signed.\<close>

type_synonym time_point = int

abbreviation seconds :: "int \<Rightarrow> int" where
  "seconds n \<equiv> n * 1000000000"

abbreviation minutes :: "int \<Rightarrow> int" where
  "minutes n \<equiv> seconds (60 * n)"

named_theorems access_simps
  \<open>evaluation of the reads and writes of a packet buffer\<close>

named_theorems wire_simps
  \<open>byte order and field layout facts\<close>

section \<open>Byte order\<close>

text \<open>
  \<open>le16 b0 b1\<close> is the value a little-endian load of the two bytes gives, \<open>ntohs\<close> the
  Winsock byte swap (the same function as \<open>htons\<close>).
\<close>

definition le16 :: "u8 \<Rightarrow> u8 \<Rightarrow> u16" where
  "le16 b0 b1 = (ucast b0 :: u16) OR push_bit 8 (ucast b1)"

definition be16 :: "u8 \<Rightarrow> u8 \<Rightarrow> u16" where
  "be16 b0 b1 = le16 b1 b0"

definition ntohs :: "u16 \<Rightarrow> u16" where
  "ntohs w = push_bit 8 w OR drop_bit 8 w"

abbreviation htons :: "u16 \<Rightarrow> u16" where
  "htons \<equiv> ntohs"

definition lo8 :: "u16 \<Rightarrow> u8" where
  "lo8 w = ucast w"

definition hi8 :: "u16 \<Rightarrow> u8" where
  "hi8 w = ucast (drop_bit 8 w)"

definition le32 :: "u8 \<Rightarrow> u8 \<Rightarrow> u8 \<Rightarrow> u8 \<Rightarrow> u32" where
  "le32 b0 b1 b2 b3 = (ucast b0 :: u32) OR push_bit 8 (ucast b1) OR push_bit 16 (ucast b2)
     OR push_bit 24 (ucast b3)"

definition ntohl :: "u32 \<Rightarrow> u32" where
  "ntohl w = le32 (ucast (drop_bit 24 w)) (ucast (drop_bit 16 w)) (ucast (drop_bit 8 w)) (ucast w)"

abbreviation htonl :: "u32 \<Rightarrow> u32" where
  "htonl \<equiv> ntohl"

lemma unat_u8_less [simp]: "unat (b :: u8) < 256"
  using unsigned_less [of b] by simp

lemma unat_u8_le [simp]: "unat (b :: u8) \<le> 255"
  using unat_u8_less [of b] by linarith

lemma unat_u16_less [simp]: "unat (w :: u16) < 65536"
  using unsigned_less [of w] by simp

lemma unat_u32_less [simp]: "unat (w :: u32) < 4294967296"
  using unsigned_less [of w] by simp

lemma ntohs_ntohs [simp]: "ntohs (ntohs w) = w"
  by (rule bit_word_eqI) (auto simp: ntohs_def bit_simps)

lemma ntohs_inject [simp]: "ntohs v = ntohs w \<longleftrightarrow> v = w"
  by (metis ntohs_ntohs)

lemma lo8_le16 [simp]: "lo8 (le16 a b) = a"
  by (rule bit_word_eqI) (auto simp: lo8_def le16_def bit_simps)

lemma hi8_le16 [simp]: "hi8 (le16 a b) = b"
  by (rule bit_word_eqI) (auto simp: hi8_def le16_def bit_simps dest: bit_imp_le_length)

lemma le16_lo8_hi8 [simp]: "le16 (lo8 w) (hi8 w) = w"
  by (rule bit_word_eqI) (auto simp: lo8_def hi8_def le16_def bit_simps)

lemma ntohs_le16 [wire_simps]: "ntohs (le16 a b) = le16 b a"
  by (rule bit_word_eqI) (auto simp: ntohs_def le16_def bit_simps dest: bit_imp_le_length)

lemma lo8_ntohs [wire_simps]: "lo8 (ntohs w) = hi8 w"
  by (metis hi8_le16 le16_lo8_hi8 lo8_le16 ntohs_le16)

lemma hi8_ntohs [wire_simps]: "hi8 (ntohs w) = lo8 w"
  by (metis hi8_le16 le16_lo8_hi8 lo8_le16 ntohs_le16)

lemma unat_le16: "unat (le16 a b) = unat a + 256 * unat b"
proof -
  have "(ucast a :: u16) AND push_bit 8 (ucast b) = 0"
    by (rule bit_word_eqI) (auto simp: bit_simps dest: bit_imp_le_length)
  then have "le16 a b = ucast a + push_bit 8 (ucast b)"
    by (simp add: le16_def disjunctive_add_eq_or)
  moreover have "unat a < 65536" "unat b < 65536" "unat a + unat b * 256 < 65536"
    using unat_u8_less [of a] unat_u8_less [of b] by linarith+
  ultimately show ?thesis
    by (simp add: unat_word_ariths push_bit_eq_mult unsigned_ucast_eq take_bit_eq_mod
        mod_simps)
qed

lemma unat_eq_bytes16: "unat w = unat (lo8 w) + 256 * unat (hi8 w)"
  using unat_le16 [of "lo8 w" "hi8 w"] by simp

lemma le32_bytes:
  "ucast (le32 a b c d) = a" "ucast (drop_bit 8 (le32 a b c d)) = b"
  "ucast (drop_bit 16 (le32 a b c d)) = c" "ucast (drop_bit 24 (le32 a b c d)) = d"
  by (rule bit_word_eqI; simp add: le32_def bit_simps; auto dest: bit_imp_le_length)+

lemma le32_eta:
  "le32 (ucast w) (ucast (drop_bit 8 w)) (ucast (drop_bit 16 w)) (ucast (drop_bit 24 w)) = w"
proof (rule bit_word_eqI)
  fix n :: nat
  assume "n < LENGTH(32)"
  then consider "n < 8" | "8 \<le> n \<and> n < 16" | "16 \<le> n \<and> n < 24" | "24 \<le> n \<and> n < 32"
    by force
  then show "bit (le32 (ucast w) (ucast (drop_bit 8 w)) (ucast (drop_bit 16 w))
      (ucast (drop_bit 24 w))) n = bit w n"
    by cases (auto simp: le32_def bit_simps)
qed

lemma le32_inject [simp]: "le32 a b c d = le32 a' b' c' d' \<longleftrightarrow> a = a' \<and> b = b' \<and> c = c' \<and> d = d'"
  by (metis le32_bytes)

lemma ntohl_le32 [wire_simps]: "ntohl (le32 a b c d) = le32 d c b a"
  by (simp add: ntohl_def le32_bytes)

lemma ntohl_ntohl [simp]: "ntohl (ntohl w) = w"
  by (metis le32_eta ntohl_le32)

lemma unat_not_u16: "unat (NOT (w :: u16)) = 65535 - unat w"
proof -
  have "NOT w = - 1 - w"
    by (simp add: not_eq_complement)
  moreover have "unat w \<le> unat (- 1 :: u16)"
    by (simp add: word_le_nat_alt [symmetric])
  ultimately show ?thesis
    by (simp add: unat_sub_if' unsigned_minus_1_eq_mask mask_eq_exp_minus_1)
qed

lemma unat_of_nat_u32: "n < 4294967296 \<Longrightarrow> unat (of_nat n :: u32) = n"
  by (simp add: unsigned_of_nat take_bit_eq_mod)

lemma unat_sub_of_nat: "k \<le> unat w \<Longrightarrow> unat (w - of_nat k :: u32) = unat w - k"
proof -
  assume k: "k \<le> unat w"
  then have u: "unat (of_nat k :: u32) = k"
    using unat_u32_less [of w] by (intro unat_of_nat_u32) linarith
  with k have "of_nat k \<le> w"
    by (simp add: word_le_nat_alt)
  with u show ?thesis
    by (simp add: unat_sub)
qed

lemma unat_of_nat_u16: "n < 65536 \<Longrightarrow> unat (of_nat n :: u16) = n"
  by (simp add: unsigned_of_nat take_bit_eq_mod)

lemma unat_sub_of_nat16: "k \<le> unat w \<Longrightarrow> unat (w - of_nat k :: u16) = unat w - k"
proof -
  assume k: "k \<le> unat w"
  then have u: "unat (of_nat k :: u16) = k"
    using unat_u16_less [of w] by (intro unat_of_nat_u16) linarith
  with k have "of_nat k \<le> w"
    by (simp add: word_le_nat_alt)
  with u show ?thesis
    by (simp add: unat_sub)
qed

text \<open>Words in memory, least byte first.\<close>

definition word_bytes :: "u16 \<Rightarrow> u8 list" where
  "word_bytes w = [lo8 w, hi8 w]"

definition dword_bytes :: "u32 \<Rightarrow> u8 list" where
  "dword_bytes w = [ucast w, ucast (drop_bit 8 w), ucast (drop_bit 16 w), ucast (drop_bit 24 w)]"

lemma length_word_bytes [simp]: "length (word_bytes w) = 2" "length (dword_bytes v) = 4"
  by (simp_all add: word_bytes_def dword_bytes_def)

lemma le32_dword_bytes [simp]:
  "le32 (dword_bytes w ! 0) (dword_bytes w ! 1) (dword_bytes w ! 2) (dword_bytes w ! 3) = w"
  by (simp add: dword_bytes_def le32_eta)

section \<open>Containers\<close>

text \<open>
  \<^verbatim>\<open>tools::generic::erase_if\<close> (netlib/src/tools/generic.h) walks a container from \<open>it\<close> to
  \<open>last\<close> and erases what the predicate selects.  The container's elements in iteration order
  are a list; \<open>map_erase_if\<close> is its effect on the map the elements stand for.
\<close>

fun erase_if :: "('a \<Rightarrow> bool) \<Rightarrow> 'a list \<Rightarrow> 'a list" where
  "erase_if predicate [] = []"
| "erase_if predicate (it # rest) =
     (if predicate it then erase_if predicate rest else it # erase_if predicate rest)"

definition map_erase_if :: "('k \<times> 'v \<Rightarrow> bool) \<Rightarrow> ('k \<rightharpoonup> 'v) \<Rightarrow> ('k \<rightharpoonup> 'v)" where
  "map_erase_if predicate m =
     (\<lambda>k. case m k of None \<Rightarrow> None | Some v \<Rightarrow> if predicate (k, v) then None else Some v)"

lemma erase_if_filter: "erase_if p xs = filter (\<lambda>x. \<not> p x) xs"
  by (induction xs) auto

lemma map_of_filter_absent: "k \<notin> fst ` set xs \<Longrightarrow> map_of (filter p xs) k = None"
  by (induction xs) auto

lemma map_of_erase_if:
  "distinct (map fst xs) \<Longrightarrow> map_of (erase_if p xs) = map_erase_if p (map_of xs)"
proof (induction xs)
  case (Cons x xs)
  then have "map_of xs (fst x) = None"
    by (auto simp: map_of_eq_None_iff)
  with Cons show ?case
    by (cases x) (auto simp: map_erase_if_def fun_eq_iff)
qed (simp add: map_erase_if_def fun_eq_iff)

lemma map_erase_if_Some_iff:
  "map_erase_if p m k = Some v \<longleftrightarrow> m k = Some v \<and> \<not> p (k, v)"
  by (auto simp: map_erase_if_def split: option.splits)

lemma dom_map_erase_if: "dom (map_erase_if p m) \<subseteq> dom m"
  by (auto simp: map_erase_if_def dom_def split: option.splits)

end
