(* ===== verification/Packet_Buffer.thy ===== *)
theory Packet_Buffer
  imports Prelude
begin

text \<open>
  The packet container of the driver interface (\<^verbatim>\<open>INTERMEDIATE_BUFFER\<close>, include/Common.h) and
  the header layouts the code reads through it (netlib/src/iphlp.h).  A frame is a store from
  offsets to bytes; the array has \<open>MAX_ETHER_FRAME\<close> bytes, so an access at an offset that
  depends on packet data goes through \<open>ld8\<close>/\<open>st8\<close>, which are \<open>None\<close> outside the array.  The
  fields of the Ethernet and IPv4 headers, and of a transport header behind an IPv4 header of
  at most 60 bytes, lie at offsets below 100 and are read and written directly.
\<close>

unbundle bit_operations_syntax

section \<open>The frame\<close>

type_synonym frame = "nat \<Rightarrow> u8"

record intermediate_buffer =
  m_dwDeviceFlags :: u32
  m_Length :: u32
  m_IBuffer :: frame

definition MAX_ETHER_FRAME :: nat where
  "MAX_ETHER_FRAME = 1514"

definition ETHER_HEADER_LENGTH :: nat where
  "ETHER_HEADER_LENGTH = 14"

definition ld8 :: "frame \<Rightarrow> nat \<Rightarrow> u8 option" where
  "ld8 m i = (if i < MAX_ETHER_FRAME then Some (m i) else None)"

definition st8 :: "frame \<Rightarrow> nat \<Rightarrow> u8 \<Rightarrow> frame option" where
  "st8 m i v = (if i < MAX_ETHER_FRAME then Some (m(i := v)) else None)"

definition ld16 :: "frame \<Rightarrow> nat \<Rightarrow> u16 option" where
  "ld16 m i = (if i + 1 < MAX_ETHER_FRAME then Some (le16 (m i) (m (i + 1))) else None)"

definition wr16 :: "frame \<Rightarrow> nat \<Rightarrow> u16 \<Rightarrow> frame" where
  "wr16 m i w = m(i := lo8 w, i + 1 := hi8 w)"

definition st16 :: "frame \<Rightarrow> nat \<Rightarrow> u16 \<Rightarrow> frame option" where
  "st16 m i w = (if i + 1 < MAX_ETHER_FRAME then Some (wr16 m i w) else None)"

definition rd16 :: "frame \<Rightarrow> nat \<Rightarrow> u16" where
  "rd16 m i = le16 (m i) (m (i + 1))"

definition rd32 :: "frame \<Rightarrow> nat \<Rightarrow> u32" where
  "rd32 m i = le32 (m i) (m (i + 1)) (m (i + 2)) (m (i + 3))"

text \<open>
  \<open>swap_range m a b n\<close> is \<^verbatim>\<open>std::swap\<close> of two disjoint fields of \<open>n\<close> bytes, \<open>move_range\<close> is
  \<^verbatim>\<open>memmove\<close> inside the frame: \<open>None\<close> when source or destination leaves the array.
\<close>

definition swap_range :: "frame \<Rightarrow> nat \<Rightarrow> nat \<Rightarrow> nat \<Rightarrow> frame" where
  "swap_range m a b n =
     (\<lambda>i. if a \<le> i \<and> i < a + n then m (b + (i - a))
          else if b \<le> i \<and> i < b + n then m (a + (i - b)) else m i)"

definition moved :: "frame \<Rightarrow> nat \<Rightarrow> nat \<Rightarrow> nat \<Rightarrow> frame" where
  "moved m d s n = (\<lambda>i. if d \<le> i \<and> i < d + n then m (s + (i - d)) else m i)"

definition move_range :: "frame \<Rightarrow> nat \<Rightarrow> nat \<Rightarrow> nat \<Rightarrow> frame option" where
  "move_range m d s n =
     (if d + n \<le> MAX_ETHER_FRAME \<and> s + n \<le> MAX_ETHER_FRAME then Some (moved m d s n) else None)"

section \<open>Header fields\<close>

text \<open>Ethernet header: \<open>h_dest\<close> at 0, \<open>h_source\<close> at 6, \<open>h_proto\<close> at 12.\<close>

definition ETH_P_IP :: u16 where "ETH_P_IP = 0x0800"
definition ETH_P_IPV6 :: u16 where "ETH_P_IPV6 = 0x86dd"
definition IPPROTO_ICMP :: u8 where "IPPROTO_ICMP = 1"
definition IPPROTO_TCP :: u8 where "IPPROTO_TCP = 6"
definition IPPROTO_UDP :: u8 where "IPPROTO_UDP = 17"
definition IPPROTO_ICMPV6 :: u8 where "IPPROTO_ICMPV6 = 58"

definition h_proto :: "frame \<Rightarrow> u16" where
  "h_proto m = rd16 m 12"

definition swap_eth :: "frame \<Rightarrow> frame" where
  "swap_eth m = swap_range m 0 6 6"

text \<open>IPv4 header, at offset 14 of the frame.\<close>

definition ip_hl :: "frame \<Rightarrow> nat" where
  "ip_hl m = unat (m 14 AND 15)"

definition ip_len :: "frame \<Rightarrow> u16" where
  "ip_len m = rd16 m 16"

definition ip_off :: "frame \<Rightarrow> u16" where
  "ip_off m = rd16 m 20"

definition ip_p :: "frame \<Rightarrow> u8" where
  "ip_p m = m 23"

definition ip_src :: "frame \<Rightarrow> u32" where
  "ip_src m = rd32 m 26"

definition ip_dst :: "frame \<Rightarrow> u32" where
  "ip_dst m = rd32 m 30"

definition swap_ip :: "frame \<Rightarrow> frame" where
  "swap_ip m = swap_range m 26 30 4"

text \<open>The transport header behind it: \<^verbatim>\<open>sizeof(DWORD) * ip_hl\<close> bytes further.\<close>

definition ip_th :: "frame \<Rightarrow> nat" where
  "ip_th m = ETHER_HEADER_LENGTH + 4 * ip_hl m"

definition th_sport :: "frame \<Rightarrow> nat \<Rightarrow> u16" where
  "th_sport m t = rd16 m t"

definition th_dport :: "frame \<Rightarrow> nat \<Rightarrow> u16" where
  "th_dport m t = rd16 m (t + 2)"

definition th_flags :: "frame \<Rightarrow> nat \<Rightarrow> u8" where
  "th_flags m t = m (t + 13)"

definition TH_FIN :: u8 where "TH_FIN = 0x01"
definition TH_SYN :: u8 where "TH_SYN = 0x02"
definition TH_RST :: u8 where "TH_RST = 0x04"
definition TH_ACK :: u8 where "TH_ACK = 0x10"

lemmas proto_defs = ETH_P_IP_def ETH_P_IPV6_def IPPROTO_ICMP_def IPPROTO_TCP_def IPPROTO_UDP_def
  IPPROTO_ICMPV6_def

lemmas flag_defs = TH_FIN_def TH_SYN_def TH_RST_def TH_ACK_def

lemmas field_defs = h_proto_def ip_hl_def ip_len_def ip_off_def ip_p_def ip_src_def ip_dst_def
  th_sport_def th_dport_def th_flags_def rd16_def rd32_def

section \<open>Facts about accesses\<close>

lemma ip_hl_less: "ip_hl m < 16"
proof -
  have "m 14 AND 15 \<le> (15 :: u8)"
    by (rule word_and_le1)
  then show ?thesis
    by (simp add: ip_hl_def word_le_nat_alt)
qed

lemma ip_th_bounds: "14 \<le> ip_th m" "ip_th m \<le> 74"
  using ip_hl_less [of m] by (simp_all add: ip_th_def ETHER_HEADER_LENGTH_def)

lemma ld8_in [access_simps]: "i < MAX_ETHER_FRAME \<Longrightarrow> ld8 m i = Some (m i)"
  by (simp add: ld8_def)

lemma st8_in [access_simps]: "i < MAX_ETHER_FRAME \<Longrightarrow> st8 m i v = Some (m(i := v))"
  by (simp add: st8_def)

lemma ld16_in [access_simps]: "i + 1 < MAX_ETHER_FRAME \<Longrightarrow> ld16 m i = Some (rd16 m i)"
  by (simp add: ld16_def rd16_def)

lemma st16_in [access_simps]: "i + 1 < MAX_ETHER_FRAME \<Longrightarrow> st16 m i w = Some (wr16 m i w)"
  by (simp add: st16_def)

lemma move_range_in [access_simps]:
  "d + n \<le> MAX_ETHER_FRAME \<Longrightarrow> s + n \<le> MAX_ETHER_FRAME \<Longrightarrow>
   move_range m d s n = Some (moved m d s n)"
  by (simp add: move_range_def)

lemma wr16_apply: "wr16 m i w j = (if j = i + 1 then hi8 w else if j = i then lo8 w else m j)"
  by (simp add: wr16_def)

lemma rd16_wr16_same [simp]: "rd16 (wr16 m i w) i = w"
  by (simp add: rd16_def wr16_apply)

lemma rd16_wr16_other:
  "j + 1 < i \<or> i + 1 < j \<Longrightarrow> rd16 (wr16 m i w) j = rd16 m j"
  by (auto simp: rd16_def wr16_apply)

lemma swap_range_at:
  assumes "a + n \<le> b"
  shows "j < n \<Longrightarrow> swap_range m a b n (a + j) = m (b + j)"
    "j < n \<Longrightarrow> swap_range m a b n (b + j) = m (a + j)"
    "\<not> (a \<le> i \<and> i < a + n) \<Longrightarrow> \<not> (b \<le> i \<and> i < b + n) \<Longrightarrow> swap_range m a b n i = m i"
  using assms unfolding swap_range_def by (simp_all only: if_False, simp_all)

lemma swap_range_swap_range:
  assumes "a + n \<le> b"
  shows "swap_range (swap_range m a b n) a b n = m"
proof (rule ext)
  fix i
  consider j where "j < n" "i = a + j" | j where "j < n" "i = b + j"
    | "\<not> (a \<le> i \<and> i < a + n)" "\<not> (b \<le> i \<and> i < b + n)"
    by (metis le_add_diff_inverse nat_add_left_cancel_less)
  then show "swap_range (swap_range m a b n) a b n i = m i"
    by cases (simp_all only: swap_range_at [OF assms] not_False_eq_True)
qed

lemma swap_eth_apply:
  "swap_eth m i = (if i < 6 then m (i + 6) else if i < 12 then m (i - 6) else m i)"
  by (simp add: swap_eth_def swap_range_def add.commute)

lemma swap_ip_apply:
  "swap_ip m i = (if 26 \<le> i \<and> i < 30 then m (i + 4) else if 30 \<le> i \<and> i < 34 then m (i - 4) else m i)"
  by (auto simp: swap_ip_def swap_range_def add.commute)

lemma ip_hl_cong: "m 14 = m' 14 \<Longrightarrow> ip_hl m = ip_hl m'"
  by (simp add: ip_hl_def)

lemma ip_th_cong: "m 14 = m' 14 \<Longrightarrow> ip_th m = ip_th m'"
  by (simp add: ip_th_def ip_hl_def)

end
