(* ===== verification/Checksums.thy ===== *)
theory Checksums
  imports Packet_Buffer
begin

text \<open>
  The IPv4, ICMP, TCP and UDP checksums of the driver library (ndisapi/ndisapi.cpp,
  \<^verbatim>\<open>CNdisApi::Recalculate*Checksum\<close>), with 32-bit sums and 32-bit lengths as the code has them.
  A frame access outside the packet array makes a routine \<open>None\<close>.  The specification is the
  one's complement rule itself: with the checksum in place, the 16-bit big-endian words of the
  covered data (and pseudo header) sum to a multiple of 65535.
\<close>

unbundle bit_operations_syntax

section \<open>The summing and folding loops\<close>

definition word16 :: "u8 \<Rightarrow> u8 \<Rightarrow> u16" where
  "word16 hi lo = ucast ((push_bit 8 (ucast hi :: u32) AND 0xFF00) + ((ucast lo :: u32) AND 0xFF))"

function csum_loop :: "frame \<Rightarrow> nat \<Rightarrow> nat \<Rightarrow> nat \<Rightarrow> u32 \<Rightarrow> u32 option" where
  "csum_loop buff base i n acc =
     (if i < n then do {
        hi \<leftarrow> ld8 buff (base + i);
        lo \<leftarrow> ld8 buff (base + i + 1);
        csum_loop buff base (i + 2) n (acc + ucast (word16 hi lo))
      } else Some acc)"
  by pat_completeness auto
termination
  by (relation "measure (\<lambda>(buff, base, i, n, acc). n - i)") auto

declare csum_loop.simps [simp del]

lemma unat_and_FFFF: "unat (s AND 0xFFFF :: u32) = unat s mod 65536"
proof -
  have "s AND 0xFFFF = take_bit 16 s"
    by (simp add: take_bit_eq_mask mask_eq_exp_minus_1)
  then show ?thesis
    by (simp add: take_bit_eq_mod unat_mod_distrib)
qed

lemma unat_drop16: "unat (drop_bit 16 s :: u32) = unat s div 65536"
  by (simp add: drop_bit_eq_div unat_div_distrib)

lemma low16_fold:
  "unat ((s AND 0xFFFF) + drop_bit 16 s :: u32) = unat s mod 65536 + unat s div 65536"
proof -
  have "unat s mod 65536 + unat s div 65536 < 4294967296"
    using unat_u32_less [of s] by linarith
  then show ?thesis
    by (simp add: unat_word_ariths unat_and_FFFF unat_drop16)
qed

lemma drop16_zero_iff: "drop_bit 16 (s :: u32) = 0 \<longleftrightarrow> unat s < 65536"
  by (metis div_eq_0_iff unat_drop16 unat_eq_zero zero_neq_numeral)

lemma low16_fold_less:
  assumes "drop_bit 16 (s :: u32) \<noteq> 0"
  shows "unat ((s AND 0xFFFF) + drop_bit 16 s) < unat s"
proof -
  have "65536 \<le> unat s"
    using assms drop16_zero_iff [of s] by simp
  then have "1 \<le> unat s div 65536"
    by (simp add: Suc_le_eq div_greater_zero_iff)
  then show ?thesis
    unfolding low16_fold using div_mult_mod_eq [of "unat s" 65536] by linarith
qed

function csum_fold :: "u32 \<Rightarrow> u32" where
  "csum_fold acc =
     (if drop_bit 16 acc \<noteq> 0 then csum_fold ((acc AND 0xFFFF) + drop_bit 16 acc) else acc)"
  by pat_completeness auto
termination
  by (relation "measure unat") (simp_all add: low16_fold_less)

declare csum_fold.simps [simp del]

section \<open>The checksum routines\<close>

definition RecalculateIPChecksum :: "frame \<Rightarrow> frame option" where
  "RecalculateIPChecksum m =
     (let m = wr16 m 24 0 in do {
        acc \<leftarrow> csum_loop m 14 0 (4 * ip_hl m) 0;
        Some (wr16 m 24 (htons (ucast (NOT (csum_fold acc)))))
      })"

text \<open>The words of the source and destination address in the pseudo header.\<close>

definition address_sum :: "frame \<Rightarrow> u32" where
  "address_sum m = ucast (ntohs (rd16 m 26)) + ucast (ntohs (rd16 m 28))
     + ucast (ntohs (rd16 m 30)) + ucast (ntohs (rd16 m 32))"

text \<open>
  The length of the segment is \<^verbatim>\<open>ntohs(ip_len) - ip_hl * 4\<close> as a \<^verbatim>\<open>DWORD\<close>: it wraps when the
  datagram claims to be shorter than its header.  An odd segment gets a zero byte behind it.
\<close>

definition segment_length :: "frame \<Rightarrow> u32" where
  "segment_length m = ucast (ntohs (ip_len m)) - of_nat (4 * ip_hl m)"

definition pad_segment :: "frame \<Rightarrow> u32 \<Rightarrow> (u32 \<times> frame) option" where
  "pad_segment m len =
     (if (len div 2) * 2 \<noteq> len
      then do { m \<leftarrow> st8 m (unat (len + of_nat (4 * ip_hl m) + 14)) 0; Some (1, m) }
      else Some (0, m))"

definition RecalculateICMPChecksum :: "frame \<Rightarrow> frame option" where
  "RecalculateICMPChecksum m =
     (if ip_p m \<noteq> IPPROTO_ICMP then Some m
      else let t = ip_th m; dwIcmpLen = segment_length m in do {
        (padd, m) \<leftarrow> pad_segment m dwIcmpLen;
        let m = wr16 m (t + 2) 0;
        acc \<leftarrow> csum_loop m t 0 (unat (dwIcmpLen + padd)) 0;
        Some (wr16 m (t + 2) (ntohs (ucast (NOT (csum_fold acc)))))
      })"

definition RecalculateTCPChecksum :: "frame \<Rightarrow> frame option" where
  "RecalculateTCPChecksum m =
     (if ip_p m \<noteq> IPPROTO_TCP then Some m
      else let t = ip_th m; dwTcpLen = segment_length m in do {
        (padd, m) \<leftarrow> pad_segment m dwTcpLen;
        let m = wr16 m (t + 16) 0;
        acc \<leftarrow> csum_loop m t 0 (unat (dwTcpLen + padd)) 0;
        let acc = acc + address_sum m + (ucast IPPROTO_TCP + ucast (ucast dwTcpLen :: u16));
        Some (wr16 m (t + 16) (htons (ucast (NOT (csum_fold acc)))))
      })"

definition RecalculateUDPChecksum :: "frame \<Rightarrow> frame option" where
  "RecalculateUDPChecksum m =
     (if ip_p m \<noteq> IPPROTO_UDP then Some m
      else let t = ip_th m; dwUdpLen = segment_length m in do {
        (padd, m) \<leftarrow> pad_segment m dwUdpLen;
        let m = wr16 m (t + 6) 0;
        acc \<leftarrow> csum_loop m t 0 (unat (dwUdpLen + padd)) 0;
        let acc = acc + address_sum m + (ucast IPPROTO_UDP + ucast (ucast dwUdpLen :: u16));
        Some (wr16 m (t + 6) (ntohs (ucast (NOT (csum_fold acc)))))
      })"

section \<open>What the loops compute\<close>

text \<open>\<open>word_sum m a k\<close> is the sum of the \<open>k\<close> big-endian words at offset \<open>a\<close>.\<close>

definition word_sum :: "frame \<Rightarrow> nat \<Rightarrow> nat \<Rightarrow> nat" where
  "word_sum m a k = (\<Sum>j<k. 256 * unat (m (a + 2 * j)) + unat (m (a + 2 * j + 1)))"

lemma high_byte_mask: "push_bit 8 (ucast (hi :: u8) :: u32) AND 0xFF00 = push_bit 8 (ucast hi)"
proof -
  have "(0xFF00 :: u32) = push_bit 8 (mask 8)"
    by (simp add: mask_eq_exp_minus_1 push_bit_eq_mult)
  then have "push_bit 8 (ucast hi :: u32) AND 0xFF00 = push_bit 8 (ucast hi AND mask 8)"
    by (simp only: push_bit_and)
  also have "(ucast hi :: u32) AND mask 8 = ucast hi"
    by (rule bit_word_eqI) (auto simp: bit_simps dest: bit_imp_le_length)
  finally show ?thesis .
qed

lemma word16_eq_le16: "word16 hi lo = le16 lo hi"
proof -
  have "(0xFF :: u32) = mask 8"
    by (simp add: mask_eq_exp_minus_1)
  moreover have "(ucast lo :: u32) AND mask 8 = ucast lo"
    by (rule bit_word_eqI) (auto simp: bit_simps dest: bit_imp_le_length)
  ultimately have low: "(ucast lo :: u32) AND 0xFF = ucast lo"
    by (simp only:)
  have "(ucast lo :: u32) AND push_bit 8 (ucast hi) = 0"
    by (rule bit_word_eqI) (auto simp: bit_simps dest: bit_imp_le_length)
  then have sum_or: "push_bit 8 (ucast hi :: u32) + ucast lo = ucast lo OR push_bit 8 (ucast hi)"
    by (simp add: add.commute disjunctive_add_eq_or)
  have "word16 hi lo = ucast ((ucast lo :: u32) OR push_bit 8 (ucast hi))"
    unfolding word16_def high_byte_mask low sum_or ..
  also have "\<dots> = le16 lo hi"
    by (rule bit_word_eqI) (auto simp: le16_def bit_simps)
  finally show ?thesis .
qed

lemma unat_word16: "unat (word16 hi lo) = 256 * unat hi + unat lo"
  by (simp add: word16_eq_le16 unat_le16)

lemma ucast_u16_u32: "(ucast (w :: u16) :: u32) = of_nat (unat w)"
  by simp

lemma csum_loop_even:
  "base + i + 2 * k \<le> MAX_ETHER_FRAME \<Longrightarrow>
   csum_loop m base i (i + 2 * k) acc = Some (acc + of_nat (word_sum m (base + i) k))"
proof (induction k arbitrary: i acc)
  case 0
  then show ?case
    by (simp add: csum_loop.simps [of m base i] word_sum_def)
next
  case (Suc k)
  have sum_Suc: "word_sum m (base + i) (Suc k) =
      unat (word16 (m (base + i)) (m (base + i + 1))) + word_sum m (base + (i + 2)) k"
    by (simp add: word_sum_def unat_word16 sum.lessThan_Suc_shift ac_simps del: sum.lessThan_Suc)
  have "csum_loop m base i (i + 2 * Suc k) acc =
      csum_loop m base (i + 2) (i + 2 + 2 * k) (acc + ucast (word16 (m (base + i)) (m (base + i + 1))))"
    using Suc.prems by (simp add: csum_loop.simps [of m base i] ld8_in)
  also have "\<dots> = Some (acc + of_nat (word_sum m (base + i) (Suc k)))"
    using Suc.prems by (subst Suc.IH) (simp_all add: sum_Suc)
  finally show ?case .
qed

lemma csum_loop_even_0:
  "base + 2 * k \<le> MAX_ETHER_FRAME \<Longrightarrow>
   csum_loop m base 0 (2 * k) 0 = Some (of_nat (word_sum m base k))"
  using csum_loop_even [of base 0 k m 0] by simp

lemma csum_loop_out_of_bounds:
  "i < n \<Longrightarrow> even i \<Longrightarrow> MAX_ETHER_FRAME < base + n \<Longrightarrow> csum_loop m base i n acc = None"
proof (induction m base i n acc rule: csum_loop.induct)
  case (1 m base i n acc)
  show ?case
  proof (cases "base + i + 1 < MAX_ETHER_FRAME")
    case True
    with "1.prems" have "i + 2 < n \<or> n = i + 2 \<or> n = i + 1" and "n \<noteq> i + 2" "n \<noteq> i + 1"
      by auto
    with True "1.prems" have "csum_loop m base (i + 2) n (acc + ucast (word16 (m (base + i)) (m (base + i + 1)))) = None"
      by (intro "1.IH") (auto simp: ld8_in)
    with True "1.prems"(1) show ?thesis
      by (simp add: csum_loop.simps [of m base i] ld8_in)
  next
    case False
    with "1.prems"(1) show ?thesis
      by (auto simp: csum_loop.simps [of m base i] ld8_def)
  qed
qed

lemma word_sum_cong:
  "(\<And>i. a \<le> i \<Longrightarrow> i < a + 2 * k \<Longrightarrow> m i = m' i) \<Longrightarrow> word_sum m a k = word_sum m' a k"
  by (auto simp: word_sum_def intro!: sum.cong)

lemma word_sum_bound: "word_sum m a k \<le> 65535 * k"
proof -
  have "word_sum m a k \<le> (\<Sum>j<k. 65535)"
    unfolding word_sum_def
  proof (rule sum_mono)
    fix j
    show "256 * unat (m (a + 2 * j)) + unat (m (a + 2 * j + 1)) \<le> 65535"
      using unat_u8_le [of "m (a + 2 * j)"] unat_u8_le [of "m (a + 2 * j + 1)"] by linarith
  qed
  then show ?thesis
    by simp
qed

section \<open>What the fold computes\<close>

lemma csum_fold_less: "unat (csum_fold s) < 65536"
  by (induction s rule: csum_fold.induct)
    (subst csum_fold.simps, simp add: drop16_zero_iff)

lemma fold_step_mod: "(n mod 65536 + n div 65536) mod 65535 = n mod (65535 :: nat)"
proof -
  have "n = 65535 * (n div 65536) + (n mod 65536 + n div 65536)"
    using div_mult_mod_eq [of n 65536] by linarith
  then show ?thesis
    by (metis mod_mult_self4)
qed

lemma csum_fold_mod: "unat (csum_fold s) mod 65535 = unat s mod 65535"
proof (induction s rule: csum_fold.induct)
  case (1 s)
  then show ?case
    by (cases "drop_bit 16 s = 0")
      (simp_all add: csum_fold.simps [of s] low16_fold fold_step_mod)
qed

lemma csum_fold_pos: "0 < unat s \<Longrightarrow> 0 < unat (csum_fold s)"
proof (induction s rule: csum_fold.induct)
  case (1 s)
  show ?case
  proof (cases "drop_bit 16 s = 0")
    case False
    then have "0 < unat s div 65536"
      by (metis gr0I unat_drop16 unat_eq_zero)
    then have "0 < unat ((s AND 0xFFFF) + drop_bit 16 s)"
      by (simp add: low16_fold)
    with False "1.IH" show ?thesis
      by (simp add: csum_fold.simps [of s])
  qed (use "1.prems" in \<open>simp add: csum_fold.simps [of s]\<close>)
qed

text \<open>The stored checksum: the complement of the folded sum, in network order.\<close>

definition stored_sum :: "u32 \<Rightarrow> u16" where
  "stored_sum acc = ucast (NOT (csum_fold acc))"

lemma unat_stored_sum: "unat (stored_sum acc) = 65535 - unat (csum_fold acc)"
proof -
  have "unat (ucast (csum_fold acc) :: u16) = unat (csum_fold acc)"
    using csum_fold_less [of acc] by (simp add: unsigned_ucast_eq take_bit_eq_mod)
  moreover have "stored_sum acc = NOT (ucast (csum_fold acc))"
    by (rule bit_word_eqI) (auto simp: stored_sum_def bit_simps)
  ultimately show ?thesis
    by (simp add: unat_not_u16)
qed

lemma stored_sum_completes:
  "65535 dvd (n + unat (stored_sum (of_nat n)))" if "n < 4294967296"
proof -
  let ?c = "unat (csum_fold (of_nat n))"
  have "?c mod 65535 = n mod 65535"
    using that by (simp add: csum_fold_mod unsigned_of_nat take_bit_eq_mod)
  moreover have "?c \<le> 65535"
    using csum_fold_less [of "of_nat n"] by simp
  ultimately have "(n + (65535 - ?c)) mod 65535 = (?c + (65535 - ?c)) mod 65535"
    by (metis mod_add_left_eq)
  with \<open>?c \<le> 65535\<close> show ?thesis
    by (simp add: unat_stored_sum dvd_eq_mod_eq_0)
qed

section \<open>Storing a checksum\<close>

lemma word_sum_wr16:
  assumes "j < k"
  shows "word_sum (wr16 m (a + 2 * j) (ntohs c)) a k
       = word_sum (wr16 m (a + 2 * j) 0) a k + unat c"
proof -
  let ?t = "\<lambda>m j. 256 * unat (m (a + 2 * j)) + unat (m (a + 2 * j + 1) :: u8)"
  have split: "word_sum f a k = ?t f j + (\<Sum>i\<in>{..<k} - {j}. ?t f i)" for f
    unfolding word_sum_def using assms by (subst sum.remove [of _ j]) auto
  have rest: "(\<Sum>i\<in>{..<k} - {j}. ?t (wr16 m (a + 2 * j) v) i) = (\<Sum>i\<in>{..<k} - {j}. ?t m i)" for v
  proof (rule sum.cong [OF refl])
    fix i
    assume "i \<in> {..<k} - {j}"
    then have "a + 2 * i \<noteq> a + 2 * j + 1" "a + 2 * i + 1 \<noteq> a + 2 * j" "i \<noteq> j"
      by (simp, presburger+, blast)
    then show "?t (wr16 m (a + 2 * j) v) i = ?t m i"
      by (simp add: wr16_apply)
  qed
  have "lo8 0 = 0" "hi8 0 = 0"
    by (simp_all add: lo8_def hi8_def)
  then show ?thesis
    unfolding split rest using unat_eq_bytes16 [of c] by (simp add: wr16_apply wire_simps)
qed

lemma word_sum_wr16_disjoint:
  "i + 2 \<le> a \<or> a + 2 * k \<le> i \<Longrightarrow> word_sum (wr16 m i v) a k = word_sum m a k"
  by (rule word_sum_cong) (auto simp: wr16_apply)

text \<open>
  The summed data, plus a pseudo header sum \<open>e\<close>, together with the stored checksum.  Everything
  stays below \<open>2 ^ 32\<close> for data that fits into a frame, so the 32-bit sums do not wrap.
\<close>

lemma checksum_completes:
  assumes "j < k" "word_sum (wr16 m (a + 2 * j) 0) a k + e < 4294967296"
  shows "65535 dvd word_sum (wr16 m (a + 2 * j)
           (ntohs (stored_sum (of_nat (word_sum (wr16 m (a + 2 * j) 0) a k + e))))) a k + e"
  unfolding word_sum_wr16 [OF assms(1)]
  using stored_sum_completes [OF assms(2)] by (simp add: ac_simps)

lemma ip_hl_wr16: "15 \<le> i \<Longrightarrow> ip_hl (wr16 m i v) = ip_hl m"
  by (rule ip_hl_cong) (simp add: wr16_apply)

lemma RecalculateIPChecksum_eq:
  "RecalculateIPChecksum m =
     Some (wr16 m 24 (ntohs (stored_sum (of_nat (word_sum (wr16 m 24 0) 14 (2 * ip_hl m))))))"
proof -
  have "14 + 2 * (2 * ip_hl m) \<le> MAX_ETHER_FRAME"
    using ip_hl_less [of m] by (simp add: MAX_ETHER_FRAME_def)
  then have "csum_loop (wr16 m 24 0) 14 0 (4 * ip_hl m) 0 =
      Some (of_nat (word_sum (wr16 m 24 0) 14 (2 * ip_hl m)))"
    using csum_loop_even_0 [of 14 "2 * ip_hl m" "wr16 m 24 0"] by simp
  moreover have "wr16 (wr16 m 24 0) 24 v = wr16 m 24 v" for v
    by (simp add: wr16_def fun_eq_iff)
  ultimately show ?thesis
    by (simp add: RecalculateIPChecksum_def ip_hl_wr16 stored_sum_def)
qed

text \<open>
  \<open>header_valid\<close> is the rule of RFC 791: the header's words sum to a multiple of 65535.
\<close>

definition header_valid :: "frame \<Rightarrow> bool" where
  "header_valid m = (word_sum m 14 (2 * ip_hl m) mod 65535 = 0)"

lemma ip_checksum_ok:
  assumes "5 \<le> ip_hl m"
  shows "\<exists>m'. RecalculateIPChecksum m = Some m' \<and> header_valid m' \<and>
           (\<forall>i. i \<noteq> 24 \<longrightarrow> i \<noteq> 25 \<longrightarrow> m' i = m i)"
proof -
  let ?n = "word_sum (wr16 m 24 0) 14 (2 * ip_hl m)"
  let ?m' = "wr16 m 24 (ntohs (stored_sum (of_nat ?n)))"
  have "?n < 4294967296"
    using word_sum_bound [of "wr16 m 24 0" 14 "2 * ip_hl m"] ip_hl_less [of m] by linarith
  then have "65535 dvd word_sum ?m' 14 (2 * ip_hl m)"
    using checksum_completes [of 5 "2 * ip_hl m" m 14 0] assms by simp
  then have "header_valid ?m'"
    by (simp add: header_valid_def ip_hl_wr16)
  then show ?thesis
    by (auto simp: RecalculateIPChecksum_eq wr16_apply)
qed

text \<open>
  For every frame with an IPv4 header of at least 20 bytes, the header checksum routine
  terminates inside the packet array, leaves a header whose words sum to a multiple of 65535
  (the receiver's test), and changes no byte but the two of the checksum field.
\<close>

theorem ip_checksum_valid:
  assumes "5 \<le> ip_hl m"
  shows "\<exists>m'. RecalculateIPChecksum m = Some m' \<and> header_valid m' \<and>
           (\<forall>i. i \<noteq> 24 \<longrightarrow> i \<noteq> 25 \<longrightarrow> m' i = m i)"
  using assms by (rule ip_checksum_ok)

section \<open>Segments that fit into the frame\<close>

text \<open>The segment behind the header, as the datagram's own length fields delimit it.\<close>

definition seg_len :: "frame \<Rightarrow> nat" where
  "seg_len m = unat (ntohs (ip_len m)) - 4 * ip_hl m"

definition fits :: "frame \<Rightarrow> nat \<Rightarrow> bool" where
  "fits m least \<longleftrightarrow> 5 \<le> ip_hl m \<and> 4 * ip_hl m + least \<le> unat (ntohs (ip_len m)) \<and>
     unat (ntohs (ip_len m)) + ETHER_HEADER_LENGTH \<le> MAX_ETHER_FRAME"

definition zero_pad :: "frame \<Rightarrow> frame" where
  "zero_pad m = (if odd (seg_len m) then m(ip_th m + seg_len m := 0) else m)"

lemma segment_length_fits:
  assumes "4 * ip_hl m \<le> unat (ntohs (ip_len m))"
  shows "segment_length m = of_nat (seg_len m)"
  using assms by (simp add: segment_length_def seg_len_def of_nat_diff)

lemma seg_len_bounds:
  assumes "fits m least"
  shows "least \<le> seg_len m" "ip_th m + seg_len m \<le> MAX_ETHER_FRAME"
    "odd (seg_len m) \<Longrightarrow> ip_th m + seg_len m < MAX_ETHER_FRAME"
    "seg_len m < 1500" "34 \<le> ip_th m"
proof -
  note d = seg_len_def ip_th_def ETHER_HEADER_LENGTH_def MAX_ETHER_FRAME_def fits_def
  show "least \<le> seg_len m" "ip_th m + seg_len m \<le> MAX_ETHER_FRAME" "seg_len m < 1500" "34 \<le> ip_th m"
    using assms by (auto simp: d)
  show "ip_th m + seg_len m < MAX_ETHER_FRAME" if "odd (seg_len m)"
  proof -
    have "ip_th m + seg_len m \<le> 1514" "ip_th m = 14 + 4 * ip_hl m"
      using assms by (simp_all add: d)
    moreover have "odd s \<Longrightarrow> 14 + 4 * h + s \<le> 1514 \<Longrightarrow> 14 + 4 * h + s < 1514" for h s :: nat
      by presburger
    ultimately show ?thesis
      using that by (simp add: MAX_ETHER_FRAME_def)
  qed
qed

lemma u32_odd_test:
  assumes "l < 1500"
  shows "((of_nat l :: u32) div 2) * 2 \<noteq> of_nat l \<longleftrightarrow> odd l"
proof -
  have "unat (((of_nat l :: u32) div 2) * 2) = (l div 2) * 2"
    using assms by (simp add: unat_word_ariths unat_div_distrib unsigned_of_nat take_bit_eq_mod)
  moreover have "unat (of_nat l :: u32) = l"
    using assms by (simp add: unsigned_of_nat take_bit_eq_mod)
  moreover have "(l div 2) * 2 \<noteq> l \<longleftrightarrow> odd l"
    by presburger
  ultimately show ?thesis
    by (metis word_unat_eq_iff)
qed

lemma pad_segment_fits:
  assumes "fits m least"
  shows "pad_segment m (of_nat (seg_len m)) = Some (of_nat (seg_len m mod 2), zero_pad m)"
proof -
  have idx: "unat (of_nat (seg_len m) + of_nat (4 * ip_hl m) + 14 :: u32) = ip_th m + seg_len m"
  proof -
    have "(of_nat (seg_len m) + of_nat (4 * ip_hl m) + 14 :: u32) = of_nat (ip_th m + seg_len m)"
      by (simp add: ip_th_def ETHER_HEADER_LENGTH_def)
    moreover have "ip_th m + seg_len m < 4294967296"
      using seg_len_bounds(4) [OF assms] ip_th_bounds(2) [of m] by linarith
    ultimately show ?thesis
      by (simp only: unsigned_of_nat take_bit_eq_mod) simp
  qed
  show ?thesis
  proof (cases "odd (seg_len m)")
    case True
    then have "st8 m (ip_th m + seg_len m) 0 = Some (zero_pad m)" "seg_len m mod 2 = 1"
      using seg_len_bounds(3) [OF assms True] by (simp_all add: st8_def zero_pad_def odd_iff_mod_2_eq_one)
    with True show ?thesis
      unfolding pad_segment_def u32_odd_test [OF seg_len_bounds(4) [OF assms]] idx by simp
  next
    case False
    then show ?thesis
      unfolding pad_segment_def u32_odd_test [OF seg_len_bounds(4) [OF assms]]
      by (simp add: zero_pad_def)
  qed
qed

lemma zero_pad_below: "i < ip_th m \<Longrightarrow> zero_pad m i = m i"
  by (simp add: zero_pad_def)

lemma zero_pad_other: "\<not> (odd (seg_len m) \<and> i = ip_th m + seg_len m) \<Longrightarrow> zero_pad m i = m i"
  by (auto simp: zero_pad_def)

text \<open>
  The part the three transport routines share: pad, clear the field, sum the segment.
\<close>

lemma segment_sum_fits:
  assumes "fits m least" "2 * j + 2 \<le> least"
  shows "csum_loop (wr16 (zero_pad m) (ip_th m + 2 * j) 0) (ip_th m) 0
           (unat (of_nat (seg_len m) + of_nat (seg_len m mod 2) :: u32)) 0
       = Some (of_nat (word_sum (wr16 (zero_pad m) (ip_th m + 2 * j) 0) (ip_th m) ((seg_len m + 1) div 2)))"
proof -
  have "unat (of_nat (seg_len m) + of_nat (seg_len m mod 2) :: u32) = seg_len m + seg_len m mod 2"
    using seg_len_bounds(4) [OF assms(1)]
    by (simp add: unat_word_ariths unsigned_of_nat take_bit_eq_mod)
  also have "\<dots> = 2 * ((seg_len m + 1) div 2)"
    by presburger
  finally have n: "unat (of_nat (seg_len m) + of_nat (seg_len m mod 2) :: u32) = 2 * ((seg_len m + 1) div 2)" .
  have "ip_th m + 2 * ((seg_len m + 1) div 2) \<le> MAX_ETHER_FRAME"
  proof (cases "odd (seg_len m)")
    case True
    then have "2 * ((seg_len m + 1) div 2) = seg_len m + 1"
      by (intro dvd_mult_div_cancel) simp
    with seg_len_bounds(3) [OF assms(1) True] show ?thesis
      by simp
  next
    case False
    then have "2 * ((seg_len m + 1) div 2) = seg_len m"
      by simp
    with seg_len_bounds(2) [OF assms(1)] show ?thesis
      by simp
  qed
  then show ?thesis
    unfolding n by (rule csum_loop_even_0)
qed

lemma word_sum_0 [simp]: "word_sum m a 0 = 0"
  by (simp add: word_sum_def)

lemma word_sum_Suc: "word_sum m a (Suc k) = unat (ntohs (rd16 m a)) + word_sum m (a + 2) k"
  by (simp add: word_sum_def rd16_def wire_simps unat_le16 sum.lessThan_Suc_shift ac_simps
      del: sum.lessThan_Suc)

lemma address_sum_eq: "address_sum m = of_nat (word_sum m 26 4)"
proof -
  have four: "(4 :: nat) = Suc (Suc (Suc (Suc 0)))"
    by simp
  have "word_sum m 26 4 = unat (ntohs (rd16 m 26)) + (unat (ntohs (rd16 m 28))
      + (unat (ntohs (rd16 m 30)) + unat (ntohs (rd16 m 32))))"
    unfolding four word_sum_Suc word_sum_0 by simp
  then show ?thesis
    by (simp add: address_sum_def)
qed

text \<open>
  \<open>segment_valid\<close> is the receiver's test of RFC 793 and RFC 768: the segment, padded to whole
  words, and the pseudo header (addresses, protocol, length) sum to a multiple of 65535.
\<close>

definition segment_valid :: "u8 \<Rightarrow> frame \<Rightarrow> bool" where
  "segment_valid proto m =
     ((word_sum m (ip_th m) ((seg_len m + 1) div 2)
       + (word_sum m 26 4 + unat proto + seg_len m)) mod 65535 = 0)"

text \<open>What a routine may touch: the checksum field, and the pad byte of an odd segment.\<close>

definition only_checksum :: "nat \<Rightarrow> frame \<Rightarrow> frame \<Rightarrow> bool" where
  "only_checksum at m m' \<longleftrightarrow>
     (\<forall>i. i \<noteq> at \<longrightarrow> i \<noteq> at + 1 \<longrightarrow> m' i \<noteq> m i \<longrightarrow>
        odd (seg_len m) \<and> i = ip_th m + seg_len m \<and> m' i = 0)"

lemma header_fields_stored:
  assumes "fits m least" "least \<ge> 8"
  shows "ip_hl (wr16 (zero_pad m) (ip_th m + 2 * j) v) = ip_hl m"
    "ip_th (wr16 (zero_pad m) (ip_th m + 2 * j) v) = ip_th m"
    "seg_len (wr16 (zero_pad m) (ip_th m + 2 * j) v) = seg_len m"
    "word_sum (wr16 (zero_pad m) (ip_th m + 2 * j) v) 26 4 = word_sum m 26 4"
    "ip_p (zero_pad m) = ip_p m"
proof -
  have *: "wr16 (zero_pad m) (ip_th m + 2 * j) v i = m i" "zero_pad m i = m i" if "i < 34" for i
    using that seg_len_bounds(5) [OF assms(1)] by (simp_all add: wr16_apply zero_pad_below)
  show 1: "ip_hl (wr16 (zero_pad m) (ip_th m + 2 * j) v) = ip_hl m"
    by (rule ip_hl_cong) (simp add: *)
  show "ip_th (wr16 (zero_pad m) (ip_th m + 2 * j) v) = ip_th m"
    by (rule ip_th_cong) (simp add: *)
  show "ip_p (zero_pad m) = ip_p m"
    by (simp add: * ip_p_def)
  with 1 show "seg_len (wr16 (zero_pad m) (ip_th m + 2 * j) v) = seg_len m"
    by (simp add: seg_len_def ip_len_def rd16_def *)
  show "word_sum (wr16 (zero_pad m) (ip_th m + 2 * j) v) 26 4 = word_sum m 26 4"
    by (rule word_sum_cong) (simp add: *)
qed

lemma transport_valid:
  fixes proto :: u8
  assumes f: "fits m least" and j: "2 * j + 2 \<le> least" "least \<ge> 8"
  defines "m0 \<equiv> wr16 (zero_pad m) (ip_th m + 2 * j) 0"
  defines "acc \<equiv> of_nat (word_sum m0 (ip_th m) ((seg_len m + 1) div 2)) + address_sum m0
             + (ucast proto + ucast (ucast (of_nat (seg_len m) :: u32) :: u16))"
  defines "m' \<equiv> wr16 m0 (ip_th m + 2 * j) (ntohs (stored_sum acc))"
  shows "segment_valid proto m'" "only_checksum (ip_th m + 2 * j) m m'"
proof -
  let ?k = "(seg_len m + 1) div 2"
  let ?e = "word_sum m 26 4 + unat proto + seg_len m"
  have m': "m' = wr16 (zero_pad m) (ip_th m + 2 * j) (ntohs (stored_sum acc))"
    by (simp add: m'_def m0_def wr16_def fun_eq_iff)
  have "ucast (ucast (of_nat (seg_len m) :: u32) :: u16) = (of_nat (seg_len m) :: u32)"
    using seg_len_bounds(4) [OF f]
    by (simp add: word_unat_eq_iff unsigned_ucast_eq take_bit_eq_mod unsigned_of_nat)
  moreover have "address_sum m0 = of_nat (word_sum m 26 4)"
    unfolding m0_def address_sum_eq header_fields_stored(4) [OF f j(2)] ..
  ultimately have acc: "acc = of_nat (word_sum m0 (ip_th m) ?k + ?e)"
    by (simp add: acc_def ac_simps)
  have "word_sum m0 (ip_th m) ?k + ?e < 4294967296"
  proof -
    have "?k \<le> 750"
      using seg_len_bounds(4) [OF f] by simp
    then have "word_sum m0 (ip_th m) ?k \<le> 65535 * 750"
      using word_sum_bound [of m0 "ip_th m" ?k] by (meson le_trans mult_le_mono2)
    then show ?thesis
      using word_sum_bound [of m 26 4] seg_len_bounds(4) [OF f] unat_u8_less [of proto] by linarith
  qed
  moreover have "j < ?k"
    using seg_len_bounds(1) [OF f] j(1) by simp
  ultimately have "65535 dvd word_sum m' (ip_th m) ?k + ?e"
    unfolding m' acc using checksum_completes [of j ?k "zero_pad m" "ip_th m" ?e]
    by (simp only: m0_def)
  then show "segment_valid proto m'"
    unfolding segment_valid_def m' header_fields_stored [OF f j(2)]
    by (simp add: dvd_eq_mod_eq_0)
  show "only_checksum (ip_th m + 2 * j) m m'"
    unfolding only_checksum_def m' by (auto simp: wr16_apply zero_pad_def split: if_splits)
qed

lemma transport_routine:
  assumes f: "fits m least" and j: "2 * j + 2 \<le> least"
  defines "t \<equiv> ip_th m"
  shows "do {
      (padd, m') \<leftarrow> pad_segment m (segment_length m);
      let m0 = wr16 m' (t + 2 * j) 0;
      acc \<leftarrow> csum_loop m0 t 0 (unat (segment_length m + padd)) 0;
      F m0 acc
    } = F (wr16 (zero_pad m) (t + 2 * j) 0)
          (of_nat (word_sum (wr16 (zero_pad m) (t + 2 * j) 0) t ((seg_len m + 1) div 2)))"
proof -
  have "segment_length m = of_nat (seg_len m)"
    using f by (simp add: segment_length_fits fits_def)
  then show ?thesis
    using segment_sum_fits [OF f j] by (simp add: t_def pad_segment_fits [OF f] Let_def)
qed

lemma tcp_checksum_ok:
  assumes "ip_p m = IPPROTO_TCP" "fits m 20"
  shows "\<exists>m'. RecalculateTCPChecksum m = Some m' \<and> segment_valid IPPROTO_TCP m' \<and>
           only_checksum (ip_th m + 16) m m'"
  using transport_valid [OF assms(2), of 8 IPPROTO_TCP] assms
    transport_routine [OF assms(2), of 8
      "\<lambda>m0 acc. Some (wr16 m0 (ip_th m + 16) (ntohs (ucast (NOT (csum_fold (acc + address_sum m0
        + (ucast IPPROTO_TCP + ucast (ucast (segment_length m) :: u16))))))))"]
  by (simp add: RecalculateTCPChecksum_def stored_sum_def segment_length_fits fits_def Let_def)

text \<open>
  C36: when the datagram's own length lies inside the frame and leaves room for a TCP header,
  the TCP checksum routine succeeds, the segment with its pseudo header passes the receiver's
  test, and only the checksum field and the pad byte of an odd segment change.
\<close>

theorem tcp_checksum_valid:
  assumes "ip_p m = IPPROTO_TCP" "fits m 20"
  shows "\<exists>m'. RecalculateTCPChecksum m = Some m' \<and> segment_valid IPPROTO_TCP m' \<and>
           only_checksum (ip_th m + 16) m m'"
  using assms by (rule tcp_checksum_ok)

lemma udp_checksum_ok:
  assumes "ip_p m = IPPROTO_UDP" "fits m 8"
  shows "\<exists>m'. RecalculateUDPChecksum m = Some m' \<and> segment_valid IPPROTO_UDP m' \<and>
           only_checksum (ip_th m + 6) m m'"
  using transport_valid [OF assms(2), of 3 IPPROTO_UDP] assms
    transport_routine [OF assms(2), of 3
      "\<lambda>m0 acc. Some (wr16 m0 (ip_th m + 6) (ntohs (ucast (NOT (csum_fold (acc + address_sum m0
        + (ucast IPPROTO_UDP + ucast (ucast (segment_length m) :: u16))))))))"]
  by (simp add: RecalculateUDPChecksum_def stored_sum_def segment_length_fits fits_def Let_def)

text \<open>
  The same for the UDP checksum routine and an eight byte UDP header.
\<close>

theorem udp_checksum_valid:
  assumes "ip_p m = IPPROTO_UDP" "fits m 8"
  shows "\<exists>m'. RecalculateUDPChecksum m = Some m' \<and> segment_valid IPPROTO_UDP m' \<and>
           only_checksum (ip_th m + 6) m m'"
  using assms by (rule udp_checksum_ok)

section \<open>Both checksums of a rewritten datagram\<close>

text \<open>
  The redirectors end with the transport checksum and then the header checksum.  \<open>rewritten\<close>
  says what the two together may change and what they establish.
\<close>

definition rewritten :: "u8 \<Rightarrow> nat \<Rightarrow> frame \<Rightarrow> frame \<Rightarrow> bool" where
  "rewritten proto at m m' \<longleftrightarrow>
     header_valid m' \<and> segment_valid proto m' \<and>
     (\<forall>i. i \<notin> {24, 25, at, at + 1} \<longrightarrow> i < ip_th m + seg_len m \<longrightarrow> m' i = m i)"

lemma segment_valid_cong:
  assumes "\<And>i. i \<noteq> 24 \<Longrightarrow> i \<noteq> 25 \<Longrightarrow> m' i = m i" "5 \<le> ip_hl m"
  shows "segment_valid proto m' = segment_valid proto m"
proof -
  have hl: "ip_hl m' = ip_hl m" "ip_th m' = ip_th m"
    by (intro ip_hl_cong ip_th_cong; simp add: assms(1))+
  have len: "seg_len m' = seg_len m"
    by (simp add: seg_len_def ip_len_def rd16_def hl assms(1))
  have "word_sum m' a k = word_sum m a k" if "26 \<le> a" for a k
    using that by (intro word_sum_cong assms(1)) auto
  moreover have "26 \<le> ip_th m"
    using assms(2) by (simp add: ip_th_def ETHER_HEADER_LENGTH_def)
  ultimately show ?thesis
    by (simp add: segment_valid_def hl len)
qed

lemma ip_checksum_after_transport:
  assumes "segment_valid proto m1" "only_checksum at m m1" "fits m least" "34 \<le> at"
  shows "\<exists>m2. RecalculateIPChecksum m1 = Some m2 \<and> rewritten proto at m m2"
proof -
  have below: "m1 i = m i" if "i \<noteq> at" "i \<noteq> at + 1" "i < ip_th m + seg_len m" for i
    using that assms(2) unfolding only_checksum_def by blast
  have "14 < ip_th m + seg_len m"
    using seg_len_bounds(5) [OF assms(3)] by linarith
  then have hl: "5 \<le> ip_hl m1"
    using below [of 14] assms(3,4) ip_hl_cong [of m1 m] by (simp add: fits_def)
  then obtain m2 where m2: "RecalculateIPChecksum m1 = Some m2" "header_valid m2"
    and eq: "\<And>i. i \<noteq> 24 \<Longrightarrow> i \<noteq> 25 \<Longrightarrow> m2 i = m1 i"
    using ip_checksum_ok [OF hl] by blast
  have "segment_valid proto m2"
    using segment_valid_cong [OF eq hl] assms(1) by blast
  with m2 eq below show ?thesis
    unfolding rewritten_def by (intro exI [of _ m2] conjI) auto
qed

definition recalculate_tcp :: "frame \<Rightarrow> frame option" where
  "recalculate_tcp m = do { m \<leftarrow> RecalculateTCPChecksum m; RecalculateIPChecksum m }"

definition recalculate_udp :: "frame \<Rightarrow> frame option" where
  "recalculate_udp m = do { m \<leftarrow> RecalculateUDPChecksum m; RecalculateIPChecksum m }"

lemma tcp_rewrite:
  assumes "ip_p m = IPPROTO_TCP" "fits m 20"
  shows "\<exists>m'. recalculate_tcp m = Some m' \<and>
    rewritten IPPROTO_TCP (ip_th m + 16) m m'"
proof -
  obtain m1 where "RecalculateTCPChecksum m = Some m1" "segment_valid IPPROTO_TCP m1"
    "only_checksum (ip_th m + 16) m m1"
    using tcp_checksum_ok [OF assms] by blast
  then show ?thesis
    using ip_checksum_after_transport [of IPPROTO_TCP m1 "ip_th m + 16" m 20] assms(2)
      seg_len_bounds(5) [OF assms(2)] by (auto simp: recalculate_tcp_def recalculate_udp_def)
qed

lemma udp_rewrite:
  assumes "ip_p m = IPPROTO_UDP" "fits m 8"
  shows "\<exists>m'. recalculate_udp m = Some m' \<and>
    rewritten IPPROTO_UDP (ip_th m + 6) m m'"
proof -
  obtain m1 where "RecalculateUDPChecksum m = Some m1" "segment_valid IPPROTO_UDP m1"
    "only_checksum (ip_th m + 6) m m1"
    using udp_checksum_ok [OF assms] by blast
  then show ?thesis
    using ip_checksum_after_transport [of IPPROTO_UDP m1 "ip_th m + 6" m 8] assms(2)
      seg_len_bounds(5) [OF assms(2)] by (auto simp: recalculate_tcp_def recalculate_udp_def)
qed

section \<open>A datagram length beyond the array\<close>

text \<open>
  The routines take the length from the datagram alone, not from \<^verbatim>\<open>m_Length\<close>: a length that
  reaches behind the array makes them read (or, for an odd length, write) outside it.
\<close>

lemma transport_overrun:
  assumes big: "MAX_ETHER_FRAME < ETHER_HEADER_LENGTH + unat (ntohs (ip_len m))"
    and hdr: "ip_hl m = h" "4 * h \<le> unat (ntohs (ip_len m))"
  shows "do {
      (padd, m') \<leftarrow> pad_segment m (segment_length m);
      let m0 = wr16 m' j 0;
      acc \<leftarrow> csum_loop m0 (ip_th m) 0 (unat (segment_length m + padd)) 0;
      F m0 acc
    } = None"
proof -
  have len: "segment_length m = of_nat (seg_len m)"
    using hdr by (simp add: segment_length_fits)
  have "unat (ntohs (ip_len m)) < 65586"
    by (rule less_trans [OF unat_u16_less]) simp
  then have small: "ip_th m + seg_len m < 65600" "MAX_ETHER_FRAME < ip_th m + seg_len m"
    using hdr big
    by (simp_all add: seg_len_def ip_th_def ETHER_HEADER_LENGTH_def)
  have idx: "unat (of_nat (seg_len m) + of_nat (4 * ip_hl m) + 14 :: u32) = ip_th m + seg_len m"
  proof -
    have "(of_nat (seg_len m) + of_nat (4 * ip_hl m) + 14 :: u32) = of_nat (ip_th m + seg_len m)"
      by (simp add: ip_th_def ETHER_HEADER_LENGTH_def)
    then show ?thesis
      using small by (simp only: unsigned_of_nat take_bit_eq_mod) simp
  qed
  show ?thesis
  proof (cases "(segment_length m div 2) * 2 = segment_length m")
    case True
    have "seg_len m > 0" "unat (segment_length m) = seg_len m"
      using small ip_th_bounds(2) [of m]
      by (simp_all add: len MAX_ETHER_FRAME_def unsigned_of_nat take_bit_eq_mod)
    with True small show ?thesis
      by (simp add: pad_segment_def csum_loop_out_of_bounds)
  next
    case False
    then show ?thesis
      using small idx by (simp add: pad_segment_def len st8_def)
  qed
qed

text \<open>
  A TCP or UDP datagram whose length field claims more than the packet array holds makes
  the checksum routines access memory behind the array.
\<close>

theorem checksum_overruns_frame:
  assumes "MAX_ETHER_FRAME < ETHER_HEADER_LENGTH + unat (ntohs (ip_len m))"
    and "4 * ip_hl m \<le> unat (ntohs (ip_len m))"
  shows "(ip_p m = IPPROTO_TCP \<longrightarrow> RecalculateTCPChecksum m = None) \<and>
         (ip_p m = IPPROTO_UDP \<longrightarrow> RecalculateUDPChecksum m = None)"
  using transport_overrun [OF assms(1) refl assms(2), of "ip_th m + 16"
      "\<lambda>m0 acc. Some (wr16 m0 (ip_th m + 16) (ntohs (ucast (NOT (csum_fold (acc + address_sum m0
        + (ucast IPPROTO_TCP + ucast (ucast (segment_length m) :: u16))))))))"]
    transport_overrun [OF assms(1) refl assms(2), of "ip_th m + 6"
      "\<lambda>m0 acc. Some (wr16 m0 (ip_th m + 6) (ntohs (ucast (NOT (csum_fold (acc + address_sum m0
        + (ucast IPPROTO_UDP + ucast (ucast (segment_length m) :: u16))))))))"]
  by (simp add: RecalculateTCPChecksum_def RecalculateUDPChecksum_def Let_def)

section \<open>Witnesses\<close>

definition sample_frame :: "u8 \<Rightarrow> u8 \<Rightarrow> u8 \<Rightarrow> frame" where
  "sample_frame proto len_hi len_lo =
     (\<lambda>_. 0)(14 := 0x45, 16 := len_hi, 17 := len_lo, 23 := proto, 26 := 10, 30 := 192)"

lemma sample_frame_fields:
  "ip_hl (sample_frame p h l) = 5" "ntohs (ip_len (sample_frame p h l)) = le16 l h"
  "ip_p (sample_frame p h l) = p"
  by (simp_all add: sample_frame_def ip_hl_def ip_len_def rd16_def ip_p_def wire_simps)

lemma sample_fits: "fits (sample_frame p 0 41) 20" "fits (sample_frame p 0 41) 8"
  by (simp_all add: fits_def sample_frame_fields unat_le16 ETHER_HEADER_LENGTH_def MAX_ETHER_FRAME_def)

theorem ip_checksum_valid_witness:
  "\<exists>m'. RecalculateIPChecksum (sample_frame 6 0 41) = Some m' \<and> header_valid m' \<and>
        (\<forall>i. i \<noteq> 24 \<longrightarrow> i \<noteq> 25 \<longrightarrow> m' i = sample_frame 6 0 41 i)"
  by (rule ip_checksum_valid) (simp add: sample_frame_fields)

theorem tcp_checksum_valid_witness:
  "\<exists>m'. RecalculateTCPChecksum (sample_frame 6 0 41) = Some m' \<and> segment_valid IPPROTO_TCP m' \<and>
        only_checksum (ip_th (sample_frame 6 0 41) + 16) (sample_frame 6 0 41) m'"
  by (rule tcp_checksum_valid) (simp_all add: sample_frame_fields IPPROTO_TCP_def sample_fits)

theorem udp_checksum_valid_witness:
  "\<exists>m'. RecalculateUDPChecksum (sample_frame 17 0 41) = Some m' \<and> segment_valid IPPROTO_UDP m' \<and>
        only_checksum (ip_th (sample_frame 17 0 41) + 6) (sample_frame 17 0 41) m'"
  by (rule udp_checksum_valid) (simp_all add: sample_frame_fields IPPROTO_UDP_def sample_fits)

theorem checksum_overruns_frame_witness:
  "RecalculateTCPChecksum (sample_frame 6 16 0) = None"
  using checksum_overruns_frame [of "sample_frame 6 16 0"]
  by (simp add: sample_frame_fields unat_le16 IPPROTO_TCP_def ETHER_HEADER_LENGTH_def MAX_ETHER_FRAME_def)

end
