(* ===== verification/Net_Address.thy ===== *)
theory Net_Address
  imports Prelude
begin

text \<open>
  Addresses, subnets, endpoints and hardware addresses (netlib/src/net).  An IPv4 address is
  the 32-bit \<^verbatim>\<open>S_addr\<close> as loaded on a little-endian machine, an IPv6 address the 128-bit value of
  its 16 bytes, so byte \<open>i\<close> is bits \<open>8 i .. 8 i + 7\<close>.  The system's address parsers
  (\<^verbatim>\<open>RtlIpv4StringToAddress\<close> and its IPv6 sibling) are parameters.
\<close>

unbundle bit_operations_syntax

type_synonym ip_address_v4 = u32
type_synonym ip_address_v6 = "128 word"

section \<open>Address classes\<close>

definition v4_byte :: "ip_address_v4 \<Rightarrow> nat \<Rightarrow> u8" where
  "v4_byte a i = ucast (drop_bit (8 * i) a)"

definition v6_byte :: "ip_address_v6 \<Rightarrow> nat \<Rightarrow> u8" where
  "v6_byte a i = ucast (drop_bit (8 * i) a)"

definition v6_qword :: "ip_address_v6 \<Rightarrow> nat \<Rightarrow> u64" where
  "v6_qword a i = ucast (drop_bit (64 * i) a)"

definition v6_dword :: "ip_address_v6 \<Rightarrow> nat \<Rightarrow> u32" where
  "v6_dword a i = ucast (drop_bit (32 * i) a)"

definition v4_is_auto_config :: "ip_address_v4 \<Rightarrow> bool" where
  "v4_is_auto_config a \<longleftrightarrow> v4_byte a 0 = 169 \<and> v4_byte a 1 = 254"

definition v4_is_localhost :: "ip_address_v4 \<Rightarrow> bool" where
  "v4_is_localhost a \<longleftrightarrow> v4_byte a 0 = 127"

fun memcmp_less :: "u8 list \<Rightarrow> u8 list \<Rightarrow> bool" where
  "memcmp_less (x # xs) (y # ys) \<longleftrightarrow> x < y \<or> (x = y \<and> memcmp_less xs ys)"
| "memcmp_less _ _ \<longleftrightarrow> False"

definition v6_bytes :: "ip_address_v6 \<Rightarrow> u8 list" where
  "v6_bytes a = [v6_byte a i. i \<leftarrow> [0..<16]]"

definition v6_less :: "ip_address_v6 \<Rightarrow> ip_address_v6 \<Rightarrow> bool" where
  "v6_less a b \<longleftrightarrow> memcmp_less (v6_bytes a) (v6_bytes b)"

definition v6_to_u32 :: "ip_address_v6 \<Rightarrow> u32" where
  "v6_to_u32 a = v6_dword a 0 XOR v6_dword a 1 XOR v6_dword a 2 XOR v6_dword a 3"

definition v6_is_global_unicast :: "ip_address_v6 \<Rightarrow> bool" where
  "v6_is_global_unicast a \<longleftrightarrow> v6_byte a 0 AND 0x3F = v6_byte a 0"

definition v6_is_link_local :: "ip_address_v6 \<Rightarrow> bool" where
  "v6_is_link_local a \<longleftrightarrow> v6_byte a 0 = 0xFE \<and> v6_byte a 1 = 0x80 \<and>
     (\<forall>i \<in> set [2..<8]. v6_byte a i = 0)"

definition v6_is_localhost :: "ip_address_v6 \<Rightarrow> bool" where
  "v6_is_localhost a \<longleftrightarrow> v6_bytes a = replicate 15 0 @ [1]"

section \<open>Subnets\<close>

record 'a ip_subnet =
  subnet_address :: 'a
  subnet_mask :: 'a

definition host_subnet_v4 :: "ip_address_v4 \<Rightarrow> ip_address_v4 ip_subnet" where
  "host_subnet_v4 a = \<lparr>subnet_address = a, subnet_mask = 0xFFFFFFFF\<rparr>"

definition bitset_count :: "nat \<Rightarrow> 'a :: len word \<Rightarrow> nat" where
  "bitset_count n w = length (filter (bit w) [0..<n])"

definition get_prefix_v4 :: "ip_address_v4 ip_subnet \<Rightarrow> u8" where
  "get_prefix_v4 s = of_nat (bitset_count 32 (subnet_mask s))"

definition get_prefix_v6 :: "ip_address_v6 ip_subnet \<Rightarrow> u8" where
  "get_prefix_v6 s = of_nat (bitset_count 32 (v6_dword (subnet_mask s) 0)
     + bitset_count 32 (v6_dword (subnet_mask s) 1) + bitset_count 32 (v6_dword (subnet_mask s) 2)
     + bitset_count 32 (v6_dword (subnet_mask s) 3))"

definition address_in_subnet_v4 :: "ip_address_v4 ip_subnet \<Rightarrow> ip_address_v4 \<Rightarrow> bool" where
  "address_in_subnet_v4 s ip \<longleftrightarrow>
     ip AND subnet_mask s = subnet_address s AND subnet_mask s"

definition address_in_subnet_v6 :: "ip_address_v6 ip_subnet \<Rightarrow> ip_address_v6 \<Rightarrow> bool" where
  "address_in_subnet_v6 s ip \<longleftrightarrow>
     v6_qword ip 0 AND v6_qword (subnet_mask s) 0
       = v6_qword (subnet_address s) 0 AND v6_qword (subnet_mask s) 0 \<and>
     v6_qword ip 1 AND v6_qword (subnet_mask s) 1
       = v6_qword (subnet_address s) 1 AND v6_qword (subnet_mask s) 1"

text \<open>
  \<^verbatim>\<open>std::from_chars\<close> into an unsigned 8-bit integer: the longest run of decimal digits, an
  error when there is none or its value does not fit; what follows the digits is not looked at.
\<close>

definition is_digit :: "char \<Rightarrow> bool" where
  "is_digit c \<longleftrightarrow> 48 \<le> (of_char c :: nat) \<and> (of_char c :: nat) \<le> 57"

fun digits_value :: "nat \<Rightarrow> string \<Rightarrow> nat" where
  "digits_value n [] = n"
| "digits_value n (c # cs) = digits_value (10 * n + (of_char c - 48)) cs"

definition from_chars_u8 :: "string \<Rightarrow> u8 option" where
  "from_chars_u8 s =
     (let ds = takeWhile is_digit s; n = digits_value 0 ds in
      if ds = [] \<or> 255 < n then None else Some (of_nat n))"

fun net_mask_loop_v4 :: "nat \<Rightarrow> u32 \<Rightarrow> u32" where
  "net_mask_loop_v4 0 net_mask = net_mask"
| "net_mask_loop_v4 (Suc m) net_mask = net_mask_loop_v4 m (drop_bit 1 net_mask OR 0x80000000)"

fun net_mask_loop_v6 :: "nat \<Rightarrow> u8 \<Rightarrow> u8" where
  "net_mask_loop_v6 0 net_mask = net_mask"
| "net_mask_loop_v6 (Suc m) net_mask = net_mask_loop_v6 m (drop_bit 1 net_mask OR 0x80)"

fun of_bytes :: "u8 list \<Rightarrow> ip_address_v6" where
  "of_bytes [] = 0"
| "of_bytes (b # bs) = ucast b OR push_bit 8 (of_bytes bs)"

definition mask_bytes_v6 :: "nat \<Rightarrow> u8 list" where
  "mask_bytes_v6 m =
     (let maxed_bytes = m div 8; address_mask = replicate maxed_bytes 0xFF @ replicate (16 - maxed_bytes) 0
      in if maxed_bytes < 16 then address_mask[maxed_bytes := net_mask_loop_v6 (m mod 8) 0]
         else address_mask)"

definition from_cidr_v4 :: "(string \<Rightarrow> ip_address_v4 option) \<Rightarrow> string \<Rightarrow> ip_address_v4 ip_subnet option" where
  "from_cidr_v4 from_string subnet =
     (if CHR ''/'' \<in> set subnet then do {
        address_v4 \<leftarrow> from_string (takeWhile (\<lambda>c. c \<noteq> CHR ''/'') subnet);
        m \<leftarrow> from_chars_u8 (tl (dropWhile (\<lambda>c. c \<noteq> CHR ''/'') subnet));
        if m \<le> 32
        then Some \<lparr>subnet_address = address_v4, subnet_mask = htonl (net_mask_loop_v4 (unat m) 0)\<rparr>
        else None
      } else do {
        address_v4 \<leftarrow> from_string subnet;
        Some \<lparr>subnet_address = address_v4, subnet_mask = 0xFFFFFFFF\<rparr>
      })"

definition from_cidr_v6 :: "(string \<Rightarrow> ip_address_v6 option) \<Rightarrow> string \<Rightarrow> ip_address_v6 ip_subnet option" where
  "from_cidr_v6 from_string subnet =
     (if CHR ''/'' \<in> set subnet then do {
        address_v6 \<leftarrow> from_string (takeWhile (\<lambda>c. c \<noteq> CHR ''/'') subnet);
        m \<leftarrow> from_chars_u8 (tl (dropWhile (\<lambda>c. c \<noteq> CHR ''/'') subnet));
        if m \<le> 128
        then Some \<lparr>subnet_address = address_v6, subnet_mask = of_bytes (mask_bytes_v6 (unat m))\<rparr>
        else None
      } else do {
        address_v6 \<leftarrow> from_string subnet;
        Some \<lparr>subnet_address = address_v6, subnet_mask = of_bytes (replicate 16 0xFF)\<rparr>
      })"

text \<open>\<^verbatim>\<open>std::to_string\<close> of an unsigned number, and the printed form of a subnet.\<close>

fun to_dec :: "nat \<Rightarrow> string" where
  "to_dec n = (if n < 10 then [char_of (48 + n)] else to_dec (n div 10) @ [char_of (48 + n mod 10)])"

declare to_dec.simps [simp del]

definition subnet_to_string_v4 :: "(ip_address_v4 \<Rightarrow> string) \<Rightarrow> ip_address_v4 ip_subnet \<Rightarrow> string" where
  "subnet_to_string_v4 to_str s = to_str (subnet_address s) @ ''/'' @ to_dec (unat (get_prefix_v4 s))"

section \<open>Endpoints and sessions\<close>

record 'a ip_endpoint =
  ep_ip :: 'a
  ep_port :: u16
  scope_id :: "u32 option"

definition endpoint :: "'a \<Rightarrow> u16 \<Rightarrow> 'a ip_endpoint" where
  "endpoint ip port = \<lparr>ep_ip = ip, ep_port = port, scope_id = None\<rparr>"

definition endpoint_eq :: "'a ip_endpoint \<Rightarrow> 'a ip_endpoint \<Rightarrow> bool" where
  "endpoint_eq e f =
     (case (scope_id e, scope_id f) of
        (Some s, Some t) \<Rightarrow> ep_ip e = ep_ip f \<and> ep_port e = ep_port f \<and> s = t
      | _ \<Rightarrow> ep_ip e = ep_ip f \<and> ep_port e = ep_port f)"

definition endpoint_ne :: "'a ip_endpoint \<Rightarrow> 'a ip_endpoint \<Rightarrow> bool" where
  "endpoint_ne e f =
     (case (scope_id e, scope_id f) of
        (Some s, Some t) \<Rightarrow> ep_ip e \<noteq> ep_ip f \<or> ep_port e \<noteq> ep_port f \<or> s \<noteq> t
      | _ \<Rightarrow> ep_ip e \<noteq> ep_ip f \<or> ep_port e \<noteq> ep_port f)"

definition endpoint_hash :: "('a \<Rightarrow> u64) \<Rightarrow> (u64 \<Rightarrow> u64) \<Rightarrow> 'a ip_endpoint \<Rightarrow> u64" where
  "endpoint_hash hash_ip hash_size e = hash_size (hash_ip (ep_ip e) XOR ucast (ep_port e))"

record 'a ip_session =
  local_ep :: "'a ip_endpoint"
  remote_ep :: "'a ip_endpoint"

definition session :: "'a \<Rightarrow> 'a \<Rightarrow> u16 \<Rightarrow> u16 \<Rightarrow> 'a ip_session" where
  "session local_ip remote_ip local_port remote_port =
     \<lparr>local_ep = endpoint local_ip local_port, remote_ep = endpoint remote_ip remote_port\<rparr>"

definition session_eq :: "'a ip_session \<Rightarrow> 'a ip_session \<Rightarrow> bool" where
  "session_eq s t \<longleftrightarrow> endpoint_eq (local_ep s) (local_ep t) \<and> endpoint_eq (remote_ep s) (remote_ep t)"

definition session_hash :: "('a \<Rightarrow> u64) \<Rightarrow> (u64 \<Rightarrow> u64) \<Rightarrow> 'a ip_session \<Rightarrow> u64" where
  "session_hash hash_ip hash_size s =
     hash_size (endpoint_hash hash_ip hash_size (local_ep s) XOR ucast (ep_port (local_ep s))
       XOR endpoint_hash hash_ip hash_size (remote_ep s) XOR ucast (ep_port (remote_ep s)))"

section \<open>Hardware addresses\<close>

type_synonym mac_address = "u8 list"

definition eth_address_length :: nat where
  "eth_address_length = 6"

definition mac_less :: "mac_address \<Rightarrow> mac_address \<Rightarrow> bool" where
  "mac_less a b \<longleftrightarrow> memcmp_less a b"

definition mac_nonzero :: "mac_address \<Rightarrow> bool" where
  "mac_nonzero a \<longleftrightarrow> a \<noteq> replicate eth_address_length 0"

definition hex_digit :: "nat \<Rightarrow> char" where
  "hex_digit n = ''0123456789ABCDEF'' ! n"

definition mac_to_string :: "mac_address \<Rightarrow> string" where
  "mac_to_string a = concat (map (\<lambda>b. [hex_digit (unat b div 16), hex_digit (unat b mod 16)]) a)"

definition mac_is_broadcast :: "mac_address \<Rightarrow> bool" where
  "mac_is_broadcast a \<longleftrightarrow> a = replicate eth_address_length 0xFF"

definition mac_is_multicast :: "mac_address \<Rightarrow> bool" where
  "mac_is_multicast a \<longleftrightarrow> a ! 0 AND 0x01 = 0x01"

definition mac_hash_key :: "mac_address \<Rightarrow> u64" where
  "mac_hash_key a = push_bit 40 (ucast (a ! 0)) + push_bit 32 (ucast (a ! 1))
     + push_bit 24 (ucast (a ! 2)) + push_bit 16 (ucast (a ! 3)) + push_bit 8 (ucast (a ! 4))
     + ucast (a ! 5)"

section \<open>Masks and network bits\<close>

text \<open>Bit \<open>i\<close> of an address in network order: the most significant bit of the first byte is bit 0.\<close>

definition netbit_v4 :: "ip_address_v4 \<Rightarrow> nat \<Rightarrow> bool" where
  "netbit_v4 a i = bit (ntohl a) (31 - i)"

definition netbit_v6 :: "ip_address_v6 \<Rightarrow> nat \<Rightarrow> bool" where
  "netbit_v6 a i = bit a (8 * (i div 8) + (7 - i mod 8))"

lemma bit_top_v4: "bit (0x80000000 :: u32) j \<longleftrightarrow> j = 31"
proof -
  have "(0x80000000 :: u32) = push_bit 31 1"
    by (simp add: push_bit_eq_mult)
  moreover have "bit (push_bit 31 (1 :: u32)) j \<longleftrightarrow> j = 31"
    by (simp only: bit_push_bit_iff bit_1_iff possible_bit_word) auto
  ultimately show ?thesis
    by simp
qed

lemma bit_top_v6: "bit (0x80 :: u8) j \<longleftrightarrow> j = 7"
proof -
  have "(0x80 :: u8) = push_bit 7 1"
    by (simp add: push_bit_eq_mult)
  moreover have "bit (push_bit 7 (1 :: u8)) j \<longleftrightarrow> j = 7"
    by (simp only: bit_push_bit_iff bit_1_iff possible_bit_word) auto
  ultimately show ?thesis
    by simp
qed

lemma bit_net_mask_loop_v4:
  "n \<le> 32 \<Longrightarrow> bit (net_mask_loop_v4 n w) j \<longleftrightarrow> j < 32 \<and> (bit w (j + n) \<or> 32 \<le> j + n)"
proof (induction n arbitrary: w)
  case 0
  then show ?case
    by (auto dest: bit_imp_le_length)
next
  case (Suc n)
  have "bit (drop_bit 1 w OR 0x80000000) (j + n) \<longleftrightarrow> bit w (Suc (j + n)) \<or> j + n = 31"
    by (simp only: bit_or_iff bit_top_v4 bit_drop_bit_eq comp_apply) simp
  moreover have "32 \<le> j + Suc n \<longleftrightarrow> j + n = 31 \<or> 32 \<le> j + n"
    by linarith
  ultimately show ?case
    using Suc.prems by (auto simp only: net_mask_loop_v4.simps Suc.IH [OF Suc_leD] add_Suc_right)
qed

lemma bit_net_mask_loop_v6:
  "n \<le> 8 \<Longrightarrow> bit (net_mask_loop_v6 n w) j \<longleftrightarrow> j < 8 \<and> (bit w (j + n) \<or> 8 \<le> j + n)"
proof (induction n arbitrary: w)
  case 0
  then show ?case
    by (auto dest: bit_imp_le_length)
next
  case (Suc n)
  have "bit (drop_bit 1 w OR 0x80) (j + n) \<longleftrightarrow> bit w (Suc (j + n)) \<or> j + n = 7"
    by (simp only: bit_or_iff bit_top_v6 bit_drop_bit_eq comp_apply) simp
  moreover have "8 \<le> j + Suc n \<longleftrightarrow> j + n = 7 \<or> 8 \<le> j + n"
    by linarith
  ultimately show ?case
    using Suc.prems by (auto simp only: net_mask_loop_v6.simps Suc.IH [OF Suc_leD] add_Suc_right)
qed

lemma bit_of_bytes:
  "length bs \<le> 16 \<Longrightarrow> bit (of_bytes bs) j \<longleftrightarrow> j div 8 < length bs \<and> bit (bs ! (j div 8)) (j mod 8)"
proof (induction bs arbitrary: j)
  case (Cons b bs)
  show ?case
  proof (cases "j < 8")
    case True
    then show ?thesis
      by (simp add: bit_simps)
  next
    case False
    then have "\<not> bit b j"
      by (auto dest: bit_imp_le_length)
    moreover have "j div 8 = Suc ((j - 8) div 8)" "j mod 8 = (j - 8) mod 8"
      using False by (simp_all add: le_div_geq le_mod_geq)
    moreover have "bit (of_bytes bs) (j - 8) \<Longrightarrow> j < 128"
      using Cons False by (auto simp: less_mult_imp_div_less)
    ultimately show ?thesis
      using Cons False by (auto simp: bit_simps)
  qed
qed simp

lemma bit_ntohl: "bit (ntohl w) j \<longleftrightarrow> j < 32 \<and> bit w (8 * (3 - j div 8) + j mod 8)"
proof (cases "j < 32")
  case True
  define q r where "q = j div 8" and "r = j mod 8"
  have j: "j = 8 * q + r" "r < 8" "j div 8 = q" "j mod 8 = r"
    by (simp_all add: q_def r_def)
  with True have "q = 0 \<or> q = 1 \<or> q = 2 \<or> q = 3"
    by linarith
  then show ?thesis
    unfolding j(3,4) unfolding j(1) using j(2)
    by (elim disjE; simp add: ntohl_def le32_def bit_simps)
qed (auto dest: bit_imp_le_length)

lemma ntohl_and: "ntohl (a AND b) = ntohl a AND ntohl b"
  by (rule bit_word_eqI) (simp add: bit_ntohl bit_and_iff)

lemma ntohl_inject [simp]: "ntohl a = ntohl b \<longleftrightarrow> a = b"
  by (metis ntohl_ntohl)

lemma and_mask_eq_iff:
  "(a AND m = b AND (m :: 'a :: len word)) \<longleftrightarrow> (\<forall>j. bit m j \<longrightarrow> bit a j = bit b j)"
  by (auto simp: bit_eq_iff bit_and_iff dest: bit_imp_le_length)

section \<open>Decimal numbers\<close>

lemma is_digit_char_of [simp]: "k < 10 \<Longrightarrow> is_digit (char_of (48 + k :: nat))"
  by (simp add: is_digit_def)

lemma digit_value [simp]: "k < 10 \<Longrightarrow> (of_char (char_of (48 + k :: nat) :: char) :: nat) = 48 + k"
  by simp

lemma to_dec_digits: "c \<in> set (to_dec n) \<Longrightarrow> is_digit c"
proof (induction n rule: to_dec.induct)
  case (1 n)
  then show ?case
    by (cases "n < 10") (auto simp: to_dec.simps [of n])
qed

lemma to_dec_Nil [simp]: "to_dec n \<noteq> []"
  by (simp add: to_dec.simps [of n])

lemma digits_value_append: "digits_value a (xs @ ys) = digits_value (digits_value a xs) ys"
  by (induction a xs rule: digits_value.induct) auto

lemma digits_value_to_dec [simp]: "digits_value 0 (to_dec n) = n"
proof (induction n rule: to_dec.induct)
  case (1 n)
  then show ?case
    by (cases "n < 10") (simp_all add: to_dec.simps [of n] digits_value_append)
qed

lemma from_chars_u8_to_dec:
  "from_chars_u8 (to_dec n) = (if 255 < n then None else Some (of_nat n))"
proof -
  have "takeWhile is_digit (to_dec n) = to_dec n"
    by (simp add: to_dec_digits)
  then show ?thesis
    by (simp add: from_chars_u8_def Let_def del: takeWhile_eq_all_conv)
qed

lemma slash_split:
  assumes "CHR ''/'' \<notin> set a"
  shows "takeWhile (\<lambda>c. c \<noteq> CHR ''/'') (a @ ''/'' @ b) = a"
    "tl (dropWhile (\<lambda>c. c \<noteq> CHR ''/'') (a @ ''/'' @ b)) = b"
proof -
  have "\<And>c. c \<in> set a \<Longrightarrow> c \<noteq> CHR ''/''"
    using assms by auto
  then show "takeWhile (\<lambda>c. c \<noteq> CHR ''/'') (a @ ''/'' @ b) = a"
    "tl (dropWhile (\<lambda>c. c \<noteq> CHR ''/'') (a @ ''/'' @ b)) = b"
    by (simp_all add: takeWhile_append2 dropWhile_append2)
qed

lemma unat_of_nat_u8: "n \<le> 255 \<Longrightarrow> unat (of_nat n :: u8) = n"
  by (simp add: unsigned_of_nat take_bit_eq_mod)

lemma of_nat_u8_le: "n \<le> 255 \<Longrightarrow> k \<le> 255 \<Longrightarrow> (of_nat n :: u8) \<le> of_nat k \<longleftrightarrow> n \<le> k"
  by (simp add: word_le_nat_alt unat_of_nat_u8)

section \<open>What a CIDR text stands for\<close>

lemma address_in_subnet_v4_prefix:
  assumes "n \<le> 32" "subnet_mask s = htonl (net_mask_loop_v4 n 0)"
  shows "address_in_subnet_v4 s ip \<longleftrightarrow> (\<forall>i<n. netbit_v4 ip i = netbit_v4 (subnet_address s) i)"
proof -
  let ?a = "ntohl ip" and ?b = "ntohl (subnet_address s)"
  have "address_in_subnet_v4 s ip \<longleftrightarrow>
      ?a AND net_mask_loop_v4 n 0 = ?b AND net_mask_loop_v4 n 0"
    unfolding address_in_subnet_v4_def assms(2)
    by (metis ntohl_and ntohl_ntohl)
  also have "\<dots> \<longleftrightarrow> (\<forall>j. j < 32 \<and> 32 \<le> j + n \<longrightarrow> bit ?a j = bit ?b j)"
    unfolding and_mask_eq_iff using assms(1) by (simp add: bit_net_mask_loop_v4)
  also have "\<dots> \<longleftrightarrow> (\<forall>i<n. bit ?a (31 - i) = bit ?b (31 - i))"
  proof (rule iffI; intro allI impI)
    fix i
    assume *: "\<forall>j. j < 32 \<and> 32 \<le> j + n \<longrightarrow> bit ?a j = bit ?b j" "i < n"
    with assms(1) show "bit ?a (31 - i) = bit ?b (31 - i)"
      by (intro *(1) [rule_format]) auto
  next
    fix j
    assume *: "\<forall>i<n. bit ?a (31 - i) = bit ?b (31 - i)" "j < 32 \<and> 32 \<le> j + n"
    then show "bit ?a j = bit ?b j"
      using *(1) [rule_format, of "31 - j"] by auto
  qed
  finally show ?thesis
    by (simp add: netbit_v4_def)
qed

lemma bit_mask_bytes_v6:
  assumes "n \<le> 128"
  shows "bit (of_bytes (mask_bytes_v6 n)) j \<longleftrightarrow> j < 128 \<and> 8 * (j div 8) + (7 - j mod 8) < n"
proof -
  have len: "length (mask_bytes_v6 n) = 16"
    using assms by (auto simp: mask_bytes_v6_def Let_def)
  have byte: "bit (mask_bytes_v6 n ! q) r \<longleftrightarrow> 8 * q + (7 - r) < n" if "q < 16" "r < 8" for q r
  proof -
    have "bit (255 :: u8) r"
    proof -
      have "(255 :: u8) = mask 8"
        by (simp add: mask_eq_exp_minus_1)
      then show ?thesis
        using \<open>r < 8\<close> by (simp only: bit_mask_iff) simp
    qed
    moreover obtain a b where n: "n = 8 * a + b" "b < 8" "n div 8 = a" "n mod 8 = b"
      by (metis mod_less_divisor mult_div_mod_eq zero_less_numeral)
    ultimately show ?thesis
      using that assms n(2) bit_net_mask_loop_v6 [of b 0 r] unfolding mask_bytes_v6_def Let_def n(3,4)
      by (cases "q < a"; cases "q = a")
        (auto simp: n(1) nth_append nth_list_update)
  qed
  have "j div 8 < 16 \<longleftrightarrow> j < 128"
    by auto
  then show ?thesis
    by (auto simp: bit_of_bytes len byte)
qed

lemma address_in_subnet_v6_iff:
  "address_in_subnet_v6 s ip \<longleftrightarrow> ip AND subnet_mask s = subnet_address s AND subnet_mask s"
proof -
  have eq: "x = y \<longleftrightarrow> v6_qword x 0 = v6_qword y 0 \<and> v6_qword x 1 = v6_qword y 1" for x y
  proof
    assume *: "v6_qword x 0 = v6_qword y 0 \<and> v6_qword x 1 = v6_qword y 1"
    show "x = y"
    proof (rule bit_word_eqI)
      fix n :: nat
      assume n: "n < LENGTH(128)"
      have "bit (v6_qword x i) j = bit (v6_qword y i) j" if "i < 2" for i j
        using * that by (cases "i = 0") (auto simp: less_2_cases_iff)
      from this [of "n div 64" "n mod 64"] n show "bit x n = bit y n"
        by (simp add: v6_qword_def bit_simps less_mult_imp_div_less)
    qed
  qed simp
  have "v6_qword (x AND y) i = v6_qword x i AND v6_qword y i" for x y i
    by (rule bit_word_eqI) (auto simp: v6_qword_def bit_simps)
  then show ?thesis
    by (simp add: address_in_subnet_v6_def eq [of "ip AND subnet_mask s"])
qed

lemma address_in_subnet_v6_prefix:
  assumes "n \<le> 128" "subnet_mask s = of_bytes (mask_bytes_v6 n)"
  shows "address_in_subnet_v6 s ip \<longleftrightarrow> (\<forall>i<n. netbit_v6 ip i = netbit_v6 (subnet_address s) i)"
proof -
  let ?net = "\<lambda>j. 8 * (j div 8) + (7 - j mod 8) :: nat"
  have inv: "?net (?net j) = j" "?net j < 128 \<longleftrightarrow> j < 128" for j
  proof -
    obtain a b where j: "j = 8 * a + b" "b < 8"
      by (metis mod_less_divisor mult_div_mod_eq zero_less_numeral)
    moreover define c where "c = 7 - b"
    moreover have c: "7 - b = c" "7 - c = b" "c < 8"
      using j(2) by (simp_all add: c_def)
    moreover have "8 * a + c < 128 \<longleftrightarrow> a < 16" "8 * a + b < 128 \<longleftrightarrow> a < 16"
      using j(2) c(3) by linarith+
    ultimately show "?net (?net j) = j" "?net j < 128 \<longleftrightarrow> j < 128"
      by (simp_all add: j(1) c(1,2))
  qed
  have "address_in_subnet_v6 s ip \<longleftrightarrow>
      (\<forall>j. j < 128 \<and> ?net j < n \<longrightarrow> bit ip j = bit (subnet_address s) j)"
    unfolding address_in_subnet_v6_iff and_mask_eq_iff assms(2)
    by (simp add: bit_mask_bytes_v6 [OF assms(1)])
  also have "\<dots> \<longleftrightarrow> (\<forall>i<n. bit ip (?net i) = bit (subnet_address s) (?net i))"
  proof (rule iffI; intro allI impI)
    fix i
    assume *: "\<forall>j. j < 128 \<and> ?net j < n \<longrightarrow> bit ip j = bit (subnet_address s) j" "i < n"
    have "?net i < 128 \<and> ?net (?net i) < n"
      unfolding inv using *(2) assms(1) by linarith
    with *(1) show "bit ip (?net i) = bit (subnet_address s) (?net i)"
      by blast
  next
    fix j
    assume *: "\<forall>i<n. bit ip (?net i) = bit (subnet_address s) (?net i)" "j < 128 \<and> ?net j < n"
    from *(1) [rule_format, of "?net j"] *(2) show "bit ip j = bit (subnet_address s) j"
      unfolding inv by blast
  qed
  finally show ?thesis
    by (simp add: netbit_v6_def)
qed

lemma bitset_count_card: "bitset_count n w = card {j. j < n \<and> bit w j}"
proof -
  have "bitset_count n w = card (set (filter (bit w) [0..<n]))"
    unfolding bitset_count_def by (rule distinct_card [symmetric]) simp
  also have "set (filter (bit w) [0..<n]) = {j. j < n \<and> bit w j}"
    by auto
  finally show ?thesis .
qed

lemma prefix_net_mask:
  assumes "n \<le> 32"
  shows "bitset_count 32 (htonl (net_mask_loop_v4 n 0)) = n"
proof -
  let ?perm = "\<lambda>j. 8 * (3 - j div 8) + j mod 8 :: nat"
  have perm: "?perm (?perm j) = j" "?perm j < 32" if "j < 32" for j
  proof -
    have j: "j div 8 \<le> 3" "j mod 8 < 8"
      using that by auto
    then have "?perm j div 8 = 3 - j div 8" "?perm j mod 8 = j mod 8"
      by simp_all
    with j show "?perm (?perm j) = j" "?perm j < 32"
      by simp_all
  qed
  have "bitset_count 32 (htonl (net_mask_loop_v4 n 0)) = card {j. j < 32 \<and> 32 \<le> ?perm j + n}"
    unfolding bitset_count_card bit_ntohl bit_net_mask_loop_v4 [OF assms]
    by (rule arg_cong [where f = card]) (auto intro: perm)
  also have "\<dots> = card {i. i < 32 \<and> 32 \<le> i + n}"
    by (rule bij_betw_same_card [of ?perm], rule bij_betw_byWitness [of _ ?perm]) (auto simp: perm simp del: div_mult_self1)
  also have "{i. i < 32 \<and> 32 \<le> i + n} = {32 - n..<32}"
    using assms by auto
  finally show ?thesis
    using assms by simp
qed

section \<open>Properties of subnets\<close>

lemma from_cidr_v4_slash:
  assumes "CHR ''/'' \<notin> set a" "from_string a = Some addr"
  shows "from_cidr_v4 from_string (a @ ''/'' @ to_dec n) =
    (if n \<le> 32 then Some \<lparr>subnet_address = addr, subnet_mask = htonl (net_mask_loop_v4 n 0)\<rparr> else None)"
proof -
  have "from_cidr_v4 from_string (a @ ''/'' @ to_dec n) = do {
      m \<leftarrow> (if 255 < n then None else Some (of_nat n :: u8));
      if m \<le> 32 then Some \<lparr>subnet_address = addr, subnet_mask = htonl (net_mask_loop_v4 (unat m) 0)\<rparr> else None }"
    using assms(2) by (simp only: from_cidr_v4_def slash_split [OF assms(1)] from_chars_u8_to_dec) simp
  moreover have "n \<le> 255 \<Longrightarrow> (of_nat n :: u8) \<le> 32 \<longleftrightarrow> n \<le> 32"
    using of_nat_u8_le [of n 32] by simp
  ultimately show ?thesis
    by (auto simp: unat_of_nat_u8)
qed

lemma from_cidr_v6_slash:
  assumes "CHR ''/'' \<notin> set a" "from_string a = Some addr"
  shows "from_cidr_v6 from_string (a @ ''/'' @ to_dec n) =
    (if n \<le> 128 then Some \<lparr>subnet_address = addr, subnet_mask = of_bytes (mask_bytes_v6 n)\<rparr> else None)"
proof -
  have "from_cidr_v6 from_string (a @ ''/'' @ to_dec n) = do {
      m \<leftarrow> (if 255 < n then None else Some (of_nat n :: u8));
      if m \<le> 128 then Some \<lparr>subnet_address = addr, subnet_mask = of_bytes (mask_bytes_v6 (unat m))\<rparr> else None }"
    using assms(2) by (simp only: from_cidr_v6_def slash_split [OF assms(1)] from_chars_u8_to_dec) simp
  moreover have "n \<le> 255 \<Longrightarrow> (of_nat n :: u8) \<le> 128 \<longleftrightarrow> n \<le> 128"
    using of_nat_u8_le [of n 128] by simp
  ultimately show ?thesis
    by (auto simp: unat_of_nat_u8)
qed

text \<open>
  An IPv4 CIDR text is accepted exactly for prefix lengths up to 32; the subnet then has
  that prefix length and contains exactly the addresses whose first \<open>n\<close> bits are the text's.
\<close>

theorem from_cidr_v4_contains:
  assumes "CHR ''/'' \<notin> set a" "from_string a = Some addr"
  shows "if n \<le> 32
    then \<exists>s. from_cidr_v4 from_string (a @ ''/'' @ to_dec n) = Some s \<and> unat (get_prefix_v4 s) = n \<and>
          (\<forall>ip. address_in_subnet_v4 s ip = (\<forall>i<n. netbit_v4 ip i = netbit_v4 addr i))
    else from_cidr_v4 from_string (a @ ''/'' @ to_dec n) = None"
  using from_cidr_v4_slash [of a from_string addr n, OF assms]
  by (simp add: get_prefix_v4_def prefix_net_mask unat_of_nat_u8 address_in_subnet_v4_prefix [of n])

text \<open>
  An IPv6 CIDR text is accepted exactly for prefix lengths up to 128, and the subnet
  contains exactly the addresses whose first \<open>n\<close> bits in network order are the text's.
\<close>

theorem from_cidr_v6_contains:
  assumes "CHR ''/'' \<notin> set a" "from_string a = Some addr"
  shows "if n \<le> 128
    then \<exists>s. from_cidr_v6 from_string (a @ ''/'' @ to_dec n) = Some s \<and>
          (\<forall>ip. address_in_subnet_v6 s ip = (\<forall>i<n. netbit_v6 ip i = netbit_v6 addr i))
    else from_cidr_v6 from_string (a @ ''/'' @ to_dec n) = None"
  using from_cidr_v6_slash [of a from_string addr n, OF assms] by (simp add: address_in_subnet_v6_prefix [of n])

text \<open>
  Printing a subnet that came from a CIDR text and parsing the result gives the subnet
  back, for any address printer whose output the address parser reads back.
\<close>

theorem subnet_print_parse:
  assumes "\<And>a. from_string (to_str a) = Some a" "\<And>a. CHR ''/'' \<notin> set (to_str a)"
    and "n \<le> 32" "subnet_mask (s :: ip_address_v4 ip_subnet) = htonl (net_mask_loop_v4 n 0)"
  shows "from_cidr_v4 from_string (subnet_to_string_v4 to_str s) = Some s"
proof -
  have "unat (get_prefix_v4 s) = n"
    using assms(3,4) by (simp add: get_prefix_v4_def prefix_net_mask unat_of_nat_u8)
  then show ?thesis
    unfolding subnet_to_string_v4_def
    using from_cidr_v4_slash [of "to_str (subnet_address s)" from_string "subnet_address s" n, OF assms(2) assms(1)] assms(3,4) by simp
qed

section \<open>Endpoint equality and hashing\<close>

lemma endpoint_eq_same_address: "endpoint_eq e f \<Longrightarrow> ep_ip e = ep_ip f \<and> ep_port e = ep_port f"
  by (auto simp: endpoint_eq_def split: option.splits)

lemma endpoint_eq_endpoint [simp]:
  "endpoint_eq (endpoint a p) e \<longleftrightarrow> ep_ip e = a \<and> ep_port e = p"
  by (auto simp: endpoint_eq_def endpoint_def)

text \<open>
  Endpoint equality is reflexive and symmetric, the inequality operator is its negation,
  and equal endpoints have equal hashes, as the hashed containers need.
\<close>

theorem endpoint_eq_hash_consistent:
  "endpoint_eq e e \<and> (endpoint_eq e f = endpoint_eq f e) \<and> (endpoint_ne e f = (\<not> endpoint_eq e f)) \<and>
   (endpoint_hash h1 h2 e \<noteq> endpoint_hash h1 h2 f \<longrightarrow> \<not> endpoint_eq e f) \<and>
   (session_hash h1 h2 s \<noteq> session_hash h1 h2 t \<longrightarrow> \<not> session_eq s t)"
  by (auto simp: endpoint_eq_def endpoint_ne_def endpoint_hash_def session_eq_def session_hash_def
      split: option.splits)

text \<open>
  Endpoint equality is not transitive once scope identifiers differ: an endpoint without
  scope equals two endpoints with different scopes.
\<close>

theorem endpoint_eq_not_transitive:
  "\<exists>e f g :: ip_address_v6 ip_endpoint. endpoint_eq e f \<and> endpoint_eq f g \<and> endpoint_ne e g"
  by (rule exI [of _ "\<lparr>ep_ip = 0, ep_port = 80, scope_id = Some 1\<rparr>"],
      rule exI [of _ "\<lparr>ep_ip = 0, ep_port = 80, scope_id = None\<rparr>"],
      rule exI [of _ "\<lparr>ep_ip = 0, ep_port = 80, scope_id = Some 2\<rparr>"])
    (simp add: endpoint_eq_def endpoint_ne_def)

section \<open>Witnesses\<close>

text \<open>An address printer and parser that are inverse to each other, for the witnesses.\<close>

definition dec_print :: "ip_address_v4 \<Rightarrow> string" where
  "dec_print a = to_dec (unat a)"

definition dec_parse :: "string \<Rightarrow> ip_address_v4 option" where
  "dec_parse s = Some (of_nat (digits_value 0 s))"

lemma dec_parse_print [simp]: "dec_parse (dec_print a) = Some a"
  by (simp add: dec_parse_def dec_print_def)

lemma dec_print_no_slash [simp]: "CHR ''/'' \<notin> set (dec_print a)"
  using to_dec_digits [of "CHR ''/''" "unat a"] by (auto simp: dec_print_def is_digit_def)

theorem from_cidr_v4_contains_witness:
  "\<exists>s. from_cidr_v4 dec_parse (dec_print 10 @ ''/'' @ to_dec 8) = Some s \<and> unat (get_prefix_v4 s) = 8 \<and>
     (\<forall>ip. address_in_subnet_v4 s ip = (\<forall>i<8. netbit_v4 ip i = netbit_v4 10 i))"
  using from_cidr_v4_contains [of "dec_print 10" dec_parse 10 8] by simp

theorem from_cidr_v6_contains_witness:
  "\<exists>s. from_cidr_v6 (\<lambda>_. Some 254) (''fe00::'' @ ''/'' @ to_dec 7) = Some s \<and>
     (\<forall>ip. address_in_subnet_v6 s ip = (\<forall>i<7. netbit_v6 ip i = netbit_v6 254 i))"
  using from_cidr_v6_contains [of "''fe00::''" "\<lambda>_. Some 254" 254 7] by simp

theorem endpoint_eq_hash_consistent_witness:
  "\<not> endpoint_eq (endpoint (1 :: u32) 80) (endpoint 2 80) \<and>
   endpoint_ne (endpoint (1 :: u32) 80) (endpoint 2 80)"
  using endpoint_eq_hash_consistent [of "endpoint (1 :: u32) 80" "endpoint 2 80"
      "\<lambda>a. ucast a" "\<lambda>h. h" "session 1 2 3 4" "session 1 2 3 4"]
  by (auto simp: endpoint_def endpoint_hash_def)

theorem subnet_print_parse_witness:
  "from_cidr_v4 dec_parse (subnet_to_string_v4 dec_print
     \<lparr>subnet_address = 10, subnet_mask = htonl (net_mask_loop_v4 8 0)\<rparr>) =
   Some \<lparr>subnet_address = 10, subnet_mask = htonl (net_mask_loop_v4 8 0)\<rparr>"
  by (rule subnet_print_parse [of dec_parse dec_print 8]) simp_all

end
