(* ===== verification/Ipv6_Helper.thy ===== *)
theory Ipv6_Helper
  imports Packet_Buffer Net_Address
begin

text \<open>
  Parsing of IPv6 extension headers and the IPv6 transport checksum (net/ipv6_helper.h).  The
  IPv6 header starts at offset 14 of the frame; a transport header is an offset into the frame.
  Reads outside the packet array give \<open>None\<close>.  The checksum sums 32-bit little-endian words
  into a 64-bit accumulator; its meaning is stated modulo 65535.
\<close>

unbundle bit_operations_syntax

section \<open>Finding the transport header\<close>

definition IPPROTO_HOPOPTS :: u8 where "IPPROTO_HOPOPTS = 0"
definition IPPROTO_ROUTING :: u8 where "IPPROTO_ROUTING = 43"
definition IPPROTO_FRAGMENT :: u8 where "IPPROTO_FRAGMENT = 44"
definition IPPROTO_DSTOPTS :: u8 where "IPPROTO_DSTOPTS = 60"

lemmas ext_proto_defs = IPPROTO_HOPOPTS_def IPPROTO_ROUTING_def IPPROTO_FRAGMENT_def
  IPPROTO_DSTOPTS_def

definition ip6_v :: "frame \<Rightarrow> u8" where
  "ip6_v m = drop_bit 4 (m 14)"

definition ip6_next :: "frame \<Rightarrow> u8" where
  "ip6_next m = m 20"

definition rd128 :: "frame \<Rightarrow> nat \<Rightarrow> ip_address_v6" where
  "rd128 m i = of_bytes (map m [i..<i + 16])"

definition ip6_src :: "frame \<Rightarrow> ip_address_v6" where
  "ip6_src m = rd128 m 22"

definition ip6_dst :: "frame \<Rightarrow> ip_address_v6" where
  "ip6_dst m = rd128 m 38"

definition swap_ip6 :: "frame \<Rightarrow> frame" where
  "swap_ip6 m = swap_range m 22 38 16"

text \<open>
  The loop of \<^verbatim>\<open>find_transport_header\<close>: \<open>h\<close> is \<^verbatim>\<open>next_header\<close> as an offset, the packet ends at
  \<open>14 + packet_size\<close>, and the loop stops when fewer than \<^verbatim>\<open>sizeof(ipv6ext) = 4\<close> bytes are left.
\<close>

function ext_header_loop :: "frame \<Rightarrow> u32 \<Rightarrow> nat \<Rightarrow> u8 \<Rightarrow> (nat option \<times> u8) option" where
  "ext_header_loop m packet_size h next_proto =
     (if ETHER_HEADER_LENGTH + unat packet_size < h + 4 then Some (None, next_proto)
      else if next_proto = IPPROTO_FRAGMENT then do {
        offlg \<leftarrow> ld16 m (h + 2);
        next \<leftarrow> ld8 m h;
        if offlg AND 0xFC \<noteq> 0 then Some (None, next) else Some (Some (h + 8), next)
      }
      else if next_proto = IPPROTO_HOPOPTS \<or> next_proto = IPPROTO_ROUTING \<or> next_proto = IPPROTO_DSTOPTS
      then do {
        next \<leftarrow> ld8 m h;
        len \<leftarrow> ld8 m (h + 1);
        ext_header_loop m packet_size (h + 8 + 8 * unat len) next
      }
      else Some (Some h, next_proto))"
  by pat_completeness auto
termination
  by (relation "measure (\<lambda>(m, packet_size, h, next_proto). ETHER_HEADER_LENGTH + unat packet_size - h)")
    auto

declare ext_header_loop.simps [simp del]

definition find_transport_header :: "frame \<Rightarrow> u32 \<Rightarrow> (nat option \<times> u8) option" where
  "find_transport_header m packet_size =
     (if ip6_v m \<noteq> 6 then Some (None, 0)
      else ext_header_loop m packet_size (ETHER_HEADER_LENGTH + 40) (ip6_next m))"

section \<open>The checksum\<close>

definition ld32 :: "(nat \<Rightarrow> u8 option) \<Rightarrow> nat \<Rightarrow> u32 option" where
  "ld32 ld p = do { a \<leftarrow> ld p; b \<leftarrow> ld (p + 1); c \<leftarrow> ld (p + 2); d \<leftarrow> ld (p + 3); Some (le32 a b c d) }"

fun sum_dwords :: "(nat \<Rightarrow> u8 option) \<Rightarrow> nat \<Rightarrow> nat \<Rightarrow> u64 \<Rightarrow> u64 option" where
  "sum_dwords ld p 0 acc = Some acc"
| "sum_dwords ld p (Suc k) acc = do { w \<leftarrow> ld32 ld p; sum_dwords ld (p + 4) k (acc + ucast w) }"

definition ip_checksum_partial :: "(nat \<Rightarrow> u8 option) \<Rightarrow> nat \<Rightarrow> nat \<Rightarrow> u64 \<Rightarrow> u64 option" where
  "ip_checksum_partial ld p len acc = do {
     acc \<leftarrow> sum_dwords ld p (len div 4) acc;
     let q = p + 4 * (len div 4);
     let rest = len mod 4;
     (acc, q, rest) \<leftarrow>
       (if 2 \<le> rest then do { a \<leftarrow> ld q; b \<leftarrow> ld (q + 1); Some (acc + ucast (le16 a b), q + 2, rest - 2) }
        else Some (acc, q, rest));
     if 0 < rest then do { b \<leftarrow> ld q; Some (acc + ucast (ntohs (push_bit 8 (ucast b)))) }
     else Some acc
   }"

lemma unat_low: "n \<le> 64 \<Longrightarrow> unat (s AND mask n :: u64) = unat s mod 2 ^ n"
  by (simp only: take_bit_eq_mask [symmetric] unsigned_take_bit_eq) (simp add: take_bit_eq_mod)

lemma unat_u64_less: "unat (s :: u64) < 18446744073709551616"
  using unsigned_less [of s] by simp

lemma unat_high: "unat (drop_bit n s :: u64) = unat s div 2 ^ n"
proof -
  have "take_bit 64 (unat s) = unat s"
    using unat_u64_less [of s] by (intro take_bit_nat_eq_self) simp
  then show ?thesis
    by (simp only: unsigned_drop_bit_eq) (simp add: drop_bit_eq_div)
qed

lemma mask_numerals: "(0xffff :: u64) = mask 16" "(0xffffffff :: u64) = mask 32"
  by (simp_all add: mask_eq_exp_minus_1)

lemma fold_high_step:
  "unat (drop_bit 32 s + (s AND 0xffffffff) :: u64) = unat s div 4294967296 + unat s mod 4294967296"
proof -
  have "unat s div 4294967296 + unat s mod 4294967296 < 18446744073709551616"
    using unat_u64_less [of s] by linarith
  then show ?thesis
    by (simp only: mask_numerals unat_word_ariths unat_low unat_high) simp
qed

lemma fold_low_step:
  "unat (drop_bit 16 s + (s AND 0xffff) :: u64) = unat s div 65536 + unat s mod 65536"
proof -
  have "unat s div 65536 + unat s mod 65536 < 18446744073709551616"
    using unat_u64_less [of s] by linarith
  then show ?thesis
    by (simp only: mask_numerals unat_word_ariths unat_low unat_high) simp
qed

lemma fold_high_test: "s AND NOT 0xffffffff \<noteq> (0 :: u64) \<longleftrightarrow> 4294967296 \<le> unat s"
proof -
  have "s AND NOT (mask 32) = 0 \<longleftrightarrow> take_bit 32 s = s"
    by (auto simp: take_bit_eq_mask bit_eq_iff bit_simps)
  also have "\<dots> \<longleftrightarrow> unat s mod 2 ^ 32 = unat s"
    by (simp add: take_bit_eq_mod word_unat_eq_iff unat_mod_distrib)
  also have "\<dots> \<longleftrightarrow> unat s < 4294967296"
    using mod_less_divisor [of "4294967296" "unat s"] by (auto simp del: mod_less_divisor)
  finally show ?thesis
    unfolding mask_numerals by linarith
qed

lemma fold_low_test:
  assumes "s AND 0xffff0000 \<noteq> (0 :: u64)"
  shows "65536 \<le> unat s"
proof (rule ccontr)
  assume "\<not> 65536 \<le> unat s"
  then have "take_bit 16 s = s"
    by (simp add: take_bit_eq_mod word_unat_eq_iff unat_mod_distrib)
  moreover have "(0xffff0000 :: u64) = push_bit 16 (mask 16)"
    by (simp add: mask_eq_exp_minus_1 push_bit_eq_mult)
  moreover have "take_bit 16 s AND push_bit 16 (mask 16) = 0"
    by (rule bit_word_eqI) (auto simp: bit_simps)
  ultimately show False
    using assms by metis
qed

function fold_high :: "u64 \<Rightarrow> u64" where
  "fold_high s = (if s AND NOT 0xffffffff \<noteq> 0 then fold_high (drop_bit 32 s + (s AND 0xffffffff)) else s)"
  by pat_completeness auto
termination
proof (relation "measure unat")
  fix s :: u64
  assume "s AND NOT 0xffffffff \<noteq> 0"
  then have "4294967296 \<le> unat s"
    by (simp only: fold_high_test)
  then have "0 < unat s div 4294967296"
    by (simp add: div_greater_zero_iff)
  then show "(drop_bit 32 s + (s AND 0xffffffff), s) \<in> measure unat"
    using div_mult_mod_eq [of "unat s" 4294967296] by (simp only: in_measure fold_high_step)
qed simp

function fold_low :: "u64 \<Rightarrow> u64" where
  "fold_low s = (if s AND 0xffff0000 \<noteq> 0 then fold_low (drop_bit 16 s + (s AND 0xffff)) else s)"
  by pat_completeness auto
termination
proof (relation "measure unat")
  fix s :: u64
  assume "s AND 0xffff0000 \<noteq> 0"
  then have "0 < unat s div 65536"
    using fold_low_test [of s] by (simp add: div_greater_zero_iff)
  then show "(drop_bit 16 s + (s AND 0xffff), s) \<in> measure unat"
    using div_mult_mod_eq [of "unat s" 65536] by (simp only: in_measure fold_low_step)
qed simp

declare fold_high.simps [simp del] fold_low.simps [simp del]

definition ip_checksum_fold :: "u64 \<Rightarrow> u16" where
  "ip_checksum_fold s = ucast (NOT (fold_low (fold_high s)))"

text \<open>The pseudo header as the 40 bytes of the local structure.\<close>

definition pseudo_header :: "ip_address_v6 \<Rightarrow> ip_address_v6 \<Rightarrow> u8 \<Rightarrow> u32 \<Rightarrow> u8 list" where
  "pseudo_header src dst protocol len =
     v6_bytes src @ v6_bytes dst
     @ (let l = htonl len in [ucast l, ucast (drop_bit 8 l), ucast (drop_bit 16 l), ucast (drop_bit 24 l)])
     @ [0, 0, 0, protocol]"

definition list_ld :: "u8 list \<Rightarrow> nat \<Rightarrow> u8 option" where
  "list_ld bs i = (if i < length bs then Some (bs ! i) else None)"

definition tcp_udp_v6_header_checksum_partial ::
  "ip_address_v6 \<Rightarrow> ip_address_v6 \<Rightarrow> u8 \<Rightarrow> u32 \<Rightarrow> u64 option" where
  "tcp_udp_v6_header_checksum_partial src_ip dst_ip protocol len =
     ip_checksum_partial (list_ld (pseudo_header src_ip dst_ip protocol len)) 0 40 0"

definition tcp_udp_v6_checksum ::
  "frame \<Rightarrow> ip_address_v6 \<Rightarrow> ip_address_v6 \<Rightarrow> u8 \<Rightarrow> nat \<Rightarrow> u32 \<Rightarrow> u16 option" where
  "tcp_udp_v6_checksum m src_ip dst_ip protocol payload len = do {
     acc \<leftarrow> tcp_udp_v6_header_checksum_partial src_ip dst_ip protocol len;
     acc \<leftarrow> ip_checksum_partial (ld8 m) payload (unat len) acc;
     Some (ip_checksum_fold acc)
   }"

text \<open>Where the checksum field of a transport header is.\<close>

definition checksum_offset :: "u8 \<Rightarrow> nat option" where
  "checksum_offset protocol =
     (if protocol = IPPROTO_TCP then Some 16 else if protocol = IPPROTO_UDP then Some 6
      else if protocol = IPPROTO_ICMPV6 then Some 2 else None)"

definition recalculate_tcp_udp_checksum :: "intermediate_buffer \<Rightarrow> intermediate_buffer option" where
  "recalculate_tcp_udp_checksum packet = do {
     (header, protocol) \<leftarrow> find_transport_header (m_IBuffer packet) (m_Length packet - 14);
     case header of
       None \<Rightarrow> Some packet
     | Some h \<Rightarrow> do {
         m \<leftarrow> (case checksum_offset protocol of
                None \<Rightarrow> Some (m_IBuffer packet)
              | Some off \<Rightarrow> st16 (m_IBuffer packet) (h + off) 0);
         checksum \<leftarrow> tcp_udp_v6_checksum m (ip6_src m) (ip6_dst m) protocol h (m_Length packet - of_nat h);
         m \<leftarrow> (case checksum_offset protocol of
                None \<Rightarrow> Some m
              | Some off \<Rightarrow> st16 m (h + off) checksum);
         Some (packet\<lparr>m_IBuffer := m\<rparr>)
       }
   }"

section \<open>What the sums mean\<close>

text \<open>
  \<open>le_sum f p n\<close> adds the \<open>n\<close> bytes at \<open>p\<close> as little-endian words, an odd last byte as the low
  byte of a word.  One's complement sums do not depend on the byte order, so this is the
  quantity of RFC 1071 up to a byte swap of the result.
\<close>

fun le_sum :: "(nat \<Rightarrow> u8) \<Rightarrow> nat \<Rightarrow> nat \<Rightarrow> nat" where
  "le_sum f p 0 = 0"
| "le_sum f p (Suc 0) = unat (f p)"
| "le_sum f p (Suc (Suc n)) = unat (f p) + 256 * unat (f (p + 1)) + le_sum f (p + 2) n"

lemma unat_le32: "unat (le32 a b c d) = unat (le16 a b) + 65536 * unat (le16 c d)"
proof -
  have 1: "le32 a b c d = ucast (le16 a b) OR push_bit 16 (ucast (le16 c d))"
    by (rule bit_word_eqI) (auto simp: le32_def le16_def bit_simps dest: bit_imp_le_length)
  have "(ucast (le16 a b) :: u32) AND push_bit 16 (ucast (le16 c d)) = 0"
    by (rule bit_word_eqI) (auto simp: bit_simps dest: bit_imp_le_length)
  then have "le32 a b c d = ucast (le16 a b) + push_bit 16 (ucast (le16 c d))"
    unfolding 1 by (simp add: disjunctive_add_eq_or)
  moreover have "unat (le16 a b) + unat (le16 c d) * 65536 < 4294967296" "unat (le16 c d) * 65536 < 4294967296"
    using unat_u16_less [of "le16 a b"] unat_u16_less [of "le16 c d"] by linarith+
  moreover have "unat (le16 a b) < 4294967296" "unat (le16 c d) < 4294967296"
    by (rule less_trans [OF unat_u16_less], simp)+
  ultimately show ?thesis
    by (simp add: unat_word_ariths push_bit_eq_mult unsigned_ucast_eq take_bit_eq_mod mod_simps)
qed

lemma unat_u64_add:
  "unat (s :: u64) + n < 18446744073709551616 \<Longrightarrow> unat w = n \<Longrightarrow> unat (s + w) = unat s + n"
  by (simp add: unat_word_ariths)

lemma unat_ucast_u64:
  "unat (ucast (w :: u32) :: u64) = unat w" "unat (ucast (v :: u16) :: u64) = unat v"
  by (simp_all add: unsigned_ucast_eq take_bit_eq_mod less_trans [OF unat_u32_less] less_trans [OF unat_u16_less])

lemma sum_dwords_eq:
  assumes "\<And>i. p \<le> i \<Longrightarrow> i < p + 4 * k \<Longrightarrow> ld i = Some (f i)"
    and "unat acc + 4294967296 * k < 18446744073709551616"
  shows "\<exists>s. sum_dwords ld p k acc = Some s \<and>
    (unat s + le_sum f (p + 4 * k) r) mod 65535 = (unat acc + le_sum f p (4 * k + r)) mod 65535 \<and>
    unat s \<le> unat acc + 4294967296 * k \<and> unat acc \<le> unat s"
  using assms
proof (induction k arbitrary: p acc)
  case (Suc k)
  let ?w = "le32 (f p) (f (p + 1)) (f (p + 2)) (f (p + 3))"
  have w: "ld32 ld p = Some ?w"
    using Suc.prems(1) by (simp add: ld32_def)
  have add: "unat (acc + ucast ?w) = unat acc + unat ?w"
  proof (rule unat_u64_add)
    show "unat acc + unat ?w < 18446744073709551616"
      using Suc.prems(2) unat_u32_less [of ?w] unfolding mult_Suc_right by linarith
  qed (simp add: unat_ucast_u64)
  have bound: "unat (acc + ucast ?w) + 4294967296 * k < 18446744073709551616"
    unfolding add using Suc.prems(2) unat_u32_less [of ?w] unfolding mult_Suc_right by linarith
  have "\<exists>s. sum_dwords ld (p + 4) k (acc + ucast ?w) = Some s \<and>
    (unat s + le_sum f (p + 4 + 4 * k) r) mod 65535
      = (unat (acc + ucast ?w) + le_sum f (p + 4) (4 * k + r)) mod 65535 \<and>
    unat s \<le> unat (acc + ucast ?w) + 4294967296 * k \<and> unat (acc + ucast ?w) \<le> unat s"
    using bound Suc.prems(1) by (intro Suc.IH) auto
  then obtain s where s: "sum_dwords ld (p + 4) k (acc + ucast ?w) = Some s"
    "(unat s + le_sum f (p + 4 + 4 * k) r) mod 65535
      = (unat acc + unat ?w + le_sum f (p + 4) (4 * k + r)) mod 65535"
    "unat s \<le> unat acc + unat ?w + 4294967296 * k" "unat acc + unat ?w \<le> unat s"
    unfolding add by blast
  have "le_sum f p (4 * Suc k + r) = unat (f p) + 256 * unat (f (p + 1)) + (unat (f (p + 2))
      + 256 * unat (f (p + 3)) + le_sum f (p + 4) (4 * k + r))"
    by (simp add: numeral_eq_Suc)
  moreover have "unat ?w = unat (f p) + 256 * unat (f (p + 1)) + 65536 * (unat (f (p + 2)) + 256 * unat (f (p + 3)))"
    by (simp add: unat_le32 unat_le16)
  ultimately have "unat acc + unat ?w + le_sum f (p + 4) (4 * k + r)
      = unat acc + le_sum f p (4 * Suc k + r) + 65535 * (unat (f (p + 2)) + 256 * unat (f (p + 3)))"
    by simp
  then have "(unat acc + unat ?w + le_sum f (p + 4) (4 * k + r)) mod 65535
      = (unat acc + le_sum f p (4 * Suc k + r)) mod 65535"
    by (simp only: mod_mult_self2)
  then have "(unat s + le_sum f (p + 4 * Suc k) r) mod 65535 = (unat acc + le_sum f p (4 * Suc k + r)) mod 65535"
    using s(2) by (simp only: mult_Suc_right add.assoc)
  moreover have "unat s \<le> unat acc + 4294967296 * Suc k"
    using s(3) unat_u32_less [of ?w] unfolding mult_Suc_right by linarith
  ultimately show ?case
    using s(1,4) w by simp
qed simp

lemma ip_checksum_partial_eq:
  assumes "\<And>i. p \<le> i \<Longrightarrow> i < p + len \<Longrightarrow> ld i = Some (f i)"
    and "unat acc + 4294967296 * (len div 4 + 2) < 18446744073709551616"
  shows "\<exists>s. ip_checksum_partial ld p len acc = Some s \<and>
    unat s mod 65535 = (unat acc + le_sum f p len) mod 65535 \<and>
    unat s \<le> unat acc + 4294967296 * (len div 4 + 1) \<and> unat acc \<le> unat s"
proof -
  let ?k = "len div 4" and ?r = "len mod 4"
  let ?q = "p + 4 * ?k"
  have "\<exists>s. sum_dwords ld p ?k acc = Some s \<and>
    (unat s + le_sum f ?q ?r) mod 65535 = (unat acc + le_sum f p (4 * ?k + ?r)) mod 65535 \<and>
    unat s \<le> unat acc + 4294967296 * ?k \<and> unat acc \<le> unat s"
    using assms by (intro sum_dwords_eq) auto
  then obtain s where s: "sum_dwords ld p ?k acc = Some s"
    "(unat s + le_sum f ?q ?r) mod 65535 = (unat acc + le_sum f p len) mod 65535"
    "unat s \<le> unat acc + 4294967296 * ?k" "unat acc \<le> unat s"
    by auto
  have ld: "ld (?q + i) = Some (f (?q + i))" if "i < ?r" for i
  proof (rule assms(1))
    show "?q + i < p + len"
      using that div_mult_mod_eq [of len 4] by linarith
  qed simp
  let ?last = "\<lambda>b. ntohs (push_bit 8 (ucast (b :: u8)))"
  have last: "unat (?last b) = unat b" for b
  proof -
    have "?last b = le16 b 0"
      by (rule bit_word_eqI) (auto simp: ntohs_def le16_def bit_simps dest: bit_imp_le_length)
    then show ?thesis
      by (simp add: unat_le16)
  qed
  have bound: "unat s + 131072 < 18446744073709551616"
    using s(3) assms(2) unfolding add_mult_distrib2 by linarith
  have add: "unat (s + ucast w) = unat s + unat w" for w :: u16
    using bound unat_u16_less [of w] by (intro unat_u64_add) (linarith, simp add: unat_ucast_u64)
  have add2: "unat (s + ucast w + ucast v) = unat s + unat w + unat v" for w v :: u16
    using bound unat_u16_less [of w] unat_u16_less [of v] add [of w]
    by (subst unat_u64_add [OF _ unat_ucast_u64(2)]) (linarith, simp)
  have "\<exists>t. ip_checksum_partial ld p len acc = Some t \<and> unat t = unat s + le_sum f ?q ?r"
  proof -
    consider "?r = 0" | "?r = 1" | "?r = 2" | "?r = 3"
      by linarith
    then show ?thesis
    proof cases
      case 1
      then show ?thesis
        by (simp add: ip_checksum_partial_def s(1))
    next
      case 2
      with ld [of 0] show ?thesis
        by (simp add: ip_checksum_partial_def s(1) add last)
    next
      case 3
      with ld [of 0] ld [of 1] show ?thesis
        by (simp add: ip_checksum_partial_def Let_def s(1) add unat_le16 numeral_2_eq_2)
    next
      case 4
      with ld [of 0] ld [of 1] ld [of 2] show ?thesis
        by (simp add: ip_checksum_partial_def Let_def s(1) add2 last unat_le16 numeral_3_eq_3 numeral_2_eq_2)
    qed
  qed
  moreover have "le_sum f ?q ?r \<le> 131072"
  proof -
    have "?r \<le> 3"
      by simp
    then show ?thesis
      using unat_u8_less [of "f ?q"] unat_u8_less [of "f (?q + 1)"] unat_u8_less [of "f (?q + 2)"]
      by (auto simp: le_Suc_eq numeral_3_eq_3 simp del: unat_u8_less)
  qed
  ultimately show ?thesis
    using s(2,3,4) by auto
qed

lemma fold_mod:
  "(n div 65536 + n mod 65536) mod 65535 = n mod (65535 :: nat)"
  "(n div 4294967296 + n mod 4294967296) mod 65535 = n mod (65535 :: nat)"
proof -
  have "n = (n div 65536 + n mod 65536) + 65535 * (n div 65536)"
    using div_mult_mod_eq [of n 65536] by linarith
  then show "(n div 65536 + n mod 65536) mod 65535 = n mod 65535"
    by (metis mod_mult_self2)
  have "n = (n div 4294967296 + n mod 4294967296) + 65535 * (65537 * (n div 4294967296))"
    using div_mult_mod_eq [of n 4294967296] by linarith
  then show "(n div 4294967296 + n mod 4294967296) mod 65535 = n mod 65535"
    by (metis mod_mult_self2)
qed

lemma fold_high_eq: "unat (fold_high s) < 4294967296 \<and> unat (fold_high s) mod 65535 = unat s mod 65535"
proof (induction s rule: fold_high.induct)
  case (1 s)
  then show ?case
    using fold_high_test [of s]
    by (cases "4294967296 \<le> unat s") (simp_all add: fold_high.simps [of s] fold_high_step fold_mod)
qed

lemma fold_low_eq:
  "unat s < 4294967296 \<Longrightarrow> unat (fold_low s) < 65536 \<and> unat (fold_low s) mod 65535 = unat s mod 65535"
proof (induction s rule: fold_low.induct)
  case (1 s)
  show ?case
  proof (cases "s AND 0xffff0000 = 0")
    case False
    have "unat (drop_bit 16 s + (s AND 0xffff)) < 4294967296"
      unfolding fold_low_step using "1.prems" by linarith
    with False "1.IH" show ?thesis
      by (simp add: fold_low.simps [of s] fold_low_step fold_mod)
  next
    case True
    have "s = take_bit 16 s"
    proof (rule bit_word_eqI)
      fix n :: nat
      assume n: "n < LENGTH(64)"
      have "take_bit 32 s = s"
        using "1.prems" by (simp add: take_bit_eq_mod word_unat_eq_iff unat_mod_distrib)
      then have hi: "bit s n \<Longrightarrow> n < 32"
        by (metis bit_take_bit_iff)
      have "(0xffff0000 :: u64) = push_bit 16 (mask 16)"
        by (simp add: mask_eq_exp_minus_1 push_bit_eq_mult)
      then have "\<not> bit (s AND push_bit 16 (mask 16)) n"
        using True by simp
      then have "bit s n \<Longrightarrow> \<not> (16 \<le> n \<and> n < 32)"
        using n by (auto simp: bit_and_iff bit_push_bit_iff bit_mask_iff)
      with hi show "bit s n = bit (take_bit 16 s) n"
        using n by (auto simp: bit_take_bit_iff)
    qed
    then have "unat s = unat (s AND mask 16)"
      by (simp only: take_bit_eq_mask)
    then have "unat s = unat s mod 65536"
      using unat_low [of 16 s] by simp
    then have "unat s < 65536"
      using mod_less_divisor [of 65536 "unat s"] by linarith
    with True show ?thesis
      by (simp add: fold_low.simps [of s])
  qed
qed

lemma ip_checksum_fold_completes: "(unat s + unat (ip_checksum_fold s)) mod 65535 = 0"
proof -
  let ?f = "fold_low (fold_high s)"
  have f: "unat ?f < 65536" "unat ?f mod 65535 = unat s mod 65535"
    using fold_high_eq [of s] fold_low_eq [of "fold_high s"] by simp_all
  have "ip_checksum_fold s = NOT (ucast ?f)"
    by (rule bit_word_eqI) (auto simp: ip_checksum_fold_def bit_simps)
  moreover have "unat (ucast ?f :: u16) = unat ?f"
    using f(1) by (simp add: unsigned_ucast_eq take_bit_eq_mod)
  moreover have "unat (NOT (w :: u16)) = 65535 - unat w" for w
    by (rule unat_not_u16)
  ultimately have "unat (ip_checksum_fold s) = 65535 - unat ?f"
    by simp
  moreover have "(unat ?f + (65535 - unat ?f)) mod 65535 = 0"
    using f(1) by simp
  ultimately show ?thesis
    using f(2) by (metis mod_add_left_eq)
qed

section \<open>Properties of the header walk\<close>

lemma ext_header_loop_total:
  "ETHER_HEADER_LENGTH + unat packet_size \<le> MAX_ETHER_FRAME \<Longrightarrow>
   \<exists>r p. ext_header_loop m packet_size h next_proto = Some (r, p) \<and>
     (\<forall>t. r = Some t \<longrightarrow> h \<le> t \<and> t \<le> ETHER_HEADER_LENGTH + unat packet_size + 4)"
proof (induction m packet_size h next_proto rule: ext_header_loop.induct)
  case (1 m packet_size h next_proto)
  let ?stop = "ETHER_HEADER_LENGTH + unat packet_size"
  consider "?stop < h + 4" | "h + 4 \<le> ?stop" "next_proto = IPPROTO_FRAGMENT"
    | "h + 4 \<le> ?stop" "next_proto \<noteq> IPPROTO_FRAGMENT"
        "next_proto = IPPROTO_HOPOPTS \<or> next_proto = IPPROTO_ROUTING \<or> next_proto = IPPROTO_DSTOPTS"
    | "h + 4 \<le> ?stop" "next_proto \<noteq> IPPROTO_FRAGMENT"
        "\<not> (next_proto = IPPROTO_HOPOPTS \<or> next_proto = IPPROTO_ROUTING \<or> next_proto = IPPROTO_DSTOPTS)"
    by linarith
  then show ?case
  proof cases
    case 2
    with "1.prems" have "ld16 m (h + 2) = Some (rd16 m (h + 2))" "ld8 m h = Some (m h)"
      by (simp_all add: access_simps)
    with 2 show ?thesis
      by (simp add: ext_header_loop.simps [of m packet_size h])
  next
    case 3
    have "h + 1 < MAX_ETHER_FRAME"
      using 3(1) "1.prems" by linarith
    then have ld: "ld8 m h = Some (m h)" "ld8 m (h + 1) = Some (m (h + 1))"
      by (simp_all add: ld8_in)
    have "\<exists>r p. ext_header_loop m packet_size (h + 8 + 8 * unat (m (h + 1))) (m h) = Some (r, p) \<and>
      (\<forall>t. r = Some t \<longrightarrow> h + 8 + 8 * unat (m (h + 1)) \<le> t \<and> t \<le> ?stop + 4)"
      using 3 "1.prems" ld by (intro "1.IH") auto
    then obtain r q where "ext_header_loop m packet_size (h + 8 + 8 * unat (m (h + 1))) (m h) = Some (r, q)"
      and "\<forall>t. r = Some t \<longrightarrow> h + 8 + 8 * unat (m (h + 1)) \<le> t \<and> t \<le> ?stop + 4"
      by blast
    with 3 ld show ?thesis
      by (auto simp: ext_header_loop.simps [of m packet_size h])
  qed (simp_all add: ext_header_loop.simps [of m packet_size h])
qed

lemma find_transport_header_total:
  assumes "ETHER_HEADER_LENGTH + unat packet_size \<le> MAX_ETHER_FRAME"
  shows "\<exists>r p. find_transport_header m packet_size = Some (r, p) \<and>
    (\<forall>t. r = Some t \<longrightarrow> 54 \<le> t \<and> t \<le> ETHER_HEADER_LENGTH + unat packet_size + 4)"
  using ext_header_loop_total [OF assms, of m "ETHER_HEADER_LENGTH + 40" "ip6_next m"]
  by (auto simp: find_transport_header_def ETHER_HEADER_LENGTH_def)

text \<open>
  C37: for a packet that lies inside the array the walk over the extension headers ends, reads
  only inside the array, and the transport header it reports starts behind the IPv6 header
  and at most four bytes behind the packet's end.
\<close>

theorem find_transport_header_in_bounds:
  assumes "ETHER_HEADER_LENGTH + unat packet_size \<le> MAX_ETHER_FRAME"
  shows "find_transport_header m packet_size \<noteq> None \<and>
    (\<forall>t p. find_transport_header m packet_size = Some (Some t, p) \<longrightarrow>
       54 \<le> t \<and> t \<le> ETHER_HEADER_LENGTH + unat packet_size + 4)"
  using find_transport_header_total [OF assms, of m] by auto

theorem find_transport_header_in_bounds_witness:
  "find_transport_header (\<lambda>_. 0x60) 1000 \<noteq> None"
  using find_transport_header_in_bounds [of 1000] by (simp add: ETHER_HEADER_LENGTH_def MAX_ETHER_FRAME_def)

text \<open>The fragment offset of a fragment header at \<open>h\<close>, in units of eight bytes (RFC 8200).\<close>

definition frag_offset :: "frame \<Rightarrow> nat \<Rightarrow> nat" where
  "frag_offset m h = unat (ntohs (rd16 m (h + 2))) div 8"

lemma fragment_mask: "rd16 m i AND 0xFC = 0 \<longleftrightarrow> unat (ntohs (rd16 m i)) div 8 < 128"
proof -
  have m: "(0xFC :: u16) = push_bit 2 (mask 6)"
    by (simp add: mask_eq_exp_minus_1 push_bit_eq_mult)
  have window: "bit (push_bit 2 (mask 6) :: u16) j \<longleftrightarrow> 2 \<le> j \<and> j < 8" for j
    unfolding bit_push_bit_iff bit_mask_iff possible_bit_word by auto
  have zero: "x = 0 \<longleftrightarrow> (\<forall>j. \<not> bit x j)" for x :: u16
    by (auto intro: bit_eqI)
  have low: "bit (rd16 m i) j = bit (m i) j" if "j < 8" for j
    using that by (simp add: rd16_def le16_def bit_simps)
  have "rd16 m i AND 0xFC = 0 \<longleftrightarrow> (\<forall>j. bit (rd16 m i) j \<longrightarrow> \<not> (2 \<le> j \<and> j < 8))"
    unfolding m zero bit_and_iff window by blast
  also have "\<dots> \<longleftrightarrow> (\<forall>j. bit (m i) j \<longrightarrow> j < 2)"
  proof -
    have "bit (m i) j \<Longrightarrow> j < 8" for j
      by (auto dest: bit_imp_le_length)
    with low show ?thesis
      by (meson linorder_not_le)
  qed
  also have "\<dots> \<longleftrightarrow> take_bit 2 (m i) = m i"
  proof
    assume "\<forall>j. bit (m i) j \<longrightarrow> j < 2"
    then show "take_bit 2 (m i) = m i"
      by (auto intro!: bit_word_eqI simp: bit_take_bit_iff)
  next
    assume "take_bit 2 (m i) = m i"
    then have "bit (take_bit 2 (m i)) j = bit (m i) j" for j
      by simp
    then show "\<forall>j. bit (m i) j \<longrightarrow> j < 2"
      unfolding bit_take_bit_iff by blast
  qed
  also have "\<dots> \<longleftrightarrow> unat (m i) mod 4 = unat (m i)"
    by (simp add: take_bit_eq_mod word_unat_eq_iff unat_mod_distrib)
  also have "\<dots> \<longleftrightarrow> unat (m i) < 4"
    using mod_less_divisor [of 4 "unat (m i)"] by (auto simp del: mod_less_divisor)
  also have "\<dots> \<longleftrightarrow> unat (ntohs (rd16 m i)) div 8 < 128"
  proof -
    have "unat (ntohs (rd16 m i)) div 8 < 128 \<longleftrightarrow> unat (m (i + 1)) + 256 * unat (m i) < 1024"
      by (simp add: rd16_def wire_simps unat_le16 div_less_iff_less_mult)
    moreover have "unat (m (i + 1)) < 256"
      by (rule unat_u8_less)
    ultimately show ?thesis
      by linarith
  qed
  finally show ?thesis .
qed

text \<open>
  Of the fragments of a datagram the walk rejects only those at byte offset 1024 and
  beyond: a packet whose fragment header follows directly gets a transport header exactly when
  its fragment offset is below 128 units, although only offset 0 carries one.
\<close>

theorem fragment_test_too_weak:
  assumes "ip6_v m = 6" "ip6_next m = IPPROTO_FRAGMENT" "44 \<le> packet_size"
  shows "find_transport_header m packet_size =
    Some (if frag_offset m 54 < 128 then Some 62 else None, m 54)"
  using assms
  by (simp add: find_transport_header_def ext_header_loop.simps [of m packet_size] ETHER_HEADER_LENGTH_def
      word_le_nat_alt access_simps MAX_ETHER_FRAME_def fragment_mask frag_offset_def)

definition sample_fragment :: frame where
  "sample_fragment = (\<lambda>_. 0)(14 := 0x60, 20 := 44, 54 := 6, 57 := 8)"

theorem fragment_test_too_weak_witness:
  "frag_offset sample_fragment 54 = 1 \<and> find_transport_header sample_fragment 100 = Some (Some 62, 6)"
proof -
  have "frag_offset sample_fragment 54 = 1"
    by (simp add: frag_offset_def sample_fragment_def rd16_def wire_simps unat_le16)
  moreover have "ip6_v sample_fragment = 6" "ip6_next sample_fragment = IPPROTO_FRAGMENT"
    by (simp_all add: ip6_v_def ip6_next_def sample_fragment_def ext_proto_defs drop_bit_eq_div)
  ultimately show ?thesis
    using fragment_test_too_weak [of sample_fragment 100] by (simp add: sample_fragment_def)
qed

section \<open>The stored checksum\<close>

lemma wr16_at: "wr16 m i w i = lo8 w" "wr16 m i w (Suc i) = hi8 w"
  by (simp_all add: wr16_apply)

lemma le_sum_wr16:
  "off + 2 \<le> n \<Longrightarrow> even off \<Longrightarrow>
   le_sum (wr16 m (p + off) c) p n = le_sum (wr16 m (p + off) 0) p n + unat c"
proof (induction n arbitrary: p off rule: less_induct)
  case (less n)
  define n' where "n' = n - 2"
  with less.prems have n: "n = Suc (Suc n')"
    by simp
  have zero: "lo8 0 = 0" "hi8 0 = 0"
    by (simp_all add: lo8_def hi8_def)
  show ?case
  proof (cases "off = 0")
    case True
    have "le_sum (wr16 m p v) (p + 2) n' = le_sum m (p + 2) n'" for v
    proof -
      have "\<And>i. p + 2 \<le> i \<Longrightarrow> wr16 m p v i = m i"
        by (simp add: wr16_apply)
      then have "p + 2 \<le> q \<Longrightarrow> le_sum (wr16 m p v) q k = le_sum m q k" for q k
        by (induction m q k rule: le_sum.induct) auto
      then show ?thesis
        by blast
    qed
    with True show ?thesis
      using unat_eq_bytes16 [of c] by (simp add: n wr16_at zero)
  next
    case False
    define off' where "off' = off - 2"
    with False less.prems have off: "off = Suc (Suc off')" "even off'"
      by (auto elim: evenE)
    with less.prems n have "le_sum (wr16 m (p + 2 + off') c) (p + 2) n'
        = le_sum (wr16 m (p + 2 + off') 0) (p + 2) n' + unat c"
      by (intro less.IH) auto
    moreover have "wr16 m (Suc (Suc (p + off'))) v p = m p"
      "wr16 m (Suc (Suc (p + off'))) v (Suc p) = m (Suc p)" for v
      by (simp_all add: wr16_apply)
    ultimately show ?thesis
      by (simp add: n off)
  qed
qed

text \<open>
  The receiver's test for an IPv6 segment of \<open>len\<close> bytes at \<open>h\<close>: together with the pseudo
  header of RFC 8200 it sums to a multiple of 65535.
\<close>

definition v6_segment_valid :: "u8 \<Rightarrow> nat \<Rightarrow> u32 \<Rightarrow> frame \<Rightarrow> bool" where
  "v6_segment_valid protocol h len m =
     ((le_sum m h (unat len) + le_sum ((!) (pseudo_header (ip6_src m) (ip6_dst m) protocol len)) 0 40)
        mod 65535 = 0)"

lemma length_pseudo_header: "length (pseudo_header s d p l) = 40"
  by (simp add: pseudo_header_def v6_bytes_def Let_def)

lemma tcp_udp_v6_checksum_eq:
  assumes "h + unat len \<le> MAX_ETHER_FRAME"
  shows "\<exists>c. tcp_udp_v6_checksum m src dst protocol h len = Some c \<and>
    (le_sum m h (unat len) + le_sum ((!) (pseudo_header src dst protocol len)) 0 40 + unat c) mod 65535 = 0"
proof -
  let ?ps = "pseudo_header src dst protocol len"
  obtain s0 where s0: "ip_checksum_partial (list_ld ?ps) 0 40 0 = Some s0"
    "unat s0 mod 65535 = le_sum ((!) ?ps) 0 40 mod 65535" "unat s0 \<le> 47244640256"
    using ip_checksum_partial_eq [of 0 40 "list_ld ?ps" "(!) ?ps" 0]
    by (auto simp: list_ld_def length_pseudo_header)
  have "unat len div 4 \<le> 400"
    using assms by (simp add: MAX_ETHER_FRAME_def)
  then have "unat s0 + 4294967296 * (unat len div 4 + 2) < 18446744073709551616"
    using s0(3) unfolding add_mult_distrib2 by linarith
  then obtain s where s: "ip_checksum_partial (ld8 m) h (unat len) s0 = Some s"
    "unat s mod 65535 = (unat s0 + le_sum m h (unat len)) mod 65535"
    using ip_checksum_partial_eq [of h "unat len" "ld8 m" m s0] assms by (auto simp: ld8_in)
  have "(unat s0 + le_sum m h (unat len) + unat (ip_checksum_fold s)) mod 65535 = 0"
    using ip_checksum_fold_completes [of s] mod_add_cong [OF s(2) refl, of "unat (ip_checksum_fold s)"]
    by simp
  then have "(le_sum m h (unat len) + le_sum ((!) ?ps) 0 40 + unat (ip_checksum_fold s)) mod 65535 = 0"
    using mod_add_cong [OF s0(2) refl, of "le_sum m h (unat len) + unat (ip_checksum_fold s)"]
    by (simp only: ac_simps)
  then show ?thesis
    by (auto simp: tcp_udp_v6_checksum_def tcp_udp_v6_header_checksum_partial_def s0(1) s(1))
qed

lemma rd128_wr16: "i \<ge> j + 16 \<Longrightarrow> rd128 (wr16 m i v) j = rd128 m j"
  unfolding rd128_def by (rule arg_cong [where f = of_bytes]) (auto simp: wr16_apply)

text \<open>
  When the walk finds a TCP, UDP or ICMPv6 header whose checksum field lies inside the
  packet, the recalculation succeeds, changes only that field, and the segment passes the
  receiver's test.
\<close>

theorem v6_checksum_valid:
  assumes "find_transport_header (m_IBuffer packet) (m_Length packet - 14) = Some (Some h, protocol)"
    and "checksum_offset protocol = Some off" "h + off + 2 \<le> unat (m_Length packet)"
    and "14 \<le> unat (m_Length packet)" "unat (m_Length packet) \<le> MAX_ETHER_FRAME"
  shows "\<exists>packet'. recalculate_tcp_udp_checksum packet = Some packet' \<and>
    m_Length packet' = m_Length packet \<and>
    v6_segment_valid protocol h (m_Length packet - of_nat h) (m_IBuffer packet') \<and>
    (\<forall>i. i \<noteq> h + off \<longrightarrow> i \<noteq> h + off + 1 \<longrightarrow> m_IBuffer packet' i = m_IBuffer packet i)"
proof -
  let ?m = "m_IBuffer packet" and ?len = "m_Length packet - of_nat h :: u32"
  let ?z = "wr16 ?m (h + off) 0"
  have h: "54 \<le> h"
    using find_transport_header_total [of "m_Length packet - 14" ?m] assms(1,4,5) unat_sub_of_nat [of 14 "m_Length packet"]
    by (auto simp: ETHER_HEADER_LENGTH_def)
  have len: "unat ?len = unat (m_Length packet) - h"
    using assms(3) by (intro unat_sub_of_nat) simp
  have off: "even off" "off + 2 \<le> unat ?len"
    using assms(2,3) len by (auto simp: checksum_offset_def split: if_splits)
  have inside: "h + unat ?len \<le> MAX_ETHER_FRAME"
    unfolding len using assms(3,5) by simp
  obtain c where c: "tcp_udp_v6_checksum ?z (ip6_src ?z) (ip6_dst ?z) protocol h ?len = Some c"
    "(le_sum ?z h (unat ?len) + le_sum ((!) (pseudo_header (ip6_src ?z) (ip6_dst ?z) protocol ?len)) 0 40
       + unat c) mod 65535 = 0"
    using tcp_udp_v6_checksum_eq [OF inside, of ?z "ip6_src ?z" "ip6_dst ?z" protocol]
    by (elim exE conjE) (rule that)
  let ?m' = "wr16 ?z (h + off) c"
  have m': "?m' = wr16 ?m (h + off) c"
    by (simp add: wr16_def fun_eq_iff)
  have addr: "ip6_src (wr16 ?m (h + off) v) = ip6_src ?m" "ip6_dst (wr16 ?m (h + off) v) = ip6_dst ?m" for v
    using h by (simp_all add: ip6_src_def ip6_dst_def rd128_wr16)
  have st: "st16 f (h + off) v = Some (wr16 f (h + off) v)" for f v
    using assms(3,5) by (simp add: st16_in)
  have "recalculate_tcp_udp_checksum packet = Some (packet\<lparr>m_IBuffer := ?m'\<rparr>)"
    using assms(1,2) c(1) by (simp add: recalculate_tcp_udp_checksum_def st)
  moreover have "v6_segment_valid protocol h ?len ?m'"
    using c(2) le_sum_wr16 [OF off(2,1), of ?m h c]
    by (simp add: v6_segment_valid_def m' addr ac_simps)
  ultimately show ?thesis
    by (auto simp: wr16_apply)
qed

definition sample_v6 :: "u8 \<Rightarrow> frame" where
  "sample_v6 proto = (\<lambda>_. 0)(14 := 0x60, 19 := 20, 20 := proto, 37 := 1, 53 := 2)"

lemma find_sample_v6:
  "find_transport_header (sample_v6 6) 80 = Some (Some 54, 6)"
  by (simp add: find_transport_header_def ext_header_loop.simps [of _ _ 54] sample_v6_def ip6_v_def
      ip6_next_def drop_bit_eq_div ext_proto_defs ETHER_HEADER_LENGTH_def)

theorem v6_checksum_valid_witness:
  "\<exists>packet'. recalculate_tcp_udp_checksum
       \<lparr>m_dwDeviceFlags = 0, m_Length = 94, m_IBuffer = sample_v6 6\<rparr> = Some packet' \<and>
     v6_segment_valid 6 54 40 (m_IBuffer packet')"
  using v6_checksum_valid [of "\<lparr>m_dwDeviceFlags = 0, m_Length = 94, m_IBuffer = sample_v6 6\<rparr>" 54 6 16]
  by (auto simp: find_sample_v6 checksum_offset_def proto_defs MAX_ETHER_FRAME_def)

end
