(* ===== verification/Aging_Table.thy ===== *)
theory Aging_Table
  imports Prelude
begin

text \<open>
  The interface of the time-stamped tables of the program: the connection table of the TCP
  redirector (5 minutes), the endpoint table of the UDP redirector (15 minutes), the mapper
  of the router (30 seconds) and the cache of the process lookup (2 seconds).  Each stamps an
  entry when it is made or used, and a sweep deletes the entries that are too old.
\<close>

locale aging_table =
  fixes lookup :: "'s \<Rightarrow> 'k \<Rightarrow> 'v option"
    and stamp :: "'v \<Rightarrow> time_point"
    and sweep :: "time_point \<Rightarrow> 's \<Rightarrow> 's"
    and timeout :: time_point
  assumes sweep_lookup:
      "lookup (sweep now s) k =
        (case lookup s k of None \<Rightarrow> None
         | Some v \<Rightarrow> if timeout < now - stamp v then None else Some v)"
    and timeout_nonneg: "0 \<le> timeout"
begin

lemma sweep_keeps_young:
  "lookup s k = Some v \<Longrightarrow> now \<le> stamp v + timeout \<Longrightarrow> lookup (sweep now s) k = Some v"
  by (simp add: sweep_lookup)

lemma sweep_deletes_old:
  "lookup s k = Some v \<Longrightarrow> stamp v + timeout < now \<Longrightarrow> lookup (sweep now s) k = None"
  by (simp add: sweep_lookup)

lemma sweep_only_deletes:
  "lookup (sweep now s) k = Some v \<Longrightarrow> lookup s k = Some v \<and> now \<le> stamp v + timeout"
  by (auto simp: sweep_lookup split: option.splits if_splits)

lemma sweep_monotone:
  "lookup (sweep now s) k = None \<Longrightarrow> now \<le> later \<Longrightarrow> lookup (sweep later s) k = None"
  by (auto simp: sweep_lookup split: option.splits if_splits)

lemma sweep_twice:
  "now \<le> later \<Longrightarrow> lookup (sweep later (sweep now s)) k = lookup (sweep later s) k"
  by (auto simp: sweep_lookup split: option.splits)

text \<open>An entry stamped at the time of the sweep survives it.\<close>

lemma sweep_keeps_current:
  "lookup s k = Some v \<Longrightarrow> stamp v = now \<Longrightarrow> lookup (sweep now s) k = Some v"
  using timeout_nonneg by (simp add: sweep_lookup)

end

end
