(* ===== verification/Tcp_Redirect.thy ===== *)
theory Tcp_Redirect
  imports Aging_Table Checksums Ipv6_Helper
begin

text \<open>
  \<^verbatim>\<open>ndisapi::tcp_local_redirect\<close> (ndisapi/tcp_local_redirect.h): outgoing TCP packets of a
  proxied connection are turned around to the local proxy, and the proxy's answers are turned
  back into answers of the original server.  The table maps the server's address and the
  client's port to the server's port and the time of last use.  The template is instantiated
  for IPv4 and IPv6; both share the connection tracking, written once here.
\<close>

unbundle bit_operations_syntax

section \<open>State\<close>

type_synonym 'a connection_table = "'a ip_endpoint \<rightharpoonup> u16 \<times> time_point"

record 'a tcp_local_redirect =
  redirected_connections :: "'a connection_table"
  proxy_port :: u16
  terminated :: bool

definition new_tcp_local_redirect :: "u16 \<Rightarrow> 'a tcp_local_redirect" where
  "new_tcp_local_redirect port =
     \<lparr>redirected_connections = Map.empty, proxy_port = htons port, terminated = False\<rparr>"

definition get_proxy_port :: "'a tcp_local_redirect \<Rightarrow> u16" where
  "get_proxy_port r = ntohs (proxy_port r)"

definition set_proxy_port :: "u16 \<Rightarrow> 'a tcp_local_redirect \<Rightarrow> 'a tcp_local_redirect" where
  "set_proxy_port port r = r\<lparr>proxy_port := htons port\<rparr>"

definition stop_redirect :: "'a tcp_local_redirect \<Rightarrow> 'a tcp_local_redirect" where
  "stop_redirect r = r\<lparr>terminated := True\<rparr>"

section \<open>Connection tracking\<close>

text \<open>
  A packet with SYN and without ACK makes an entry unless there is one (\<^verbatim>\<open>emplace\<close>); any other
  packet needs one, erases it on RST or FIN and restarts its time otherwise.  \<open>None\<close> is the
  early \<^verbatim>\<open>return false\<close>.
\<close>

definition is_syn :: "u8 \<Rightarrow> bool" where
  "is_syn flags \<longleftrightarrow> flags AND (TH_SYN OR TH_ACK) = TH_SYN"

definition is_closing :: "u8 \<Rightarrow> bool" where
  "is_closing flags \<longleftrightarrow> flags AND TH_RST \<noteq> 0 \<or> flags AND TH_FIN \<noteq> 0"

definition touch_connection ::
  "time_point \<Rightarrow> 'a ip_endpoint \<Rightarrow> u16 \<Rightarrow> u8 \<Rightarrow> 'a connection_table \<Rightarrow> 'a connection_table" where
  "touch_connection now key port flags tbl =
     (if is_closing flags then tbl(key := None) else tbl(key \<mapsto> (port, now)))"

definition track_client ::
  "time_point \<Rightarrow> 'a ip_endpoint \<Rightarrow> u16 \<Rightarrow> u8 \<Rightarrow> 'a connection_table \<Rightarrow> 'a connection_table option" where
  "track_client now key dport flags tbl =
     (if is_syn flags
      then (case tbl key of Some _ \<Rightarrow> None | None \<Rightarrow> Some (tbl(key \<mapsto> (dport, now))))
      else (case tbl key of None \<Rightarrow> None
            | Some (port, _) \<Rightarrow> Some (touch_connection now key port flags tbl)))"

definition track_server ::
  "time_point \<Rightarrow> 'a ip_endpoint \<Rightarrow> u8 \<Rightarrow> 'a connection_table \<Rightarrow> (u16 \<times> 'a connection_table) option" where
  "track_server now key flags tbl =
     (case tbl key of None \<Rightarrow> None
      | Some (port, _) \<Rightarrow> Some (port, touch_connection now key port flags tbl))"

section \<open>Packets from the client\<close>

definition process_client_to_server_packet_v4 ::
  "time_point \<Rightarrow> ip_address_v4 tcp_local_redirect \<Rightarrow> u16 \<Rightarrow> intermediate_buffer \<Rightarrow>
   (bool \<times> ip_address_v4 tcp_local_redirect \<times> intermediate_buffer) option" where
  "process_client_to_server_packet_v4 now r port packet =
     (let port = (if port = 0 then proxy_port r else port); m = m_IBuffer packet; t = ip_th m in
      if ntohs (h_proto m) \<noteq> ETH_P_IP then Some (False, r, packet)
      else if ip_p m \<noteq> IPPROTO_TCP then Some (False, r, packet)
      else case track_client now (endpoint (ip_dst m) (th_sport m t)) (th_dport m t) (th_flags m t)
                  (redirected_connections r) of
        None \<Rightarrow> Some (False, r, packet)
      | Some tbl \<Rightarrow> do {
          let m = wr16 (swap_ip (swap_eth m)) (t + 2) port;
          m \<leftarrow> recalculate_tcp m;
          Some (True, r\<lparr>redirected_connections := tbl\<rparr>, packet\<lparr>m_IBuffer := m\<rparr>)
        })"

definition process_client_to_server_packet_v6 ::
  "time_point \<Rightarrow> ip_address_v6 tcp_local_redirect \<Rightarrow> u16 \<Rightarrow> intermediate_buffer \<Rightarrow>
   (bool \<times> ip_address_v6 tcp_local_redirect \<times> intermediate_buffer) option" where
  "process_client_to_server_packet_v6 now r port packet =
     (let port = (if port = 0 then proxy_port r else port); m = m_IBuffer packet in
      if ntohs (h_proto m) \<noteq> ETH_P_IPV6 then Some (False, r, packet)
      else do {
        (header, proto) \<leftarrow> find_transport_header m (m_Length packet - 14);
        case header of
          None \<Rightarrow> Some (False, r, packet)
        | Some t \<Rightarrow>
            if proto \<noteq> IPPROTO_TCP then Some (False, r, packet)
            else do {
              flags \<leftarrow> ld8 m (t + 13);
              sport \<leftarrow> ld16 m t;
              dport \<leftarrow> ld16 m (t + 2);
              case track_client now (endpoint (ip6_dst m) sport) dport flags (redirected_connections r) of
                None \<Rightarrow> Some (False, r, packet)
              | Some tbl \<Rightarrow> do {
                  m \<leftarrow> st16 (swap_ip6 (swap_eth m)) (t + 2) port;
                  packet \<leftarrow> recalculate_tcp_udp_checksum (packet\<lparr>m_IBuffer := m\<rparr>);
                  Some (True, r\<lparr>redirected_connections := tbl\<rparr>, packet)
                }
            }
      })"

section \<open>Packets from the proxy\<close>

definition process_server_to_client_packet_v4 ::
  "time_point \<Rightarrow> ip_address_v4 tcp_local_redirect \<Rightarrow> intermediate_buffer \<Rightarrow>
   (bool \<times> ip_address_v4 tcp_local_redirect \<times> intermediate_buffer) option" where
  "process_server_to_client_packet_v4 now r packet =
     (let m = m_IBuffer packet; t = ip_th m in
      if ntohs (h_proto m) \<noteq> ETH_P_IP then Some (False, r, packet)
      else if ip_p m \<noteq> IPPROTO_TCP then Some (False, r, packet)
      else case track_server now (endpoint (ip_dst m) (th_dport m t)) (th_flags m t)
                  (redirected_connections r) of
        None \<Rightarrow> Some (False, r, packet)
      | Some (port, tbl) \<Rightarrow> do {
          let m = swap_ip (swap_eth (wr16 m t port));
          m \<leftarrow> recalculate_tcp m;
          Some (True, r\<lparr>redirected_connections := tbl\<rparr>, packet\<lparr>m_IBuffer := m\<rparr>)
        })"

definition process_server_to_client_packet_v6 ::
  "time_point \<Rightarrow> ip_address_v6 tcp_local_redirect \<Rightarrow> intermediate_buffer \<Rightarrow>
   (bool \<times> ip_address_v6 tcp_local_redirect \<times> intermediate_buffer) option" where
  "process_server_to_client_packet_v6 now r packet =
     (let m = m_IBuffer packet in
      if ntohs (h_proto m) \<noteq> ETH_P_IPV6 then Some (False, r, packet)
      else do {
        (header, proto) \<leftarrow> find_transport_header m (m_Length packet - 14);
        case header of
          None \<Rightarrow> Some (False, r, packet)
        | Some t \<Rightarrow>
            if proto \<noteq> IPPROTO_TCP then Some (False, r, packet)
            else do {
              dport \<leftarrow> ld16 m (t + 2);
              case redirected_connections r (endpoint (ip6_dst m) dport) of
                None \<Rightarrow> Some (False, r, packet)
              | Some (port, _) \<Rightarrow> do {
                  m \<leftarrow> st16 m t port;
                  flags \<leftarrow> ld8 m (t + 13);
                  let tbl = touch_connection now (endpoint (ip6_dst m) dport) port flags
                              (redirected_connections r);
                  packet \<leftarrow> recalculate_tcp_udp_checksum (packet\<lparr>m_IBuffer := swap_ip6 (swap_eth m)\<rparr>);
                  Some (True, r\<lparr>redirected_connections := tbl\<rparr>, packet)
                }
            }
      })"

section \<open>Cleanup\<close>

text \<open>One pass of the cleanup thread: connections not used for five minutes are erased.\<close>

definition tcp_timed_out :: "time_point \<Rightarrow> 'a ip_endpoint \<times> u16 \<times> time_point \<Rightarrow> bool" where
  "tcp_timed_out current_time = (\<lambda>(key, port, t). minutes 5 < current_time - t)"

definition tcp_cleanup :: "time_point \<Rightarrow> 'a connection_table \<Rightarrow> 'a connection_table" where
  "tcp_cleanup current_time tbl = map_erase_if (tcp_timed_out current_time) tbl"

definition tcp_cleanup_pass :: "time_point \<Rightarrow> 'a tcp_local_redirect \<Rightarrow> 'a tcp_local_redirect" where
  "tcp_cleanup_pass current_time r =
     (if terminated r then r
      else r\<lparr>redirected_connections := tcp_cleanup current_time (redirected_connections r)\<rparr>)"

interpretation tcp_table: aging_table "\<lambda>tbl. tbl" snd tcp_cleanup "minutes 5"
  by unfold_locales (auto simp: tcp_cleanup_def map_erase_if_def tcp_timed_out_def split: option.splits)

section \<open>Facts about the tracking\<close>

lemma track_client_key:
  "track_client now key dport flags tbl = Some tbl' \<Longrightarrow> \<not> is_closing flags \<or> is_syn flags \<Longrightarrow>
   \<exists>port. tbl' key = Some (port, now) \<and>
     (port = dport \<and> is_syn flags \<or> (\<exists>t. tbl key = Some (port, t) \<and> \<not> is_syn flags))"
  by (auto simp: track_client_def touch_connection_def split: option.splits if_splits)

lemma track_client_other:
  "track_client now key dport flags tbl = Some tbl' \<Longrightarrow> k \<noteq> key \<Longrightarrow> tbl' k = tbl k"
  by (auto simp: track_client_def touch_connection_def split: option.splits if_splits)

lemma track_server_other:
  "track_server now key flags tbl = Some (port, tbl') \<Longrightarrow> k \<noteq> key \<Longrightarrow> tbl' k = tbl k"
  by (auto simp: track_server_def touch_connection_def split: option.splits if_splits)

lemma track_server_Some:
  "tbl key = Some (port, t) \<Longrightarrow>
   track_server now key flags tbl = Some (port, touch_connection now key port flags tbl)"
  by (simp add: track_server_def)

section \<open>Rewriting an IPv4 packet\<close>

text \<open>What a translated packet must carry: addresses and ports in place, checksums valid.\<close>

definition carries :: "frame \<Rightarrow> u32 \<Rightarrow> u16 \<Rightarrow> u32 \<Rightarrow> u16 \<Rightarrow> bool" where
  "carries m src sport dst dport \<longleftrightarrow>
     ip_src m = src \<and> th_sport m (ip_th m) = sport \<and> ip_dst m = dst \<and> th_dport m (ip_th m) = dport"

lemma swap_headers_apply:
  "swap_ip (swap_eth m) i =
     (if i < 6 then m (i + 6) else if i < 12 then m (i - 6)
      else if 26 \<le> i \<and> i < 30 then m (i + 4) else if 30 \<le> i \<and> i < 34 then m (i - 4) else m i)"
  by (auto simp: swap_ip_apply swap_eth_apply)

lemma swapped_fields:
  defines "f \<equiv> \<lambda>m. swap_ip (swap_eth m)"
  shows "ip_hl (f m) = ip_hl m" "ip_th (f m) = ip_th m" "ip_len (f m) = ip_len m" "ip_p (f m) = ip_p m"
    "ip_src (f m) = ip_dst m" "ip_dst (f m) = ip_src m" "h_proto (f m) = h_proto m"
    "34 \<le> i \<Longrightarrow> f m i = m i"
  by (simp_all add: f_def field_defs ip_th_def swap_headers_apply)

lemma wr16_fields:
  assumes "34 \<le> i"
  shows "ip_hl (wr16 m i v) = ip_hl m" "ip_th (wr16 m i v) = ip_th m" "ip_len (wr16 m i v) = ip_len m"
    "ip_p (wr16 m i v) = ip_p m" "ip_src (wr16 m i v) = ip_src m" "ip_dst (wr16 m i v) = ip_dst m"
    "h_proto (wr16 m i v) = h_proto m"
  using assms by (simp_all add: field_defs ip_th_def wr16_apply)

lemma wr16_below: "34 \<le> i \<Longrightarrow> j < 34 \<Longrightarrow> wr16 m i v j = m j"
  by (simp add: wr16_apply)

lemma seg_len_cong: "ip_len m = ip_len m' \<Longrightarrow> ip_hl m = ip_hl m' \<Longrightarrow> seg_len m = seg_len m'"
  by (simp add: seg_len_def)

lemma fits_cong: "ip_len m = ip_len m' \<Longrightarrow> ip_hl m = ip_hl m' \<Longrightarrow> fits m n = fits m' n"
  by (simp add: fits_def)

lemma rewritten_fields:
  assumes "rewritten proto (ip_th m + off) m m'" "fits m least" "4 \<le> off" "4 \<le> least"
  shows "ip_hl m' = ip_hl m" "ip_th m' = ip_th m" "ip_len m' = ip_len m" "ip_p m' = ip_p m"
    "ip_src m' = ip_src m" "ip_dst m' = ip_dst m" "h_proto m' = h_proto m"
    "th_sport m' (ip_th m) = th_sport m (ip_th m)" "th_dport m' (ip_th m) = th_dport m (ip_th m)"
proof -
  have th: "34 \<le> ip_th m" "ip_th m + 4 \<le> ip_th m + seg_len m"
    using seg_len_bounds(1,5) [OF assms(2)] assms(4) by auto
  then have *: "m' i = m i" if "i < ip_th m + 4" "i \<noteq> 24" "i \<noteq> 25" for i
    using assms(1,3) that unfolding rewritten_def by auto
  show "ip_hl m' = ip_hl m" "ip_th m' = ip_th m" "ip_len m' = ip_len m" "ip_p m' = ip_p m"
    "ip_src m' = ip_src m" "ip_dst m' = ip_dst m" "h_proto m' = h_proto m"
    "th_sport m' (ip_th m) = th_sport m (ip_th m)" "th_dport m' (ip_th m) = th_dport m (ip_th m)"
    using th(1) by (simp_all add: field_defs ip_th_def *)
qed

text \<open>A well-formed TCP datagram, and what translating it leaves alone.\<close>

definition tcp_datagram :: "frame \<Rightarrow> bool" where
  "tcp_datagram m \<longleftrightarrow> ntohs (h_proto m) = ETH_P_IP \<and> ip_p m = IPPROTO_TCP \<and> fits m 20"

definition segment_kept :: "frame \<Rightarrow> frame \<Rightarrow> bool" where
  "segment_kept m m' \<longleftrightarrow>
     ip_hl m' = ip_hl m \<and> ip_len m' = ip_len m \<and>
     (\<forall>i. ip_th m + 4 \<le> i \<longrightarrow> i < ip_th m + seg_len m \<longrightarrow> i \<noteq> ip_th m + 16 \<longrightarrow> i \<noteq> ip_th m + 17 \<longrightarrow>
        m' i = m i)"

definition translated :: "frame \<Rightarrow> frame \<Rightarrow> bool" where
  "translated m m' \<longleftrightarrow> tcp_datagram m' \<and> header_valid m' \<and> segment_valid IPPROTO_TCP m' \<and> segment_kept m m'"

lemma translate_v4:
  fixes port :: u16
  assumes d: "tcp_datagram m" and i: "i = ip_th m \<or> i = ip_th m + 2"
  defines "x \<equiv> wr16 (swap_ip (swap_eth m)) i port"
  shows "\<exists>m'. recalculate_tcp x = Some m' \<and> translated m m' \<and>
    carries m' (ip_dst m) (if i = ip_th m then port else th_sport m (ip_th m))
      (ip_src m) (if i = ip_th m then th_dport m (ip_th m) else port)"
proof -
  have t34: "34 \<le> ip_th m" "34 \<le> i"
    using d seg_len_bounds(5) [of m 20] i by (auto simp: tcp_datagram_def)
  have x: "ip_hl x = ip_hl m" "ip_th x = ip_th m" "ip_len x = ip_len m" "ip_p x = ip_p m"
    "ip_src x = ip_dst m" "ip_dst x = ip_src m" "h_proto x = h_proto m"
    by (simp_all add: x_def wr16_fields [OF t34(2)] swapped_fields)
  have fits: "fits x 20" "seg_len x = seg_len m"
    using d fits_cong [OF x(3,1)] seg_len_cong [OF x(3,1)] by (simp_all add: tcp_datagram_def)
  obtain m' where m': "recalculate_tcp x = Some m'"
    "rewritten IPPROTO_TCP (ip_th x + 16) x m'"
    using tcp_rewrite [OF _ fits(1)] d by (auto simp: tcp_datagram_def x)
  note f = rewritten_fields [OF m'(2) fits(1)]
  have ports: "th_sport x (ip_th m) = (if i = ip_th m then port else th_sport m (ip_th m))"
    "th_dport x (ip_th m) = (if i = ip_th m then th_dport m (ip_th m) else port)"
    using i t34 by (auto simp: x_def th_sport_def th_dport_def rd16_wr16_other rd16_def swapped_fields wr16_apply)
  have "segment_kept m m'"
    unfolding segment_kept_def
  proof (intro conjI allI impI)
    fix j
    assume j: "ip_th m + 4 \<le> j" "j < ip_th m + seg_len m" "j \<noteq> ip_th m + 16" "j \<noteq> ip_th m + 17"
    with m'(2) t34 have "m' j = x j"
      by (auto simp: rewritten_def x(2) fits(2))
    also have "\<dots> = m j"
      using j i t34 by (auto simp: x_def wr16_apply swapped_fields)
    finally show "m' j = m j" .
  qed (simp_all add: f x)
  moreover have "tcp_datagram m'"
    using d f x fits fits_cong [of m' m] by (simp add: tcp_datagram_def)
  ultimately have "translated m m'"
    using m'(2) by (simp add: translated_def rewritten_def)
  moreover have "carries m' (ip_dst m) (if i = ip_th m then port else th_sport m (ip_th m))
      (ip_src m) (if i = ip_th m then th_dport m (ip_th m) else port)"
    using f ports x by (simp add: carries_def)
  ultimately show ?thesis
    using m'(1) by blast
qed

lemma c2s_v4:
  assumes "tcp_datagram (m_IBuffer packet)"
    and "track_client now (endpoint (ip_dst (m_IBuffer packet)) (th_sport (m_IBuffer packet) (ip_th (m_IBuffer packet))))
           (th_dport (m_IBuffer packet) (ip_th (m_IBuffer packet)))
           (th_flags (m_IBuffer packet) (ip_th (m_IBuffer packet))) (redirected_connections r) = Some tbl"
  shows "\<exists>m'. process_client_to_server_packet_v4 now r port packet =
      Some (True, r\<lparr>redirected_connections := tbl\<rparr>, packet\<lparr>m_IBuffer := m'\<rparr>) \<and>
    translated (m_IBuffer packet) m' \<and>
    carries m' (ip_dst (m_IBuffer packet)) (th_sport (m_IBuffer packet) (ip_th (m_IBuffer packet)))
      (ip_src (m_IBuffer packet)) (if port = 0 then proxy_port r else port)"
proof -
  let ?m = "m_IBuffer packet" and ?port = "if port = 0 then proxy_port r else port"
  obtain m' where m': "recalculate_tcp (wr16 (swap_ip (swap_eth ?m)) (ip_th ?m + 2) ?port) = Some m'" "translated ?m m'"
    "carries m' (ip_dst ?m) (th_sport ?m (ip_th ?m)) (ip_src ?m) ?port"
    using translate_v4 [OF assms(1), of "ip_th ?m + 2" ?port] by auto
  moreover have "ntohs (h_proto ?m) = ETH_P_IP" "ip_p ?m = IPPROTO_TCP"
    using assms(1) by (simp_all add: tcp_datagram_def)
  ultimately show ?thesis
    using assms(2) by (intro exI [of _ m']) (simp add: process_client_to_server_packet_v4_def Let_def)
qed

lemma s2c_v4:
  assumes "tcp_datagram (m_IBuffer packet)"
    and "redirected_connections r (endpoint (ip_dst (m_IBuffer packet))
           (th_dport (m_IBuffer packet) (ip_th (m_IBuffer packet)))) = Some (sport, t)"
  shows "\<exists>r' m'. process_server_to_client_packet_v4 now r packet =
      Some (True, r', packet\<lparr>m_IBuffer := m'\<rparr>) \<and>
    translated (m_IBuffer packet) m' \<and>
    carries m' (ip_dst (m_IBuffer packet)) sport
      (ip_src (m_IBuffer packet)) (th_dport (m_IBuffer packet) (ip_th (m_IBuffer packet)))"
proof -
  let ?m = "m_IBuffer packet"
  have t34: "34 \<le> ip_th ?m"
    using assms(1) seg_len_bounds(5) by (auto simp: tcp_datagram_def)
  have commute: "swap_ip (swap_eth (wr16 ?m (ip_th ?m) v)) = wr16 (swap_ip (swap_eth ?m)) (ip_th ?m) v" for v
  proof
    fix j :: nat
    consider "j < 34" | "34 \<le> j"
      by linarith
    then show "swap_ip (swap_eth (wr16 ?m (ip_th ?m) v)) j = wr16 (swap_ip (swap_eth ?m)) (ip_th ?m) v j"
      using t34 by cases (simp add: swap_headers_apply wr16_below, simp add: swap_headers_apply wr16_apply)
  qed
  obtain m' where m': "recalculate_tcp (wr16 (swap_ip (swap_eth ?m)) (ip_th ?m) sport) = Some m'" "translated ?m m'"
    "carries m' (ip_dst ?m) sport (ip_src ?m) (th_dport ?m (ip_th ?m))"
    using translate_v4 [OF assms(1), of "ip_th ?m" sport] by auto
  moreover have "ntohs (h_proto ?m) = ETH_P_IP" "ip_p ?m = IPPROTO_TCP"
    using assms(1) by (simp_all add: tcp_datagram_def)
  ultimately show ?thesis
    using assms(2)
    by (intro exI [of _ "r\<lparr>redirected_connections := touch_connection now
          (endpoint (ip_dst ?m) (th_dport ?m (ip_th ?m))) sport (th_flags ?m (ip_th ?m)) (redirected_connections r)\<rparr>"]
        exI [of _ m'])
      (simp add: process_server_to_client_packet_v4_def Let_def track_server_def commute)
qed

section \<open>Properties of the redirector\<close>

text \<open>
  C10: the round trip.  Let the redirector accept a well-formed packet of the application
  (no RST or FIN) and turn it to the proxy port; then a well-formed packet with which the
  proxy answers the peer it saw is turned into a packet from the original server's address and
  port to the application's address and port, with both checksums valid and its segment kept.
\<close>

theorem tcp_redirect_round_trip:
  assumes "tcp_datagram (m_IBuffer p)" "\<not> is_closing (th_flags (m_IBuffer p) (ip_th (m_IBuffer p)))"
    and "carries (m_IBuffer p) app app_port server server_port"
    and "redirected_connections r (endpoint server app_port) = None"
    and "is_syn (th_flags (m_IBuffer p) (ip_th (m_IBuffer p)))" "port \<noteq> 0"
    and "tcp_datagram (m_IBuffer q)" "carries (m_IBuffer q) app port server app_port"
  shows "\<exists>r1 p1. process_client_to_server_packet_v4 now r port p = Some (True, r1, p1) \<and>
    carries (m_IBuffer p1) server app_port app port \<and>
    (\<exists>r2 q1. process_server_to_client_packet_v4 later r1 q = Some (True, r2, q1) \<and>
       carries (m_IBuffer q1) server server_port app app_port \<and>
       translated (m_IBuffer q) (m_IBuffer q1))"
proof -
  let ?m = "m_IBuffer p" and ?key = "endpoint server app_port"
  have fp: "ip_src ?m = app" "th_sport ?m (ip_th ?m) = app_port" "ip_dst ?m = server"
    "th_dport ?m (ip_th ?m) = server_port"
    using assms(3) by (simp_all add: carries_def)
  let ?tbl = "(redirected_connections r)(?key \<mapsto> (server_port, now))"
  have "track_client now ?key server_port (th_flags ?m (ip_th ?m)) (redirected_connections r) = Some ?tbl"
    using assms(4,5) by (simp add: track_client_def)
  then obtain m1 where m1: "process_client_to_server_packet_v4 now r port p =
      Some (True, r\<lparr>redirected_connections := ?tbl\<rparr>, p\<lparr>m_IBuffer := m1\<rparr>)"
    "carries m1 server app_port app port"
    using c2s_v4 [OF assms(1), of now r ?tbl port] assms(6) by (auto simp: fp)
  have fq: "ip_src (m_IBuffer q) = app" "ip_dst (m_IBuffer q) = server"
    "th_dport (m_IBuffer q) (ip_th (m_IBuffer q)) = app_port"
    using assms(8) by (simp_all add: carries_def)
  have "redirected_connections (r\<lparr>redirected_connections := ?tbl\<rparr>) ?key = Some (server_port, now)"
    by simp
  then obtain r2 m2 where "process_server_to_client_packet_v4 later (r\<lparr>redirected_connections := ?tbl\<rparr>) q =
      Some (True, r2, q\<lparr>m_IBuffer := m2\<rparr>)"
    "translated (m_IBuffer q) m2" "carries m2 server server_port app app_port"
    using s2c_v4 [OF assms(7), of "r\<lparr>redirected_connections := ?tbl\<rparr>" server_port now later]
    by (auto simp: fq)
  with m1 show ?thesis
    by (intro exI [of _ "r\<lparr>redirected_connections := ?tbl\<rparr>"] exI [of _ "p\<lparr>m_IBuffer := m1\<rparr>"]
        exI [of _ r2] exI [of _ "q\<lparr>m_IBuffer := m2\<rparr>"] conjI) simp_all
qed

text \<open>
  A retransmitted SYN, for which the table has an entry, is not translated: the packet and
  the table stay as they are and the redirector answers false.
\<close>

theorem tcp_retransmitted_syn_not_translated:
  assumes "is_syn (th_flags (m_IBuffer p) (ip_th (m_IBuffer p)))"
    and "redirected_connections r (endpoint (ip_dst (m_IBuffer p)) (th_sport (m_IBuffer p) (ip_th (m_IBuffer p)))) \<noteq> None"
  shows "process_client_to_server_packet_v4 now r port p = Some (False, r, p)"
  using assms by (auto simp: process_client_to_server_packet_v4_def Let_def track_client_def)

text \<open>
  A FIN of the application erases the entry at once, so what the proxy still sends on the
  half-closed connection is not translated back.
\<close>

theorem tcp_fin_drops_answers:
  assumes "tcp_datagram (m_IBuffer p)" "is_closing (th_flags (m_IBuffer p) (ip_th (m_IBuffer p)))"
    and "\<not> is_syn (th_flags (m_IBuffer p) (ip_th (m_IBuffer p)))"
    and "carries (m_IBuffer p) app app_port server server_port"
    and "redirected_connections r (endpoint server app_port) = Some (server_port, t)"
    and "carries (m_IBuffer q) app port server app_port"
  shows "\<exists>r1 p1. process_client_to_server_packet_v4 now r port p = Some (True, r1, p1) \<and>
    process_server_to_client_packet_v4 later r1 q = Some (False, r1, q)"
proof -
  let ?m = "m_IBuffer p" and ?key = "endpoint server app_port"
  let ?tbl = "(redirected_connections r)(?key := None)"
  have fp: "th_sport ?m (ip_th ?m) = app_port" "ip_dst ?m = server" "th_dport ?m (ip_th ?m) = server_port"
    using assms(4) by (simp_all add: carries_def)
  have "track_client now ?key server_port (th_flags ?m (ip_th ?m)) (redirected_connections r) = Some ?tbl"
    using assms(2,3,5) by (simp add: track_client_def touch_connection_def)
  then obtain m1 where m1: "process_client_to_server_packet_v4 now r port p =
      Some (True, r\<lparr>redirected_connections := ?tbl\<rparr>, p\<lparr>m_IBuffer := m1\<rparr>)"
    using c2s_v4 [OF assms(1), of now r ?tbl port] by (auto simp: fp)
  moreover have "ip_dst (m_IBuffer q) = server" "th_dport (m_IBuffer q) (ip_th (m_IBuffer q)) = app_port"
    using assms(6) by (simp_all add: carries_def)
  ultimately show ?thesis
    by (auto simp: process_server_to_client_packet_v4_def Let_def track_server_def)
qed

text \<open>
  An entry used within the last five minutes survives a pass of the cleanup, an older one
  is deleted, and the pass makes no entries.
\<close>

theorem tcp_cleanup_exact:
  assumes "\<not> terminated r"
  shows "redirected_connections (tcp_cleanup_pass now r) k = Some (port, t) \<longleftrightarrow>
    redirected_connections r k = Some (port, t) \<and> now \<le> t + minutes 5"
  using tcp_table.sweep_only_deletes [of now "redirected_connections r" k "(port, t)"]
    tcp_table.sweep_keeps_young [of "redirected_connections r" k "(port, t)" now] assms
  by (auto simp: tcp_cleanup_pass_def)

section \<open>Witnesses\<close>

definition sample_tcp :: "u8 \<Rightarrow> u8 \<Rightarrow> u8 \<Rightarrow> u8 \<Rightarrow> u8 \<Rightarrow> intermediate_buffer" where
  "sample_tcp src sport dst dport flags =
     \<lparr>m_dwDeviceFlags = 1, m_Length = 54,
      m_IBuffer = (\<lambda>_. 0)(12 := 8, 14 := 0x45, 17 := 40, 23 := 6, 26 := src, 30 := dst, 34 := sport,
        36 := dport, 47 := flags)\<rparr>"

lemma le16_samples: "le16 0 8 = 0x800" "le16 7 0 \<noteq> 0"
  by (simp_all add: le16_def push_bit_eq_mult)

lemma sample_tcp_th: "ip_hl (m_IBuffer (sample_tcp a sp b dp fl)) = 5" "ip_th (m_IBuffer (sample_tcp a sp b dp fl)) = 34"
  by (simp_all add: sample_tcp_def ip_hl_def ip_th_def ETHER_HEADER_LENGTH_def)

lemma sample_tcp_fields:
  "tcp_datagram (m_IBuffer (sample_tcp a sp b dp fl))"
  "th_flags (m_IBuffer (sample_tcp a sp b dp fl)) 34 = fl"
  "carries (m_IBuffer (sample_tcp a sp b dp fl)) (le32 a 0 0 0) (le16 sp 0) (le32 b 0 0 0) (le16 dp 0)"
proof -
  show "tcp_datagram (m_IBuffer (sample_tcp a sp b dp fl))"
    unfolding tcp_datagram_def fits_def sample_tcp_th
    by (simp add: sample_tcp_def field_defs wire_simps unat_le16 proto_defs le16_samples
        ETHER_HEADER_LENGTH_def MAX_ETHER_FRAME_def)
  show "th_flags (m_IBuffer (sample_tcp a sp b dp fl)) 34 = fl"
    by (simp add: sample_tcp_def th_flags_def)
  show "carries (m_IBuffer (sample_tcp a sp b dp fl)) (le32 a 0 0 0) (le16 sp 0) (le32 b 0 0 0) (le16 dp 0)"
    unfolding carries_def sample_tcp_th by (simp add: sample_tcp_def field_defs)
qed

lemma sample_flags: "is_syn 2" "\<not> is_closing 2" "is_closing 17" "\<not> is_syn 17"
  by (simp_all add: is_syn_def is_closing_def flag_defs)

definition sample_redirect :: "ip_address_v4 connection_table \<Rightarrow> ip_address_v4 tcp_local_redirect" where
  "sample_redirect tbl = \<lparr>redirected_connections = tbl, proxy_port = 0, terminated = False\<rparr>"

theorem tcp_redirect_round_trip_witness:
  "\<exists>r1 p1. process_client_to_server_packet_v4 0 (sample_redirect Map.empty) (le16 7 0) (sample_tcp 10 3 20 80 2)
      = Some (True, r1, p1) \<and>
    carries (m_IBuffer p1) (le32 20 0 0 0) (le16 3 0) (le32 10 0 0 0) (le16 7 0) \<and>
    (\<exists>r2 q1. process_server_to_client_packet_v4 1 r1 (sample_tcp 10 7 20 3 16) = Some (True, r2, q1) \<and>
       carries (m_IBuffer q1) (le32 20 0 0 0) (le16 80 0) (le32 10 0 0 0) (le16 3 0) \<and>
       translated (m_IBuffer (sample_tcp 10 7 20 3 16)) (m_IBuffer q1))"
  by (rule tcp_redirect_round_trip)
    (simp_all add: sample_tcp_fields sample_tcp_th sample_flags sample_redirect_def le16_samples)

theorem tcp_retransmitted_syn_not_translated_witness:
  "process_client_to_server_packet_v4 5 (sample_redirect [endpoint (le32 20 0 0 0) (le16 3 0) \<mapsto> (le16 80 0, 0)])
     (le16 7 0) (sample_tcp 10 3 20 80 2) =
   Some (False, sample_redirect [endpoint (le32 20 0 0 0) (le16 3 0) \<mapsto> (le16 80 0, 0)], sample_tcp 10 3 20 80 2)"
proof (rule tcp_retransmitted_syn_not_translated)
  have "ip_dst (m_IBuffer (sample_tcp 10 3 20 80 2)) = le32 20 0 0 0"
    "th_sport (m_IBuffer (sample_tcp 10 3 20 80 2)) 34 = le16 3 0"
    using sample_tcp_fields(3) [of 10 3 20 80 2] by (simp_all add: carries_def sample_tcp_th)
  then show "redirected_connections (sample_redirect [endpoint (le32 20 0 0 0) (le16 3 0) \<mapsto> (le16 80 0, 0)])
      (endpoint (ip_dst (m_IBuffer (sample_tcp 10 3 20 80 2)))
        (th_sport (m_IBuffer (sample_tcp 10 3 20 80 2)) (ip_th (m_IBuffer (sample_tcp 10 3 20 80 2))))) \<noteq> None"
    by (simp add: sample_tcp_th sample_redirect_def)
qed (simp add: sample_tcp_fields sample_tcp_th sample_flags)

theorem tcp_fin_drops_answers_witness:
  "\<exists>r1 p1. process_client_to_server_packet_v4 5
      (sample_redirect [endpoint (le32 20 0 0 0) (le16 3 0) \<mapsto> (le16 80 0, 0)]) (le16 7 0)
      (sample_tcp 10 3 20 80 17) = Some (True, r1, p1) \<and>
    process_server_to_client_packet_v4 6 r1 (sample_tcp 10 7 20 3 16) = Some (False, r1, sample_tcp 10 7 20 3 16)"
  by (rule tcp_fin_drops_answers [where app = "le32 10 0 0 0" and app_port = "le16 3 0" and
        server = "le32 20 0 0 0" and server_port = "le16 80 0" and t = 0])
    (simp_all add: sample_tcp_fields sample_tcp_th sample_flags sample_redirect_def)

theorem tcp_cleanup_exact_witness:
  "redirected_connections (tcp_cleanup_pass (minutes 6)
     (sample_redirect [endpoint 1 2 \<mapsto> (80, minutes 2), endpoint 1 3 \<mapsto> (80, 0)])) (endpoint 1 2) = Some (80, minutes 2)"
  using tcp_cleanup_exact [of "sample_redirect [endpoint 1 2 \<mapsto> (80, minutes 2), endpoint 1 3 \<mapsto> (80, 0)]"
      "minutes 6" "endpoint 1 2" 80 "minutes 2"]
  by (simp add: sample_redirect_def endpoint_def)

end
