(* ===== verification/Udp_Redirect.thy ===== *)
theory Udp_Redirect
  imports Tcp_Redirect
begin

text \<open>
  \<^verbatim>\<open>ndisapi::socks5_udp_local_redirect\<close> (ndisapi/socks5_udp_local_redirect.h): outgoing UDP
  packets of a proxied endpoint get a SOCKS5 UDP header in front of their payload and are
  turned around to the local proxy; the proxy's datagrams lose that header, and its address
  becomes their source.  The table maps a client port to the time of its last use.
\<close>

unbundle bit_operations_syntax

section \<open>State\<close>

type_synonym endpoint_table = "u16 \<rightharpoonup> time_point"

record socks5_udp_local_redirect =
  endpoints :: endpoint_table
  udp_proxy_port :: u16
  udp_terminated :: bool

definition new_udp_local_redirect :: "u16 \<Rightarrow> socks5_udp_local_redirect" where
  "new_udp_local_redirect port = \<lparr>endpoints = Map.empty, udp_proxy_port = htons port, udp_terminated = False\<rparr>"

definition stop_udp_redirect :: "socks5_udp_local_redirect \<Rightarrow> socks5_udp_local_redirect" where
  "stop_udp_redirect r = r\<lparr>udp_terminated := True\<rparr>"

definition IP_DF :: u16 where
  "IP_DF = 0x4000"

definition is_fragment :: "frame \<Rightarrow> bool" where
  "is_fragment m \<longleftrightarrow> ntohs (ip_off m) AND NOT IP_DF \<noteq> 0"

definition udp_length :: "frame \<Rightarrow> nat \<Rightarrow> u16" where
  "udp_length m t = rd16 m (t + 4)"

definition wr_bytes :: "frame \<Rightarrow> nat \<Rightarrow> u8 list \<Rightarrow> frame" where
  "wr_bytes m i bs = (\<lambda>j. if i \<le> j \<and> j < i + length bs then bs ! (j - i) else m j)"

definition st_bytes :: "frame \<Rightarrow> nat \<Rightarrow> u8 list \<Rightarrow> frame option" where
  "st_bytes m i bs = (if i + length bs \<le> MAX_ETHER_FRAME then Some (wr_bytes m i bs) else None)"

text \<open>\<^verbatim>\<open>sizeof(socks5_udp_header<T>)\<close>, a packed structure.\<close>

definition socks5_udp_header_size_v4 :: nat where
  "socks5_udp_header_size_v4 = 2 + 1 + 1 + 4 + 2"

definition socks5_udp_header_size_v6 :: nat where
  "socks5_udp_header_size_v6 = 2 + 1 + 1 + 16 + 2"

section \<open>New endpoints\<close>

definition note_endpoint ::
  "time_point \<Rightarrow> u16 \<Rightarrow> socks5_udp_local_redirect \<Rightarrow> bool \<times> socks5_udp_local_redirect" where
  "note_endpoint now sport r =
     (case endpoints r sport of
        None \<Rightarrow> (True, r\<lparr>endpoints := (endpoints r)(sport \<mapsto> now)\<rparr>)
      | Some _ \<Rightarrow> (False, r))"

definition is_new_endpoint_v4 ::
  "time_point \<Rightarrow> socks5_udp_local_redirect \<Rightarrow> intermediate_buffer \<Rightarrow> bool \<times> socks5_udp_local_redirect" where
  "is_new_endpoint_v4 now r packet =
     (let m = m_IBuffer packet in
      if ntohs (h_proto m) \<noteq> ETH_P_IP then (False, r)
      else if ip_p m \<noteq> IPPROTO_UDP then (False, r)
      else note_endpoint now (th_sport m (ip_th m)) r)"

definition is_new_endpoint_v6 ::
  "time_point \<Rightarrow> socks5_udp_local_redirect \<Rightarrow> intermediate_buffer \<Rightarrow>
   (bool \<times> socks5_udp_local_redirect) option" where
  "is_new_endpoint_v6 now r packet =
     (let m = m_IBuffer packet in
      if ntohs (h_proto m) \<noteq> ETH_P_IPV6 then Some (False, r)
      else do {
        (header, proto) \<leftarrow> find_transport_header m (m_Length packet - 14);
        case header of
          None \<Rightarrow> Some (False, r)
        | Some t \<Rightarrow> if proto \<noteq> IPPROTO_UDP then Some (False, r)
                    else do { sport \<leftarrow> ld16 m t; Some (note_endpoint now sport r) }
      })"

section \<open>Packets from the client\<close>

text \<open>
  Lengths are 16-bit fields: adding the header's size wraps.  The move copies the payload behind
  the room for the header; it is undefined when that leaves the array.
\<close>

definition add_net16 :: "u16 \<Rightarrow> nat \<Rightarrow> u16" where
  "add_net16 field n = htons (ntohs field + of_nat n)"

definition sub_net16 :: "u16 \<Rightarrow> nat \<Rightarrow> u16" where
  "sub_net16 field n = htons (ntohs field - of_nat n)"

definition encapsulate_v4 :: "u16 \<Rightarrow> intermediate_buffer \<Rightarrow> intermediate_buffer option" where
  "encapsulate_v4 port packet =
     (let m = m_IBuffer packet; t = ip_th m; payload = t + 8; n = socks5_udp_header_size_v4;
          size = unat (ucast (m_Length packet) - of_nat (22 + 4 * ip_hl m) :: u16);
          max_size = unat (of_nat MAX_ETHER_FRAME - of_nat (22 + 4 * ip_hl m) :: u16)
      in do {
        m \<leftarrow> move_range m (payload + n) payload (min size max_size);
        let m = wr16 m 16 (add_net16 (ip_len m) n);
        let m = wr16 m (t + 4) (add_net16 (udp_length m t) n);
        let m = wr_bytes m payload [0, 0, 0, 1];
        let m = wr_bytes m (payload + 4) (map m [30..<34]);
        let m = wr_bytes m (payload + 8) (map m [t + 2..<t + 4]);
        let m = wr16 (swap_ip (swap_eth m)) (t + 2) port;
        m \<leftarrow> recalculate_udp m;
        Some (packet\<lparr>m_Length := m_Length packet + of_nat n, m_IBuffer := m\<rparr>)
      })"

definition udp_client_to_server_v4 ::
  "time_point \<Rightarrow> socks5_udp_local_redirect \<Rightarrow> u16 \<Rightarrow> intermediate_buffer \<Rightarrow>
   (bool \<times> socks5_udp_local_redirect \<times> intermediate_buffer) option" where
  "udp_client_to_server_v4 now r port packet =
     (let port = (if port = 0 then udp_proxy_port r else port); m = m_IBuffer packet;
          sport = th_sport m (ip_th m) in
      if ntohs (h_proto m) \<noteq> ETH_P_IP then Some (False, r, packet)
      else if ip_p m \<noteq> IPPROTO_UDP then Some (False, r, packet)
      else if is_fragment m then Some (False, r, packet)
      else case endpoints r sport of
        None \<Rightarrow> Some (False, r, packet)
      | Some _ \<Rightarrow> do {
          packet \<leftarrow> encapsulate_v4 port packet;
          Some (True, r\<lparr>endpoints := (endpoints r)(sport \<mapsto> now)\<rparr>, packet)
        })"

definition encapsulate_v6 :: "u16 \<Rightarrow> nat \<Rightarrow> intermediate_buffer \<Rightarrow> intermediate_buffer option" where
  "encapsulate_v6 port t packet =
     (let m = m_IBuffer packet; payload = t + 8; n = socks5_udp_header_size_v6;
          size = unat (ucast (m_Length packet) - of_nat 62 :: u16)
      in do {
        m \<leftarrow> move_range m (payload + n) payload (min size (MAX_ETHER_FRAME - 62));
        let m = wr16 m 18 (add_net16 (rd16 m 18) n);
        len \<leftarrow> ld16 m (t + 4);
        m \<leftarrow> st16 m (t + 4) (add_net16 len n);
        m \<leftarrow> st_bytes m payload [0, 0, 0, 4];
        m \<leftarrow> st_bytes m (payload + 4) (map m [38..<54]);
        m \<leftarrow> st_bytes m (payload + 20) (map m [t + 2..<t + 4]);
        m \<leftarrow> st16 (swap_ip6 (swap_eth m)) (t + 2) port;
        recalculate_tcp_udp_checksum (packet\<lparr>m_Length := m_Length packet + of_nat n, m_IBuffer := m\<rparr>)
      })"

definition udp_client_to_server_v6 ::
  "time_point \<Rightarrow> socks5_udp_local_redirect \<Rightarrow> u16 \<Rightarrow> intermediate_buffer \<Rightarrow>
   (bool \<times> socks5_udp_local_redirect \<times> intermediate_buffer) option" where
  "udp_client_to_server_v6 now r port packet =
     (let port = (if port = 0 then udp_proxy_port r else port); m = m_IBuffer packet in
      if ntohs (h_proto m) \<noteq> ETH_P_IPV6 then Some (False, r, packet)
      else do {
        (header, proto) \<leftarrow> find_transport_header m (m_Length packet - 14);
        case header of
          None \<Rightarrow> Some (False, r, packet)
        | Some t \<Rightarrow>
            if proto \<noteq> IPPROTO_UDP then Some (False, r, packet)
            else do {
              sport \<leftarrow> ld16 m t;
              case endpoints r sport of
                None \<Rightarrow> Some (False, r, packet)
              | Some _ \<Rightarrow> do {
                  packet \<leftarrow> encapsulate_v6 port t packet;
                  Some (True, r\<lparr>endpoints := (endpoints r)(sport \<mapsto> now)\<rparr>, packet)
                }
            }
      })"

section \<open>Packets from the proxy\<close>

text \<open>
  The number of moved bytes is the UDP length less both headers, computed as \<^verbatim>\<open>size_t\<close>: below
  zero it wraps to a number no array can hold.
\<close>

definition strip_header :: "frame \<Rightarrow> nat \<Rightarrow> nat \<Rightarrow> frame option" where
  "strip_header m t n =
     (let size = unat (ntohs (udp_length m t) - 8)
      in if size < n then None else move_range m (t + 8) (t + 8 + n) (size - n))"

definition decapsulate_v4 :: "intermediate_buffer \<Rightarrow> intermediate_buffer option" where
  "decapsulate_v4 packet =
     (let m = m_IBuffer packet; t = ip_th m; payload = t + 8; n = socks5_udp_header_size_v4
      in do {
        let m = swap_ip (swap_eth m);
        let m = wr_bytes m 26 (map m [payload + 4..<payload + 8]);
        let m = wr_bytes m t (map m [payload + 8..<payload + 10]);
        m \<leftarrow> strip_header m t n;
        let m = wr16 m 16 (sub_net16 (ip_len m) n);
        let m = wr16 m (t + 4) (sub_net16 (udp_length m t) n);
        m \<leftarrow> recalculate_udp m;
        Some (packet\<lparr>m_Length := m_Length packet - of_nat n, m_IBuffer := m\<rparr>)
      })"

definition udp_server_to_client_v4 ::
  "time_point \<Rightarrow> socks5_udp_local_redirect \<Rightarrow> intermediate_buffer \<Rightarrow>
   (bool \<times> socks5_udp_local_redirect \<times> intermediate_buffer) option" where
  "udp_server_to_client_v4 now r packet =
     (let m = m_IBuffer packet; dport = th_dport m (ip_th m) in
      if ntohs (h_proto m) \<noteq> ETH_P_IP then Some (False, r, packet)
      else if ip_p m \<noteq> IPPROTO_UDP then Some (False, r, packet)
      else if is_fragment m then Some (False, r, packet)
      else case endpoints r dport of
        None \<Rightarrow> Some (False, r, packet)
      | Some _ \<Rightarrow> do {
          packet \<leftarrow> decapsulate_v4 packet;
          Some (True, r\<lparr>endpoints := (endpoints r)(dport \<mapsto> now)\<rparr>, packet)
        })"

definition ld_bytes :: "frame \<Rightarrow> nat \<Rightarrow> nat \<Rightarrow> u8 list option" where
  "ld_bytes m i n = (if i + n \<le> MAX_ETHER_FRAME then Some (map m [i..<i + n]) else None)"

definition decapsulate_v6 :: "nat \<Rightarrow> intermediate_buffer \<Rightarrow> intermediate_buffer option" where
  "decapsulate_v6 t packet =
     (let payload = t + 8; n = socks5_udp_header_size_v6
      in do {
        let m = swap_ip6 (swap_eth (m_IBuffer packet));
        address \<leftarrow> ld_bytes m (payload + 4) 16;
        let m = wr_bytes m 22 address;
        port \<leftarrow> ld_bytes m (payload + 20) 2;
        m \<leftarrow> st_bytes m t port;
        m \<leftarrow> strip_header m t n;
        let m = wr16 m 18 (sub_net16 (rd16 m 18) n);
        len \<leftarrow> ld16 m (t + 4);
        m \<leftarrow> st16 m (t + 4) (sub_net16 len n);
        recalculate_tcp_udp_checksum (packet\<lparr>m_Length := m_Length packet - of_nat n, m_IBuffer := m\<rparr>)
      })"

definition udp_server_to_client_v6 ::
  "time_point \<Rightarrow> socks5_udp_local_redirect \<Rightarrow> intermediate_buffer \<Rightarrow>
   (bool \<times> socks5_udp_local_redirect \<times> intermediate_buffer) option" where
  "udp_server_to_client_v6 now r packet =
     (let m = m_IBuffer packet in
      if ntohs (h_proto m) \<noteq> ETH_P_IPV6 then Some (False, r, packet)
      else do {
        (header, proto) \<leftarrow> find_transport_header m (m_Length packet - 14);
        case header of
          None \<Rightarrow> Some (False, r, packet)
        | Some t \<Rightarrow>
            if proto \<noteq> IPPROTO_UDP then Some (False, r, packet)
            else do {
              dport \<leftarrow> ld16 m (t + 2);
              case endpoints r dport of
                None \<Rightarrow> Some (False, r, packet)
              | Some _ \<Rightarrow> do {
                  packet \<leftarrow> decapsulate_v6 t packet;
                  Some (True, r\<lparr>endpoints := (endpoints r)(dport \<mapsto> now)\<rparr>, packet)
                }
            }
      })"

section \<open>Cleanup\<close>

definition udp_timed_out :: "time_point \<Rightarrow> u16 \<times> time_point \<Rightarrow> bool" where
  "udp_timed_out current_time = (\<lambda>(port, t). minutes 15 < current_time - t)"

definition udp_cleanup :: "time_point \<Rightarrow> endpoint_table \<Rightarrow> endpoint_table" where
  "udp_cleanup current_time tbl = map_erase_if (udp_timed_out current_time) tbl"

definition udp_cleanup_pass :: "time_point \<Rightarrow> socks5_udp_local_redirect \<Rightarrow> socks5_udp_local_redirect" where
  "udp_cleanup_pass current_time r =
     (if udp_terminated r then r else r\<lparr>endpoints := udp_cleanup current_time (endpoints r)\<rparr>)"

interpretation udp_table: aging_table "\<lambda>tbl. tbl" "\<lambda>t. t" udp_cleanup "minutes 15"
  by unfold_locales (auto simp: udp_cleanup_def map_erase_if_def udp_timed_out_def split: option.splits)

section \<open>Well-formed datagrams and their payload\<close>

definition udp_packet :: "intermediate_buffer \<Rightarrow> bool" where
  "udp_packet p \<longleftrightarrow>
     (let m = m_IBuffer p in
      ntohs (h_proto m) = ETH_P_IP \<and> ip_p m = IPPROTO_UDP \<and> \<not> is_fragment m \<and> fits m 8 \<and>
      unat (ntohs (udp_length m (ip_th m))) = seg_len m \<and>
      unat (m_Length p) = ETHER_HEADER_LENGTH + unat (ntohs (ip_len m)))"

definition udp_payload :: "intermediate_buffer \<Rightarrow> u8 list" where
  "udp_payload p = map (m_IBuffer p) [ip_th (m_IBuffer p) + 8..<ip_th (m_IBuffer p) + seg_len (m_IBuffer p)]"

definition checksums_valid :: "intermediate_buffer \<Rightarrow> bool" where
  "checksums_valid p \<longleftrightarrow> header_valid (m_IBuffer p) \<and> segment_valid IPPROTO_UDP (m_IBuffer p)"

lemma udp_packetD:
  assumes "udp_packet p"
  shows "ntohs (h_proto (m_IBuffer p)) = ETH_P_IP" "ip_p (m_IBuffer p) = IPPROTO_UDP"
    "\<not> is_fragment (m_IBuffer p)" "fits (m_IBuffer p) 8"
    "unat (ntohs (udp_length (m_IBuffer p) (ip_th (m_IBuffer p)))) = seg_len (m_IBuffer p)"
    "unat (m_Length p) = ip_th (m_IBuffer p) + seg_len (m_IBuffer p)"
  using assms by (auto simp: udp_packet_def Let_def fits_def seg_len_def ip_th_def)

lemma add_net16_unat:
  "unat (ntohs f) + n < 65536 \<Longrightarrow> unat (ntohs (add_net16 f n)) = unat (ntohs f) + n"
  by (simp add: add_net16_def unat_word_ariths unsigned_of_nat take_bit_eq_mod)

lemma sub_net16_unat:
  "n \<le> unat (ntohs f) \<Longrightarrow> unat (ntohs (sub_net16 f n)) = unat (ntohs f) - n"
  by (simp add: sub_net16_def unat_sub_of_nat16)

lemma udp_payload_nth:
  "udp_payload p = map (\<lambda>k. m_IBuffer p (ip_th (m_IBuffer p) + 8 + k)) [0..<seg_len (m_IBuffer p) - 8]"
proof -
  let ?t = "ip_th (m_IBuffer p)" and ?n = "seg_len (m_IBuffer p)"
  have "[?t + 8..<?t + ?n] = map (\<lambda>k. ?t + 8 + k) [0..<?n - 8]"
    by (rule nth_equalityI) simp_all
  then show ?thesis
    unfolding udp_payload_def by (simp only: map_map comp_def)
qed

text \<open>
  What the checksum step leaves of a rewritten datagram: everything before its end except the
  two checksum fields.
\<close>

lemma rewritten_udp:
  assumes "rewritten IPPROTO_UDP (ip_th x + 6) x m'" "fits x 8" "p' = p\<lparr>m_Length := len, m_IBuffer := m'\<rparr>"
    and "ntohs (h_proto x) = ETH_P_IP" "ip_p x = IPPROTO_UDP" "\<not> is_fragment x"
    and "unat (ntohs (udp_length x (ip_th x))) = seg_len x" "unat len = ip_th x + seg_len x"
  shows "udp_packet p'" "checksums_valid p'"
    "carries m' (ip_src x) (th_sport x (ip_th x)) (ip_dst x) (th_dport x (ip_th x))"
    "udp_payload p' = map (\<lambda>k. x (ip_th x + 8 + k)) [0..<seg_len x - 8]"
proof -
  note f = rewritten_fields [OF assms(1,2)]
  have hl: "ip_hl m' = ip_hl x" "ip_th m' = ip_th x" "ip_len m' = ip_len x"
    by (simp_all add: f)
  have fits: "fits m' 8" "seg_len m' = seg_len x"
    using fits_cong [OF hl(3,1)] seg_len_cong [OF hl(3,1)] assms(2) by simp_all
  have th: "34 \<le> ip_th x" "8 \<le> seg_len x"
    using seg_len_bounds [OF assms(2)] by auto
  have *: "m' i = x i" if "i < ip_th x + seg_len x" "i \<noteq> 24" "i \<noteq> 25" "i \<noteq> ip_th x + 6" "i \<noteq> ip_th x + 7" for i
    using assms(1) that unfolding rewritten_def by auto
  have "ip_off m' = ip_off x" "udp_length m' (ip_th x) = udp_length x (ip_th x)"
    using th by (simp_all add: ip_off_def udp_length_def rd16_def *)
  moreover have "ip_th x + seg_len x = ETHER_HEADER_LENGTH + unat (ntohs (ip_len x))"
    using assms(2) by (simp add: fits_def seg_len_def ip_th_def)
  ultimately show "udp_packet p'"
    using assms fits f by (simp add: udp_packet_def Let_def is_fragment_def)
  show "checksums_valid p'"
    using assms(1,3) by (simp add: checksums_valid_def rewritten_def)
  show "carries m' (ip_src x) (th_sport x (ip_th x)) (ip_dst x) (th_dport x (ip_th x))"
    using f by (simp add: carries_def)
  show "udp_payload p' = map (\<lambda>k. x (ip_th x + 8 + k)) [0..<seg_len x - 8]"
    using th by (auto simp: udp_payload_nth assms(3) hl fits intro!: *)
qed

section \<open>Encapsulation\<close>

definition socks5_udp_header_v4 :: "frame \<Rightarrow> u8 list" where
  "socks5_udp_header_v4 m = [0, 0, 0, 1, m 30, m 31, m 32, m 33, m (ip_th m + 2), m (ip_th m + 3)]"

definition encapsulated_frame :: "u16 \<Rightarrow> nat \<Rightarrow> frame \<Rightarrow> frame" where
  "encapsulated_frame port len m =
     (let t = ip_th m; m1 = moved m (t + 8 + 10) (t + 8) len;
          m2 = wr16 (wr16 m1 16 (add_net16 (ip_len m) 10)) (t + 4) (add_net16 (udp_length m t) 10)
      in wr16 (swap_ip (swap_eth (wr_bytes m2 (t + 8) (socks5_udp_header_v4 m)))) (t + 2) port)"

lemma wr_bytes_append: "wr_bytes (wr_bytes m i bs) (i + length bs) cs = wr_bytes m i (bs @ cs)"
  by (rule ext) (auto simp: wr_bytes_def nth_append)

lemma wr_bytes_header:
  "wr_bytes (wr_bytes (wr_bytes x (t + 8) [a, b, c, d]) (t + 12) [e, f, g, h]) (t + 16) [i, j]
   = wr_bytes x (t + 8) [a, b, c, d, e, f, g, h, i, j]"
proof -
  have len: "t + 8 + length [a, b, c, d] = t + 12" "t + 8 + length [a, b, c, d, e, f, g, h] = t + 16"
    by simp_all
  show ?thesis
    using wr_bytes_append [of x "t + 8" "[a, b, c, d]" "[e, f, g, h]", unfolded len]
      wr_bytes_append [of x "t + 8" "[a, b, c, d, e, f, g, h]" "[i, j]", unfolded len]
    by (simp only: append.simps)
qed

lemma wr_bytes_below: "j < i \<Longrightarrow> wr_bytes x i bs j = x j"
  by (simp add: wr_bytes_def)

lemma upt_pair: "[t + 2..<t + 4] = [t + 2, t + 3 :: nat]"
  by (simp add: upt_rec numeral_3_eq_3)

lemma upt_address: "[30..<34] = [30, 31, 32, 33 :: nat]"
  by (simp add: upt_rec)

lemma encapsulate_v4_eq:
  assumes "udp_packet p" "ip_th (m_IBuffer p) + seg_len (m_IBuffer p) + 10 \<le> MAX_ETHER_FRAME"
  shows "encapsulate_v4 port p = do {
    m \<leftarrow> recalculate_udp (encapsulated_frame port (seg_len (m_IBuffer p) - 8) (m_IBuffer p));
    Some (p\<lparr>m_Length := m_Length p + 10, m_IBuffer := m\<rparr>) }"
proof -
  let ?m = "m_IBuffer p" and ?n = "seg_len (m_IBuffer p) - 8"
  note d = udp_packetD [OF assms(1)]
  have t: "34 \<le> ip_th ?m" "8 \<le> seg_len ?m" "ip_th ?m = 14 + 4 * ip_hl ?m"
    using seg_len_bounds [OF d(4)] by (auto simp: ip_th_def ETHER_HEADER_LENGTH_def)
  have "unat (ucast (m_Length p) :: u16) = unat (m_Length p) mod 65536"
    by (simp add: unsigned_ucast_eq take_bit_eq_mod)
  also have "\<dots> = ip_th ?m + seg_len ?m"
    using assms(2) by (simp add: d(6) MAX_ETHER_FRAME_def)
  finally have "unat (ucast (m_Length p) - of_nat (22 + 4 * ip_hl ?m) :: u16) = ?n"
    using unat_sub_of_nat16 [of "22 + 4 * ip_hl ?m" "ucast (m_Length p)"] t by simp
  moreover have "unat (of_nat MAX_ETHER_FRAME - of_nat (22 + 4 * ip_hl ?m) :: u16) = MAX_ETHER_FRAME - (22 + 4 * ip_hl ?m)"
    using ip_hl_less [of ?m] by (subst unat_sub_of_nat16) (simp_all add: MAX_ETHER_FRAME_def)
  ultimately have size: "min (unat (ucast (m_Length p) - of_nat (22 + 4 * ip_hl ?m) :: u16))
      (unat (of_nat MAX_ETHER_FRAME - of_nat (22 + 4 * ip_hl ?m) :: u16)) = ?n"
    using assms(2) t by simp
  let ?m1 = "moved ?m (ip_th ?m + 8 + 10) (ip_th ?m + 8) ?n"
  have move: "move_range ?m (ip_th ?m + 8 + 10) (ip_th ?m + 8) ?n = Some ?m1"
    using assms(2) t(2) by (intro move_range_in) linarith+
  have len: "ip_len ?m1 = ip_len ?m" "udp_length (wr16 ?m1 16 v) (ip_th ?m) = udp_length ?m (ip_th ?m)" for v
    using t(1) by (simp_all add: ip_len_def udp_length_def rd16_def wr16_apply moved_def)
  let ?m2 = "wr16 (wr16 ?m1 16 (add_net16 (ip_len ?m) 10)) (ip_th ?m + 4) (add_net16 (udp_length ?m (ip_th ?m)) 10)"
  have bytes: "?m2 30 = ?m 30" "?m2 31 = ?m 31" "?m2 32 = ?m 32" "?m2 33 = ?m 33"
    "?m2 (ip_th ?m + 2) = ?m (ip_th ?m + 2)" "?m2 (ip_th ?m + 3) = ?m (ip_th ?m + 3)"
    using t(1) by (simp_all add: wr16_apply moved_def)
  have n: "socks5_udp_header_size_v4 = 10"
    by (simp add: socks5_udp_header_size_v4_def)
  have pos: "ip_th ?m + 8 + 4 = ip_th ?m + 12" "ip_th ?m + 8 + 8 = ip_th ?m + 16"
    by simp_all
  show ?thesis
    unfolding encapsulate_v4_def Let_def n size move Option.bind.bind_lunit len pos upt_pair upt_address list.map
    using t(1) bytes by (simp add: wr_bytes_below encapsulated_frame_def Let_def socks5_udp_header_v4_def
        wr_bytes_header del: add_2_eq_Suc')
qed

lemma swap_headers_cong:
  assumes "\<And>i. i < 34 \<Longrightarrow> f i = g i" "j < 34"
  shows "swap_ip (swap_eth f) j = swap_ip (swap_eth g) j"
  using assms(2) by (auto simp: swap_headers_apply assms(1))

lemma encapsulated_fields:
  fixes port :: u16 and len :: nat
  assumes "34 \<le> ip_th m"
  defines "x \<equiv> encapsulated_frame port len m"
  shows "ip_hl x = ip_hl m" "ip_th x = ip_th m" "ip_len x = add_net16 (ip_len m) 10" "ip_p x = ip_p m"
    "h_proto x = h_proto m" "ip_off x = ip_off m" "ip_src x = ip_dst m" "ip_dst x = ip_src m"
    "th_sport x (ip_th m) = th_sport m (ip_th m)" "th_dport x (ip_th m) = port"
    "udp_length x (ip_th m) = add_net16 (udp_length m (ip_th m)) 10"
    "map (\<lambda>k. x (ip_th m + 8 + k)) [0..<10 + len] =
       socks5_udp_header_v4 m @ map (\<lambda>k. m (ip_th m + 8 + k)) [0..<len]"
proof -
  have at: "x j = (if j = ip_th m + 3 then hi8 port else if j = ip_th m + 2 then lo8 port
      else swap_ip (swap_eth (wr_bytes (wr16 (wr16 (moved m (ip_th m + 18) (ip_th m + 8) len) 16
        (add_net16 (ip_len m) 10)) (ip_th m + 4) (add_net16 (udp_length m (ip_th m)) 10)) (ip_th m + 8)
        (socks5_udp_header_v4 m))) j)" for j
    by (simp add: x_def encapsulated_frame_def Let_def wr16_apply numeral_3_eq_3 add.commute)
  have low: "x j = swap_ip (swap_eth (wr16 m 16 (add_net16 (ip_len m) 10))) j" if "j < 34" for j
  proof -
    have "x j = swap_ip (swap_eth (wr_bytes (wr16 (wr16 (moved m (ip_th m + 18) (ip_th m + 8) len) 16
        (add_net16 (ip_len m) 10)) (ip_th m + 4) (add_net16 (udp_length m (ip_th m)) 10)) (ip_th m + 8)
        (socks5_udp_header_v4 m))) j"
      using that assms(1) by (simp add: at)
    also have "\<dots> = swap_ip (swap_eth (wr16 m 16 (add_net16 (ip_len m) 10))) j"
      using that assms(1)
      by (intro swap_headers_cong) (simp_all add: wr_bytes_def wr16_apply moved_def)
    finally show ?thesis .
  qed
  have high: "x j = wr_bytes (wr16 (moved m (ip_th m + 18) (ip_th m + 8) len)
      (ip_th m + 4) (add_net16 (udp_length m (ip_th m)) 10)) (ip_th m + 8) (socks5_udp_header_v4 m) j"
    if "34 \<le> j" "j \<noteq> ip_th m + 2" "j \<noteq> ip_th m + 3" for j
    using that assms(1) by (simp add: at swap_headers_apply wr_bytes_def wr16_apply)
  show th: "ip_hl x = ip_hl m" "ip_th x = ip_th m" "ip_p x = ip_p m"
    "h_proto x = h_proto m" "ip_off x = ip_off m" "ip_src x = ip_dst m" "ip_dst x = ip_src m"
    "ip_len x = add_net16 (ip_len m) 10"
    by (simp_all add: field_defs ip_th_def low swap_headers_apply wr16_apply)
  have len: "length (socks5_udp_header_v4 m) = 10"
    by (simp add: socks5_udp_header_v4_def)
  show "th_sport x (ip_th m) = th_sport m (ip_th m)"
    "udp_length x (ip_th m) = add_net16 (udp_length m (ip_th m)) 10"
    using assms(1) by (simp_all add: th_sport_def udp_length_def rd16_def high wr_bytes_def wr16_apply moved_def)
  show "th_dport x (ip_th m) = port"
    by (simp add: th_dport_def rd16_def at numeral_3_eq_3)
  show "map (\<lambda>k. x (ip_th m + 8 + k)) [0..<10 + len] =
       socks5_udp_header_v4 m @ map (\<lambda>k. m (ip_th m + 8 + k)) [0..<len]"
  proof (rule nth_equalityI)
    fix k
    assume "k < length (map (\<lambda>k. x (ip_th m + 8 + k)) [0..<10 + len])"
    then have k: "k < 10 + len"
      by simp
    have "x (ip_th m + 8 + k) = (if k < 10 then socks5_udp_header_v4 m ! k else m (ip_th m + 8 + (k - 10)))"
      using assms(1) k by (simp add: high wr_bytes_def len wr16_apply moved_def)
    moreover have "\<not> k < 10 \<Longrightarrow> k - 10 < len"
      using k by simp
    ultimately show "map (\<lambda>k. x (ip_th m + 8 + k)) [0..<10 + len] ! k =
       (socks5_udp_header_v4 m @ map (\<lambda>k. m (ip_th m + 8 + k)) [0..<len]) ! k"
      using k by (simp add: nth_append len)
  qed (simp add: len)
qed

lemma encapsulate_v4_ok:
  assumes "udp_packet p" "ip_th (m_IBuffer p) + seg_len (m_IBuffer p) + 10 \<le> MAX_ETHER_FRAME"
    and "carries (m_IBuffer p) src sport dst dport"
  shows "\<exists>p'. encapsulate_v4 port p = Some p' \<and> udp_packet p' \<and> checksums_valid p' \<and>
    carries (m_IBuffer p') dst sport src port \<and>
    udp_payload p' = socks5_udp_header_v4 (m_IBuffer p) @ udp_payload p"
proof -
  let ?m = "m_IBuffer p" and ?n = "seg_len (m_IBuffer p) - 8"
  let ?x = "encapsulated_frame port ?n ?m"
  note d = udp_packetD [OF assms(1)]
  have t: "34 \<le> ip_th ?m" "8 \<le> seg_len ?m" "ip_th ?m + seg_len ?m = 14 + unat (ntohs (ip_len ?m))"
    using seg_len_bounds [OF d(4)] d(4) by (auto simp: ip_th_def ETHER_HEADER_LENGTH_def fits_def seg_len_def)
  note f = encapsulated_fields [OF t(1), of port ?n]
  have "unat (ntohs (ip_len ?x)) = unat (ntohs (ip_len ?m)) + 10"
    unfolding f(3) using t(3) assms(2) by (intro add_net16_unat) (simp add: MAX_ETHER_FRAME_def)
  then have len: "fits ?x 8" "seg_len ?x = seg_len ?m + 10"
    using d(4) assms(2) t f(1) by (auto simp: fits_def seg_len_def ETHER_HEADER_LENGTH_def)
  obtain m' where m': "recalculate_udp ?x = Some m'" "rewritten IPPROTO_UDP (ip_th ?x + 6) ?x m'"
    using udp_rewrite [OF _ len(1)] d(2) f(4) by auto
  let ?p' = "p\<lparr>m_Length := m_Length p + 10, m_IBuffer := m'\<rparr>"
  have "unat (m_Length p + 10) = ip_th ?x + seg_len ?x"
    using d(6) assms(2) by (simp add: f(2) len(2) unat_word_ariths MAX_ETHER_FRAME_def)
  moreover have "unat (ntohs (udp_length ?x (ip_th ?x))) = seg_len ?x"
    unfolding f(2,11) len(2) using add_net16_unat [of "udp_length ?m (ip_th ?m)" 10] d(5) assms(2)
    by (simp add: MAX_ETHER_FRAME_def)
  ultimately have r: "udp_packet ?p'" "checksums_valid ?p'"
    "carries m' (ip_src ?x) (th_sport ?x (ip_th ?x)) (ip_dst ?x) (th_dport ?x (ip_th ?x))"
    "udp_payload ?p' = map (\<lambda>k. ?x (ip_th ?x + 8 + k)) [0..<seg_len ?x - 8]"
    using rewritten_udp [where p = p and len = "m_Length p + 10", OF m'(2) len(1) refl] d f by (simp_all add: is_fragment_def)
  have "seg_len ?x - 8 = 10 + ?n"
    using t(2) len(2) by simp
  then have "udp_payload ?p' = socks5_udp_header_v4 ?m @ udp_payload p"
    using r(4) f(12) by (simp add: f(2) udp_payload_nth)
  moreover have "carries m' dst sport src port"
    using r(3) assms(3) f by (simp add: carries_def)
  ultimately show ?thesis
    using r(1,2) m'(1) encapsulate_v4_eq [OF assms(1,2), of port] by simp
qed

section \<open>Decapsulation\<close>

definition decapsulated_frame :: "nat \<Rightarrow> frame \<Rightarrow> frame" where
  "decapsulated_frame len m =
     (let t = ip_th m;
          m1 = wr_bytes (swap_ip (swap_eth m)) 26 [m (t + 12), m (t + 13), m (t + 14), m (t + 15)];
          m2 = moved (wr_bytes m1 t [m (t + 16), m (t + 17)]) (t + 8) (t + 18) len
      in wr16 (wr16 m2 16 (sub_net16 (ip_len m) 10)) (t + 4) (sub_net16 (udp_length m t) 10))"

lemma upt_offsets:
  "[t + 12..<t + 16] = [t + 12, t + 13, t + 14, t + 15 :: nat]" "[t + 16..<t + 18] = [t + 16, t + 17 :: nat]"
  by (rule nth_equalityI, simp, auto simp: nth_Cons')+

lemma decapsulate_v4_eq:
  assumes "udp_packet p" "18 \<le> seg_len (m_IBuffer p)"
  shows "decapsulate_v4 p = do {
    m \<leftarrow> recalculate_udp (decapsulated_frame (seg_len (m_IBuffer p) - 18) (m_IBuffer p));
    Some (p\<lparr>m_Length := m_Length p - 10, m_IBuffer := m\<rparr>) }"
proof -
  let ?m = "m_IBuffer p" and ?n = "seg_len (m_IBuffer p) - 18"
  note d = udp_packetD [OF assms(1)]
  have t: "34 \<le> ip_th ?m" "ip_th ?m + seg_len ?m \<le> MAX_ETHER_FRAME"
    using seg_len_bounds [OF d(4)] by auto
  have n: "socks5_udp_header_size_v4 = 10"
    by (simp add: socks5_udp_header_size_v4_def)
  have pos: "ip_th ?m + 8 + 4 = ip_th ?m + 12" "ip_th ?m + 8 + 8 = ip_th ?m + 16"
    "ip_th ?m + 8 + 10 = ip_th ?m + 18"
    by simp_all
  let ?m1 = "swap_ip (swap_eth ?m)"
  have b1: "?m1 (ip_th ?m + 12) = ?m (ip_th ?m + 12)" "?m1 (ip_th ?m + 13) = ?m (ip_th ?m + 13)"
    "?m1 (ip_th ?m + 14) = ?m (ip_th ?m + 14)" "?m1 (ip_th ?m + 15) = ?m (ip_th ?m + 15)"
    using t(1) by (simp_all add: swap_headers_apply)
  let ?m2 = "wr_bytes ?m1 26 [?m (ip_th ?m + 12), ?m (ip_th ?m + 13), ?m (ip_th ?m + 14), ?m (ip_th ?m + 15)]"
  have b2: "?m2 (ip_th ?m + 16) = ?m (ip_th ?m + 16)" "?m2 (ip_th ?m + 17) = ?m (ip_th ?m + 17)"
    using t(1) by (simp_all add: swap_headers_apply wr_bytes_def)
  let ?m3 = "wr_bytes ?m2 (ip_th ?m) [?m (ip_th ?m + 16), ?m (ip_th ?m + 17)]"
  have len3: "udp_length ?m3 (ip_th ?m) = udp_length ?m (ip_th ?m)"
    using t(1) by (simp add: udp_length_def rd16_def wr_bytes_def swap_headers_apply)
  have "unat (ntohs (udp_length ?m (ip_th ?m)) - 8) = seg_len ?m - 8"
    using unat_sub_of_nat16 [of 8 "ntohs (udp_length ?m (ip_th ?m))"] assms(2) d(5) by simp
  then have strip: "strip_header ?m3 (ip_th ?m) 10 = Some (moved ?m3 (ip_th ?m + 8) (ip_th ?m + 18) ?n)"
    using assms(2) t(2) by (simp add: strip_header_def len3 Let_def pos move_range_in)
  let ?m4 = "moved ?m3 (ip_th ?m + 8) (ip_th ?m + 18) ?n"
  have len4: "ip_len ?m4 = ip_len ?m" "udp_length (wr16 ?m4 16 v) (ip_th ?m) = udp_length ?m (ip_th ?m)" for v
    using t(1) by (simp_all add: ip_len_def udp_length_def rd16_def moved_def wr_bytes_def swap_headers_apply wr16_apply)
  show ?thesis
    unfolding decapsulate_v4_def Let_def n pos upt_offsets list.map b1 b2 strip Option.bind.bind_lunit len4
      decapsulated_frame_def by simp
qed

lemma decapsulated_fields:
  fixes len :: nat
  assumes "34 \<le> ip_th m"
  defines "x \<equiv> decapsulated_frame len m"
  shows "ip_hl x = ip_hl m" "ip_th x = ip_th m" "ip_len x = sub_net16 (ip_len m) 10" "ip_p x = ip_p m"
    "h_proto x = h_proto m" "ip_off x = ip_off m"
    "ip_src x = le32 (m (ip_th m + 12)) (m (ip_th m + 13)) (m (ip_th m + 14)) (m (ip_th m + 15))"
    "ip_dst x = ip_src m" "th_sport x (ip_th m) = le16 (m (ip_th m + 16)) (m (ip_th m + 17))"
    "th_dport x (ip_th m) = th_dport m (ip_th m)"
    "udp_length x (ip_th m) = sub_net16 (udp_length m (ip_th m)) 10"
    "k < len \<Longrightarrow> x (ip_th m + 8 + k) = m (ip_th m + 18 + k)"
proof -
  let ?addr = "[m (ip_th m + 12), m (ip_th m + 13), m (ip_th m + 14), m (ip_th m + 15)]"
  let ?port = "[m (ip_th m + 16), m (ip_th m + 17)]"
  have low: "x j = wr16 (wr_bytes (swap_ip (swap_eth m)) 26 ?addr) 16 (sub_net16 (ip_len m) 10) j" if "j < 34" for j
    using that assms(1) by (simp add: x_def decapsulated_frame_def Let_def wr16_apply moved_def wr_bytes_def)
  have high: "x j = wr16 (moved (wr_bytes m (ip_th m) ?port) (ip_th m + 8) (ip_th m + 18) len) (ip_th m + 4)
      (sub_net16 (udp_length m (ip_th m)) 10) j" if "34 \<le> j" for j
    using that assms(1) unfolding x_def decapsulated_frame_def Let_def
    by (simp add: wr16_apply moved_def wr_bytes_def swap_headers_apply)
  show "ip_hl x = ip_hl m" "ip_th x = ip_th m" "ip_p x = ip_p m"
    "h_proto x = h_proto m" "ip_off x = ip_off m" "ip_dst x = ip_src m"
    "ip_len x = sub_net16 (ip_len m) 10"
    "ip_src x = le32 (m (ip_th m + 12)) (m (ip_th m + 13)) (m (ip_th m + 14)) (m (ip_th m + 15))"
    by (simp_all add: field_defs ip_th_def low swap_headers_apply wr16_apply wr_bytes_def)
  show "th_sport x (ip_th m) = le16 (m (ip_th m + 16)) (m (ip_th m + 17))"
    "th_dport x (ip_th m) = th_dport m (ip_th m)"
    "udp_length x (ip_th m) = sub_net16 (udp_length m (ip_th m)) 10"
    using assms(1) by (simp_all add: th_sport_def th_dport_def udp_length_def rd16_def high wr16_apply moved_def wr_bytes_def)
  show "x (ip_th m + 8 + k) = m (ip_th m + 18 + k)" if "k < len"
    using assms(1) that by (simp add: high wr16_apply moved_def wr_bytes_def)
qed

lemma decapsulate_v4_ok:
  assumes "udp_packet p" "udp_payload p = [a, b, c, d, h1, h2, h3, h4, p1, p2] @ data"
    and "carries (m_IBuffer p) src sport dst dport"
  shows "\<exists>p'. decapsulate_v4 p = Some p' \<and> udp_packet p' \<and> checksums_valid p' \<and>
    carries (m_IBuffer p') (le32 h1 h2 h3 h4) (le16 p1 p2) src dport \<and> udp_payload p' = data"
proof -
  let ?m = "m_IBuffer p" and ?n = "seg_len (m_IBuffer p) - 18"
  let ?x = "decapsulated_frame ?n ?m"
  note d = udp_packetD [OF assms(1)]
  have "length (udp_payload p) = seg_len ?m - 8"
    by (simp add: udp_payload_nth)
  then have seg: "18 \<le> seg_len ?m" "length data = ?n"
    using assms(2) by auto
  have t: "34 \<le> ip_th ?m" "ip_th ?m + seg_len ?m = 14 + unat (ntohs (ip_len ?m))"
    "ip_th ?m = 14 + 4 * ip_hl ?m"
    using seg_len_bounds [OF d(4)] d(4) by (auto simp: ip_th_def ETHER_HEADER_LENGTH_def fits_def seg_len_def)
  have byte: "?m (ip_th ?m + 8 + k) = ([a, b, c, d, h1, h2, h3, h4, p1, p2] @ data) ! k" if "k < seg_len ?m - 8" for k
    using that assms(2) by (metis (no_types, lifting) add_0 diff_zero length_upt nth_map nth_upt udp_payload_nth)
  have "?m (ip_th ?m + 8 + 4) = h1" "?m (ip_th ?m + 8 + 5) = h2" "?m (ip_th ?m + 8 + 6) = h3"
    "?m (ip_th ?m + 8 + 7) = h4" "?m (ip_th ?m + 8 + 8) = p1" "?m (ip_th ?m + 8 + 9) = p2"
    using seg(1) by (subst byte; simp)+
  then have hdr: "?m (ip_th ?m + 12) = h1" "?m (ip_th ?m + 13) = h2" "?m (ip_th ?m + 14) = h3"
    "?m (ip_th ?m + 15) = h4" "?m (ip_th ?m + 16) = p1" "?m (ip_th ?m + 17) = p2"
    by (simp_all add: add.commute)
  have tail: "?m (ip_th ?m + 18 + k) = data ! k" if "k < ?n" for k
    using byte [of "10 + k"] that by (simp add: ac_simps)
  note f = decapsulated_fields [where len = ?n, OF t(1)]
  have "unat (ntohs (ip_len ?x)) = unat (ntohs (ip_len ?m)) - 10"
    unfolding f(3) using t(1,2) seg(1) by (intro sub_net16_unat) linarith
  then have len: "fits ?x 8" "seg_len ?x = seg_len ?m - 10"
    using d(4) t seg(1) f(1) by (auto simp: fits_def seg_len_def ETHER_HEADER_LENGTH_def)
  obtain m' where m': "recalculate_udp ?x = Some m'" "rewritten IPPROTO_UDP (ip_th ?x + 6) ?x m'"
    using udp_rewrite [OF _ len(1)] d(2) f(4) by auto
  let ?p' = "p\<lparr>m_Length := m_Length p - 10, m_IBuffer := m'\<rparr>"
  have "unat (m_Length p - 10) = ip_th ?x + seg_len ?x"
    using unat_sub_of_nat [of 10 "m_Length p"] d(6) seg(1) by (simp add: f(2) len(2))
  moreover have "unat (ntohs (udp_length ?x (ip_th ?x))) = seg_len ?x"
    unfolding f(2,11) len(2) using sub_net16_unat [of 10 "udp_length ?m (ip_th ?m)"] d(5) seg(1) by simp
  ultimately have r: "udp_packet ?p'" "checksums_valid ?p'"
    "carries m' (ip_src ?x) (th_sport ?x (ip_th ?x)) (ip_dst ?x) (th_dport ?x (ip_th ?x))"
    "udp_payload ?p' = map (\<lambda>k. ?x (ip_th ?x + 8 + k)) [0..<seg_len ?x - 8]"
    using rewritten_udp [where p = p and len = "m_Length p - 10", OF m'(2) len(1) refl] d f
    by (simp_all add: is_fragment_def)
  have "udp_payload ?p' = data"
  proof (rule nth_equalityI)
    fix k
    assume "k < length (udp_payload ?p')"
    then have "k < ?n"
      by (simp add: r(4) len(2))
    then show "udp_payload ?p' ! k = data ! k"
      using f(12) tail by (simp add: r(4) len(2) f(2))
  qed (simp add: r(4) len(2) seg(2))
  moreover have "carries m' (le32 h1 h2 h3 h4) (le16 p1 p2) src dport"
    using r(3) assms(3) f hdr by (simp add: carries_def)
  ultimately show ?thesis
    using r(1,2) m'(1) decapsulate_v4_eq [OF assms(1) seg(1)] by simp
qed

section \<open>One datagram in each direction\<close>

lemma client_datagram_encapsulated:
  assumes "udp_packet p" "carries (m_IBuffer p) app app_port server server_port"
    and "endpoints r app_port = Some t0" "port \<noteq> 0"
    and "ip_th (m_IBuffer p) + seg_len (m_IBuffer p) + socks5_udp_header_size_v4 \<le> MAX_ETHER_FRAME"
  shows "\<exists>r' p'. udp_client_to_server_v4 now r port p = Some (True, r', p') \<and>
    endpoints r' app_port = Some now \<and> udp_packet p' \<and> checksums_valid p' \<and>
    carries (m_IBuffer p') server app_port app port \<and>
    udp_payload p' = socks5_udp_header_v4 (m_IBuffer p) @ udp_payload p"
proof -
  have "th_sport (m_IBuffer p) (ip_th (m_IBuffer p)) = app_port"
    using assms(2) by (simp add: carries_def)
  moreover obtain p' where "encapsulate_v4 port p = Some p'" "udp_packet p'" "checksums_valid p'"
    "carries (m_IBuffer p') server app_port app port"
    "udp_payload p' = socks5_udp_header_v4 (m_IBuffer p) @ udp_payload p"
    using encapsulate_v4_ok [OF assms(1) _ assms(2), of port] assms(5)
    by (auto simp: socks5_udp_header_size_v4_def)
  ultimately show ?thesis
    using udp_packetD [OF assms(1)] assms(3,4) by (simp add: udp_client_to_server_v4_def Let_def)
qed

lemma answer_decapsulated:
  assumes "carries (m_IBuffer p) app app_port server server_port"
    and "udp_packet q" "carries (m_IBuffer q) app port server app_port"
    and "udp_payload q = socks5_udp_header_v4 (m_IBuffer p) @ data"
    and "endpoints r app_port = Some t0"
  shows "\<exists>r' q'. udp_server_to_client_v4 now r q = Some (True, r', q') \<and>
    udp_packet q' \<and> checksums_valid q' \<and> carries (m_IBuffer q') server server_port app app_port \<and>
    udp_payload q' = data"
proof -
  let ?m = "m_IBuffer p"
  have "le32 (?m 30) (?m 31) (?m 32) (?m 33) = server"
    "le16 (?m (ip_th ?m + 2)) (?m (ip_th ?m + 3)) = server_port"
    using assms(1) by (simp_all add: carries_def ip_dst_def rd32_def th_dport_def rd16_def numeral_3_eq_3)
  moreover have "th_dport (m_IBuffer q) (ip_th (m_IBuffer q)) = app_port"
    using assms(3) by (simp add: carries_def)
  moreover obtain q' where "decapsulate_v4 q = Some q'" "udp_packet q'" "checksums_valid q'"
    "carries (m_IBuffer q') (le32 (?m 30) (?m 31) (?m 32) (?m 33))
      (le16 (?m (ip_th ?m + 2)) (?m (ip_th ?m + 3))) app app_port" "udp_payload q' = data"
    using decapsulate_v4_ok [OF assms(2) _ assms(3)] assms(4) unfolding socks5_udp_header_v4_def by metis
  ultimately show ?thesis
    using udp_packetD [OF assms(2)] assms(5) by (simp add: udp_server_to_client_v4_def Let_def)
qed

section \<open>Properties of the redirector\<close>

text \<open>
  For a well-formed datagram of a known endpoint that leaves room for the header, the
  redirector succeeds: the result goes to the proxy port from the server's address, carries
  the SOCKS5 header with the original destination in front of the unchanged payload, and both
  checksums are valid.
\<close>

theorem udp_encapsulate:
  assumes "udp_packet p" "carries (m_IBuffer p) app app_port server server_port"
    and "endpoints r app_port = Some t0" "port \<noteq> 0"
    and "ip_th (m_IBuffer p) + seg_len (m_IBuffer p) + socks5_udp_header_size_v4 \<le> MAX_ETHER_FRAME"
  shows "\<exists>r' p'. udp_client_to_server_v4 now r port p = Some (True, r', p') \<and>
    endpoints r' app_port = Some now \<and> udp_packet p' \<and> checksums_valid p' \<and>
    carries (m_IBuffer p') server app_port app port \<and>
    udp_payload p' = socks5_udp_header_v4 (m_IBuffer p) @ udp_payload p"
  by (rule client_datagram_encapsulated [OF assms])

text \<open>
  A datagram the proxy sends to a known endpoint, whose payload starts with the SOCKS5
  header that a client datagram to \<open>server:server_port\<close> got, is turned into a datagram from
  \<open>server:server_port\<close> with the rest as payload and valid checksums: encapsulation and
  decapsulation are inverse on the payload.
\<close>

theorem udp_round_trip:
  assumes "carries (m_IBuffer p) app app_port server server_port"
    and "udp_packet q" "carries (m_IBuffer q) app port server app_port"
    and "udp_payload q = socks5_udp_header_v4 (m_IBuffer p) @ data"
    and "endpoints r app_port = Some t0"
  shows "\<exists>r' q'. udp_server_to_client_v4 now r q = Some (True, r', q') \<and>
    udp_packet q' \<and> checksums_valid q' \<and> carries (m_IBuffer q') server server_port app app_port \<and>
    udp_payload q' = data"
  by (rule answer_decapsulated [OF assms])

text \<open>
  For a datagram that fills the frame so far that the header no longer fits, the redirector
  writes behind the packet array.
\<close>

theorem udp_encapsulate_overflow:
  assumes "udp_packet p" "carries (m_IBuffer p) app app_port server server_port"
    and "endpoints r app_port = Some t0"
    and "MAX_ETHER_FRAME < ip_th (m_IBuffer p) + seg_len (m_IBuffer p) + socks5_udp_header_size_v4"
  shows "udp_client_to_server_v4 now r port p = None"
proof -
  let ?m = "m_IBuffer p"
  note d = udp_packetD [OF assms(1)]
  have t: "ip_th ?m = 14 + 4 * ip_hl ?m" "8 \<le> seg_len ?m" "ip_th ?m + seg_len ?m \<le> MAX_ETHER_FRAME"
    using seg_len_bounds [OF d(4)] by (auto simp: ip_th_def ETHER_HEADER_LENGTH_def)
  have "unat (ucast (m_Length p) :: u16) = ip_th ?m + seg_len ?m"
    using t(3) by (simp add: unsigned_ucast_eq take_bit_eq_mod d(6) MAX_ETHER_FRAME_def)
  then have "unat (ucast (m_Length p) - of_nat (22 + 4 * ip_hl ?m) :: u16) = seg_len ?m - 8"
    using unat_sub_of_nat16 [of "22 + 4 * ip_hl ?m" "ucast (m_Length p)"] t by simp
  moreover have "unat (of_nat MAX_ETHER_FRAME - of_nat (22 + 4 * ip_hl ?m) :: u16) = MAX_ETHER_FRAME - (22 + 4 * ip_hl ?m)"
    using ip_hl_less [of ?m] by (subst unat_sub_of_nat16) (simp_all add: MAX_ETHER_FRAME_def)
  ultimately have "min (unat (ucast (m_Length p) - of_nat (22 + 4 * ip_hl ?m) :: u16))
      (unat (of_nat MAX_ETHER_FRAME - of_nat (22 + 4 * ip_hl ?m) :: u16)) = seg_len ?m - 8"
    using t by simp
  moreover have "move_range ?m (ip_th ?m + 8 + socks5_udp_header_size_v4) (ip_th ?m + 8) (seg_len ?m - 8) = None"
    using assms(4) t(2) unfolding move_range_def by simp
  ultimately have "encapsulate_v4 port' p = None" for port'
    unfolding encapsulate_v4_def Let_def by simp
  then show ?thesis
    using d assms(2,3) by (simp add: udp_client_to_server_v4_def Let_def carries_def)
qed

text \<open>
  An incoming datagram for a known endpoint with less than a SOCKS5 header of payload
  makes the moved size wrap below zero, so the redirector leaves the packet array.
\<close>

theorem udp_short_reply_overflow:
  assumes "udp_packet p" "carries (m_IBuffer p) src sport dst app_port"
    and "endpoints r app_port = Some t0" "length (udp_payload p) < socks5_udp_header_size_v4"
  shows "udp_server_to_client_v4 now r p = None"
proof -
  let ?m = "m_IBuffer p"
  note d = udp_packetD [OF assms(1)]
  have t: "34 \<le> ip_th ?m" "8 \<le> seg_len ?m"
    using seg_len_bounds [OF d(4)] by auto
  have "seg_len ?m - 8 < socks5_udp_header_size_v4"
    using assms(4) by (simp add: udp_payload_nth)
  moreover have "unat (ntohs (udp_length ?m (ip_th ?m)) - 8) = seg_len ?m - 8"
    using unat_sub_of_nat16 [of 8 "ntohs (udp_length ?m (ip_th ?m))"] d(5) t(2) by simp
  moreover have "udp_length (wr_bytes (wr_bytes (swap_ip (swap_eth ?m)) 26 xs) (ip_th ?m) ys) (ip_th ?m)
      = udp_length ?m (ip_th ?m)" if "length xs = 4" "length ys = 2" for xs ys
    using t(1) that by (simp add: udp_length_def rd16_def wr_bytes_def swap_headers_apply)
  ultimately have "decapsulate_v4 p = None"
    by (simp add: decapsulate_v4_def Let_def strip_header_def)
  then show ?thesis
    using d assms(2,3) by (simp add: udp_server_to_client_v4_def Let_def carries_def)
qed

section \<open>Witnesses\<close>

definition sample_udp :: "u8 \<Rightarrow> u8 \<Rightarrow> u8 \<Rightarrow> u8 \<Rightarrow> u8 list \<Rightarrow> intermediate_buffer" where
  "sample_udp src sport dst dport bs =
     \<lparr>m_dwDeviceFlags = 1, m_Length = of_nat (42 + length bs),
      m_IBuffer = wr_bytes (wr16 (wr16 ((\<lambda>_. 0)(12 := 8, 14 := 0x45, 23 := 17, 26 := src, 30 := dst,
        34 := sport, 36 := dport)) 16 (htons (of_nat (28 + length bs)))) 38 (htons (of_nat (8 + length bs)))) 42 bs\<rparr>"

lemma sample_udp_at:
  "j < 42 \<Longrightarrow> m_IBuffer (sample_udp a sp b dp bs) j =
     wr16 (wr16 ((\<lambda>_. 0)(12 := 8, 14 := 0x45, 23 := 17, 26 := a, 30 := b, 34 := sp, 36 := dp)) 16
       (htons (of_nat (28 + length bs)))) 38 (htons (of_nat (8 + length bs))) j"
  by (simp add: sample_udp_def wr_bytes_def)

lemma sample_udp_th:
  "ip_hl (m_IBuffer (sample_udp a sp b dp bs)) = 5" "ip_th (m_IBuffer (sample_udp a sp b dp bs)) = 34"
  by (simp_all add: ip_hl_def ip_th_def ETHER_HEADER_LENGTH_def sample_udp_at wr16_apply)

lemma sample_udp_ok:
  assumes "length bs \<le> 1472"
  shows "udp_packet (sample_udp a sp b dp bs)" "seg_len (m_IBuffer (sample_udp a sp b dp bs)) = 8 + length bs"
    "udp_payload (sample_udp a sp b dp bs) = bs"
    "carries (m_IBuffer (sample_udp a sp b dp bs)) (le32 a 0 0 0) (le16 sp 0) (le32 b 0 0 0) (le16 dp 0)"
proof -
  let ?p = "sample_udp a sp b dp bs"
  have f: "ip_len (m_IBuffer ?p) = htons (of_nat (28 + length bs))" "h_proto (m_IBuffer ?p) = le16 8 0"
    "ip_p (m_IBuffer ?p) = 17" "ip_off (m_IBuffer ?p) = 0"
    "udp_length (m_IBuffer ?p) 34 = htons (of_nat (8 + length bs))"
    by (simp_all add: field_defs udp_length_def sample_udp_at wr16_apply) (simp_all add: le16_def)
  have len: "unat (ntohs (ip_len (m_IBuffer ?p))) = 28 + length bs"
    "unat (ntohs (udp_length (m_IBuffer ?p) 34)) = 8 + length bs"
    using assms by (simp_all only: f ntohs_ntohs) (simp_all add: unat_of_nat_u16 del: of_nat_add)
  show seg: "seg_len (m_IBuffer ?p) = 8 + length bs"
    by (simp add: seg_len_def len sample_udp_th)
  have "unat (m_Length ?p) = 42 + length bs"
    using assms unfolding sample_udp_def by (simp add: unat_of_nat_u32 del: of_nat_add)
  moreover have "ntohs (h_proto (m_IBuffer ?p)) = ETH_P_IP"
    by (simp add: f wire_simps le16_samples ETH_P_IP_def)
  moreover have "\<not> is_fragment (m_IBuffer ?p)"
    by (simp add: is_fragment_def f ntohs_def)
  ultimately show "udp_packet ?p"
    using assms by (simp add: udp_packet_def Let_def fits_def sample_udp_th len f(3) IPPROTO_UDP_def seg
        ETHER_HEADER_LENGTH_def MAX_ETHER_FRAME_def)
  show "udp_payload ?p = bs"
    by (rule nth_equalityI) (simp_all add: udp_payload_nth seg sample_udp_th, simp add: sample_udp_def wr_bytes_def)
  show "carries (m_IBuffer ?p) (le32 a 0 0 0) (le16 sp 0) (le32 b 0 0 0) (le16 dp 0)"
    unfolding carries_def sample_udp_th by (simp add: field_defs sample_udp_at wr16_apply)
qed

definition sample_udp_redirect :: socks5_udp_local_redirect where
  "sample_udp_redirect = \<lparr>endpoints = [le16 3 0 \<mapsto> 0], udp_proxy_port = 0, udp_terminated = False\<rparr>"

theorem udp_encapsulate_witness:
  "\<exists>r' p'. udp_client_to_server_v4 5 sample_udp_redirect (le16 7 0) (sample_udp 10 3 20 53 [1, 2]) = Some (True, r', p') \<and>
    endpoints r' (le16 3 0) = Some 5 \<and> udp_packet p' \<and> checksums_valid p' \<and>
    carries (m_IBuffer p') (le32 20 0 0 0) (le16 3 0) (le32 10 0 0 0) (le16 7 0) \<and>
    udp_payload p' = socks5_udp_header_v4 (m_IBuffer (sample_udp 10 3 20 53 [1, 2])) @ udp_payload (sample_udp 10 3 20 53 [1, 2])"
  by (rule udp_encapsulate [where server_port = "le16 53 0" and ?t0.0 = 0])
    (simp_all add: sample_udp_ok sample_udp_th sample_udp_redirect_def le16_samples
      socks5_udp_header_size_v4_def MAX_ETHER_FRAME_def)

theorem udp_round_trip_witness:
  "\<exists>r' q'. udp_server_to_client_v4 9 sample_udp_redirect
      (sample_udp 10 7 20 3 (socks5_udp_header_v4 (m_IBuffer (sample_udp 10 3 20 53 [1, 2])) @ [8, 9])) = Some (True, r', q') \<and>
    udp_packet q' \<and> checksums_valid q' \<and>
    carries (m_IBuffer q') (le32 20 0 0 0) (le16 53 0) (le32 10 0 0 0) (le16 3 0) \<and> udp_payload q' = [8, 9]"
proof (rule udp_round_trip)
  have "length (socks5_udp_header_v4 m) = 10" for m
    by (simp add: socks5_udp_header_v4_def)
  then show "udp_packet (sample_udp 10 7 20 3 (socks5_udp_header_v4 (m_IBuffer (sample_udp 10 3 20 53 [1, 2])) @ [8, 9]))"
    "carries (m_IBuffer (sample_udp 10 7 20 3 (socks5_udp_header_v4 (m_IBuffer (sample_udp 10 3 20 53 [1, 2])) @ [8, 9])))
       (le32 10 0 0 0) (le16 7 0) (le32 20 0 0 0) (le16 3 0)"
    "udp_payload (sample_udp 10 7 20 3 (socks5_udp_header_v4 (m_IBuffer (sample_udp 10 3 20 53 [1, 2])) @ [8, 9])) =
       socks5_udp_header_v4 (m_IBuffer (sample_udp 10 3 20 53 [1, 2])) @ [8, 9]"
    by (simp_all add: sample_udp_ok)
  show "carries (m_IBuffer (sample_udp 10 3 20 53 [1, 2])) (le32 10 0 0 0) (le16 3 0) (le32 20 0 0 0) (le16 53 0)"
    by (simp add: sample_udp_ok)
qed (simp add: sample_udp_redirect_def)

theorem udp_encapsulate_overflow_witness:
  "udp_client_to_server_v4 5 sample_udp_redirect (le16 7 0) (sample_udp 10 3 20 53 (replicate 1470 0)) = None"
  by (rule udp_encapsulate_overflow [where app = "le32 10 0 0 0" and app_port = "le16 3 0" and server = "le32 20 0 0 0" and server_port = "le16 53 0" and ?t0.0 = 0])
    (simp_all add: sample_udp_ok sample_udp_th sample_udp_redirect_def socks5_udp_header_size_v4_def MAX_ETHER_FRAME_def)

theorem udp_short_reply_overflow_witness:
  "udp_server_to_client_v4 5 sample_udp_redirect (sample_udp 10 7 20 3 [1, 2]) = None"
  by (rule udp_short_reply_overflow [where src = "le32 10 0 0 0" and sport = "le16 7 0" and dst = "le32 20 0 0 0" and app_port = "le16 3 0" and ?t0.0 = 0])
    (simp_all add: sample_udp_ok sample_udp_redirect_def socks5_udp_header_size_v4_def)

end
