(* ===== verification/Process_Lookup.thy ===== *)
theory Process_Lookup
  imports Aging_Table Net_Address
begin

text \<open>
  \<^verbatim>\<open>iphelper::process_lookup\<close> (iphelper/process_lookup.h): which process owns a TCP session or a
  UDP endpoint.  The tables are rebuilt from the system's; a session that nobody owns may be
  given to the default process for two seconds.  The code shares the process objects and writes
  to them, so they live in an explicit store and the tables hold references.  The system's
  tables, \<^verbatim>\<open>QueryDosDeviceW\<close> and the owner resolution by process and service tag are parameters.
\<close>

unbundle bit_operations_syntax

section \<open>Process objects\<close>

type_synonym wstring = "u16 list"

definition wide :: "string \<Rightarrow> wstring" where
  "wide s = map of_char s"

record network_process =
  process_id :: u32
  process_name :: wstring
  path_name :: wstring
  device_path_name :: wstring
  process_tcp_proxy_port :: "u16 option"
  process_udp_proxy_port :: "u16 option"
  excluded :: bool
  bypass_tcp :: bool
  bypass_udp :: bool

text \<open>
  \<^verbatim>\<open>towupper\<close> in the C locale.  \<^verbatim>\<open>QueryDosDeviceW\<close> is asked with growing buffers, from 256 up to
  64K characters; of its answer only the first string counts.
\<close>

definition towupper :: "u16 \<Rightarrow> u16" where
  "towupper c = (if 0x61 \<le> c \<and> c \<le> 0x7A then c - 0x20 else c)"

definition wide_to_upper :: "wstring \<Rightarrow> wstring" where
  "wide_to_upper = map towupper"

definition is_valid_wide_string :: "wstring \<Rightarrow> bool" where
  "is_valid_wide_string s \<longleftrightarrow> s \<noteq> [] \<and> hd s \<noteq> 0"

datatype dos_device_answer = Device_buffer wstring | Insufficient_buffer | Query_failed

function query_dos_device :: "(nat \<Rightarrow> dos_device_answer) \<Rightarrow> nat \<Rightarrow> wstring option" where
  "query_dos_device query cap =
     (case query cap of
        Device_buffer buf \<Rightarrow> Some (takeWhile (\<lambda>c. c \<noteq> 0) buf)
      | Query_failed \<Rightarrow> None
      | Insufficient_buffer \<Rightarrow>
          if cap = 0 \<or> 65536 < 2 * cap then None else query_dos_device query (2 * cap))"
  by pat_completeness auto

termination
  by (relation "measure (\<lambda>(query, cap). 65536 - cap)") auto

declare query_dos_device.simps [simp del]

definition convert_to_device_path :: "(wstring \<Rightarrow> nat \<Rightarrow> dos_device_answer) \<Rightarrow> wstring \<Rightarrow> wstring" where
  "convert_to_device_path query path =
     (if \<not> is_valid_wide_string path \<or> length path < 2 \<or> path ! 1 \<noteq> of_char CHR '':'' then []
      else case query_dos_device (query (take 2 path)) 256 of
        None \<Rightarrow> []
      | Some device_path \<Rightarrow> device_path @ drop 2 path)"

definition new_network_process ::
  "(wstring \<Rightarrow> nat \<Rightarrow> dos_device_answer) \<Rightarrow> u32 \<Rightarrow> wstring \<Rightarrow> wstring \<Rightarrow> network_process" where
  "new_network_process query pid name path =
     \<lparr>process_id = pid, process_name = wide_to_upper name, path_name = wide_to_upper path,
      device_path_name = wide_to_upper (convert_to_device_path query path),
      process_tcp_proxy_port = None, process_udp_proxy_port = None,
      excluded = False, bypass_tcp = False, bypass_udp = False\<rparr>"

section \<open>The store of process objects\<close>

type_synonym process_ref = nat

record process_store =
  objects :: "process_ref \<Rightarrow> network_process"
  next_object :: process_ref

definition make_shared :: "network_process \<Rightarrow> process_store \<Rightarrow> process_ref \<times> process_store" where
  "make_shared p st =
     (next_object st, st\<lparr>objects := (objects st)(next_object st := p), next_object := Suc (next_object st)\<rparr>)"

section \<open>Resolving the owner of a row\<close>

text \<open>
  The system's tables have one row per session or endpoint, addresses and ports in network
  order.  \<open>owning_module_info\<close> is the first word of the row's \<^verbatim>\<open>OwningModuleInfo\<close>.
\<close>

record 'a tcp_row =
  tr_local_addr :: 'a
  tr_remote_addr :: 'a
  tr_local_port :: u32
  tr_remote_port :: u32
  tr_local_scope :: u32
  tr_remote_scope :: u32
  tr_owning_pid :: u32
  tr_owning_module_info :: u64

record 'a udp_row =
  ur_local_addr :: 'a
  ur_local_port :: u32
  ur_owning_pid :: u32
  ur_owning_module_info :: u64

record os_environment =
  query_dos_device_w :: "wstring \<Rightarrow> nat \<Rightarrow> dos_device_answer"
  resolve_from_pid_and_tag :: "u32 \<Rightarrow> u32 \<Rightarrow> (wstring \<times> wstring) option"

definition service_tag_from_owning_module_info :: "u64 \<Rightarrow> u32" where
  "service_tag_from_owning_module_info omi0 =
     (let lo0 = ucast (omi0 AND 0xFFFFFFFF) :: u32; lo1 = ucast (drop_bit 32 omi0 AND 0xFFFFFFFF) :: u32
      in if lo0 = 0 \<and> lo1 = 0 then 0 else lo0)"

datatype error_code =
  ec_success | invalid_pid | access_denied | module_not_found | service_not_found
  | insufficient_buffer | api_failed

definition resolve_from_pid_and_tag_extended ::
  "os_environment \<Rightarrow> u32 \<Rightarrow> u32 \<Rightarrow> error_code + (wstring \<times> wstring)" where
  "resolve_from_pid_and_tag_extended env pid tag =
     (if pid = 0 then Inl invalid_pid
      else if tag = 0xFFFFFFFF then Inl api_failed
      else case resolve_from_pid_and_tag env pid tag of
        Some owner \<Rightarrow> Inr owner
      | None \<Rightarrow> Inl (if tag = 0 then module_not_found else service_not_found))"

definition is_system_process :: "u32 \<Rightarrow> bool" where
  "is_system_process pid \<longleftrightarrow> pid = 0 \<or> pid = 4"

definition resolve_owner :: "os_environment \<Rightarrow> u32 \<Rightarrow> u64 \<Rightarrow> network_process option" where
  "resolve_owner env pid omi0 =
     (if is_system_process pid then None
      else let tag = service_tag_from_owning_module_info omi0;
               make = (\<lambda>(name, path). new_network_process (query_dos_device_w env) pid name path)
        in case resolve_from_pid_and_tag_extended env pid tag of
          Inr owner \<Rightarrow> Some (make owner)
        | Inl e \<Rightarrow>
            if tag \<noteq> 0 \<and> e = service_not_found
            then map_option make (resolve_from_pid_and_tag env pid 0)
            else None)"

definition process_tcp_entry_v4 :: "os_environment \<Rightarrow> ip_address_v4 tcp_row \<Rightarrow> network_process option" where
  "process_tcp_entry_v4 env row = resolve_owner env (tr_owning_pid row) (tr_owning_module_info row)"

definition process_tcp_entry_v6 :: "os_environment \<Rightarrow> ip_address_v6 tcp_row \<Rightarrow> network_process option" where
  "process_tcp_entry_v6 env row = resolve_owner env (tr_owning_pid row) (tr_owning_module_info row)"

definition process_udp_entry_v4 :: "os_environment \<Rightarrow> ip_address_v4 udp_row \<Rightarrow> network_process option" where
  "process_udp_entry_v4 env row = resolve_owner env (ur_owning_pid row) (ur_owning_module_info row)"

definition process_udp_entry_v6 :: "os_environment \<Rightarrow> ip_address_v6 udp_row \<Rightarrow> network_process option" where
  "process_udp_entry_v6 env row = resolve_owner env (ur_owning_pid row) (ur_owning_module_info row)"

section \<open>State and tables\<close>

record 'a process_lookup =
  store :: process_store
  tcp_to_app :: "'a ip_session \<rightharpoonup> process_ref"
  udp_to_app :: "'a ip_endpoint \<rightharpoonup> process_ref"
  tcp_protected_apps :: "'a ip_session \<rightharpoonup> time_point"
  udp_protected_apps :: "'a ip_endpoint \<rightharpoonup> time_point"
  default_process :: process_ref
  table_buffer_size_tcp :: nat
  table_buffer_size_udp :: nat

text \<open>
  The loop around \<^verbatim>\<open>GetExtendedTcpTable\<close> and \<^verbatim>\<open>GetExtendedUdpTable\<close>: the answers of the successive
  calls are given; too small a buffer is replaced by one of the size asked for, any other error
  gives up.  \<open>None\<close> says that the answers end while the loop still asks.
\<close>

datatype 'r table_answer = Table "'r list" | Buffer_too_small nat | Table_error

fun query_table :: "nat \<Rightarrow> 'r table_answer list \<Rightarrow> (nat \<times> 'r list option) option" where
  "query_table table_size [] = None"
| "query_table table_size (Table rows # answers) = Some (table_size, Some rows)"
| "query_table table_size (Buffer_too_small needed # answers) = query_table needed answers"
| "query_table table_size (Table_error # answers) = Some (table_size, None)"

fun build_table ::
  "('r \<Rightarrow> 'k) \<Rightarrow> ('r \<Rightarrow> network_process option) \<Rightarrow> 'r list \<Rightarrow> ('k \<rightharpoonup> process_ref) \<Rightarrow> process_store \<Rightarrow>
   ('k \<rightharpoonup> process_ref) \<times> process_store" where
  "build_table key owner [] tbl st = (tbl, st)"
| "build_table key owner (row # rows) tbl st =
     (case owner row of
        None \<Rightarrow> build_table key owner rows tbl st
      | Some p \<Rightarrow>
          let (ref, st) = make_shared p st in build_table key owner rows (tbl(key row \<mapsto> ref)) st)"

definition tcp_row_key_v4 :: "ip_address_v4 tcp_row \<Rightarrow> ip_address_v4 ip_session" where
  "tcp_row_key_v4 row = session (tr_local_addr row) (tr_remote_addr row)
     (ntohs (ucast (tr_local_port row))) (ntohs (ucast (tr_remote_port row)))"

definition tcp_row_key_v6 :: "ip_address_v6 tcp_row \<Rightarrow> ip_address_v6 ip_session" where
  "tcp_row_key_v6 row =
     \<lparr>local_ep = \<lparr>ep_ip = tr_local_addr row, ep_port = ntohs (ucast (tr_local_port row)),
        scope_id = Some (tr_local_scope row)\<rparr>,
      remote_ep = \<lparr>ep_ip = tr_remote_addr row, ep_port = ntohs (ucast (tr_remote_port row)),
        scope_id = Some (tr_remote_scope row)\<rparr>\<rparr>"

definition udp_row_key_v4 :: "ip_address_v4 udp_row \<Rightarrow> ip_address_v4 ip_endpoint" where
  "udp_row_key_v4 row = endpoint (ur_local_addr row) (ntohs (ucast (ur_local_port row)))"

definition udp_row_key_v6 :: "ip_address_v6 udp_row \<Rightarrow> ip_address_v6 ip_endpoint" where
  "udp_row_key_v6 row =
     \<lparr>ep_ip = ur_local_addr row, ep_port = ntohs (ucast (ur_local_port row)), scope_id = Some 0\<rparr>"

definition initialize_tcp_table ::
  "('r \<Rightarrow> 'a ip_session) \<Rightarrow> ('r \<Rightarrow> network_process option) \<Rightarrow> 'r table_answer list \<Rightarrow>
   'a process_lookup \<Rightarrow> (bool \<times> 'a process_lookup) option" where
  "initialize_tcp_table key owner answers pl = do {
     (table_size, result) \<leftarrow> query_table (table_buffer_size_tcp pl) answers;
     let pl = pl\<lparr>table_buffer_size_tcp := table_size\<rparr>;
     case result of
       None \<Rightarrow> Some (False, pl)
     | Some rows \<Rightarrow>
         let (tbl, st) = build_table key owner rows Map.empty (store pl)
         in Some (True, pl\<lparr>store := st, tcp_to_app := tbl\<rparr>)
   }"

definition initialize_udp_table ::
  "('r \<Rightarrow> 'a ip_endpoint) \<Rightarrow> ('r \<Rightarrow> network_process option) \<Rightarrow> 'r table_answer list \<Rightarrow>
   'a process_lookup \<Rightarrow> (bool \<times> 'a process_lookup) option" where
  "initialize_udp_table key owner answers pl = do {
     (table_size, result) \<leftarrow> query_table (table_buffer_size_udp pl) answers;
     let pl = pl\<lparr>table_buffer_size_udp := table_size\<rparr>;
     case result of
       None \<Rightarrow> Some (False, pl)
     | Some rows \<Rightarrow>
         let (tbl, st) = build_table key owner rows Map.empty (store pl)
         in Some (True, pl\<lparr>store := st, udp_to_app := tbl\<rparr>)
   }"

text \<open>Both caches of unresolved keys are swept after the tables are read.\<close>

definition protected_apps_cache_timeout :: time_point where
  "protected_apps_cache_timeout = seconds 2"

definition sweep_protected :: "time_point \<Rightarrow> ('k \<rightharpoonup> time_point) \<Rightarrow> ('k \<rightharpoonup> time_point)" where
  "sweep_protected now cache = map_erase_if (\<lambda>(key, t). protected_apps_cache_timeout < now - t) cache"

interpretation protected_cache: aging_table "\<lambda>cache. cache" "\<lambda>t. t" sweep_protected protected_apps_cache_timeout
  by unfold_locales
    (auto simp: sweep_protected_def map_erase_if_def protected_apps_cache_timeout_def split: option.splits)

definition actualize ::
  "('r \<Rightarrow> 'a ip_session) \<Rightarrow> ('r \<Rightarrow> network_process option) \<Rightarrow>
   ('q \<Rightarrow> 'a ip_endpoint) \<Rightarrow> ('q \<Rightarrow> network_process option) \<Rightarrow>
   'r table_answer list \<Rightarrow> 'q table_answer list \<Rightarrow> time_point \<Rightarrow> bool \<Rightarrow> bool \<Rightarrow>
   'a process_lookup \<Rightarrow> (bool \<times> 'a process_lookup) option" where
  "actualize tcp_key tcp_owner udp_key udp_owner tcp_answers udp_answers now tcp udp pl = do {
     (ret_tcp, pl) \<leftarrow> (if tcp then initialize_tcp_table tcp_key tcp_owner tcp_answers pl else Some (True, pl));
     (ret_udp, pl) \<leftarrow> (if udp then initialize_udp_table udp_key udp_owner udp_answers pl else Some (True, pl));
     Some (ret_udp \<and> ret_tcp,
       pl\<lparr>udp_protected_apps := sweep_protected now (udp_protected_apps pl),
          tcp_protected_apps := sweep_protected now (tcp_protected_apps pl)\<rparr>)
   }"

definition actualize_v4 ::
  "os_environment \<Rightarrow> ip_address_v4 tcp_row table_answer list \<Rightarrow> ip_address_v4 udp_row table_answer list \<Rightarrow>
   time_point \<Rightarrow> bool \<Rightarrow> bool \<Rightarrow> ip_address_v4 process_lookup \<Rightarrow>
   (bool \<times> ip_address_v4 process_lookup) option" where
  "actualize_v4 env =
     actualize tcp_row_key_v4 (process_tcp_entry_v4 env) udp_row_key_v4 (process_udp_entry_v4 env)"

definition actualize_v6 ::
  "os_environment \<Rightarrow> ip_address_v6 tcp_row table_answer list \<Rightarrow> ip_address_v6 udp_row table_answer list \<Rightarrow>
   time_point \<Rightarrow> bool \<Rightarrow> bool \<Rightarrow> ip_address_v6 process_lookup \<Rightarrow>
   (bool \<times> ip_address_v6 process_lookup) option" where
  "actualize_v6 env =
     actualize tcp_row_key_v6 (process_tcp_entry_v6 env) udp_row_key_v6 (process_udp_entry_v6 env)"

text \<open>The constructor: the default process is the first object; then both tables are read.\<close>

definition initial_process_buffer_size :: nat where
  "initial_process_buffer_size = 131072"

definition empty_process_lookup :: "(wstring \<Rightarrow> nat \<Rightarrow> dos_device_answer) \<Rightarrow> 'a process_lookup" where
  "empty_process_lookup query =
     (let (ref, st) = make_shared (new_network_process query 0 (wide ''SYSTEM'') (wide ''SYSTEM''))
            \<lparr>objects = (\<lambda>_. new_network_process query 0 [] []), next_object = 0\<rparr>
      in \<lparr>store = st, tcp_to_app = Map.empty, udp_to_app = Map.empty,
          tcp_protected_apps = Map.empty, udp_protected_apps = Map.empty, default_process = ref,
          table_buffer_size_tcp = initial_process_buffer_size,
          table_buffer_size_udp = initial_process_buffer_size\<rparr>)"

definition new_process_lookup_v4 ::
  "os_environment \<Rightarrow> ip_address_v4 tcp_row table_answer list \<Rightarrow> ip_address_v4 udp_row table_answer list \<Rightarrow>
   ip_address_v4 process_lookup option" where
  "new_process_lookup_v4 env tcp_answers udp_answers = do {
     (_, pl) \<leftarrow> initialize_tcp_table tcp_row_key_v4 (process_tcp_entry_v4 env) tcp_answers
                 (empty_process_lookup (query_dos_device_w env));
     (_, pl) \<leftarrow> initialize_udp_table udp_row_key_v4 (process_udp_entry_v4 env) udp_answers pl;
     Some pl
   }"

section \<open>Lookup\<close>

text \<open>
  The second half of both lookups, on the cache of unresolved keys: an entry older than the
  timeout is erased, a younger one gives the default process and is stamped again (template
  parameter \<open>UpdateProtected\<close>); without one the key is entered when \<open>SetToDefault\<close> is true.
\<close>

definition lookup_protected ::
  "bool \<Rightarrow> bool \<Rightarrow> time_point \<Rightarrow> 'k \<Rightarrow> process_ref \<Rightarrow> ('k \<rightharpoonup> time_point) \<Rightarrow>
   process_ref option \<times> ('k \<rightharpoonup> time_point)" where
  "lookup_protected set_to_default update_protected now key default_ref cache =
     (case cache key of
        Some t \<Rightarrow>
          if protected_apps_cache_timeout < now - t
          then (if set_to_default then (Some default_ref, cache(key \<mapsto> now))
                else (None, cache(key := None)))
          else (Some default_ref, if update_protected then cache(key \<mapsto> now) else cache)
      | None \<Rightarrow>
          if set_to_default then (Some default_ref, cache(key \<mapsto> now)) else (None, cache))"

definition lookup_process_for_tcp ::
  "bool \<Rightarrow> bool \<Rightarrow> time_point \<Rightarrow> 'a ip_session \<Rightarrow> 'a process_lookup \<Rightarrow>
   process_ref option \<times> 'a process_lookup" where
  "lookup_process_for_tcp set_to_default update_protected now s pl =
     (case tcp_to_app pl s of
        Some ref \<Rightarrow> (Some ref, pl)
      | None \<Rightarrow>
          let (ref, cache) = lookup_protected set_to_default update_protected now s
                (default_process pl) (tcp_protected_apps pl)
          in (ref, pl\<lparr>tcp_protected_apps := cache\<rparr>))"

definition lookup_process_for_udp ::
  "bool \<Rightarrow> bool \<Rightarrow> time_point \<Rightarrow> 'a :: zero ip_endpoint \<Rightarrow> 'a process_lookup \<Rightarrow>
   process_ref option \<times> 'a process_lookup" where
  "lookup_process_for_udp set_to_default update_protected now ep pl =
     (case udp_to_app pl ep of
        Some ref \<Rightarrow> (Some ref, pl)
      | None \<Rightarrow>
        (case udp_to_app pl (ep\<lparr>ep_ip := 0\<rparr>) of
           Some ref \<Rightarrow> (Some ref, pl)
         | None \<Rightarrow>
             let (ref, cache) = lookup_protected set_to_default update_protected now ep
                   (default_process pl) (udp_protected_apps pl)
             in (ref, pl\<lparr>udp_protected_apps := cache\<rparr>)))"

text \<open>Access to the process object behind a reference.\<close>

definition process_at :: "'a process_lookup \<Rightarrow> process_ref \<Rightarrow> network_process" where
  "process_at pl ref = objects (store pl) ref"

definition write_process ::
  "process_ref \<Rightarrow> (network_process \<Rightarrow> network_process) \<Rightarrow> 'a process_lookup \<Rightarrow> 'a process_lookup" where
  "write_process ref f pl =
     pl\<lparr>store := (store pl)\<lparr>objects := (objects (store pl))(ref := f (objects (store pl) ref))\<rparr>\<rparr>"

section \<open>Facts about the tables\<close>

lemma find_append: "find P (xs @ ys) = (case find P xs of None \<Rightarrow> find P ys | Some x \<Rightarrow> Some x)"
  by (induction xs) auto

definition table_below :: "process_ref \<Rightarrow> process_ref \<Rightarrow> ('k \<rightharpoonup> process_ref) \<Rightarrow> bool" where
  "table_below lo hi tbl \<longleftrightarrow> (\<forall>k ref. tbl k = Some ref \<longrightarrow> lo \<le> ref \<and> ref < hi)"

definition unshared :: "('k \<rightharpoonup> process_ref) \<Rightarrow> bool" where
  "unshared tbl \<longleftrightarrow> (\<forall>j k ref. tbl j = Some ref \<longrightarrow> tbl k = Some ref \<longrightarrow> j = k)"

text \<open>The owner of a key: that of the last row with the key whose owner can be resolved.\<close>

definition row_owner :: "('r \<Rightarrow> 'k) \<Rightarrow> ('r \<Rightarrow> network_process option) \<Rightarrow> 'r list \<Rightarrow> 'k \<Rightarrow> network_process option" where
  "row_owner key owner rows k =
     Option.bind (find (\<lambda>r. key r = k \<and> owner r \<noteq> None) (rev rows)) owner"

lemma build_table_Some:
  "owner row = Some p \<Longrightarrow> build_table key owner (row # rows) tbl st =
     build_table key owner rows (tbl(key row \<mapsto> next_object st)) (snd (make_shared p st))"
  by (simp add: make_shared_def)

lemma make_shared_simps [simp]:
  "next_object (snd (make_shared p st)) = Suc (next_object st)"
  "objects (snd (make_shared p st)) ref = (if ref = next_object st then p else objects st ref)"
  by (simp_all add: make_shared_def)

lemma build_table_store:
  "build_table key owner rows tbl st = (tbl', st') \<Longrightarrow>
   next_object st \<le> next_object st' \<and> (\<forall>ref < next_object st. objects st' ref = objects st ref)"
proof (induction rows arbitrary: tbl st)
  case (Cons row rows)
  show ?case
  proof (cases "owner row")
    case (Some p)
    then show ?thesis
      using Cons.IH [OF Cons.prems [unfolded build_table_Some [of owner, OF Some]]] by auto
  qed (use Cons in simp)
qed simp

lemma build_table_refs:
  "build_table key owner rows tbl st = (tbl', st') \<Longrightarrow> table_below lo (next_object st) tbl \<Longrightarrow>
   lo \<le> next_object st \<Longrightarrow> unshared tbl \<Longrightarrow> table_below lo (next_object st') tbl' \<and> unshared tbl'"
proof (induction rows arbitrary: tbl st)
  case (Cons row rows)
  show ?case
  proof (cases "owner row")
    case (Some p)
    have "table_below lo (Suc (next_object st)) (tbl(key row \<mapsto> next_object st))"
      using Cons.prems(2,3) by (auto simp: table_below_def less_Suc_eq)
    moreover have "unshared (tbl(key row \<mapsto> next_object st))"
      using Cons.prems(2,4) by (auto simp: unshared_def table_below_def)
    ultimately show ?thesis
      using Cons.IH [OF Cons.prems(1) [unfolded build_table_Some [of owner, OF Some]]] Cons.prems(3)
      by (simp del: fun_upd_apply)
  qed (use Cons in simp)
qed simp

lemma build_table_owner:
  "build_table key owner rows tbl st = (tbl', st') \<Longrightarrow> table_below 0 (next_object st) tbl \<Longrightarrow>
   map_option (objects st') (tbl' k) =
     (case row_owner key owner rows k of None \<Rightarrow> map_option (objects st) (tbl k) | Some p \<Rightarrow> Some p)"
proof (induction rows arbitrary: tbl st)
  case (Cons row rows)
  show ?case
  proof (cases "owner row")
    case None
    with Cons show ?thesis
      by (simp add: row_owner_def find_append split: option.splits)
  next
    case (Some p)
    let ?tbl = "tbl(key row \<mapsto> next_object st)" and ?st = "snd (make_shared p st)"
    have old: "map_option (objects ?st) (tbl k) = map_option (objects st) (tbl k)"
      using Cons.prems(2) by (cases "tbl k") (auto simp: table_below_def)
    have "table_below 0 (next_object ?st) ?tbl"
      using Cons.prems(2) by (auto simp: table_below_def less_Suc_eq)
    then have "map_option (objects st') (tbl' k) =
        (case row_owner key owner rows k of None \<Rightarrow> map_option (objects ?st) (?tbl k) | Some p \<Rightarrow> Some p)"
      by (rule Cons.IH [OF Cons.prems(1) [unfolded build_table_Some [of owner, OF Some]]])
    moreover have "find (\<lambda>r. key r = k \<and> owner r \<noteq> None) (rev rows) = Some r \<Longrightarrow> \<exists>q. owner r = Some q" for r
      by (auto simp: find_Some_iff)
    ultimately show ?thesis
      using Some old by (auto simp: row_owner_def find_append split: option.splits)
  qed
qed (simp add: row_owner_def)

lemma empty_table [simp]: "table_below lo hi Map.empty" "unshared Map.empty"
  by (simp_all add: table_below_def unshared_def)

text \<open>What reading the tables from the system gives.\<close>

lemma initialize_tcp_table_rows:
  assumes "initialize_tcp_table key owner answers pl = Some (ok, pl')"
    and "query_table (table_buffer_size_tcp pl) answers = Some (n, Some rows)"
  shows "ok" "map_option (process_at pl') (tcp_to_app pl' s) = row_owner key owner rows s"
    "table_below (next_object (store pl)) (next_object (store pl')) (tcp_to_app pl')" "unshared (tcp_to_app pl')"
    "next_object (store pl) \<le> next_object (store pl')"
    "ref < next_object (store pl) \<Longrightarrow> process_at pl' ref = process_at pl ref"
    "udp_to_app pl' = udp_to_app pl" "default_process pl' = default_process pl"
    "tcp_protected_apps pl' = tcp_protected_apps pl" "udp_protected_apps pl' = udp_protected_apps pl"
    "table_buffer_size_udp pl' = table_buffer_size_udp pl"
proof -
  obtain tbl st where b: "build_table key owner rows Map.empty (store pl) = (tbl, st)"
    by fastforce
  with assms have pl': "ok" "pl' = pl\<lparr>table_buffer_size_tcp := n, store := st, tcp_to_app := tbl\<rparr>"
    by (auto simp: initialize_tcp_table_def)
  show "ok" "udp_to_app pl' = udp_to_app pl" "default_process pl' = default_process pl"
    "tcp_protected_apps pl' = tcp_protected_apps pl" "udp_protected_apps pl' = udp_protected_apps pl"
    "table_buffer_size_udp pl' = table_buffer_size_udp pl"
    by (simp_all add: pl')
  show "map_option (process_at pl') (tcp_to_app pl' s) = row_owner key owner rows s"
    using build_table_owner [OF b, of s] by (simp add: pl' process_at_def [abs_def] split: option.splits)
  show "table_below (next_object (store pl)) (next_object (store pl')) (tcp_to_app pl')" "unshared (tcp_to_app pl')"
    using build_table_refs [OF b, of "next_object (store pl)"] by (simp_all add: pl')
  show "next_object (store pl) \<le> next_object (store pl')"
    "ref < next_object (store pl) \<Longrightarrow> process_at pl' ref = process_at pl ref"
    using build_table_store [OF b] by (simp_all add: pl' process_at_def)
qed

lemma initialize_udp_table_rows:
  assumes "initialize_udp_table key owner answers pl = Some (ok, pl')"
    and "query_table (table_buffer_size_udp pl) answers = Some (n, Some rows)"
  shows "ok" "map_option (process_at pl') (udp_to_app pl' s) = row_owner key owner rows s"
    "table_below (next_object (store pl)) (next_object (store pl')) (udp_to_app pl')" "unshared (udp_to_app pl')"
    "next_object (store pl) \<le> next_object (store pl')"
    "ref < next_object (store pl) \<Longrightarrow> process_at pl' ref = process_at pl ref"
    "tcp_to_app pl' = tcp_to_app pl" "default_process pl' = default_process pl"
    "tcp_protected_apps pl' = tcp_protected_apps pl" "udp_protected_apps pl' = udp_protected_apps pl"
proof -
  obtain tbl st where b: "build_table key owner rows Map.empty (store pl) = (tbl, st)"
    by fastforce
  with assms have pl': "ok" "pl' = pl\<lparr>table_buffer_size_udp := n, store := st, udp_to_app := tbl\<rparr>"
    by (auto simp: initialize_udp_table_def)
  show "ok" "tcp_to_app pl' = tcp_to_app pl" "default_process pl' = default_process pl"
    "tcp_protected_apps pl' = tcp_protected_apps pl" "udp_protected_apps pl' = udp_protected_apps pl"
    by (simp_all add: pl')
  show "map_option (process_at pl') (udp_to_app pl' s) = row_owner key owner rows s"
    using build_table_owner [OF b, of s] by (simp add: pl' process_at_def [abs_def] split: option.splits)
  show "table_below (next_object (store pl)) (next_object (store pl')) (udp_to_app pl')" "unshared (udp_to_app pl')"
    using build_table_refs [OF b, of "next_object (store pl)"] by (simp_all add: pl')
  show "next_object (store pl) \<le> next_object (store pl')"
    "ref < next_object (store pl) \<Longrightarrow> process_at pl' ref = process_at pl ref"
    using build_table_store [OF b] by (simp_all add: pl' process_at_def)
qed

section \<open>No sharing of process objects\<close>

text \<open>
  The default process is cell 0, tables point to other allocated cells, and different keys to
  different cells: a flag written for one session is seen by that session only.
\<close>

definition wf_lookup :: "'a process_lookup \<Rightarrow> bool" where
  "wf_lookup pl \<longleftrightarrow>
     default_process pl = 0 \<and> 0 < next_object (store pl) \<and>
     table_below 1 (next_object (store pl)) (tcp_to_app pl) \<and> unshared (tcp_to_app pl) \<and>
     table_below 1 (next_object (store pl)) (udp_to_app pl) \<and> unshared (udp_to_app pl) \<and>
     (\<forall>s e ref. tcp_to_app pl s = Some ref \<longrightarrow> udp_to_app pl e \<noteq> Some ref)"

lemma table_below_mono: "table_below lo hi tbl \<Longrightarrow> lo' \<le> lo \<Longrightarrow> hi \<le> hi' \<Longrightarrow> table_below lo' hi' tbl"
  by (force simp: table_below_def)

lemma initialize_tcp_table_cases:
  assumes "initialize_tcp_table key owner answers pl = Some (ok, pl')"
  obtains n where "pl' = pl\<lparr>table_buffer_size_tcp := n\<rparr>"
  | n rows where "query_table (table_buffer_size_tcp pl) answers = Some (n, Some rows)"
  using assms by (auto simp: initialize_tcp_table_def bind_eq_Some_conv Let_def split: option.splits)

lemma initialize_udp_table_cases:
  assumes "initialize_udp_table key owner answers pl = Some (ok, pl')"
  obtains n where "pl' = pl\<lparr>table_buffer_size_udp := n\<rparr>"
  | n rows where "query_table (table_buffer_size_udp pl) answers = Some (n, Some rows)"
  using assms by (auto simp: initialize_udp_table_def bind_eq_Some_conv Let_def split: option.splits)

lemma table_below_apart:
  "table_below lo mid s \<Longrightarrow> table_below mid hi t \<Longrightarrow> s j = Some ref \<Longrightarrow> t k \<noteq> Some ref"
  by (force simp: table_below_def)

lemma initialize_tcp_table_wf:
  assumes "initialize_tcp_table key owner answers pl = Some (ok, pl')" "wf_lookup pl"
  shows "wf_lookup pl'"
  using assms(1)
proof (cases rule: initialize_tcp_table_cases)
  case (2 n rows)
  note r = initialize_tcp_table_rows [OF assms(1) 2]
  have "udp_to_app pl' e \<noteq> Some ref" if "tcp_to_app pl' s = Some ref" for s e ref
    using table_below_apart [OF _ r(3), of 1 "udp_to_app pl" e ref s] assms(2) that r(7)
    by (auto simp: wf_lookup_def)
  then show ?thesis
    using assms(2) r(3,4,5,7,8) unfolding wf_lookup_def by (auto intro: table_below_mono)
qed (use assms(2) in \<open>simp add: wf_lookup_def\<close>)

lemma initialize_udp_table_wf:
  assumes "initialize_udp_table key owner answers pl = Some (ok, pl')" "wf_lookup pl"
  shows "wf_lookup pl'"
  using assms(1)
proof (cases rule: initialize_udp_table_cases)
  case (2 n rows)
  note r = initialize_udp_table_rows [OF assms(1) 2]
  have "udp_to_app pl' e \<noteq> Some ref" if "tcp_to_app pl' s = Some ref" for s e ref
    using table_below_apart [OF _ r(3), of 1 "tcp_to_app pl" s ref e] assms(2) that r(7)
    by (auto simp: wf_lookup_def)
  then show ?thesis
    using assms(2) r(3,4,5,7,8) unfolding wf_lookup_def by (auto intro: table_below_mono)
qed (use assms(2) in \<open>simp add: wf_lookup_def\<close>)

lemma empty_process_lookup_wf: "wf_lookup (empty_process_lookup query)"
  by (simp add: wf_lookup_def empty_process_lookup_def make_shared_def)

lemma new_process_lookup_wf: "new_process_lookup_v4 env ta ua = Some pl \<Longrightarrow> wf_lookup pl"
  by (auto simp: new_process_lookup_v4_def bind_eq_Some_conv
      elim!: initialize_udp_table_wf initialize_tcp_table_wf intro: empty_process_lookup_wf)

lemma actualize_wf:
  assumes "actualize tk to uk uo ta ua now tcp udp pl = Some (ok, pl')" "wf_lookup pl"
  shows "wf_lookup pl'"
proof -
  obtain ok1 pl1 where t: "(if tcp then initialize_tcp_table tk to ta pl else Some (True, pl)) = Some (ok1, pl1)"
    using assms(1) by (auto simp: actualize_def bind_eq_Some_conv)
  then obtain ok2 pl2 where
    u: "(if udp then initialize_udp_table uk uo ua pl1 else Some (True, pl1)) = Some (ok2, pl2)"
    using assms(1) by (auto simp: actualize_def bind_eq_Some_conv)
  have "wf_lookup pl2"
    using t u assms(2) by (auto split: if_splits intro: initialize_tcp_table_wf initialize_udp_table_wf)
  moreover have "store pl' = store pl2" "tcp_to_app pl' = tcp_to_app pl2" "udp_to_app pl' = udp_to_app pl2"
    "default_process pl' = default_process pl2"
    using assms(1) t u by (auto simp: actualize_def)
  ultimately show ?thesis
    by (simp add: wf_lookup_def)
qed

lemma lookup_process_for_tcp_wf [simp]:
  "wf_lookup (snd (lookup_process_for_tcp d u now s pl)) = wf_lookup pl"
  by (simp add: lookup_process_for_tcp_def wf_lookup_def split: option.split prod.split)

lemma lookup_process_for_udp_wf [simp]:
  "wf_lookup (snd (lookup_process_for_udp d u now e pl)) = wf_lookup pl"
  by (simp add: lookup_process_for_udp_def wf_lookup_def split: option.split prod.split)

lemma write_process_wf [simp]: "wf_lookup (write_process ref f pl) = wf_lookup pl"
  by (simp add: write_process_def wf_lookup_def)

text \<open>The states a lookup service reaches by its operations and by writes to its process objects.\<close>

inductive lookup_reachable :: "os_environment \<Rightarrow> ip_address_v4 process_lookup \<Rightarrow> bool" for env where
  made: "new_process_lookup_v4 env ta ua = Some pl \<Longrightarrow> lookup_reachable env pl"
| refreshed: "lookup_reachable env pl \<Longrightarrow> actualize_v4 env ta ua now tcp udp pl = Some (ok, pl') \<Longrightarrow>
    lookup_reachable env pl'"
| tcp_looked_up: "lookup_reachable env pl \<Longrightarrow> lookup_process_for_tcp d u now s pl = (ref, pl') \<Longrightarrow>
    lookup_reachable env pl'"
| udp_looked_up: "lookup_reachable env pl \<Longrightarrow> lookup_process_for_udp d u now e pl = (ref, pl') \<Longrightarrow>
    lookup_reachable env pl'"
| written: "lookup_reachable env pl \<Longrightarrow> lookup_reachable env (write_process ref f pl)"

lemma lookup_reachable_wf: "lookup_reachable env pl \<Longrightarrow> wf_lookup pl"
proof (induction rule: lookup_reachable.induct)
  case (refreshed pl ta ua now tcp udp ok pl')
  then show ?case
    by (auto simp: actualize_v4_def intro: actualize_wf)
next
  case (tcp_looked_up pl d u now s ref pl')
  then show ?case
    by (metis lookup_process_for_tcp_wf snd_conv)
next
  case (udp_looked_up pl d u now e ref pl')
  then show ?case
    by (metis lookup_process_for_udp_wf snd_conv)
qed (auto intro: new_process_lookup_wf)

section \<open>Properties\<close>

text \<open>
  C34: after a refresh from complete tables, a session or an endpoint belongs to the process of the
  last row with its addresses and ports whose owner could be resolved, to nobody when there is no
  such row, and the object is as the constructor made it: exclusion and bypass flags that were
  written before are gone.
\<close>

theorem actualize_owner_exact:
  assumes "actualize_v4 env tcp_answers udp_answers now True True pl = Some (ok, pl')"
    and "query_table (table_buffer_size_tcp pl) tcp_answers = Some (n, Some rows)"
    and "query_table (table_buffer_size_udp pl) udp_answers = Some (k, Some udp_rows)"
  shows "ok \<and>
    map_option (process_at pl') (tcp_to_app pl' s) = row_owner tcp_row_key_v4 (process_tcp_entry_v4 env) rows s \<and>
    map_option (process_at pl') (udp_to_app pl' e) = row_owner udp_row_key_v4 (process_udp_entry_v4 env) udp_rows e"
proof -
  obtain ok1 pl1 where
    t: "initialize_tcp_table tcp_row_key_v4 (process_tcp_entry_v4 env) tcp_answers pl = Some (ok1, pl1)"
    using assms(1) by (auto simp: actualize_v4_def actualize_def bind_eq_Some_conv)
  then obtain ok2 pl2 where
    u: "initialize_udp_table udp_row_key_v4 (process_udp_entry_v4 env) udp_answers pl1 = Some (ok2, pl2)"
    using assms(1) by (auto simp: actualize_v4_def actualize_def bind_eq_Some_conv)
  have pl': "ok = (ok2 \<and> ok1)" "store pl' = store pl2" "tcp_to_app pl' = tcp_to_app pl2"
      "udp_to_app pl' = udp_to_app pl2"
    using assms(1) t u by (auto simp: actualize_v4_def actualize_def)
  note T = initialize_tcp_table_rows [OF t assms(2)]
  have "table_buffer_size_udp pl1 = table_buffer_size_udp pl"
    by (rule T(11))
  note U = initialize_udp_table_rows [OF u assms(3) [folded this]]
  have "process_at pl2 ref = process_at pl1 ref" if "tcp_to_app pl1 s = Some ref" for ref
    using that T(3) U(6) by (simp add: table_below_def)
  then have "map_option (process_at pl2) (tcp_to_app pl2 s) = map_option (process_at pl1) (tcp_to_app pl1 s)"
    unfolding U(7) by (cases "tcp_to_app pl1 s") auto
  moreover have "process_at pl' = process_at pl2"
    by (simp add: process_at_def [abs_def] pl')
  ultimately show ?thesis
    using T(1,2) U(1,2) pl' by simp
qed

text \<open>
  In every reachable state, a flag written to the object of one session changes the object of
  no other session, of no UDP endpoint, and not the default process.
\<close>

theorem process_objects_unshared:
  assumes "lookup_reachable env pl" "tcp_to_app pl s = Some ref"
  shows "(\<forall>t r. tcp_to_app pl t = Some r \<longrightarrow> t \<noteq> s \<longrightarrow> process_at (write_process ref f pl) r = process_at pl r) \<and>
    (\<forall>e r. udp_to_app pl e = Some r \<longrightarrow> process_at (write_process ref f pl) r = process_at pl r) \<and>
    process_at (write_process ref f pl) (default_process pl) = process_at pl (default_process pl)"
  using lookup_reachable_wf [OF assms(1)] assms(2)
  by (auto simp: wf_lookup_def unshared_def table_below_def process_at_def write_process_def)

section \<open>Witnesses\<close>

definition sample_environment :: os_environment where
  "sample_environment =
     \<lparr>query_dos_device_w = (\<lambda>_ _. Query_failed),
      resolve_from_pid_and_tag = (\<lambda>pid tag. if tag = 0 then Some (wide ''a.exe'', wide ''c'') else None)\<rparr>"

definition sample_tcp_row :: "u32 \<Rightarrow> u32 \<Rightarrow> ip_address_v4 tcp_row" where
  "sample_tcp_row port pid =
     \<lparr>tr_local_addr = 10, tr_remote_addr = 20, tr_local_port = port, tr_remote_port = 80,
      tr_local_scope = 0, tr_remote_scope = 0, tr_owning_pid = pid, tr_owning_module_info = 0\<rparr>"

lemma sample_owner:
  "process_tcp_entry_v4 sample_environment (sample_tcp_row port 7) =
     Some (new_network_process (\<lambda>_ _. Query_failed) 7 (wide ''a.exe'') (wide ''c''))"
  by (simp add: process_tcp_entry_v4_def resolve_owner_def is_system_process_def sample_environment_def
      sample_tcp_row_def service_tag_from_owning_module_info_def resolve_from_pid_and_tag_extended_def Let_def)

lemma sample_query: "query_dos_device_w sample_environment = (\<lambda>_ _. Query_failed)"
  by (simp add: sample_environment_def)

definition sample_lookup :: "ip_address_v4 process_lookup" where
  "sample_lookup =
     snd (the (actualize_v4 sample_environment [Buffer_too_small 200000, Table [sample_tcp_row 3 7]] [Table []]
       0 True True (empty_process_lookup (\<lambda>_ _. Query_failed))))"

lemma sample_actualize:
  "actualize_v4 sample_environment [Buffer_too_small 200000, Table [sample_tcp_row 3 7]] [Table []] 0 True True
     (empty_process_lookup (\<lambda>_ _. Query_failed)) = Some (True, sample_lookup)"
  unfolding sample_lookup_def
  by (simp add: actualize_v4_def actualize_def initialize_tcp_table_def initialize_udp_table_def sample_owner Let_def
      split: prod.split)

theorem actualize_owner_exact_witness:
  "map_option (process_at sample_lookup) (tcp_to_app sample_lookup (tcp_row_key_v4 (sample_tcp_row 3 7))) =
     Some (new_network_process (\<lambda>_ _. Query_failed) 7 (wide ''a.exe'') (wide ''c''))"
  using actualize_owner_exact [OF sample_actualize, of 200000 "[sample_tcp_row 3 7]" 131072 "[]"
      "tcp_row_key_v4 (sample_tcp_row 3 7)"]
  by (simp add: row_owner_def sample_owner empty_process_lookup_def make_shared_def initial_process_buffer_size_def)

lemma sample_reachable: "\<exists>pl. lookup_reachable sample_environment pl \<and>
    tcp_to_app pl (tcp_row_key_v4 (sample_tcp_row 3 7)) = Some 1"
proof -
  have "new_process_lookup_v4 sample_environment [Table [sample_tcp_row 3 7]] [Table []] =
      Some (snd (the (initialize_udp_table udp_row_key_v4 (process_udp_entry_v4 sample_environment) [Table []]
        (snd (the (initialize_tcp_table tcp_row_key_v4 (process_tcp_entry_v4 sample_environment)
          [Table [sample_tcp_row 3 7]] (empty_process_lookup (\<lambda>_ _. Query_failed))))))))"
    (is "_ = Some ?pl")
    by (simp add: new_process_lookup_v4_def initialize_tcp_table_def initialize_udp_table_def sample_owner Let_def
        make_shared_def sample_query)
  moreover have "tcp_to_app ?pl (tcp_row_key_v4 (sample_tcp_row 3 7)) = Some 1"
    by (simp add: initialize_tcp_table_def initialize_udp_table_def sample_owner Let_def make_shared_def
        empty_process_lookup_def)
  ultimately show ?thesis
    using lookup_reachable.made by blast
qed

theorem process_objects_unshared_witness:
  "\<exists>pl. lookup_reachable sample_environment pl \<and>
     process_at (write_process 1 (excluded_update (\<lambda>_. True)) pl) (default_process pl) =
     process_at pl (default_process pl)"
  using sample_reachable process_objects_unshared by blast

end
