(* ===== verification/Static_Filters.thy ===== *)
theory Static_Filters
  imports Packet_Buffer Net_Address
begin

text \<open>
  The filter table of the driver (ndisapi/static_filters.h): the class \<^verbatim>\<open>filter<T>\<close>, its
  translation to and from the driver's \<^verbatim>\<open>STATIC_FILTER\<close> (include/Common.h), and the list that
  \<^verbatim>\<open>static_filters\<close> keeps beside the driver's own table.  The driver's calls are parameters.
\<close>

unbundle bit_operations_syntax

section \<open>Filters\<close>

datatype action_t = action_pass | action_drop | action_redirect | action_pass_redirect | action_drop_redirect

datatype direction_t = direction_in | direction_out | direction_both

text \<open>The setters of the class are the updates of the record; \<open>default_filter\<close> its constructor.\<close>

record 'a filter =
  adapter_handle :: u64
  source_hw_address :: "mac_address option"
  dest_hw_address :: "mac_address option"
  ether_type :: "u16 option"
  source_address :: "'a ip_subnet option"
  dest_address :: "'a ip_subnet option"
  source_port :: "(u16 \<times> u16) option"
  dest_port :: "(u16 \<times> u16) option"
  protocol :: "u8 option"
  direction :: direction_t
  action :: action_t

definition default_filter :: "'a filter" where
  "default_filter =
     \<lparr>adapter_handle = 0, source_hw_address = None, dest_hw_address = None, ether_type = None,
      source_address = None, dest_address = None, source_port = None, dest_port = None,
      protocol = None, direction = direction_both, action = action_pass\<rparr>"

section \<open>The structures of the driver\<close>

definition PACKET_FLAG_ON_SEND :: u32 where "PACKET_FLAG_ON_SEND = 1"
definition PACKET_FLAG_ON_RECEIVE :: u32 where "PACKET_FLAG_ON_RECEIVE = 2"
definition DATA_LINK_LAYER_VALID :: u32 where "DATA_LINK_LAYER_VALID = 1"
definition NETWORK_LAYER_VALID :: u32 where "NETWORK_LAYER_VALID = 2"
definition TRANSPORT_LAYER_VALID :: u32 where "TRANSPORT_LAYER_VALID = 4"
definition ETH_802_3 :: u32 where "ETH_802_3 = 1"
definition ETH_802_3_SRC_ADDRESS :: u32 where "ETH_802_3_SRC_ADDRESS = 1"
definition ETH_802_3_DEST_ADDRESS :: u32 where "ETH_802_3_DEST_ADDRESS = 2"
definition ETH_802_3_PROTOCOL :: u32 where "ETH_802_3_PROTOCOL = 4"
definition SEL_IPV4 :: u32 where "SEL_IPV4 = 1"
definition SEL_IPV6 :: u32 where "SEL_IPV6 = 2"
definition IP_FILTER_SRC_ADDRESS :: u32 where "IP_FILTER_SRC_ADDRESS = 1"
definition IP_FILTER_DEST_ADDRESS :: u32 where "IP_FILTER_DEST_ADDRESS = 2"
definition IP_FILTER_PROTOCOL :: u32 where "IP_FILTER_PROTOCOL = 4"
definition IP_SUBNET_TYPE :: u32 where "IP_SUBNET_TYPE = 1"
definition TCPUDP :: u32 where "TCPUDP = 1"
definition TCPUDP_SRC_PORT :: u32 where "TCPUDP_SRC_PORT = 1"
definition TCPUDP_DEST_PORT :: u32 where "TCPUDP_DEST_PORT = 2"

lemmas filter_constants = PACKET_FLAG_ON_SEND_def PACKET_FLAG_ON_RECEIVE_def DATA_LINK_LAYER_VALID_def
  NETWORK_LAYER_VALID_def TRANSPORT_LAYER_VALID_def ETH_802_3_def ETH_802_3_SRC_ADDRESS_def
  ETH_802_3_DEST_ADDRESS_def ETH_802_3_PROTOCOL_def SEL_IPV4_def SEL_IPV6_def IP_FILTER_SRC_ADDRESS_def
  IP_FILTER_DEST_ADDRESS_def IP_FILTER_PROTOCOL_def IP_SUBNET_TYPE_def TCPUDP_def TCPUDP_SRC_PORT_def
  TCPUDP_DEST_PORT_def

record data_link_layer_filter =
  dl_selector :: u32
  eth_valid_fields :: u32
  eth_src_address :: mac_address
  eth_dest_address :: mac_address
  eth_protocol :: u16

record 'a ip_filter =
  ip_valid_fields :: u32
  ip_src_type :: u32
  ip_src_ip :: 'a
  ip_src_mask :: 'a
  ip_dest_type :: u32
  ip_dest_ip :: 'a
  ip_dest_mask :: 'a
  ip_protocol :: u8

text \<open>
  The network layer filter is a C union: reading the member \<^verbatim>\<open>m_IPv4.m_Protocol\<close>, at byte 28,
  of a union that holds an IPv6 filter gives byte 4 of its source mask (the mask starts at 24).
\<close>

datatype network_union = V4_filter "ip_address_v4 ip_filter" | V6_filter "ip_address_v6 ip_filter"

fun union_valid_fields :: "network_union \<Rightarrow> u32" where
  "union_valid_fields (V4_filter f) = ip_valid_fields f"
| "union_valid_fields (V6_filter f) = ip_valid_fields f"

fun union_ipv4_protocol :: "network_union \<Rightarrow> u8" where
  "union_ipv4_protocol (V4_filter f) = ip_protocol f"
| "union_ipv4_protocol (V6_filter f) = v6_byte (ip_src_mask f) 4"

record network_layer_filter =
  nl_selector :: u32
  nl_union :: network_union

record transport_layer_filter =
  tl_selector :: u32
  tcpudp_valid_fields :: u32
  src_start_range :: u16
  src_end_range :: u16
  dest_start_range :: u16
  dest_end_range :: u16

record static_filter =
  m_Adapter :: u64
  m_dwDirectionFlags :: u32
  m_FilterAction :: u32
  m_ValidFields :: u32
  m_DataLinkFilter :: data_link_layer_filter
  m_NetworkFilter :: network_layer_filter
  m_TransportFilter :: transport_layer_filter

section \<open>To the driver\<close>

fun direction_flags :: "direction_t \<Rightarrow> u32" where
  "direction_flags direction_in = PACKET_FLAG_ON_RECEIVE"
| "direction_flags direction_out = PACKET_FLAG_ON_SEND"
| "direction_flags direction_both = PACKET_FLAG_ON_SEND OR PACKET_FLAG_ON_RECEIVE"

fun filter_action :: "action_t \<Rightarrow> u32" where
  "filter_action action_pass = 1"
| "filter_action action_drop = 2"
| "filter_action action_redirect = 3"
| "filter_action action_pass_redirect = 4"
| "filter_action action_drop_redirect = 5"

definition flag_if :: "'b option \<Rightarrow> u32 \<Rightarrow> u32" where
  "flag_if x flag = (if x = None then 0 else flag)"

definition value_or :: "'b \<Rightarrow> 'b option \<Rightarrow> 'b" where
  "value_or d x = (case x of None \<Rightarrow> d | Some v \<Rightarrow> v)"

definition to_data_link :: "'a filter \<Rightarrow> data_link_layer_filter" where
  "to_data_link f =
     \<lparr>dl_selector =
        (if source_hw_address f \<noteq> None \<or> dest_hw_address f \<noteq> None \<or> ether_type f \<noteq> None then ETH_802_3 else 0),
      eth_valid_fields = flag_if (source_hw_address f) ETH_802_3_SRC_ADDRESS
        OR flag_if (dest_hw_address f) ETH_802_3_DEST_ADDRESS OR flag_if (ether_type f) ETH_802_3_PROTOCOL,
      eth_src_address = value_or (replicate 6 0) (source_hw_address f),
      eth_dest_address = value_or (replicate 6 0) (dest_hw_address f),
      eth_protocol = value_or 0 (ether_type f)\<rparr>"

definition to_ip_filter :: "'a :: zero filter \<Rightarrow> 'a ip_filter" where
  "to_ip_filter f =
     \<lparr>ip_valid_fields = flag_if (source_address f) IP_FILTER_SRC_ADDRESS
        OR flag_if (dest_address f) IP_FILTER_DEST_ADDRESS OR flag_if (protocol f) IP_FILTER_PROTOCOL,
      ip_src_type = flag_if (source_address f) IP_SUBNET_TYPE,
      ip_src_ip = value_or 0 (map_option subnet_address (source_address f)),
      ip_src_mask = value_or 0 (map_option subnet_mask (source_address f)),
      ip_dest_type = flag_if (dest_address f) IP_SUBNET_TYPE,
      ip_dest_ip = value_or 0 (map_option subnet_address (dest_address f)),
      ip_dest_mask = value_or 0 (map_option subnet_mask (dest_address f)),
      ip_protocol = value_or 0 (protocol f)\<rparr>"

definition has_network :: "'a filter \<Rightarrow> bool" where
  "has_network f \<longleftrightarrow> source_address f \<noteq> None \<or> dest_address f \<noteq> None \<or> protocol f \<noteq> None"

definition to_transport :: "'a filter \<Rightarrow> transport_layer_filter" where
  "to_transport f =
     \<lparr>tl_selector =
        (if (source_port f \<noteq> None \<or> dest_port f \<noteq> None) \<and>
            (protocol f = Some IPPROTO_TCP \<or> protocol f = Some IPPROTO_UDP) then TCPUDP else 0),
      tcpudp_valid_fields = flag_if (source_port f) TCPUDP_SRC_PORT OR flag_if (dest_port f) TCPUDP_DEST_PORT,
      src_start_range = value_or 0 (map_option fst (source_port f)),
      src_end_range = value_or 0 (map_option snd (source_port f)),
      dest_start_range = value_or 0 (map_option fst (dest_port f)),
      dest_end_range = value_or 0 (map_option snd (dest_port f))\<rparr>"

definition to_valid_fields :: "'a filter \<Rightarrow> u32" where
  "to_valid_fields f =
     (if source_hw_address f \<noteq> None \<or> dest_hw_address f \<noteq> None \<or> ether_type f \<noteq> None
      then DATA_LINK_LAYER_VALID else 0) OR
     (if has_network f then NETWORK_LAYER_VALID else 0) OR
     (if source_port f \<noteq> None \<or> dest_port f \<noteq> None then TRANSPORT_LAYER_VALID else 0)"

definition to_static_filter_v4 :: "ip_address_v4 filter \<Rightarrow> static_filter" where
  "to_static_filter_v4 f =
     \<lparr>m_Adapter = adapter_handle f, m_dwDirectionFlags = direction_flags (direction f),
      m_FilterAction = filter_action (action f), m_ValidFields = to_valid_fields f,
      m_DataLinkFilter = to_data_link f,
      m_NetworkFilter = \<lparr>nl_selector = (if has_network f then SEL_IPV4 else 0), nl_union = V4_filter (to_ip_filter f)\<rparr>,
      m_TransportFilter = to_transport f\<rparr>"

definition to_static_filter_v6 :: "ip_address_v6 filter \<Rightarrow> static_filter" where
  "to_static_filter_v6 f =
     \<lparr>m_Adapter = adapter_handle f, m_dwDirectionFlags = direction_flags (direction f),
      m_FilterAction = filter_action (action f), m_ValidFields = to_valid_fields f,
      m_DataLinkFilter = to_data_link f,
      m_NetworkFilter = \<lparr>nl_selector = (if has_network f then SEL_IPV6 else 0), nl_union = V6_filter (to_ip_filter f)\<rparr>,
      m_TransportFilter = to_transport f\<rparr>"

section \<open>From the driver\<close>

text \<open>Each step sets a member of the filter when the bits of the structure say so.\<close>

definition from_direction :: "u32 \<Rightarrow> 'a filter \<Rightarrow> 'a filter" where
  "from_direction flags f =
     (if flags AND PACKET_FLAG_ON_RECEIVE \<noteq> 0
      then (if flags AND PACKET_FLAG_ON_SEND \<noteq> 0 then f\<lparr>direction := direction_both\<rparr>
            else f\<lparr>direction := direction_in\<rparr>)
      else if flags AND PACKET_FLAG_ON_SEND \<noteq> 0 then f\<lparr>direction := direction_out\<rparr> else f)"

definition from_action :: "u32 \<Rightarrow> 'a filter \<Rightarrow> 'a filter" where
  "from_action a f =
     (if a = 1 then f\<lparr>action := action_pass\<rparr>
      else if a = 2 then f\<lparr>action := action_drop\<rparr>
      else if a = 3 then f\<lparr>action := action_redirect\<rparr>
      else if a = 4 then f\<lparr>action := action_pass_redirect\<rparr>
      else if a = 5 then f\<lparr>action := action_drop_redirect\<rparr> else f)"

definition from_data_link :: "static_filter \<Rightarrow> 'a filter \<Rightarrow> 'a filter" where
  "from_data_link sf f =
     (let d = m_DataLinkFilter sf in
      if m_ValidFields sf AND DATA_LINK_LAYER_VALID \<noteq> 0 \<and> dl_selector d = ETH_802_3
      then let f = (if eth_valid_fields d AND ETH_802_3_SRC_ADDRESS \<noteq> 0
                    then f\<lparr>source_hw_address := Some (eth_src_address d)\<rparr> else f);
               f = (if eth_valid_fields d AND ETH_802_3_DEST_ADDRESS \<noteq> 0
                    then f\<lparr>dest_hw_address := Some (eth_dest_address d)\<rparr> else f)
           in (if eth_valid_fields d AND ETH_802_3_PROTOCOL \<noteq> 0
               then f\<lparr>ether_type := Some (eth_protocol d)\<rparr> else f)
      else f)"

definition from_addresses :: "('a \<Rightarrow> 'a) \<Rightarrow> 'a ip_filter \<Rightarrow> 'a filter \<Rightarrow> 'a filter" where
  "from_addresses conv n f =
     (let f = (if ip_valid_fields n AND IP_FILTER_SRC_ADDRESS \<noteq> 0
               then f\<lparr>source_address := Some \<lparr>subnet_address = conv (ip_src_ip n), subnet_mask = conv (ip_src_mask n)\<rparr>\<rparr>
               else f)
      in (if ip_valid_fields n AND IP_FILTER_DEST_ADDRESS \<noteq> 0
          then f\<lparr>dest_address := Some \<lparr>subnet_address = conv (ip_dest_ip n), subnet_mask = conv (ip_dest_mask n)\<rparr>\<rparr>
          else f))"

definition from_protocol :: "network_layer_filter \<Rightarrow> 'a filter \<Rightarrow> 'a filter" where
  "from_protocol n f =
     (if (nl_selector n = SEL_IPV4 \<or> nl_selector n = SEL_IPV6) \<and>
         union_valid_fields (nl_union n) AND IP_FILTER_PROTOCOL \<noteq> 0
      then f\<lparr>protocol := Some (union_ipv4_protocol (nl_union n))\<rparr> else f)"

definition from_network_v4 :: "static_filter \<Rightarrow> ip_address_v4 filter \<Rightarrow> ip_address_v4 filter" where
  "from_network_v4 sf f =
     (let n = m_NetworkFilter sf in
      if m_ValidFields sf AND NETWORK_LAYER_VALID \<noteq> 0
      then from_protocol n
        (case nl_union n of
           V4_filter v \<Rightarrow> if nl_selector n = SEL_IPV4 then from_addresses ntohl v f else f
         | V6_filter _ \<Rightarrow> f)
      else f)"

definition from_network_v6 :: "static_filter \<Rightarrow> ip_address_v6 filter \<Rightarrow> ip_address_v6 filter" where
  "from_network_v6 sf f =
     (let n = m_NetworkFilter sf in
      if m_ValidFields sf AND NETWORK_LAYER_VALID \<noteq> 0
      then from_protocol n
        (case nl_union n of
           V6_filter v \<Rightarrow> if nl_selector n = SEL_IPV6 then from_addresses (\<lambda>a. a) v f else f
         | V4_filter _ \<Rightarrow> f)
      else f)"

definition from_transport :: "static_filter \<Rightarrow> 'a filter \<Rightarrow> 'a filter" where
  "from_transport sf f =
     (let t = m_TransportFilter sf in
      if m_ValidFields sf AND TRANSPORT_LAYER_VALID \<noteq> 0 \<and> tl_selector t = TCPUDP
      then let f = (if tcpudp_valid_fields t AND TCPUDP_SRC_PORT \<noteq> 0
                    then f\<lparr>source_port := Some (src_start_range t, src_end_range t)\<rparr> else f)
           in (if tcpudp_valid_fields t AND TCPUDP_DEST_PORT \<noteq> 0
               then f\<lparr>dest_port := Some (dest_start_range t, dest_end_range t)\<rparr> else f)
      else f)"

definition from_static_filter_v4 :: "static_filter \<Rightarrow> ip_address_v4 filter" where
  "from_static_filter_v4 sf =
     from_transport sf (from_network_v4 sf (from_data_link sf (from_action (m_FilterAction sf)
       (from_direction (m_dwDirectionFlags sf) (default_filter\<lparr>adapter_handle := m_Adapter sf\<rparr>)))))"

definition from_static_filter_v6 :: "static_filter \<Rightarrow> ip_address_v6 filter" where
  "from_static_filter_v6 sf =
     from_transport sf (from_network_v6 sf (from_data_link sf (from_action (m_FilterAction sf)
       (from_direction (m_dwDirectionFlags sf) (default_filter\<lparr>adapter_handle := m_Adapter sf\<rparr>)))))"

section \<open>The list of filters\<close>

text \<open>
  \<^verbatim>\<open>std::variant\<close> of the two address families.  The driver's calls are the fields of a record;
  each takes the driver's state and returns whether it succeeded and the new state.
\<close>

datatype any_filter = F_v4 "ip_address_v4 filter" | F_v6 "ip_address_v6 filter"

fun to_static_filter :: "any_filter \<Rightarrow> static_filter" where
  "to_static_filter (F_v4 f) = to_static_filter_v4 f"
| "to_static_filter (F_v6 f) = to_static_filter_v6 f"

record 'd driver =
  AddStaticFilterFront :: "static_filter \<Rightarrow> 'd \<Rightarrow> bool \<times> 'd"
  AddStaticFilterBack :: "static_filter \<Rightarrow> 'd \<Rightarrow> bool \<times> 'd"
  InsertStaticFilter :: "static_filter \<Rightarrow> nat \<Rightarrow> 'd \<Rightarrow> bool \<times> 'd"
  RemoveStaticFilter :: "nat \<Rightarrow> 'd \<Rightarrow> bool \<times> 'd"
  SetPacketFilterTable :: "static_filter list \<Rightarrow> 'd \<Rightarrow> bool \<times> 'd"
  GetPacketFilterTableSize :: "'d \<Rightarrow> nat option"
  GetPacketFilterTable :: "nat \<Rightarrow> 'd \<Rightarrow> static_filter list option"

type_synonym 'd filter_table = "any_filter list \<times> 'd"

definition add_filter_front :: "'d driver \<Rightarrow> any_filter \<Rightarrow> 'd filter_table \<Rightarrow> bool \<times> 'd filter_table" where
  "add_filter_front drv f = (\<lambda>(filters, d).
     let (ok, d) = AddStaticFilterFront drv (to_static_filter f) d
     in if ok then (True, f # filters, d) else (False, filters, d))"

definition add_filter_back :: "'d driver \<Rightarrow> any_filter \<Rightarrow> 'd filter_table \<Rightarrow> bool \<times> 'd filter_table" where
  "add_filter_back drv f = (\<lambda>(filters, d).
     let (ok, d) = AddStaticFilterBack drv (to_static_filter f) d
     in if ok then (True, filters @ [f], d) else (False, filters, d))"

definition insert_filter :: "'d driver \<Rightarrow> any_filter \<Rightarrow> nat \<Rightarrow> 'd filter_table \<Rightarrow> bool \<times> 'd filter_table" where
  "insert_filter drv f position = (\<lambda>(filters, d).
     if length filters < position then (False, filters, d)
     else let (ok, d) = InsertStaticFilter drv (to_static_filter f) position d
       in if ok then (True, take position filters @ f # drop position filters, d) else (False, filters, d))"

definition remove_filter :: "'d driver \<Rightarrow> nat \<Rightarrow> 'd filter_table \<Rightarrow> bool \<times> 'd filter_table" where
  "remove_filter drv position = (\<lambda>(filters, d).
     if length filters \<le> position then (False, filters, d)
     else let (ok, d) = RemoveStaticFilter drv position d
       in if ok then (True, take position filters @ drop (Suc position) filters, d) else (False, filters, d))"

text \<open>The predicate of \<^verbatim>\<open>remove_filters_if\<close> is over one address family; filters of the other stay.\<close>

fun remove_filters_loop ::
  "'d driver \<Rightarrow> (any_filter \<Rightarrow> bool) \<Rightarrow> nat \<Rightarrow> any_filter list \<Rightarrow> 'd \<Rightarrow> 'd filter_table" where
  "remove_filters_loop drv predicate position [] d = ([], d)"
| "remove_filters_loop drv predicate position (f # rest) d =
     (let (removed, d) = (if predicate f then RemoveStaticFilter drv position d else (False, d))
      in if removed then remove_filters_loop drv predicate position rest d
         else let (kept, d) = remove_filters_loop drv predicate (Suc position) rest d in (f # kept, d))"

definition remove_filters_if_v4 ::
  "'d driver \<Rightarrow> (ip_address_v4 filter \<Rightarrow> bool) \<Rightarrow> 'd filter_table \<Rightarrow> 'd filter_table" where
  "remove_filters_if_v4 drv predicate = (\<lambda>(filters, d).
     remove_filters_loop drv (\<lambda>f. case f of F_v4 g \<Rightarrow> predicate g | F_v6 _ \<Rightarrow> False) 0 filters d)"

fun load_entry :: "static_filter \<Rightarrow> any_filter list" where
  "load_entry sf =
     (if nl_selector (m_NetworkFilter sf) = SEL_IPV4 then [F_v4 (from_static_filter_v4 sf)]
      else if nl_selector (m_NetworkFilter sf) = SEL_IPV6 then [F_v6 (from_static_filter_v6 sf)] else [])"

definition remove_filters_if_v6 ::
  "'d driver \<Rightarrow> (ip_address_v6 filter \<Rightarrow> bool) \<Rightarrow> 'd filter_table \<Rightarrow> 'd filter_table" where
  "remove_filters_if_v6 drv predicate = (\<lambda>(filters, d).
     remove_filters_loop drv (\<lambda>f. case f of F_v4 _ \<Rightarrow> False | F_v6 g \<Rightarrow> predicate g) 0 filters d)"

text \<open>
  \<^verbatim>\<open>CNdisApi::GetPacketFilterTable\<close> computes the size of the output buffer it tells the driver
  from the member \<^verbatim>\<open>m_TableSize\<close> of the buffer; the driver's answer is the entries it writes, the
  rest of the buffer keeps its contents.  \<^verbatim>\<open>load_table\<close> passes a buffer of zeros.
\<close>

definition get_packet_filter_table ::
  "'d driver \<Rightarrow> nat \<Rightarrow> static_filter list \<Rightarrow> 'd \<Rightarrow> static_filter list option" where
  "get_packet_filter_table drv table_size buffer d =
     map_option (\<lambda>written. written @ drop (length written) buffer) (GetPacketFilterTable drv table_size d)"

definition zero_static_filter :: static_filter where
  "zero_static_filter =
     \<lparr>m_Adapter = 0, m_dwDirectionFlags = 0, m_FilterAction = 0, m_ValidFields = 0,
      m_DataLinkFilter = \<lparr>dl_selector = 0, eth_valid_fields = 0, eth_src_address = replicate 6 0,
        eth_dest_address = replicate 6 0, eth_protocol = 0\<rparr>,
      m_NetworkFilter = \<lparr>nl_selector = 0, nl_union = V4_filter \<lparr>ip_valid_fields = 0, ip_src_type = 0,
        ip_src_ip = 0, ip_src_mask = 0, ip_dest_type = 0, ip_dest_ip = 0, ip_dest_mask = 0, ip_protocol = 0\<rparr>\<rparr>,
      m_TransportFilter = \<lparr>tl_selector = 0, tcpudp_valid_fields = 0, src_start_range = 0, src_end_range = 0,
        dest_start_range = 0, dest_end_range = 0\<rparr>\<rparr>"

definition load_table :: "'d driver \<Rightarrow> 'd filter_table \<Rightarrow> bool \<times> 'd filter_table" where
  "load_table drv = (\<lambda>(filters, d).
     case GetPacketFilterTableSize drv d of
       None \<Rightarrow> (False, filters, d)
     | Some table_size \<Rightarrow>
         if table_size = 0 then (False, filters, d)
         else case get_packet_filter_table drv 0 (replicate table_size zero_static_filter) d of
           None \<Rightarrow> (False, filters, d)
         | Some filter_list \<Rightarrow> (True, concat (map load_entry (take (table_size - 1) filter_list)), d))"

text \<open>
  \<^verbatim>\<open>CNdisApi::SetPacketFilterTable\<close> (ndisapi.cpp) reads the size through its pointer: with the null
  pointer that \<^verbatim>\<open>reset\<close> passes the behaviour is undefined.
\<close>

definition set_packet_filter_table :: "'d driver \<Rightarrow> static_filter list option \<Rightarrow> 'd \<Rightarrow> (bool \<times> 'd) option" where
  "set_packet_filter_table drv filter_list d =
     (case filter_list of None \<Rightarrow> None | Some table \<Rightarrow> Some (SetPacketFilterTable drv table d))"

definition store_table :: "'d driver \<Rightarrow> 'd filter_table \<Rightarrow> (bool \<times> 'd filter_table) option" where
  "store_table drv = (\<lambda>(filters, d). do {
     (_, d) \<leftarrow> set_packet_filter_table drv (Some (map to_static_filter filters)) d;
     Some (True, filters, d)
   })"

definition reset_filters :: "'d driver \<Rightarrow> 'd filter_table \<Rightarrow> 'd filter_table option" where
  "reset_filters drv = (\<lambda>(filters, d). do {
     (_, d) \<leftarrow> set_packet_filter_table drv None d;
     Some (filters, d)
   })"

section \<open>What a filter becomes on its way through the driver\<close>

definition swap_subnet :: "ip_address_v4 ip_subnet \<Rightarrow> ip_address_v4 ip_subnet" where
  "swap_subnet s = \<lparr>subnet_address = ntohl (subnet_address s), subnet_mask = ntohl (subnet_mask s)\<rparr>"

definition keeps_ports :: "'a filter \<Rightarrow> bool" where
  "keeps_ports f \<longleftrightarrow> protocol f = Some IPPROTO_TCP \<or> protocol f = Some IPPROTO_UDP"

definition reloaded_v4 :: "ip_address_v4 filter \<Rightarrow> ip_address_v4 filter" where
  "reloaded_v4 f =
     f\<lparr>source_address := map_option swap_subnet (source_address f),
       dest_address := map_option swap_subnet (dest_address f),
       source_port := (if keeps_ports f then source_port f else None),
       dest_port := (if keeps_ports f then dest_port f else None)\<rparr>"

definition reloaded_v6 :: "ip_address_v6 filter \<Rightarrow> ip_address_v6 filter" where
  "reloaded_v6 f =
     f\<lparr>protocol := map_option (\<lambda>_. v6_byte (value_or 0 (map_option subnet_mask (source_address f))) 4) (protocol f),
       source_port := (if keeps_ports f then source_port f else None),
       dest_port := (if keeps_ports f then dest_port f else None)\<rparr>"


lemma direction_round_trip: "from_direction (direction_flags dir) f = f\<lparr>direction := dir\<rparr>"
  by (cases dir) (simp_all add: from_direction_def filter_constants)

lemma action_round_trip: "from_action (filter_action a) f = f\<lparr>action := a\<rparr>"
  by (cases a) (simp_all add: from_action_def)

lemma data_link_round_trip:
  assumes "m_DataLinkFilter sf = to_data_link f" "m_ValidFields sf = to_valid_fields f"
    and "source_hw_address g = None" "dest_hw_address g = None" "ether_type g = None"
  shows "from_data_link sf g = g\<lparr>source_hw_address := source_hw_address f,
    dest_hw_address := dest_hw_address f, ether_type := ether_type f\<rparr>"
  using assms
  by (cases "source_hw_address f"; cases "dest_hw_address f"; cases "ether_type f")
    (simp_all add: from_data_link_def to_data_link_def to_valid_fields_def flag_if_def value_or_def filter_constants
      Let_def)

lemma transport_round_trip:
  assumes "m_TransportFilter sf = to_transport f" "m_ValidFields sf = to_valid_fields f"
    and "source_port g = None" "dest_port g = None"
  shows "from_transport sf g = g\<lparr>source_port := (if keeps_ports f then source_port f else None),
    dest_port := (if keeps_ports f then dest_port f else None)\<rparr>"
  using assms
  by (cases "source_port f"; cases "dest_port f")
    (auto simp: from_transport_def to_transport_def to_valid_fields_def flag_if_def value_or_def filter_constants
      keeps_ports_def Let_def)

lemma addresses_round_trip:
  assumes "source_address g = None" "dest_address g = None"
  shows "from_addresses conv (to_ip_filter f) g = g\<lparr>
    source_address := map_option (\<lambda>s. \<lparr>subnet_address = conv (subnet_address s), subnet_mask = conv (subnet_mask s)\<rparr>)
      (source_address f),
    dest_address := map_option (\<lambda>s. \<lparr>subnet_address = conv (subnet_address s), subnet_mask = conv (subnet_mask s)\<rparr>)
      (dest_address f)\<rparr>"
  using assms
  by (cases "source_address f"; cases "dest_address f"; cases "protocol f")
    (simp_all add: from_addresses_def to_ip_filter_def flag_if_def value_or_def filter_constants Let_def)

lemma valid_fields_protocol:
  "ip_valid_fields (to_ip_filter f) AND IP_FILTER_PROTOCOL \<noteq> 0 \<longleftrightarrow> protocol f \<noteq> None"
  by (cases "source_address f"; cases "dest_address f"; cases "protocol f")
    (simp_all add: to_ip_filter_def flag_if_def filter_constants)

lemma valid_fields_network: "to_valid_fields f AND NETWORK_LAYER_VALID \<noteq> 0 \<longleftrightarrow> has_network f"
  by (simp add: to_valid_fields_def filter_constants)

lemma no_network: "\<not> has_network f \<Longrightarrow> source_address f = None \<and> dest_address f = None \<and> protocol f = None"
  by (simp add: has_network_def)

lemma to_ip_filter_members:
  "ip_protocol (to_ip_filter f) = value_or 0 (protocol f)"
  "ip_src_mask (to_ip_filter f) = value_or 0 (map_option subnet_mask (source_address f))"
  by (simp_all add: to_ip_filter_def)

lemma network_round_trip_v4:
  assumes "source_address g = None" "dest_address g = None" "protocol g = None"
  shows "from_network_v4 (to_static_filter_v4 f) g = g\<lparr>
    source_address := map_option swap_subnet (source_address f),
    dest_address := map_option swap_subnet (dest_address f), protocol := protocol f\<rparr>"
  using assms no_network [of f] valid_fields_protocol [of f]
  by (cases "protocol f")
    (auto simp: from_network_v4_def to_static_filter_v4_def valid_fields_network addresses_round_trip
      from_protocol_def swap_subnet_def [abs_def] SEL_IPV4_def to_ip_filter_members value_or_def Let_def)

lemma network_round_trip_v6:
  assumes "source_address g = None" "dest_address g = None" "protocol g = None"
  shows "from_network_v6 (to_static_filter_v6 f) g = g\<lparr>
    source_address := source_address f, dest_address := dest_address f,
    protocol := map_option (\<lambda>_. v6_byte (value_or 0 (map_option subnet_mask (source_address f))) 4) (protocol f)\<rparr>"
proof -
  have [simp]: "(\<lambda>s :: ip_address_v6 ip_subnet. \<lparr>subnet_address = subnet_address s, subnet_mask = subnet_mask s\<rparr>) = (\<lambda>s. s)"
    by (simp add: fun_eq_iff)
  show ?thesis
    using assms no_network [of f] valid_fields_protocol [of f]
    by (cases "protocol f")
      (auto simp: from_network_v6_def to_static_filter_v6_def valid_fields_network addresses_round_trip
        from_protocol_def SEL_IPV6_def to_ip_filter_members value_or_def option.map_ident Let_def)
qed

lemma round_trip_v4: "from_static_filter_v4 (to_static_filter_v4 f) = reloaded_v4 f"
proof -
  let ?sf = "to_static_filter_v4 f"
  have fields: "m_DataLinkFilter ?sf = to_data_link f" "m_TransportFilter ?sf = to_transport f"
    "m_ValidFields ?sf = to_valid_fields f" "m_dwDirectionFlags ?sf = direction_flags (direction f)"
    "m_FilterAction ?sf = filter_action (action f)" "m_Adapter ?sf = adapter_handle f"
    by (simp_all add: to_static_filter_v4_def)
  show ?thesis
    by (simp add: from_static_filter_v4_def fields direction_round_trip action_round_trip
        data_link_round_trip [OF fields(1,3)] network_round_trip_v4 transport_round_trip [OF fields(2,3)]
        default_filter_def reloaded_v4_def)
qed

lemma round_trip_v6: "from_static_filter_v6 (to_static_filter_v6 f) = reloaded_v6 f"
proof -
  let ?sf = "to_static_filter_v6 f"
  have fields: "m_DataLinkFilter ?sf = to_data_link f" "m_TransportFilter ?sf = to_transport f"
    "m_ValidFields ?sf = to_valid_fields f" "m_dwDirectionFlags ?sf = direction_flags (direction f)"
    "m_FilterAction ?sf = filter_action (action f)" "m_Adapter ?sf = adapter_handle f"
    by (simp_all add: to_static_filter_v6_def)
  show ?thesis
    by (simp add: from_static_filter_v6_def fields direction_round_trip action_round_trip
        data_link_round_trip [OF fields(1,3)] network_round_trip_v6 transport_round_trip [OF fields(2,3)]
        default_filter_def reloaded_v6_def)
qed

section \<open>The list mirrors the driver's table\<close>

text \<open>
  What the class relies on: a call that succeeds changes the driver's table as its name says, a
  call that fails leaves it alone.
\<close>

definition driver_contract :: "'d driver \<Rightarrow> ('d \<Rightarrow> static_filter list) \<Rightarrow> bool" where
  "driver_contract drv table \<longleftrightarrow>
     (\<forall>sf d ok d'. AddStaticFilterFront drv sf d = (ok, d') \<longrightarrow> table d' = (if ok then sf # table d else table d)) \<and>
     (\<forall>sf d ok d'. AddStaticFilterBack drv sf d = (ok, d') \<longrightarrow> table d' = (if ok then table d @ [sf] else table d)) \<and>
     (\<forall>sf i d ok d'. InsertStaticFilter drv sf i d = (ok, d') \<longrightarrow>
        table d' = (if ok then take i (table d) @ sf # drop i (table d) else table d)) \<and>
     (\<forall>i d ok d'. RemoveStaticFilter drv i d = (ok, d') \<longrightarrow>
        table d' = (if ok then take i (table d) @ drop (Suc i) (table d) else table d)) \<and>
     (\<forall>t d ok d'. SetPacketFilterTable drv t d = (ok, d') \<longrightarrow> table d' = (if ok then t else table d))"

lemma driver_contractD:
  assumes "driver_contract drv table"
  shows "AddStaticFilterFront drv sf d = (ok, d') \<Longrightarrow> table d' = (if ok then sf # table d else table d)"
    "AddStaticFilterBack drv sf d = (ok, d') \<Longrightarrow> table d' = (if ok then table d @ [sf] else table d)"
    "InsertStaticFilter drv sf i d = (ok, d') \<Longrightarrow>
       table d' = (if ok then take i (table d) @ sf # drop i (table d) else table d)"
    "RemoveStaticFilter drv i d = (ok, d') \<Longrightarrow>
       table d' = (if ok then take i (table d) @ drop (Suc i) (table d) else table d)"
    "SetPacketFilterTable drv t d = (ok, d') \<Longrightarrow> table d' = (if ok then t else table d)"
  using assms unfolding driver_contract_def by presburger+

inductive filters_reachable :: "'d driver \<Rightarrow> ('d \<Rightarrow> static_filter list) \<Rightarrow> 'd filter_table \<Rightarrow> bool" for drv table where
  start: "table d = [] \<Longrightarrow> filters_reachable drv table ([], d)"
| added_front: "filters_reachable drv table s \<Longrightarrow> add_filter_front drv f s = (ok, s') \<Longrightarrow> filters_reachable drv table s'"
| added_back: "filters_reachable drv table s \<Longrightarrow> add_filter_back drv f s = (ok, s') \<Longrightarrow> filters_reachable drv table s'"
| inserted: "filters_reachable drv table s \<Longrightarrow> insert_filter drv f i s = (ok, s') \<Longrightarrow> filters_reachable drv table s'"
| removed: "filters_reachable drv table s \<Longrightarrow> remove_filter drv i s = (ok, s') \<Longrightarrow> filters_reachable drv table s'"
| remove_v4: "filters_reachable drv table s \<Longrightarrow> filters_reachable drv table (remove_filters_if_v4 drv p s)"
| remove_v6: "filters_reachable drv table s \<Longrightarrow> filters_reachable drv table (remove_filters_if_v6 drv q s)"
| stored: "filters_reachable drv table s \<Longrightarrow> store_table drv s = Some (ok, s') \<Longrightarrow> filters_reachable drv table s'"

definition mirrors :: "('d \<Rightarrow> static_filter list) \<Rightarrow> 'd filter_table \<Rightarrow> bool" where
  "mirrors table = (\<lambda>(filters, d). table d = map to_static_filter filters)"

lemma remove_filters_loop_mirrors:
  assumes "driver_contract drv table" "remove_filters_loop drv p i fs d = (kept, d')"
    and "table d = before @ map to_static_filter fs" "length before = i"
  shows "table d' = before @ map to_static_filter kept"
  using assms(2-)
proof (induction fs arbitrary: i d before kept)
  case (Cons f fs)
  obtain removed d1 where r: "(if p f then RemoveStaticFilter drv i d else (False, d)) = (removed, d1)"
    by fastforce
  show ?case
  proof (cases removed)
    case True
    with r have "RemoveStaticFilter drv i d = (True, d1)"
      by (auto split: if_splits)
    then have "table d1 = before @ map to_static_filter fs"
      using driver_contractD(4) [OF assms(1)] Cons.prems(2,3) by fastforce
    with Cons.IH [of i d1 kept before] Cons.prems r True show ?thesis
      by simp
  next
    case False
    then have d1: "table d1 = table d"
      using r driver_contractD(4) [OF assms(1), of i d False d1] by (auto split: if_splits)
    obtain kept' d2 where k: "remove_filters_loop drv p (Suc i) fs d1 = (kept', d2)"
      by fastforce
    with Cons.prems r False have "kept = f # kept'" "d' = d2"
      by simp_all
    with Cons.IH [of "Suc i" d1 kept' "before @ [to_static_filter f]"] k d1 Cons.prems(2,3) show ?thesis
      by simp
  qed
qed simp

lemma filters_reachable_mirrors:
  assumes "driver_contract drv table" "filters_reachable drv table s"
  shows "mirrors table s"
  using assms(2)
proof (induction rule: filters_reachable.induct)
  case (added_front s f ok s')
  then show ?case
    by (auto simp: add_filter_front_def mirrors_def dest!: driver_contractD(1) [OF assms(1)] split: prod.splits if_splits)
next
  case (added_back s f ok s')
  then show ?case
    by (auto simp: add_filter_back_def mirrors_def dest!: driver_contractD(2) [OF assms(1)] split: prod.splits if_splits)
next
  case (inserted s f i ok s')
  then show ?case
    by (auto simp: insert_filter_def mirrors_def take_map drop_map dest!: driver_contractD(3) [OF assms(1)]
        split: prod.splits if_splits)
next
  case (removed s i ok s')
  then show ?case
    by (auto simp: remove_filter_def mirrors_def take_map drop_map dest!: driver_contractD(4) [OF assms(1)]
        split: prod.splits if_splits)
next
  case (remove_v4 s p)
  then show ?case
    using remove_filters_loop_mirrors [OF assms(1), where before = "[]" and i = 0]
    by (auto simp: remove_filters_if_v4_def mirrors_def split: prod.splits)
next
  case (remove_v6 s q)
  then show ?case
    using remove_filters_loop_mirrors [OF assms(1), where before = "[]" and i = 0]
    by (auto simp: remove_filters_if_v6_def mirrors_def split: prod.splits)
next
  case (stored s ok s')
  then show ?case
    by (auto simp: store_table_def set_packet_filter_table_def mirrors_def bind_eq_Some_conv
        dest!: driver_contractD(5) [OF assms(1)] split: prod.splits if_splits)
qed (simp add: mirrors_def)

section \<open>Properties\<close>

text \<open>
  What a filter becomes when it is written for the driver and read back.  Ports survive only
  with protocol TCP or UDP; the bytes of an IPv4 address and mask come back reversed, because only
  the reading side swaps them; the protocol of an IPv6 filter is replaced by a byte of its source
  mask.  Everything else survives.
\<close>

theorem static_filter_round_trip:
  "from_static_filter_v4 (to_static_filter_v4 f) =
     f\<lparr>source_address := map_option swap_subnet (source_address f),
       dest_address := map_option swap_subnet (dest_address f),
       source_port := (if keeps_ports f then source_port f else None),
       dest_port := (if keeps_ports f then dest_port f else None)\<rparr> \<and>
   from_static_filter_v6 (to_static_filter_v6 g) =
     g\<lparr>protocol := map_option (\<lambda>_. v6_byte (value_or 0 (map_option subnet_mask (source_address g))) 4) (protocol g),
       source_port := (if keeps_ports g then source_port g else None),
       dest_port := (if keeps_ports g then dest_port g else None)\<rparr>"
  using round_trip_v4 [of f] round_trip_v6 [of g] by (simp add: reloaded_v4_def reloaded_v6_def)


text \<open>
  Reading the table back never reads it: whatever the driver holds, \<^verbatim>\<open>load_table\<close> fails or
  leaves an empty list, because the buffer it passes says that it has no room for entries (the
  driver writes no more than the room it is told of).
\<close>

theorem load_table_reads_nothing:
  assumes "\<forall>n d written. GetPacketFilterTable drv n d = Some written \<longrightarrow> length written \<le> n"
  shows "load_table drv (filters, d) = (False, filters, d) \<or> load_table drv (filters, d) = (True, [], d)"
proof -
  have zero: "load_entry zero_static_filter = []"
    by (simp add: zero_static_filter_def SEL_IPV4_def SEL_IPV6_def)
  have "written = []" if "GetPacketFilterTable drv 0 d = Some written" for written
    using assms that by fastforce
  then show ?thesis
    using zero
    by (cases "GetPacketFilterTableSize drv d"; cases "GetPacketFilterTable drv 0 d")
      (auto simp: load_table_def get_packet_filter_table_def simp del: load_entry.simps)
qed

section \<open>Witnesses\<close>

text \<open>A driver that keeps a list and refuses to hold more than four filters.\<close>

definition list_driver :: "static_filter list driver" where
  "list_driver =
     \<lparr>AddStaticFilterFront = (\<lambda>sf d. if length d < 4 then (True, sf # d) else (False, d)),
      AddStaticFilterBack = (\<lambda>sf d. if length d < 4 then (True, d @ [sf]) else (False, d)),
      InsertStaticFilter = (\<lambda>sf i d. if length d < 4 then (True, take i d @ sf # drop i d) else (False, d)),
      RemoveStaticFilter = (\<lambda>i d. (True, take i d @ drop (Suc i) d)),
      SetPacketFilterTable = (\<lambda>t d. if length t \<le> 4 then (True, t) else (False, d)),
      GetPacketFilterTableSize = (\<lambda>d. Some (length d)),
      GetPacketFilterTable = (\<lambda>n d. if n < length d then Some (take n d) else Some d)\<rparr>"

lemma list_driver_contract: "driver_contract list_driver (\<lambda>d. d)"
  by (simp add: driver_contract_def list_driver_def)


theorem load_table_reads_nothing_witness:
  "load_table list_driver ([F_v4 default_filter], [to_static_filter (F_v4 default_filter)]) =
     (True, [], [to_static_filter (F_v4 default_filter)])"
  using load_table_reads_nothing [of list_driver "[F_v4 default_filter]" "[to_static_filter (F_v4 default_filter)]"]
  by (auto simp: list_driver_def load_table_def get_packet_filter_table_def split: if_splits)

end
