(* ===== verification/Router_Config.thy ===== *)
theory Router_Config
  imports Process_Lookup "HOL-Library.Sublist"
begin

text \<open>
  The configuration of \<^verbatim>\<open>socks_local_router\<close> (proxy/socks_local_router.h): parsing of ports, port
  ranges and endpoints, the rules for direct destinations, the routes by process identifier and
  by application name, and the choice of the proxy for a process.
\<close>

unbundle bit_operations_syntax

section \<open>Text\<close>

definition is_blank :: "char \<Rightarrow> bool" where
  "is_blank c \<longleftrightarrow> c \<in> set [CHR '' '', CHR 0x09, CHR 0x0D, CHR 0x0A]"

definition trim :: "string \<Rightarrow> string" where
  "trim value = rev (dropWhile is_blank (rev (dropWhile is_blank value)))"

text \<open>\<^verbatim>\<open>std::string::find\<close> and \<^verbatim>\<open>std::wstring::find\<close> of a text: does it occur?\<close>

fun contains :: "'a list \<Rightarrow> 'a list \<Rightarrow> bool" where
  "contains [] needle \<longleftrightarrow> needle = []"
| "contains (c # cs) needle \<longleftrightarrow> take (length needle) (c # cs) = needle \<or> contains cs needle"

lemma contains_iff: "contains hay needle \<longleftrightarrow> sublist needle hay"
proof (induction hay)
  case (Cons c cs)
  have "take (length needle) (c # cs) = needle \<longleftrightarrow> prefix needle (c # cs)"
    by (metis append_eq_conv_conj prefix_def take_is_prefix)
  with Cons show ?case
    by (simp add: sublist_Cons_right)
qed simp

text \<open>
  \<^verbatim>\<open>std::from_chars\<close> for \<^verbatim>\<open>int\<close> and \<^verbatim>\<open>uint16_t\<close>: the value and the rest of the text, \<open>None\<close> for no
  digits or a value out of range.
\<close>

definition from_chars_int :: "string \<Rightarrow> (int \<times> string) option" where
  "from_chars_int s =
     (let negative = (s \<noteq> [] \<and> hd s = CHR ''-''); body = (if negative then tl s else s);
          ds = takeWhile is_digit body; n = digits_value 0 ds; v = (if negative then - int n else int n)
      in if ds = [] \<or> v < - 2147483648 \<or> 2147483647 < v then None else Some (v, dropWhile is_digit body))"

definition from_chars_u16 :: "string \<Rightarrow> (u16 \<times> string) option" where
  "from_chars_u16 s =
     (let ds = takeWhile is_digit s; n = digits_value 0 ds
      in if ds = [] \<or> 65535 < n then None else Some (of_nat n, dropWhile is_digit s))"

definition parse_port :: "string \<Rightarrow> u16 option" where
  "parse_port value =
     (let text = trim value in
      if text = [] then None
      else case from_chars_int text of
        None \<Rightarrow> None
      | Some (port, rest) \<Rightarrow> if rest = [] \<and> 0 \<le> port \<and> port \<le> 65535 then Some (word_of_int port) else None)"

record destination_port_range =
  range_from :: u16
  range_to :: u16

definition parse_port_range :: "string \<Rightarrow> destination_port_range option" where
  "parse_port_range value =
     (let text = trim value in
      if text = [] then None
      else if CHR ''-'' \<in> set text then do {
        from \<leftarrow> parse_port (takeWhile (\<lambda>c. c \<noteq> CHR ''-'') text);
        to \<leftarrow> parse_port (tl (dropWhile (\<lambda>c. c \<noteq> CHR ''-'') text));
        Some (if to < from then \<lparr>range_from = to, range_to = from\<rparr> else \<lparr>range_from = from, range_to = to\<rparr>)
      }
      else do {
        port \<leftarrow> parse_port text;
        Some \<lparr>range_from = port, range_to = port\<rparr>
      })"

text \<open>
  \<^verbatim>\<open>parse_endpoint\<close>: a dotted address or a host name, a colon, a port.  What follows the port's
  digits is ignored.  The address parser and the name resolution are parameters; the latter gives
  the IPv4 addresses found, in order.
\<close>

definition parse_endpoint ::
  "(string \<Rightarrow> ip_address_v4 option) \<Rightarrow> (string \<Rightarrow> u16 \<Rightarrow> ip_address_v4 list) \<Rightarrow> string \<Rightarrow>
   ip_address_v4 ip_endpoint option" where
  "parse_endpoint from_string getaddrinfo text =
     (if CHR '':'' \<in> set text
      then let host = takeWhile (\<lambda>c. c \<noteq> CHR '':'') text in
        case from_chars_u16 (tl (dropWhile (\<lambda>c. c \<noteq> CHR '':'') text)) of
          None \<Rightarrow> None
        | Some (port, _) \<Rightarrow>
            let ip = (case from_string host of
                        Some address \<Rightarrow> address
                      | None \<Rightarrow> (case getaddrinfo host port of [] \<Rightarrow> 0 | address # _ \<Rightarrow> address))
            in if ip \<noteq> 0 then Some (endpoint ip port) else None
      else None)"

definition to_upper :: "wstring \<Rightarrow> wstring" where
  "to_upper = map (\<lambda>c. if 0x61 \<le> c \<and> c \<le> 0x7A then c - 0x20 else c)"

definition tolower :: "char \<Rightarrow> char" where
  "tolower c = (let n = of_char c :: nat in if 65 \<le> n \<and> n \<le> 90 then char_of (n + 32) else c)"

section \<open>Configuration state\<close>

record filetime =
  dwLowDateTime :: u32
  dwHighDateTime :: u32

definition filetime_to_uint64 :: "filetime \<Rightarrow> u64" where
  "filetime_to_uint64 ft = push_bit 32 (ucast (dwHighDateTime ft)) OR ucast (dwLowDateTime ft)"

record pid_route_entry =
  route_proxy_id :: nat
  route_creation_time :: filetime

record destination_direct_rule =
  rule_name :: string
  rule_process_names :: "wstring list"
  rule_process_paths :: "wstring list"
  match_tcp :: bool
  match_udp :: bool
  dst_ports :: "destination_port_range list"
  dst_cidrs :: "ip_address_v4 ip_subnet list"

text \<open>
  What the choice of a proxy and the callbacks need of a local proxy server: the port its
  constructor bound and what its callback for connections captured, the endpoint and the
  credentials of the SOCKS5 server.  An element of \<^verbatim>\<open>proxy_servers_\<close> has a TCP and a UDP server,
  each of which may be missing.
\<close>

record local_proxy =
  lp_port :: u16
  lp_endpoint :: "ip_address_v4 ip_endpoint"
  lp_credentials :: "(string \<times> string) option"

type_synonym proxy_pair = "local_proxy option \<times> local_proxy option"

record router_config =
  proxy_servers :: "proxy_pair list"
  proxy_to_names :: "(nat \<times> wstring) list"
  pid_to_proxy :: "u32 \<rightharpoonup> pid_route_entry"
  destination_direct_rules :: "destination_direct_rule list"
  excluded_list :: "wstring list"

text \<open>\<^verbatim>\<open>std::multimap::emplace\<close>: behind the entries with the same key.\<close>

definition multimap_emplace :: "nat \<Rightarrow> 'v \<Rightarrow> (nat \<times> 'v) list \<Rightarrow> (nat \<times> 'v) list" where
  "multimap_emplace k v entries =
     takeWhile (\<lambda>e. fst e \<le> k) entries @ (k, v) # dropWhile (\<lambda>e. fst e \<le> k) entries"

definition associate_process_name_to_proxy :: "wstring \<Rightarrow> nat \<Rightarrow> router_config \<Rightarrow> bool \<times> router_config" where
  "associate_process_name_to_proxy name proxy_id cfg =
     (if length (proxy_servers cfg) \<le> proxy_id then (False, cfg)
      else (True, cfg\<lparr>proxy_to_names := multimap_emplace proxy_id (to_upper name) (proxy_to_names cfg)\<rparr>))"

definition exclude_process_name :: "wstring \<Rightarrow> router_config \<Rightarrow> bool \<times> router_config" where
  "exclude_process_name entry cfg = (True, cfg\<lparr>excluded_list := excluded_list cfg @ [to_upper entry]\<rparr>)"

definition set_pid_route :: "u32 \<Rightarrow> nat \<Rightarrow> filetime \<Rightarrow> router_config \<Rightarrow> bool \<times> router_config" where
  "set_pid_route pid proxy_id creation_time cfg =
     (if length (proxy_servers cfg) \<le> proxy_id then (False, cfg)
      else (True, cfg\<lparr>pid_to_proxy := (pid_to_proxy cfg)(pid \<mapsto>
              \<lparr>route_proxy_id = proxy_id, route_creation_time = creation_time\<rparr>)\<rparr>))"

definition remove_process_id :: "u32 \<Rightarrow> router_config \<Rightarrow> bool \<times> router_config" where
  "remove_process_id pid cfg = (True, cfg\<lparr>pid_to_proxy := (pid_to_proxy cfg)(pid := None)\<rparr>)"

definition clear_pid_routes :: "router_config \<Rightarrow> router_config" where
  "clear_pid_routes cfg = cfg\<lparr>pid_to_proxy := Map.empty\<rparr>"

text \<open>
  \<^verbatim>\<open>add_destination_direct_rule\<close>: empty names are skipped, unknown networks too; ports and
  networks that do not parse are left out with a warning.
\<close>

definition apply_network :: "string \<Rightarrow> bool \<times> bool \<Rightarrow> bool \<times> bool" where
  "apply_network network = (\<lambda>(t, u).
     let network = map tolower network in
     if network = ''tcp'' then (True, u)
     else if network = ''udp'' then (t, True)
     else if network = ''both'' then (True, True) else (t, u))"

definition add_destination_direct_rule ::
  "(string \<Rightarrow> ip_address_v4 option) \<Rightarrow> string \<Rightarrow> wstring list \<Rightarrow> wstring list \<Rightarrow> string list \<Rightarrow> string list \<Rightarrow>
   string list \<Rightarrow> router_config \<Rightarrow> bool \<times> router_config" where
  "add_destination_direct_rule from_string name process_names process_paths networks ports cidrs cfg =
     (let (t, u) = (if networks = [] then (True, True) else fold apply_network networks (False, False));
          rule = \<lparr>rule_name = (if name = [] then ''direct'' else name),
                  rule_process_names = map to_upper (filter (\<lambda>n. n \<noteq> []) process_names),
                  rule_process_paths = map to_upper (filter (\<lambda>n. n \<noteq> []) process_paths),
                  match_tcp = t, match_udp = u,
                  dst_ports = List.map_filter parse_port_range ports,
                  dst_cidrs = List.map_filter (\<lambda>c. from_cidr_v4 from_string (trim c)) cidrs\<rparr>
      in if \<not> t \<and> \<not> u then (False, cfg)
         else (True, cfg\<lparr>destination_direct_rules := destination_direct_rules cfg @ [rule]\<rparr>))"

section \<open>Matching\<close>

definition matches_process_filter :: "destination_direct_rule \<Rightarrow> network_process \<Rightarrow> bool" where
  "matches_process_filter rule p \<longleftrightarrow>
     rule_process_names rule = [] \<and> rule_process_paths rule = [] \<or>
     list_ex (\<lambda>n. contains (process_name p) n) (rule_process_names rule) \<or>
     list_ex (\<lambda>n. contains (path_name p) n) (rule_process_paths rule)"

definition matches_port_filter :: "destination_direct_rule \<Rightarrow> u16 \<Rightarrow> bool" where
  "matches_port_filter rule port \<longleftrightarrow>
     dst_ports rule = [] \<or> list_ex (\<lambda>r. range_from r \<le> port \<and> port \<le> range_to r) (dst_ports rule)"

definition matches_cidr_filter :: "destination_direct_rule \<Rightarrow> ip_address_v4 \<Rightarrow> bool" where
  "matches_cidr_filter rule ip \<longleftrightarrow>
     dst_cidrs rule = [] \<or> list_ex (\<lambda>s. address_in_subnet_v4 s ip) (dst_cidrs rule)"

fun match_destination_direct_rule ::
  "bool \<Rightarrow> network_process \<Rightarrow> ip_address_v4 \<Rightarrow> u16 \<Rightarrow> destination_direct_rule list \<Rightarrow> string option" where
  "match_destination_direct_rule is_tcp p ip port [] = None"
| "match_destination_direct_rule is_tcp p ip port (rule # rules) =
     (if is_tcp \<and> \<not> match_tcp rule \<or> \<not> is_tcp \<and> \<not> match_udp rule
      then match_destination_direct_rule is_tcp p ip port rules
      else if \<not> matches_process_filter rule p then match_destination_direct_rule is_tcp p ip port rules
      else if \<not> matches_port_filter rule port then match_destination_direct_rule is_tcp p ip port rules
      else if \<not> matches_cidr_filter rule ip then match_destination_direct_rule is_tcp p ip port rules
      else Some (rule_name rule))"

text \<open>
  The system, for the routes: the process identifier of the router itself and the creation time
  of a process, \<open>None\<close> when it cannot be opened or queried.
\<close>

record process_times =
  current_process_id :: u32
  process_creation_time :: "u32 \<Rightarrow> filetime option"

definition validate_pid_creation_time :: "process_times \<Rightarrow> u32 \<Rightarrow> filetime \<Rightarrow> bool" where
  "validate_pid_creation_time sys pid expected \<longleftrightarrow>
     (case process_creation_time sys pid of None \<Rightarrow> False
      | Some create \<Rightarrow> dwLowDateTime create = dwLowDateTime expected \<and> dwHighDateTime create = dwHighDateTime expected)"

definition has_pid_route :: "u32 \<Rightarrow> router_config \<Rightarrow> bool" where
  "has_pid_route pid cfg \<longleftrightarrow> pid_to_proxy cfg pid \<noteq> None"

definition cleanup_stale_pid_routes :: "process_times \<Rightarrow> router_config \<Rightarrow> router_config" where
  "cleanup_stale_pid_routes sys cfg =
     cfg\<lparr>pid_to_proxy :=
       map_erase_if (\<lambda>(pid, e). \<not> validate_pid_creation_time sys pid (route_creation_time e)) (pid_to_proxy cfg)\<rparr>"

definition matches_pattern :: "wstring \<Rightarrow> network_process \<Rightarrow> bool" where
  "matches_pattern pattern p \<longleftrightarrow>
     (if of_char CHR 0x5C \<in> set pattern \<or> of_char CHR ''/'' \<in> set pattern
      then contains (path_name p) pattern else contains (process_name p) pattern)"

text \<open>\<^verbatim>\<open>match_app_name\<close> writes the exclusion flag of the process, so it returns the process too.\<close>

definition match_app_name ::
  "process_times \<Rightarrow> wstring list \<Rightarrow> wstring \<Rightarrow> network_process \<Rightarrow> bool \<times> network_process" where
  "match_app_name sys exclusions app p =
     (if process_id p = current_process_id sys then (False, p)
      else if list_ex (\<lambda>e. matches_pattern e p) exclusions then (False, p\<lparr>excluded := True\<rparr>)
      else (matches_pattern app p, p))"

fun name_route ::
  "process_times \<Rightarrow> wstring list \<Rightarrow> (nat \<times> wstring) list \<Rightarrow> network_process \<Rightarrow> nat option \<times> network_process" where
  "name_route sys exclusions [] p = (None, p)"
| "name_route sys exclusions ((proxy_id, pattern) # names) p =
     (let (matched, p) = match_app_name sys exclusions pattern p
      in if matched then (Some proxy_id, p) else name_route sys exclusions names p)"

text \<open>
  \<^verbatim>\<open>get_proxy_port_tcp\<close> and \<^verbatim>\<open>get_proxy_port_udp\<close>, which differ in the member of the pair.  The
  outer \<open>None\<close> is the undefined access of an index that is out of range.
\<close>

definition port_of :: "(proxy_pair \<Rightarrow> local_proxy option) \<Rightarrow> proxy_pair list \<Rightarrow> nat \<Rightarrow> u16 option option" where
  "port_of sel servers i = (if i < length servers then Some (map_option lp_port (sel (servers ! i))) else None)"

definition get_proxy_port_by ::
  "(proxy_pair \<Rightarrow> local_proxy option) \<Rightarrow> process_times \<Rightarrow> router_config \<Rightarrow> network_process \<Rightarrow>
   (u16 option \<times> network_process) option" where
  "get_proxy_port_by sel sys cfg p =
     (let by_name = (case name_route sys (excluded_list cfg) (proxy_to_names cfg) p of
                       (None, p) \<Rightarrow> Some (None, p)
                     | (Some i, p) \<Rightarrow> map_option (\<lambda>port. (port, p)) (port_of sel (proxy_servers cfg) i))
      in case pid_to_proxy cfg (process_id p) of
           Some e \<Rightarrow>
             if validate_pid_creation_time sys (process_id p) (route_creation_time e)
             then map_option (\<lambda>port. (port, p)) (port_of sel (proxy_servers cfg) (route_proxy_id e))
             else by_name
         | None \<Rightarrow> by_name)"

definition get_proxy_port_tcp ::
  "process_times \<Rightarrow> router_config \<Rightarrow> network_process \<Rightarrow> (u16 option \<times> network_process) option" where
  "get_proxy_port_tcp = get_proxy_port_by fst"

definition get_proxy_port_udp ::
  "process_times \<Rightarrow> router_config \<Rightarrow> network_process \<Rightarrow> (u16 option \<times> network_process) option" where
  "get_proxy_port_udp = get_proxy_port_by snd"

definition is_proxy_port :: "(proxy_pair \<Rightarrow> local_proxy option) \<Rightarrow> u16 \<Rightarrow> router_config \<Rightarrow> bool" where
  "is_proxy_port sel port cfg \<longleftrightarrow>
     list_ex (\<lambda>pair. case sel pair of None \<Rightarrow> False | Some s \<Rightarrow> lp_port s = port) (proxy_servers cfg)"

definition is_tcp_proxy_port :: "u16 \<Rightarrow> router_config \<Rightarrow> bool" where
  "is_tcp_proxy_port = is_proxy_port fst"

definition is_udp_proxy_port :: "u16 \<Rightarrow> router_config \<Rightarrow> bool" where
  "is_udp_proxy_port = is_proxy_port snd"

text \<open>The last step of \<^verbatim>\<open>add_socks5_proxy\<close>: the pair is appended, its index is the result.\<close>

definition append_proxy :: "proxy_pair \<Rightarrow> router_config \<Rightarrow> nat \<times> router_config" where
  "append_proxy pair cfg =
     (let cfg = cfg\<lparr>proxy_servers := proxy_servers cfg @ [pair]\<rparr> in (length (proxy_servers cfg) - 1, cfg))"

section \<open>Reading back printed port ranges\<close>

definition blank :: "string \<Rightarrow> bool" where
  "blank w \<longleftrightarrow> (\<forall>c \<in> set w. is_blank c)"

lemma is_digit_not_blank [simp]: "is_digit c \<Longrightarrow> \<not> is_blank c"
  by (auto simp: is_digit_def is_blank_def)

lemma not_minus [simp]: "is_digit c \<Longrightarrow> c \<noteq> CHR ''-''" "is_blank c \<Longrightarrow> c \<noteq> CHR ''-''"
  by (auto simp: is_digit_def is_blank_def)

lemma dropWhile_blank: "blank w \<Longrightarrow> s = [] \<or> \<not> is_blank (hd s) \<Longrightarrow> dropWhile is_blank (w @ s) = s"
  by (induction w) (auto simp: blank_def dropWhile_eq_self_iff)

lemma trim_core:
  assumes "blank v" "blank w" "s \<noteq> []" "\<not> is_blank (hd s)" "\<not> is_blank (last s)"
  shows "trim (v @ s @ w) = s"
proof -
  have "dropWhile is_blank (v @ s @ w) = s @ w"
    using assms by (intro dropWhile_blank) auto
  moreover have "dropWhile is_blank (rev (s @ w)) = rev s"
    using assms dropWhile_blank [of "rev w" "rev s"] by (simp add: blank_def hd_rev)
  ultimately show ?thesis
    by (simp add: trim_def)
qed

lemma to_dec_ends: "is_digit (hd (to_dec n))" "is_digit (last (to_dec n))"
  using to_dec_digits [of _ n] by (auto intro!: to_dec_digits)

lemma trim_to_dec: "blank v \<Longrightarrow> blank w \<Longrightarrow> trim (v @ to_dec n @ w) = to_dec n"
  by (rule trim_core) (auto simp: to_dec_ends)

lemma takeWhile_to_dec: "takeWhile is_digit (to_dec n) = to_dec n" "dropWhile is_digit (to_dec n) = []"
  using to_dec_digits by (auto simp: takeWhile_eq_all_conv dropWhile_eq_Nil_conv)

lemma parse_port_to_dec:
  assumes "blank v" "blank w" "n \<le> 65535"
  shows "parse_port (v @ to_dec n @ w) = Some (of_nat n)"
proof -
  have "hd (to_dec n) \<noteq> CHR ''-''"
    using to_dec_ends(1) not_minus(1) by blast
  then have "from_chars_int (to_dec n) = Some (int n, [])"
    using assms(3) by (simp add: from_chars_int_def Let_def takeWhile_to_dec)
  then show ?thesis
    using assms by (simp add: parse_port_def trim_to_dec)
qed

lemma no_minus: "blank w \<Longrightarrow> CHR ''-'' \<notin> set w" "CHR ''-'' \<notin> set (to_dec n)"
proof -
  have m: "\<not> is_blank CHR ''-''" "\<not> is_digit CHR ''-''"
    by (simp_all add: is_blank_def is_digit_def)
  show "blank w \<Longrightarrow> CHR ''-'' \<notin> set w"
    using m(1) by (auto simp only: blank_def)
  show "CHR ''-'' \<notin> set (to_dec n)"
    using m(2) to_dec_digits by blast
qed

lemma split_minus:
  "CHR ''-'' \<notin> set v \<Longrightarrow> takeWhile (\<lambda>c. c \<noteq> CHR ''-'') (v @ CHR ''-'' # w) = v \<and>
   dropWhile (\<lambda>c. c \<noteq> CHR ''-'') (v @ CHR ''-'' # w) = CHR ''-'' # w"
  by (induction v) auto

lemma parse_port_range_dec:
  assumes "blank u" "blank v" "blank w" "blank x" "a \<le> 65535" "b \<le> 65535"
  shows "parse_port_range (u @ to_dec a @ v @ ''-'' @ w @ to_dec b @ x) =
    Some \<lparr>range_from = of_nat (min a b), range_to = of_nat (max a b)\<rparr>"
proof -
  let ?s = "to_dec a @ v @ ''-'' @ w @ to_dec b"
  have "trim (u @ ?s @ x) = ?s"
    using assms(1,4) by (intro trim_core) (auto simp: to_dec_ends)
  moreover have "takeWhile (\<lambda>c. c \<noteq> CHR ''-'') ?s = to_dec a @ v"
    "dropWhile (\<lambda>c. c \<noteq> CHR ''-'') ?s = CHR ''-'' # w @ to_dec b"
    using split_minus [of "to_dec a @ v" "w @ to_dec b"] no_minus(2) [of a] no_minus(1) [OF assms(2)] by simp_all
  moreover have "parse_port (to_dec a @ v) = Some (of_nat a)" "parse_port (w @ to_dec b) = Some (of_nat b)"
    using parse_port_to_dec [of "[]" v a] parse_port_to_dec [of w "[]" b] assms by (simp_all add: blank_def)
  moreover have "(of_nat b :: u16) < of_nat a \<longleftrightarrow> b < a"
    using assms(5,6) by (simp add: word_less_nat_alt unat_of_nat_u16)
  ultimately show ?thesis
    by (simp add: parse_port_range_def Let_def min_def max_def)
qed

lemma parse_port_range_ordered: "parse_port_range s = Some r \<Longrightarrow> range_from r \<le> range_to r"
  by (auto simp: parse_port_range_def Let_def bind_eq_Some_conv split: if_splits)

section \<open>Route choice in closed form\<close>

lemma matches_pattern_excluded [simp]: "matches_pattern e (p\<lparr>excluded := b\<rparr>) = matches_pattern e p"
  by (simp add: matches_pattern_def)

definition excluded_by :: "wstring list \<Rightarrow> network_process \<Rightarrow> bool" where
  "excluded_by exclusions p \<longleftrightarrow> (\<exists>e \<in> set exclusions. matches_pattern e p)"

lemma name_route_excluded:
  "process_id p \<noteq> current_process_id sys \<Longrightarrow> excluded_by exclusions p \<Longrightarrow>
   name_route sys exclusions names p = (None, if names = [] then p else p\<lparr>excluded := True\<rparr>)"
proof (induction names arbitrary: p)
  case (Cons x names)
  then show ?case
    by (cases x) (auto simp: match_app_name_def excluded_by_def list_ex_iff Cons.IH)
qed simp

lemma name_route_closed:
  "name_route sys exclusions names p =
     (if process_id p = current_process_id sys then (None, p)
      else if excluded_by exclusions p then (None, if names = [] then p else p\<lparr>excluded := True\<rparr>)
      else (map_option fst (find (\<lambda>(i, pattern). matches_pattern pattern p) names), p))"
proof (cases "process_id p \<noteq> current_process_id sys \<and> excluded_by exclusions p")
  case False
  then show ?thesis
    by (induction names) (auto simp: match_app_name_def excluded_by_def list_ex_iff Let_def)
qed (simp add: name_route_excluded)

section \<open>Indices stay in range\<close>

definition config_ok :: "router_config \<Rightarrow> bool" where
  "config_ok cfg \<longleftrightarrow>
     (\<forall>(i, pattern) \<in> set (proxy_to_names cfg). i < length (proxy_servers cfg)) \<and>
     sorted (map fst (proxy_to_names cfg)) \<and>
     (\<forall>pid e. pid_to_proxy cfg pid = Some e \<longrightarrow> route_proxy_id e < length (proxy_servers cfg)) \<and>
     (\<forall>rule \<in> set (destination_direct_rules cfg). \<forall>r \<in> set (dst_ports rule). range_from r \<le> range_to r)"

definition empty_config :: router_config where
  "empty_config = \<lparr>proxy_servers = [], proxy_to_names = [], pid_to_proxy = Map.empty,
     destination_direct_rules = [], excluded_list = []\<rparr>"

inductive config_reachable :: "process_times \<Rightarrow> router_config \<Rightarrow> bool" for sys where
  none: "config_reachable sys empty_config"
| proxy_added: "config_reachable sys cfg \<Longrightarrow> config_reachable sys (snd (append_proxy pair cfg))"
| name_added: "config_reachable sys cfg \<Longrightarrow> config_reachable sys (snd (associate_process_name_to_proxy name i cfg))"
| name_excluded: "config_reachable sys cfg \<Longrightarrow> config_reachable sys (snd (exclude_process_name name cfg))"
| pid_added: "config_reachable sys cfg \<Longrightarrow> config_reachable sys (snd (set_pid_route pid i t cfg))"
| pid_removed: "config_reachable sys cfg \<Longrightarrow> config_reachable sys (snd (remove_process_id pid cfg))"
| pids_cleared: "config_reachable sys cfg \<Longrightarrow> config_reachable sys (clear_pid_routes cfg)"
| pids_cleaned: "config_reachable sys cfg \<Longrightarrow> config_reachable sys (cleanup_stale_pid_routes sys cfg)"
| rule_added: "config_reachable sys cfg \<Longrightarrow>
    config_reachable sys (snd (add_destination_direct_rule from_string name ns ps nets ports cidrs cfg))"

lemma sorted_put:
  "sorted (xs @ ys) \<Longrightarrow> \<forall>x \<in> set xs. x \<le> k \<Longrightarrow> \<forall>y \<in> set ys. k \<le> y \<Longrightarrow> sorted (xs @ (k :: nat) # ys)"
  by (auto simp: sorted_append)

lemma sorted_multimap_emplace:
  assumes "sorted (map fst entries)"
  shows "sorted (map fst (multimap_emplace k v entries))"
proof -
  let ?t = "takeWhile (\<lambda>e. fst e \<le> k) entries" and ?d = "dropWhile (\<lambda>e. fst e \<le> k) entries"
  have s: "sorted (map fst (?t @ ?d))"
    using assms by simp
  have "fst e \<le> k" if "e \<in> set ?t" for e
    using that set_takeWhileD by fastforce
  moreover have "k \<le> fst e" if "e \<in> set ?d" for e
  proof -
    have "?d \<noteq> []"
      using that by (metis empty_iff list.set(1))
    then have "k < fst (hd ?d)"
      using hd_dropWhile [of "\<lambda>e. fst e \<le> k" entries] by simp
    moreover have "fst (hd ?d) \<le> fst e"
      using s that \<open>?d \<noteq> []\<close> by (cases ?d) (auto simp: sorted_append)
    ultimately show ?thesis
      by simp
  qed
  ultimately have "\<forall>x \<in> set (map fst ?t). x \<le> k" "\<forall>y \<in> set (map fst ?d). k \<le> y"
    unfolding set_map by blast+
  from sorted_put [OF s [unfolded map_append] this] show ?thesis
    by (simp add: multimap_emplace_def)
qed

lemma set_multimap_emplace: "set (multimap_emplace k v entries) = insert (k, v) (set entries)"
  unfolding multimap_emplace_def by (metis (no_types, lifting) Un_insert_right list.simps(15) set_append takeWhile_dropWhile_id)

lemma config_reachable_ok: "config_reachable sys cfg \<Longrightarrow> config_ok cfg"
proof (induction rule: config_reachable.induct)
  case (rule_added cfg from_string name ns ps nets ports cidrs)
  then show ?case
    by (auto simp: config_ok_def add_destination_direct_rule_def Let_def List.map_filter_def
        parse_port_range_ordered split: prod.splits)
next
  case (proxy_added cfg pair)
  then show ?case
    by (fastforce simp: config_ok_def append_proxy_def Let_def)
qed (auto simp: config_ok_def empty_config_def associate_process_name_to_proxy_def exclude_process_name_def
    set_pid_route_def remove_process_id_def clear_pid_routes_def cleanup_stale_pid_routes_def
    sorted_multimap_emplace set_multimap_emplace map_erase_if_Some_iff)

lemma proxy_port_by_defined:
  assumes "config_ok cfg"
  shows "get_proxy_port_by sel sys cfg p \<noteq> None"
proof -
  have "i < length (proxy_servers cfg)"
    if "find (\<lambda>(i, pattern). matches_pattern pattern p) (proxy_to_names cfg) = Some (i, pattern)" for i pattern
    using that assms by (force simp: config_ok_def find_Some_iff dest: nth_mem)
  then show ?thesis
    using assms
    by (auto simp: get_proxy_port_by_def name_route_closed port_of_def config_ok_def Let_def split: option.splits)
qed

section \<open>Properties\<close>

text \<open>
  Two decimal ports with a minus sign between them, with any blanks around each, parse to the
  range between them in order, whichever way round they are written.
\<close>

theorem parse_port_range_round_trip:
  assumes "blank u" "blank v" "blank w" "blank x" "a \<le> 65535" "b \<le> 65535"
  shows "parse_port_range (u @ to_dec a @ v @ ''-'' @ w @ to_dec b @ x) =
    Some \<lparr>range_from = of_nat (min a b), range_to = of_nat (max a b)\<rparr>"
  by (rule parse_port_range_dec [OF assms])

text \<open>
  C18: whatever proxies, names, exclusions, routes and rules are added and removed, the choice of
  a proxy never indexes the list of proxies out of range.
\<close>

theorem route_index_in_range:
  assumes "config_reachable sys cfg"
  shows "get_proxy_port_tcp sys cfg p \<noteq> None \<and> get_proxy_port_udp sys cfg p \<noteq> None"
  using proxy_port_by_defined [OF config_reachable_ok [OF assms]]
  by (simp add: get_proxy_port_tcp_def get_proxy_port_udp_def)

text \<open>
  C19: the choice of the TCP proxy in closed form.  A route for the process identifier whose
  creation time agrees decides alone, also for an excluded process.  Otherwise the router's own
  process has no proxy, a process that an exclusion matches has none, and any other process has
  that of the first name, in the order of the proxies, that occurs in its name or path.
\<close>

theorem tcp_route_choice:
  "get_proxy_port_tcp sys cfg p =
     (case pid_to_proxy cfg (process_id p) of
        Some e \<Rightarrow> if process_creation_time sys (process_id p) = Some (route_creation_time e)
                  then map_option (\<lambda>port. (port, p)) (port_of fst (proxy_servers cfg) (route_proxy_id e))
                  else by_name
      | None \<Rightarrow> by_name)"
  if "by_name =
     (if process_id p = current_process_id sys then Some (None, p)
      else if excluded_by (excluded_list cfg) p
      then Some (None, if proxy_to_names cfg = [] then p else p\<lparr>excluded := True\<rparr>)
      else case find (\<lambda>(i, pattern). matches_pattern pattern p) (proxy_to_names cfg) of
             None \<Rightarrow> Some (None, p)
           | Some (i, _) \<Rightarrow> map_option (\<lambda>port. (port, p)) (port_of fst (proxy_servers cfg) i))"
proof -
  have "validate_pid_creation_time sys pid t \<longleftrightarrow> process_creation_time sys pid = Some t" for pid t
    by (auto simp: validate_pid_creation_time_def split: option.splits)
  then show ?thesis
    unfolding that get_proxy_port_tcp_def get_proxy_port_by_def name_route_closed Let_def
    by (auto split: option.splits)
qed

text \<open>
  A rule that is given ports and networks of which none parses is accepted and matches every
  destination of the processes it is for.
\<close>

theorem direct_rule_fails_open:
  assumes "\<forall>s \<in> set ports. parse_port_range s = None"
    and "\<forall>c \<in> set cidrs. from_cidr_v4 from_string (trim c) = None"
  shows "\<exists>cfg'. add_destination_direct_rule from_string name [] [] [] ports cidrs cfg = (True, cfg') \<and>
    (\<forall>is_tcp p ip port. match_destination_direct_rule is_tcp p ip port (destination_direct_rules cfg') \<noteq> None)"
proof -
  have "List.map_filter parse_port_range ports = []"
    "List.map_filter (\<lambda>c. from_cidr_v4 from_string (trim c)) cidrs = []"
    using assms by (auto simp: List.map_filter_def filter_empty_conv)
  moreover have "match_destination_direct_rule is_tcp p ip port (rules @ [rule]) \<noteq> None"
    if "match_tcp rule" "match_udp rule" "rule_process_names rule = []" "rule_process_paths rule = []"
      "dst_ports rule = []" "dst_cidrs rule = []" for is_tcp p ip port rules rule
    using that
    by (induction rules) (auto simp: matches_process_filter_def matches_port_filter_def matches_cidr_filter_def)
  ultimately show ?thesis
    by (simp add: add_destination_direct_rule_def)
qed

section \<open>Witnesses\<close>

theorem parse_port_range_round_trip_witness:
  "parse_port_range ('' '' @ to_dec 90 @ [] @ ''-'' @ '' '' @ to_dec 80 @ []) = Some \<lparr>range_from = 80, range_to = 90\<rparr>"
  using parse_port_range_round_trip [of "'' ''" "[]" "'' ''" "[]" 90 80]
  by (simp add: blank_def is_blank_def)

definition sample_times :: process_times where
  "sample_times = \<lparr>current_process_id = 1, process_creation_time = (\<lambda>_. None)\<rparr>"

definition sample_endpoint :: "ip_address_v4 ip_endpoint" where
  "sample_endpoint = endpoint 77 1080"

definition sample_pair :: proxy_pair where
  "sample_pair =
     (Some \<lparr>lp_port = 7000, lp_endpoint = sample_endpoint,
            lp_credentials = None\<rparr>, None)"

definition sample_config :: router_config where
  "sample_config =
     \<lparr>proxy_servers = [sample_pair], proxy_to_names = [(0, wide ''A'')], pid_to_proxy = Map.empty,
      destination_direct_rules = [], excluded_list = [wide ''B'']\<rparr>"

lemma sample_config_eq:
  "snd (exclude_process_name (wide ''b'') (snd (associate_process_name_to_proxy (wide ''a'') 0
     (snd (append_proxy sample_pair empty_config))))) = sample_config"
  by (simp add: exclude_process_name_def associate_process_name_to_proxy_def append_proxy_def empty_config_def
      sample_config_def multimap_emplace_def to_upper_def wide_def)

lemma sample_config_reachable: "config_reachable sample_times sample_config"
  unfolding sample_config_eq [symmetric]
  by (intro config_reachable.intros)

theorem route_index_in_range_witness:
  "get_proxy_port_tcp sample_times sample_config
     (new_network_process (\<lambda>_ _. Query_failed) 9 (wide ''xa'') (wide ''c'')) \<noteq> None"
  using route_index_in_range [OF sample_config_reachable] by blast

theorem tcp_route_choice_witness:
  "get_proxy_port_tcp sample_times sample_config
     (new_network_process (\<lambda>_ _. Query_failed) 1 (wide ''xa'') (wide ''c'')) =
   Some (None, new_network_process (\<lambda>_ _. Query_failed) 1 (wide ''xa'') (wide ''c''))"
  using tcp_route_choice [OF refl, of sample_times sample_config
      "new_network_process (\<lambda>_ _. Query_failed) 1 (wide ''xa'') (wide ''c'')"]
  by (simp add: sample_config_def sample_times_def new_network_process_def)

theorem direct_rule_fails_open_witness:
  "match_destination_direct_rule True
     (new_network_process (\<lambda>_ _. Query_failed) 1 (wide ''xa'') (wide ''c'')) 5 443 (destination_direct_rules
     (snd (add_destination_direct_rule (\<lambda>_. None) ''lan'' [] [] [] [''http''] [''fe80::/10''] sample_config))) \<noteq> None"
proof -
  have "parse_port_range ''http'' = None"
    by code_simp
  moreover have "from_cidr_v4 (\<lambda>_. None) c = None" for c
    by (simp add: from_cidr_v4_def)
  ultimately show ?thesis
    using direct_rule_fails_open [of "[''http'']" "[''fe80::/10'']" "\<lambda>_. None" "''lan''" sample_config] by auto
qed

end
