(* ===== verification/Socks5_Protocol.thy ===== *)
theory Socks5_Protocol
  imports Net_Address
begin

text \<open>
  The messages of the SOCKS5 protocol (proxy/socks5_common.h, proxy/proxy_common.h) as the bytes
  the packed structures put on the wire, and the context of a negotiation.
\<close>

definition socks5_protocol_version :: u8 where "socks5_protocol_version = 5"
definition socks5_username_auth_version :: u8 where "socks5_username_auth_version = 1"
definition socks5_username_max_length :: nat where "socks5_username_max_length = 255"

record 'a negotiate_context =
  remote_address :: 'a
  remote_port :: u16
  socks5_username :: "string option"
  socks5_password :: "string option"

text \<open>The template argument: the family of the addresses and their bytes in memory.\<close>

record 'a address_family =
  is_inet6 :: bool
  address_bytes :: "'a \<Rightarrow> u8 list"

definition inet :: "ip_address_v4 address_family" where
  "inet = \<lparr>is_inet6 = False, address_bytes = (\<lambda>a. map (v4_byte a) [0..<4])\<rparr>"

definition inet6 :: "ip_address_v6 address_family" where
  "inet6 = \<lparr>is_inet6 = True, address_bytes = (\<lambda>a. map (v6_byte a) [0..<16])\<rparr>"

definition string_bytes :: "string \<Rightarrow> u8 list" where
  "string_bytes s = map of_char s"

section \<open>Requests\<close>

definition socks5_ident_req :: "u8 list \<Rightarrow> u8 list" where
  "socks5_ident_req methods = socks5_protocol_version # of_nat (length methods) # methods"

text \<open>
  \<^verbatim>\<open>strcpy_s\<close> into a field of the buffer that is zero so far; the C string ends at the first zero.
  A string that does not fit the given size with its terminator ends the program, the value \<open>None\<close>.
\<close>

definition strcpy_s :: "nat \<Rightarrow> u8 list \<Rightarrow> nat \<Rightarrow> u8 list option" where
  "strcpy_s room source field =
     (let s = takeWhile (\<lambda>b. b \<noteq> 0) source
      in if length s < room then Some (take field (s @ replicate field 0)) else None)"

text \<open>
  \<^verbatim>\<open>socks5_username_auth::init\<close>: the message to send, empty when a length is out of range.  Both
  copies are allowed 255 bytes including the terminator.
\<close>

definition username_auth_init :: "string \<Rightarrow> string \<Rightarrow> u8 list option" where
  "username_auth_init username password =
     (let u = string_bytes username; p = string_bytes password in
      if 255 < length u \<or> 255 < length p then Some []
      else do {
        user \<leftarrow> strcpy_s 255 u (length u);
        pass \<leftarrow> strcpy_s 255 p (length p);
        Some (socks5_username_auth_version # of_nat (length u) # user @ of_nat (length p) # pass)
      })"

definition socks5_req :: "'a address_family \<Rightarrow> u8 \<Rightarrow> u8 \<Rightarrow> 'a \<Rightarrow> u16 \<Rightarrow> u8 list" where
  "socks5_req family cmd address_type address port =
     socks5_protocol_version # cmd # 0 # address_type # address_bytes family address @ [lo8 (htons port), hi8 (htons port)]"

section \<open>Answers\<close>

text \<open>
  The structures the answers are read into, as their bytes: a receive of fewer bytes leaves the
  rest of the structure as it was.
\<close>

definition new_ident_resp :: "u8 list" where
  "new_ident_resp = [socks5_protocol_version, 0]"

definition new_socks5_resp :: "'a address_family \<Rightarrow> u8 list" where
  "new_socks5_resp family = socks5_protocol_version # replicate (if is_inet6 family then 21 else 9) 0"

definition read_into :: "u8 list \<Rightarrow> u8 list \<Rightarrow> u8 list" where
  "read_into structure bs = bs @ drop (length bs) structure"

section \<open>The messages are what the protocol asks for\<close>

definition no_zero :: "string \<Rightarrow> bool" where
  "no_zero s \<longleftrightarrow> 0 \<notin> set (string_bytes s)"

lemma takeWhile_no_zero: "0 \<notin> set s \<Longrightarrow> takeWhile (\<lambda>b. b \<noteq> 0) s = s"
  by (auto simp: takeWhile_eq_all_conv)

lemma strcpy_s_no_zero: "0 \<notin> set s \<Longrightarrow> length s < room \<Longrightarrow> strcpy_s room s (length s) = Some s"
  by (simp add: strcpy_s_def takeWhile_no_zero)

lemma username_auth_init_eq:
  assumes "no_zero u" "no_zero p" "length u < 255" "length p < 255"
  shows "username_auth_init u p = Some (1 # of_nat (length u) # string_bytes u @ of_nat (length p) # string_bytes p)"
proof -
  have l: "length (string_bytes s) = length s" for s
    by (simp add: string_bytes_def)
  have "strcpy_s 255 (string_bytes u) (length u) = Some (string_bytes u)"
    "strcpy_s 255 (string_bytes p) (length p) = Some (string_bytes p)"
    using assms strcpy_s_no_zero [of "string_bytes u" 255] strcpy_s_no_zero [of "string_bytes p" 255]
    by (simp_all add: no_zero_def l)
  then show ?thesis
    using assms(3,4) by (simp add: username_auth_init_def Let_def l socks5_username_auth_version_def)
qed

lemma username_auth_init_aborts:
  assumes "no_zero u" "length u = 255" "length p \<le> 255"
  shows "username_auth_init u p = None"
proof -
  have l: "length (string_bytes s) = length s" for s
    by (simp add: string_bytes_def)
  have "takeWhile (\<lambda>b. b \<noteq> 0) (string_bytes u) = string_bytes u"
    using assms(1) by (intro takeWhile_no_zero) (simp add: no_zero_def)
  then have "strcpy_s 255 (string_bytes u) (length u) = None"
    using assms(2) by (simp only: strcpy_s_def Let_def l) simp
  then show ?thesis
    using assms(2,3) by (simp add: username_auth_init_def Let_def l)
qed

end
