(* ===== verification/Router.thy ===== *)
theory Router
  imports Udp_Redirect Router_Config Socks5_Protocol
begin

text \<open>
  The packet path of \<^verbatim>\<open>socks_local_router\<close> (proxy/socks_local_router.h): the callback for outgoing
  packets, the queue of packets whose process is not known yet, the resolver thread that empties
  it, the mappers that tell a local proxy where a connection really goes, and their expiry.  Each
  operation is one step under its lock; the enqueue, which takes its lock twice, is two.  The
  outer \<open>None\<close> of the handlers is an access outside the packet array or the list of proxies.
\<close>

unbundle bit_operations_syntax

section \<open>State\<close>

datatype packet_action = action_type_pass | action_type_drop | action_type_revert

record tcp_mapper_entry =
  mapped_endpoint :: "ip_address_v4 ip_endpoint"
  created_at :: time_point

record router =
  config :: router_config
  lookup_v4 :: "ip_address_v4 process_lookup"
  tcp_mapper :: "u16 \<rightharpoonup> tcp_mapper_entry"
  udp_mapper :: "u16 set"
  observed_direct_udp_ports :: "u16 set"
  tcp_redirect :: "ip_address_v4 tcp_local_redirect"
  udp_redirect :: socks5_udp_local_redirect
  resolve_queue :: "intermediate_buffer list"
  dropped_packets :: u64
  alloc_failures :: u64

definition tcp_mapper_entry_ttl :: time_point where
  "tcp_mapper_entry_ttl = seconds 30"

definition max_resolve_queue_depth :: nat where
  "max_resolve_queue_depth = 2048"

definition drop_log_throttle_interval :: time_point where
  "drop_log_throttle_interval = seconds 5"

abbreviation process_of :: "router \<Rightarrow> process_ref \<Rightarrow> network_process" where
  "process_of r ref \<equiv> process_at (lookup_v4 r) ref"

definition set_process :: "process_ref \<Rightarrow> network_process \<Rightarrow> router \<Rightarrow> router" where
  "set_process ref p r = r\<lparr>lookup_v4 := write_process ref (\<lambda>_. p) (lookup_v4 r)\<rparr>"

section \<open>Finding the process\<close>

text \<open>
  Both handlers look the process up; when it is unknown a packet from the queue gets the default
  process, a fresh packet is postponed.
\<close>

definition find_process_udp ::
  "time_point \<Rightarrow> bool \<Rightarrow> ip_address_v4 ip_endpoint \<Rightarrow> router \<Rightarrow> process_ref option \<times> router" where
  "find_process_udp now postponed ep r =
     (case lookup_process_for_udp False True now ep (lookup_v4 r) of
        (Some ref, pl) \<Rightarrow> (Some ref, r\<lparr>lookup_v4 := pl\<rparr>)
      | (None, pl) \<Rightarrow>
          if postponed
          then (case lookup_process_for_udp True True now ep pl of (ref, pl) \<Rightarrow> (ref, r\<lparr>lookup_v4 := pl\<rparr>))
          else (None, r\<lparr>lookup_v4 := pl\<rparr>))"

definition find_process_tcp ::
  "time_point \<Rightarrow> bool \<Rightarrow> ip_address_v4 ip_session \<Rightarrow> router \<Rightarrow> process_ref option \<times> router" where
  "find_process_tcp now postponed s r =
     (case lookup_process_for_tcp False True now s (lookup_v4 r) of
        (Some ref, pl) \<Rightarrow> (Some ref, r\<lparr>lookup_v4 := pl\<rparr>)
      | (None, pl) \<Rightarrow>
          if postponed
          then (case lookup_process_for_tcp True True now s pl of (ref, pl) \<Rightarrow> (ref, r\<lparr>lookup_v4 := pl\<rparr>))
          else (None, r\<lparr>lookup_v4 := pl\<rparr>))"

section \<open>UDP packets\<close>

text \<open>The last part of the handler: the packet goes to the local proxy at \<open>port\<close>.\<close>

definition redirect_udp ::
  "time_point \<Rightarrow> u16 \<Rightarrow> intermediate_buffer \<Rightarrow> router \<Rightarrow>
   (packet_action option \<times> intermediate_buffer \<times> router) option" where
  "redirect_udp now port buffer r =
     (let m = m_IBuffer buffer; sport = ntohs (th_sport m (ip_th m));
          (is_new, u) = is_new_endpoint_v4 now (udp_redirect r) buffer;
          r = r\<lparr>udp_redirect := u, udp_mapper := (if is_new then insert sport (udp_mapper r) else udp_mapper r)\<rparr>
      in do {
        (ok, u, buffer) \<leftarrow> udp_client_to_server_v4 now (udp_redirect r) (htons port) buffer;
        Some (Some (if ok then action_type_revert else action_type_pass), buffer, r\<lparr>udp_redirect := u\<rparr>)
      })"

text \<open>The middle part: what becomes of a packet of a known process.\<close>

definition route_udp ::
  "process_times \<Rightarrow> time_point \<Rightarrow> process_ref \<Rightarrow> intermediate_buffer \<Rightarrow> router \<Rightarrow>
   (packet_action option \<times> intermediate_buffer \<times> router) option" where
  "route_udp sys now ref buffer r =
     (let m = m_IBuffer buffer; sport = ntohs (th_sport m (ip_th m)); dport = ntohs (th_dport m (ip_th m));
          p = process_of r ref in
      if excluded p then Some (Some action_type_pass, buffer, r)
      else if bypass_udp p \<and> \<not> has_pid_route (process_id p) (config r)
      then Some (Some action_type_pass, buffer, r)
      else do {
        (port, p) \<leftarrow> (if process_udp_proxy_port p \<noteq> None then Some (process_udp_proxy_port p, p)
                      else get_proxy_port_udp sys (config r) p);
        let r = set_process ref p r;
        case port of
          None \<Rightarrow> Some (Some action_type_pass, buffer, set_process ref (p\<lparr>bypass_udp := True\<rparr>) r)
        | Some port \<Rightarrow>
            if match_destination_direct_rule False p (ip_dst m) dport (destination_direct_rules (config r)) \<noteq> None
            then Some (Some action_type_pass, buffer,
                   r\<lparr>observed_direct_udp_ports := insert sport (observed_direct_udp_ports r)\<rparr>)
            else redirect_udp now port buffer r
      })"

definition process_udp_packet ::
  "process_times \<Rightarrow> time_point \<Rightarrow> bool \<Rightarrow> intermediate_buffer \<Rightarrow> router \<Rightarrow>
   (packet_action option \<times> intermediate_buffer \<times> router) option" where
  "process_udp_packet sys now postponed buffer r =
     (let m = m_IBuffer buffer; sport = ntohs (th_sport m (ip_th m)); dport = ntohs (th_dport m (ip_th m)) in
      if dport = 53 then Some (Some action_type_pass, buffer, r)
      else do {
        (answered, buffer, r) \<leftarrow>
          (if is_udp_proxy_port sport (config r)
           then do {
             (ok, u, b) \<leftarrow> udp_server_to_client_v4 now (udp_redirect r) buffer;
             Some (ok, b, r\<lparr>udp_redirect := u\<rparr>)
           } else Some (False, buffer, r));
        if answered then Some (Some action_type_revert, buffer, r)
        else case find_process_udp now postponed (endpoint (ip_src m) sport) r of
            (None, r) \<Rightarrow> Some (None, buffer, r)
          | (Some ref, r) \<Rightarrow> route_udp sys now ref buffer r
      })"

section \<open>TCP packets\<close>

text \<open>A SYN of a proxied process enters the mapper before it is redirected.\<close>

definition map_connection :: "time_point \<Rightarrow> frame \<Rightarrow> router \<Rightarrow> router" where
  "map_connection now m r =
     r\<lparr>tcp_mapper := (tcp_mapper r)(ntohs (th_sport m (ip_th m)) \<mapsto>
        \<lparr>mapped_endpoint = endpoint (ip_dst m) (ntohs (th_dport m (ip_th m))), created_at = now\<rparr>)\<rparr>"

definition redirect_tcp ::
  "time_point \<Rightarrow> u16 \<Rightarrow> intermediate_buffer \<Rightarrow> router \<Rightarrow>
   (packet_action option \<times> intermediate_buffer \<times> router) option" where
  "redirect_tcp now port buffer r = do {
     (ok, t, buffer) \<leftarrow> process_client_to_server_packet_v4 now (tcp_redirect r) (htons port) buffer;
     Some (Some (if ok then action_type_revert else action_type_pass), buffer, r\<lparr>tcp_redirect := t\<rparr>)
   }"

definition route_tcp ::
  "process_times \<Rightarrow> time_point \<Rightarrow> process_ref \<Rightarrow> intermediate_buffer \<Rightarrow> router \<Rightarrow>
   (packet_action option \<times> intermediate_buffer \<times> router) option" where
  "route_tcp sys now ref buffer r =
     (let m = m_IBuffer buffer; dport = ntohs (th_dport m (ip_th m)); p = process_of r ref in
      if excluded p then Some (Some action_type_pass, buffer, r)
      else if bypass_tcp p \<and> \<not> has_pid_route (process_id p) (config r)
      then Some (Some action_type_pass, buffer, r)
      else do {
        (port, p) \<leftarrow> (if process_tcp_proxy_port p \<noteq> None then Some (process_tcp_proxy_port p, p)
                      else get_proxy_port_tcp sys (config r) p);
        let r = set_process ref p r;
        case port of
          None \<Rightarrow> Some (Some action_type_pass, buffer, set_process ref (p\<lparr>bypass_tcp := True\<rparr>) r)
        | Some port \<Rightarrow>
            if is_syn (th_flags m (ip_th m))
            then (if match_destination_direct_rule True p (ip_dst m) dport (destination_direct_rules (config r)) \<noteq> None
                  then Some (Some action_type_pass, buffer, r)
                  else redirect_tcp now port buffer (map_connection now m r))
            else redirect_tcp now port buffer r
      })"

definition process_tcp_packet ::
  "process_times \<Rightarrow> time_point \<Rightarrow> bool \<Rightarrow> intermediate_buffer \<Rightarrow> router \<Rightarrow>
   (packet_action option \<times> intermediate_buffer \<times> router) option" where
  "process_tcp_packet sys now postponed buffer r =
     (let m = m_IBuffer buffer; sport = ntohs (th_sport m (ip_th m)); dport = ntohs (th_dport m (ip_th m)) in do {
        (answered, buffer, r) \<leftarrow>
          (if is_tcp_proxy_port sport (config r)
           then do {
             (ok, t, b) \<leftarrow> process_server_to_client_packet_v4 now (tcp_redirect r) buffer;
             Some (ok, b, r\<lparr>tcp_redirect := t\<rparr>)
           } else Some (False, buffer, r));
        if answered then Some (Some action_type_revert, buffer, r)
        else case find_process_tcp now postponed (session (ip_src m) (ip_dst m) sport dport) r of
            (None, r) \<Rightarrow> Some (None, buffer, r)
          | (Some ref, r) \<Rightarrow> route_tcp sys now ref buffer r
      })"

section \<open>The queue of postponed packets\<close>

text \<open>
  \<^verbatim>\<open>enqueue_for_deferred_resolve\<close> tests the size of the queue, leaves the lock, copies the packet
  into a buffer of the pool, which may fail, and tests again under the lock.  The packet itself is
  dropped in every case.
\<close>

definition enqueue_test :: "router \<Rightarrow> bool \<times> router" where
  "enqueue_test r =
     (if max_resolve_queue_depth \<le> length (resolve_queue r)
      then (False, r\<lparr>dropped_packets := dropped_packets r + 1\<rparr>) else (True, r))"

definition enqueue_push :: "bool \<Rightarrow> intermediate_buffer \<Rightarrow> router \<Rightarrow> router" where
  "enqueue_push allocated buffer r =
     (if allocated
      then (if length (resolve_queue r) < max_resolve_queue_depth
            then r\<lparr>resolve_queue := resolve_queue r @ [buffer]\<rparr>
            else r\<lparr>dropped_packets := dropped_packets r + 1\<rparr>)
      else r\<lparr>alloc_failures := alloc_failures r + 1\<rparr>)"

definition enqueue_for_deferred_resolve ::
  "bool \<Rightarrow> intermediate_buffer \<Rightarrow> router \<Rightarrow> packet_action \<times> router" where
  "enqueue_for_deferred_resolve allocated buffer r =
     (case enqueue_test r of
        (False, r) \<Rightarrow> (action_type_drop, r)
      | (True, r) \<Rightarrow> (action_type_drop, enqueue_push allocated buffer r))"

section \<open>The callback for outgoing packets\<close>

text \<open>
  The callback's decision before the queue: \<open>None\<close> asks to postpone the packet.  Frames of another
  protocol than IPv4, other transport protocols and UDP to a group of stations pass.
\<close>

definition decide_packet ::
  "process_times \<Rightarrow> time_point \<Rightarrow> intermediate_buffer \<Rightarrow> router \<Rightarrow>
   (packet_action option \<times> intermediate_buffer \<times> router) option" where
  "decide_packet sys now buffer r =
     (let m = m_IBuffer buffer; destination_mac = map m [0..<6] in
      if ntohs (h_proto m) \<noteq> ETH_P_IP then Some (Some action_type_pass, buffer, r)
      else if ip_p m = IPPROTO_UDP
      then (if mac_is_broadcast destination_mac \<or> mac_is_multicast destination_mac
            then Some (Some action_type_pass, buffer, r)
            else process_udp_packet sys now False buffer r)
      else if ip_p m = IPPROTO_TCP then process_tcp_packet sys now False buffer r
      else Some (Some action_type_pass, buffer, r))"

definition filter_packet ::
  "process_times \<Rightarrow> time_point \<Rightarrow> bool \<Rightarrow> intermediate_buffer \<Rightarrow> router \<Rightarrow>
   (packet_action \<times> intermediate_buffer \<times> router) option" where
  "filter_packet sys now allocated buffer r = do {
     (result, buffer, r) \<leftarrow> decide_packet sys now buffer r;
     case result of
       Some action \<Rightarrow> Some (action, buffer, r)
     | None \<Rightarrow> let (action, r) = enqueue_for_deferred_resolve allocated buffer r in Some (action, buffer, r)
   }"

section \<open>Mappers\<close>

text \<open>
  The callbacks a local proxy server asks for the peer of an accepted connection: an entry of the
  mapper is used once and only for 30 seconds.  The answer is the SOCKS5 server and the context
  of the negotiation with it, or an unspecified address, port 0 and no context.
\<close>

definition tcp_query_remote_peer ::
  "time_point \<Rightarrow> local_proxy \<Rightarrow> u16 \<Rightarrow> router \<Rightarrow>
   (ip_address_v4 \<times> u16 \<times> ip_address_v4 negotiate_context option) \<times> router" where
  "tcp_query_remote_peer now proxy port r =
     (case tcp_mapper r port of
        None \<Rightarrow> ((0, 0, None), r)
      | Some e \<Rightarrow>
          let r = r\<lparr>tcp_mapper := (tcp_mapper r)(port := None)\<rparr> in
          if tcp_mapper_entry_ttl < now - created_at e then ((0, 0, None), r)
          else ((ep_ip (lp_endpoint proxy), ep_port (lp_endpoint proxy),
                 Some \<lparr>remote_address = ep_ip (mapped_endpoint e), remote_port = ep_port (mapped_endpoint e),
                       socks5_username = map_option fst (lp_credentials proxy),
                       socks5_password = map_option snd (lp_credentials proxy)\<rparr>), r))"

definition udp_query_remote_peer ::
  "local_proxy \<Rightarrow> u16 \<Rightarrow> router \<Rightarrow> (ip_address_v4 \<times> u16 \<times> ip_address_v4 negotiate_context option) \<times> router" where
  "udp_query_remote_peer proxy port r =
     (if port \<in> udp_mapper r
      then ((ep_ip (lp_endpoint proxy), ep_port (lp_endpoint proxy),
             Some \<lparr>remote_address = 0, remote_port = 0,
                   socks5_username = map_option fst (lp_credentials proxy),
                   socks5_password = map_option snd (lp_credentials proxy)\<rparr>),
            r\<lparr>udp_mapper := udp_mapper r - {port}\<rparr>)
      else ((0, 0, None), r))"

definition sweep_tcp_mapper :: "time_point \<Rightarrow> (u16 \<rightharpoonup> tcp_mapper_entry) \<Rightarrow> (u16 \<rightharpoonup> tcp_mapper_entry)" where
  "sweep_tcp_mapper now mapper = map_erase_if (\<lambda>(port, e). tcp_mapper_entry_ttl < now - created_at e) mapper"

interpretation tcp_mapper_table: aging_table "\<lambda>mapper. mapper" created_at sweep_tcp_mapper tcp_mapper_entry_ttl
  by unfold_locales (auto simp: sweep_tcp_mapper_def map_erase_if_def tcp_mapper_entry_ttl_def split: option.splits)

section \<open>The resolver thread\<close>

record resolver_clock =
  last_sweep :: time_point
  last_drop_log :: time_point

definition maintenance_interval :: time_point where
  "maintenance_interval = tcp_mapper_entry_ttl div 2"

definition maintain :: "process_times \<Rightarrow> time_point \<Rightarrow> router \<times> resolver_clock \<Rightarrow> router \<times> resolver_clock" where
  "maintain sys now = (\<lambda>(r, c).
     if maintenance_interval \<le> now - last_sweep c
     then (r\<lparr>tcp_mapper := sweep_tcp_mapper now (tcp_mapper r),
             config := cleanup_stale_pid_routes sys (config r)\<rparr>, c\<lparr>last_sweep := now\<rparr>)
     else (r, c))"

text \<open>The throttled report of lost packets: both counters start again at 0.\<close>

definition report_drops :: "time_point \<Rightarrow> router \<times> resolver_clock \<Rightarrow> router \<times> resolver_clock" where
  "report_drops now = (\<lambda>(r, c).
     if drop_log_throttle_interval \<le> now - last_drop_log c
     then (r\<lparr>dropped_packets := 0, alloc_failures := 0\<rparr>, c\<lparr>last_drop_log := now\<rparr>)
     else (r, c))"

definition dispatch_packet ::
  "process_times \<Rightarrow> time_point \<Rightarrow> intermediate_buffer \<Rightarrow> router \<Rightarrow>
   (packet_action option \<times> intermediate_buffer \<times> router) option" where
  "dispatch_packet sys now buffer r =
     (if ip_p (m_IBuffer buffer) = IPPROTO_UDP then process_udp_packet sys now True buffer r
      else if ip_p (m_IBuffer buffer) = IPPROTO_TCP then process_tcp_packet sys now True buffer r
      else Some (None, buffer, r))"

fun dispatch_queue ::
  "process_times \<Rightarrow> time_point \<Rightarrow> intermediate_buffer list \<Rightarrow> router \<Rightarrow>
   (intermediate_buffer list \<times> intermediate_buffer list \<times> router) option" where
  "dispatch_queue sys now [] r = Some ([], [], r)"
| "dispatch_queue sys now (buffer # local_queue) r = do {
     (result, buffer, r) \<leftarrow> dispatch_packet sys now buffer r;
     (to_adapters, to_mstcp, r) \<leftarrow> dispatch_queue sys now local_queue r;
     Some (case result of
             Some action_type_pass \<Rightarrow> (buffer # to_adapters, to_mstcp, r)
           | Some action_type_revert \<Rightarrow> (to_adapters, buffer # to_mstcp, r)
           | _ \<Rightarrow> (to_adapters, to_mstcp, r))
   }"

text \<open>
  One round of the loop after the wait: the queue is taken, maintenance and report are done when
  they are due, and if there are packets the tables of processes are read again and each packet
  is decided.  The result holds the packets sent to the network and to the protocol stack.
\<close>

definition resolver_round ::
  "process_times \<Rightarrow> os_environment \<Rightarrow> ip_address_v4 tcp_row table_answer list \<Rightarrow>
   ip_address_v4 udp_row table_answer list \<Rightarrow> time_point \<Rightarrow> router \<times> resolver_clock \<Rightarrow>
   (intermediate_buffer list \<times> intermediate_buffer list \<times> router \<times> resolver_clock) option" where
  "resolver_round sys env tcp_answers udp_answers now = (\<lambda>(r, c).
     let local_queue = resolve_queue r;
         (r, c) = report_drops now (maintain sys now (r\<lparr>resolve_queue := []\<rparr>, c))
     in if local_queue = [] then Some ([], [], r, c)
        else do {
          (_, pl) \<leftarrow> actualize_v4 env tcp_answers udp_answers now True True (lookup_v4 r);
          (to_adapters, to_mstcp, r) \<leftarrow> dispatch_queue sys now local_queue (r\<lparr>lookup_v4 := pl\<rparr>);
          Some (to_adapters, to_mstcp, r, c)
        })"

definition resolver_exits :: "bool \<Rightarrow> router \<Rightarrow> bool" where
  "resolver_exits should_exit r \<longleftrightarrow> should_exit \<and> resolve_queue r = []"

section \<open>What the handlers leave alone\<close>

definition same_queue :: "router \<Rightarrow> router \<Rightarrow> bool" where
  "same_queue r r' \<longleftrightarrow> resolve_queue r' = resolve_queue r \<and> dropped_packets r' = dropped_packets r \<and>
     alloc_failures r' = alloc_failures r \<and> config r' = config r"

lemma same_queue_refl [simp]: "same_queue r r"
  by (simp add: same_queue_def)

lemma same_queue_trans: "same_queue r r' \<Longrightarrow> same_queue r' r'' \<Longrightarrow> same_queue r r''"
  by (simp add: same_queue_def)

lemma same_queue_updates [simp]:
  "same_queue r (set_process ref p r')  \<longleftrightarrow> same_queue r r'"
  "same_queue r (r'\<lparr>lookup_v4 := pl\<rparr>) \<longleftrightarrow> same_queue r r'"
  "same_queue r (r'\<lparr>udp_redirect := u\<rparr>) \<longleftrightarrow> same_queue r r'"
  "same_queue r (r'\<lparr>tcp_redirect := t\<rparr>) \<longleftrightarrow> same_queue r r'"
  "same_queue r (r'\<lparr>udp_mapper := ports\<rparr>) \<longleftrightarrow> same_queue r r'"
  "same_queue r (r'\<lparr>observed_direct_udp_ports := ports\<rparr>) \<longleftrightarrow> same_queue r r'"
  "same_queue r (map_connection now m r') \<longleftrightarrow> same_queue r r'"
  "same_queue (set_process ref p r) r'  \<longleftrightarrow> same_queue r r'"
  "same_queue (r\<lparr>lookup_v4 := pl\<rparr>) r' \<longleftrightarrow> same_queue r r'"
  "same_queue (r\<lparr>udp_redirect := u\<rparr>) r' \<longleftrightarrow> same_queue r r'"
  "same_queue (r\<lparr>tcp_redirect := t\<rparr>) r' \<longleftrightarrow> same_queue r r'"
  "same_queue (r\<lparr>udp_redirect := u, udp_mapper := ports\<rparr>) r' \<longleftrightarrow> same_queue r r'"
  "same_queue (map_connection now m r) r' \<longleftrightarrow> same_queue r r'"
  by (auto simp: same_queue_def set_process_def map_connection_def)

lemma find_process_same_queue:
  "same_queue r (snd (find_process_udp now postponed ep r))"
  "same_queue r (snd (find_process_tcp now postponed s r))"
  by (auto simp: find_process_udp_def find_process_tcp_def split: prod.splits option.splits)

definition decided :: "packet_action option \<Rightarrow> bool" where
  "decided res \<longleftrightarrow> res = Some action_type_pass \<or> res = Some action_type_revert"

lemma redirect_udp_decided:
  "redirect_udp now port buffer r = Some (res, buffer', r') \<Longrightarrow> decided res \<and> same_queue r r'"
  by (auto simp: redirect_udp_def decided_def Let_def bind_eq_Some_conv split: prod.splits)

lemma redirect_tcp_decided:
  "redirect_tcp now port buffer r = Some (res, buffer', r') \<Longrightarrow> decided res \<and> same_queue r r'"
  by (auto simp: redirect_tcp_def decided_def bind_eq_Some_conv split: prod.splits)

lemma route_udp_decided:
  "route_udp sys now ref buffer r = Some (res, buffer', r') \<Longrightarrow> decided res \<and> same_queue r r'"
  by (auto simp: route_udp_def decided_def Let_def bind_eq_Some_conv split: if_splits option.splits
      dest!: redirect_udp_decided)

lemma route_tcp_decided:
  "route_tcp sys now ref buffer r = Some (res, buffer', r') \<Longrightarrow> decided res \<and> same_queue r r'"
  by (auto simp: route_tcp_def decided_def Let_def bind_eq_Some_conv split: if_splits option.splits
      dest!: redirect_tcp_decided)

lemma find_process_postponed:
  "fst (find_process_udp now True ep r) \<noteq> None" "fst (find_process_tcp now True s r) \<noteq> None"
  by (auto simp: find_process_udp_def find_process_tcp_def lookup_process_for_udp_def lookup_process_for_tcp_def
      lookup_protected_def split: prod.splits option.splits if_splits)

text \<open>A redirector that does not translate a packet leaves the packet and its table alone.\<close>

lemma server_to_client_unchanged:
  "process_server_to_client_packet_v4 now t p = Some (False, t', p') \<Longrightarrow> t' = t \<and> p' = p"
  "udp_server_to_client_v4 now u p = Some (False, u', p') \<Longrightarrow> u' = u \<and> p' = p"
  by (auto simp: process_server_to_client_packet_v4_def udp_server_to_client_v4_def Let_def bind_eq_Some_conv
      split: if_splits option.splits prod.splits)

text \<open>The ways through the handler.\<close>

lemma process_udp_packet_cases:
  assumes "process_udp_packet sys now postponed buffer r = Some (res, buffer', r')"
  obtains (passed) "res = Some action_type_pass" "buffer' = buffer" "r' = r"
  | (answered) x where "res = Some action_type_revert" "r' = r\<lparr>udp_redirect := x\<rparr>"
      "udp_server_to_client_v4 now (udp_redirect r) buffer = Some (True, x, buffer')"
      "is_udp_proxy_port (ntohs (th_sport (m_IBuffer buffer) (ip_th (m_IBuffer buffer)))) (config r)"
  | (unknown) "res = None" "buffer' = buffer" "find_process_udp now postponed
      (endpoint (ip_src (m_IBuffer buffer)) (ntohs (th_sport (m_IBuffer buffer) (ip_th (m_IBuffer buffer))))) r = (None, r')"
  | (known) ref r1 where "find_process_udp now postponed
      (endpoint (ip_src (m_IBuffer buffer)) (ntohs (th_sport (m_IBuffer buffer) (ip_th (m_IBuffer buffer))))) r = (Some ref, r1)"
      "route_udp sys now ref buffer r1 = Some (res, buffer', r')"
proof -
  let ?m = "m_IBuffer buffer"
  let ?sport = "ntohs (th_sport ?m (ip_th ?m))" and ?dport = "ntohs (th_dport ?m (ip_th ?m))"
  consider (early) "?dport = 53"
    | (mine) x where "\<not> (?dport = 53)" "is_udp_proxy_port ?sport (config r)"
        "udp_server_to_client_v4 now (udp_redirect r) buffer = Some (True, x, buffer')" "res = Some action_type_revert" "r' = r\<lparr>udp_redirect := x\<rparr>"
    | (other) "\<not> (?dport = 53)" "(case find_process_udp now postponed (endpoint (ip_src ?m) ?sport) r of
          (None, r) \<Rightarrow> Some (None, buffer, r) | (Some ref, r) \<Rightarrow> route_udp sys now ref buffer r) = Some (res, buffer', r')"
  proof (cases "is_udp_proxy_port ?sport (config r) \<and> \<not> (?dport = 53)")
    case True
    with assms obtain ok x b where "udp_server_to_client_v4 now (udp_redirect r) buffer = Some (ok, x, b)"
      by (auto simp: process_udp_packet_def Let_def bind_eq_Some_conv)
    with assms True show thesis
      by (cases ok) (auto simp: process_udp_packet_def Let_def dest!: server_to_client_unchanged intro: mine other)
  next
    case False
    with assms show thesis
      by (cases "?dport = 53") (auto simp: process_udp_packet_def Let_def intro: early other)
  qed
  then show thesis
  proof cases
    case early
    with assms passed show thesis
      by (simp add: process_udp_packet_def Let_def)
  next
    case (mine x)
    with answered show thesis
      by blast
  next
    case other
    obtain f r1 where "find_process_udp now postponed (endpoint (ip_src ?m) ?sport) r = (f, r1)"
      by fastforce
    with other unknown known show thesis
      by (cases f) auto
  qed
qed

lemma process_udp_packet_result:
  assumes "process_udp_packet sys now postponed buffer r = Some (res, buffer', r')"
  shows "same_queue r r'" "decided res \<or> res = None \<and> \<not> postponed \<and> buffer' = buffer"
proof -
  have "same_queue r r' \<and> (decided res \<or> res = None \<and> \<not> postponed \<and> buffer' = buffer)"
    using assms
  proof (cases rule: process_udp_packet_cases)
    case unknown
    moreover have "\<not> postponed"
      using unknown(3) find_process_postponed(1) by (metis fst_conv)
    ultimately show ?thesis
      using find_process_same_queue(1) by (metis snd_conv)
  next
    case (known ref r1)
    have "same_queue r r1"
      using find_process_same_queue(1) known(1) by (metis snd_conv)
    then show ?thesis
      using route_udp_decided [OF known(2)] by (auto intro: same_queue_trans)
  qed (simp_all add: decided_def)
  then show "same_queue r r'" "decided res \<or> res = None \<and> \<not> postponed \<and> buffer' = buffer"
    by simp_all
qed

text \<open>The ways through the handler.\<close>

lemma process_tcp_packet_cases:
  assumes "process_tcp_packet sys now postponed buffer r = Some (res, buffer', r')"
  obtains (passed) "res = Some action_type_pass" "buffer' = buffer" "r' = r"
  | (answered) x where "res = Some action_type_revert" "r' = r\<lparr>tcp_redirect := x\<rparr>"
      "process_server_to_client_packet_v4 now (tcp_redirect r) buffer = Some (True, x, buffer')"
      "is_tcp_proxy_port (ntohs (th_sport (m_IBuffer buffer) (ip_th (m_IBuffer buffer)))) (config r)"
  | (unknown) "res = None" "buffer' = buffer" "find_process_tcp now postponed
      (session (ip_src (m_IBuffer buffer)) (ip_dst (m_IBuffer buffer))
        (ntohs (th_sport (m_IBuffer buffer) (ip_th (m_IBuffer buffer))))
        (ntohs (th_dport (m_IBuffer buffer) (ip_th (m_IBuffer buffer))))) r = (None, r')"
  | (known) ref r1 where "find_process_tcp now postponed
      (session (ip_src (m_IBuffer buffer)) (ip_dst (m_IBuffer buffer))
        (ntohs (th_sport (m_IBuffer buffer) (ip_th (m_IBuffer buffer))))
        (ntohs (th_dport (m_IBuffer buffer) (ip_th (m_IBuffer buffer))))) r = (Some ref, r1)"
      "route_tcp sys now ref buffer r1 = Some (res, buffer', r')"
proof -
  let ?m = "m_IBuffer buffer"
  let ?sport = "ntohs (th_sport ?m (ip_th ?m))" and ?dport = "ntohs (th_dport ?m (ip_th ?m))"
  consider (early) "False"
    | (mine) x where "\<not> (False)" "is_tcp_proxy_port ?sport (config r)"
        "process_server_to_client_packet_v4 now (tcp_redirect r) buffer = Some (True, x, buffer')" "res = Some action_type_revert" "r' = r\<lparr>tcp_redirect := x\<rparr>"
    | (other) "\<not> (False)" "(case find_process_tcp now postponed (session (ip_src ?m) (ip_dst ?m) ?sport ?dport) r of
          (None, r) \<Rightarrow> Some (None, buffer, r) | (Some ref, r) \<Rightarrow> route_tcp sys now ref buffer r) = Some (res, buffer', r')"
  proof (cases "is_tcp_proxy_port ?sport (config r) \<and> \<not> (False)")
    case True
    with assms obtain ok x b where "process_server_to_client_packet_v4 now (tcp_redirect r) buffer = Some (ok, x, b)"
      by (auto simp: process_tcp_packet_def Let_def bind_eq_Some_conv)
    with assms True show thesis
      by (cases ok) (auto simp: process_tcp_packet_def Let_def dest!: server_to_client_unchanged intro: mine other)
  next
    case False
    with assms show thesis
      by (cases "False") (auto simp: process_tcp_packet_def Let_def intro: early other)
  qed
  then show thesis
  proof cases
    case early
    with assms passed show thesis
      by (simp add: process_tcp_packet_def Let_def)
  next
    case (mine x)
    with answered show thesis
      by blast
  next
    case other
    obtain f r1 where "find_process_tcp now postponed (session (ip_src ?m) (ip_dst ?m) ?sport ?dport) r = (f, r1)"
      by fastforce
    with other unknown known show thesis
      by (cases f) auto
  qed
qed

lemma process_tcp_packet_result:
  assumes "process_tcp_packet sys now postponed buffer r = Some (res, buffer', r')"
  shows "same_queue r r'" "decided res \<or> res = None \<and> \<not> postponed \<and> buffer' = buffer"
proof -
  have "same_queue r r' \<and> (decided res \<or> res = None \<and> \<not> postponed \<and> buffer' = buffer)"
    using assms
  proof (cases rule: process_tcp_packet_cases)
    case unknown
    moreover have "\<not> postponed"
      using unknown(3) find_process_postponed(2) by (metis fst_conv)
    ultimately show ?thesis
      using find_process_same_queue(2) by (metis snd_conv)
  next
    case (known ref r1)
    have "same_queue r r1"
      using find_process_same_queue(2) known(1) by (metis snd_conv)
    then show ?thesis
      using route_tcp_decided [OF known(2)] by (auto intro: same_queue_trans)
  qed (simp_all add: decided_def)
  then show "same_queue r r'" "decided res \<or> res = None \<and> \<not> postponed \<and> buffer' = buffer"
    by simp_all
qed

end
