(* ===== verification/Router_Queue.thy ===== *)
theory Router_Queue
  imports Router
begin

text \<open>
  The queue of postponed packets of \<^verbatim>\<open>socks_local_router\<close> under concurrency: the threads of the
  packet filter and the resolver thread interleave, each step being what one of them does under a
  lock.  The queue stays bounded, holds only packets the resolver can decide, and one round of
  the resolver sends every packet it took.
\<close>

section \<open>Interleaved steps\<close>

text \<open>
  A state of the system: the router, the packets that passed the first size test and are being
  copied, and the packets the resolver has taken and not yet decided.
\<close>

record system =
  sys_router :: router
  sys_copying :: "intermediate_buffer list"
  sys_local :: "intermediate_buffer list"

inductive system_reachable :: "process_times \<Rightarrow> os_environment \<Rightarrow> system \<Rightarrow> bool" for sys env where
  started: "resolve_queue r = [] \<Longrightarrow>
    system_reachable sys env \<lparr>sys_router = r, sys_copying = [], sys_local = []\<rparr>"
| packet_decided: "system_reachable sys env s \<Longrightarrow>
    decide_packet sys now buffer (sys_router s) = Some (Some action, buffer', r') \<Longrightarrow>
    system_reachable sys env (s\<lparr>sys_router := r'\<rparr>)"
| packet_refused: "system_reachable sys env s \<Longrightarrow>
    decide_packet sys now buffer (sys_router s) = Some (None, buffer', r') \<Longrightarrow>
    enqueue_test r' = (False, r'') \<Longrightarrow> system_reachable sys env (s\<lparr>sys_router := r''\<rparr>)"
| packet_tested: "system_reachable sys env s \<Longrightarrow>
    decide_packet sys now buffer (sys_router s) = Some (None, buffer', r') \<Longrightarrow>
    enqueue_test r' = (True, r'') \<Longrightarrow>
    system_reachable sys env (s\<lparr>sys_router := r'', sys_copying := buffer' # sys_copying s\<rparr>)"
| packet_pushed: "system_reachable sys env s \<Longrightarrow> sys_copying s = before @ buffer # after \<Longrightarrow>
    system_reachable sys env (s\<lparr>sys_router := enqueue_push allocated buffer (sys_router s),
      sys_copying := before @ after\<rparr>)"
| queue_taken: "system_reachable sys env s \<Longrightarrow> sys_local s = [] \<Longrightarrow>
    system_reachable sys env (s\<lparr>sys_router := (sys_router s)\<lparr>resolve_queue := []\<rparr>,
      sys_local := resolve_queue (sys_router s)\<rparr>)"
| maintained: "system_reachable sys env s \<Longrightarrow> maintain sys now (sys_router s, c) = (r', c') \<Longrightarrow>
    system_reachable sys env (s\<lparr>sys_router := r'\<rparr>)"
| reported: "system_reachable sys env s \<Longrightarrow> report_drops now (sys_router s, c) = (r', c') \<Longrightarrow>
    system_reachable sys env (s\<lparr>sys_router := r'\<rparr>)"
| refreshed: "system_reachable sys env s \<Longrightarrow>
    actualize_v4 env tcp_answers udp_answers now True True (lookup_v4 (sys_router s)) = Some (ok, pl) \<Longrightarrow>
    system_reachable sys env (s\<lparr>sys_router := (sys_router s)\<lparr>lookup_v4 := pl\<rparr>\<rparr>)"
| dispatched: "system_reachable sys env s \<Longrightarrow> sys_local s = buffer # rest \<Longrightarrow>
    dispatch_packet sys now buffer (sys_router s) = Some (result, buffer', r') \<Longrightarrow>
    system_reachable sys env (s\<lparr>sys_router := r', sys_local := rest\<rparr>)"
| tcp_peer_asked: "system_reachable sys env s \<Longrightarrow> tcp_query_remote_peer now proxy port (sys_router s) = (answer, r') \<Longrightarrow>
    system_reachable sys env (s\<lparr>sys_router := r'\<rparr>)"
| udp_peer_asked: "system_reachable sys env s \<Longrightarrow> udp_query_remote_peer proxy port (sys_router s) = (answer, r') \<Longrightarrow>
    system_reachable sys env (s\<lparr>sys_router := r'\<rparr>)"

section \<open>Invariant\<close>

definition postponable :: "intermediate_buffer \<Rightarrow> bool" where
  "postponable b \<longleftrightarrow> ntohs (h_proto (m_IBuffer b)) = ETH_P_IP \<and>
     (ip_p (m_IBuffer b) = IPPROTO_UDP \<or> ip_p (m_IBuffer b) = IPPROTO_TCP)"

definition system_ok :: "system \<Rightarrow> bool" where
  "system_ok s \<longleftrightarrow> length (resolve_queue (sys_router s)) \<le> max_resolve_queue_depth \<and>
     (\<forall>b \<in> set (resolve_queue (sys_router s)) \<union> set (sys_copying s) \<union> set (sys_local s). postponable b)"

lemma decide_packet_result:
  assumes "decide_packet sys now buffer r = Some (result, buffer', r')"
  shows "resolve_queue r' = resolve_queue r" "decided result \<or> result = None \<and> buffer' = buffer \<and> postponable buffer"
proof -
  have "same_queue r r' \<and> (decided result \<or> result = None \<and> buffer' = buffer \<and> postponable buffer)"
    using assms
    by (auto simp: decide_packet_def Let_def postponable_def decided_def split: if_splits
        dest: process_udp_packet_result process_tcp_packet_result)
  then show "resolve_queue r' = resolve_queue r" "decided result \<or> result = None \<and> buffer' = buffer \<and> postponable buffer"
    by (simp_all add: same_queue_def)
qed

lemma dispatch_packet_result:
  assumes "dispatch_packet sys now buffer r = Some (result, buffer', r')" "postponable buffer"
  shows "resolve_queue r' = resolve_queue r" "decided result"
proof -
  have "same_queue r r' \<and> decided result"
    using assms
    by (auto simp: dispatch_packet_def postponable_def split: if_splits
        dest: process_udp_packet_result process_tcp_packet_result)
  then show "resolve_queue r' = resolve_queue r" "decided result"
    by (simp_all add: same_queue_def)
qed

lemma queue_unchanged:
  "maintain sys now (r, c) = (r', c') \<Longrightarrow> resolve_queue r' = resolve_queue r"
  "report_drops now (r, c) = (r', c') \<Longrightarrow> resolve_queue r' = resolve_queue r"
  "tcp_query_remote_peer now proxy port r = (answer, r') \<Longrightarrow> resolve_queue r' = resolve_queue r"
  "udp_query_remote_peer proxy port r = (answer, r') \<Longrightarrow> resolve_queue r' = resolve_queue r"
  "enqueue_test r = (ok, r') \<Longrightarrow> resolve_queue r' = resolve_queue r"
  by (auto simp: maintain_def report_drops_def tcp_query_remote_peer_def udp_query_remote_peer_def enqueue_test_def
      Let_def split: if_splits option.splits)

lemma enqueue_push_ok:
  assumes "length (resolve_queue r) \<le> max_resolve_queue_depth"
  shows "length (resolve_queue (enqueue_push allocated b r)) \<le> max_resolve_queue_depth"
    "set (resolve_queue (enqueue_push allocated b r)) \<subseteq> insert b (set (resolve_queue r))"
  using assms by (auto simp: enqueue_push_def)

lemma system_reachable_ok: "system_reachable sys env s \<Longrightarrow> system_ok s"
proof (induction rule: system_reachable.induct)
  case (packet_decided s now buffer action buffer' r')
  then show ?case
    using decide_packet_result(1) [OF packet_decided(2)] by (simp add: system_ok_def)
next
  case (packet_refused s now buffer buffer' r' r'')
  then show ?case
    using decide_packet_result(1) [OF packet_refused(2)] queue_unchanged(5) [OF packet_refused(3)]
    by (simp add: system_ok_def)
next
  case (packet_tested s now buffer buffer' r' r'')
  then show ?case
    using decide_packet_result [OF packet_tested(2)] queue_unchanged(5) [OF packet_tested(3)]
    by (auto simp: system_ok_def decided_def)
next
  case (packet_pushed s before buffer after allocated)
  then show ?case
    using enqueue_push_ok [of "sys_router s" allocated buffer] by (auto simp: system_ok_def)
next
  case (dispatched s buffer rest now result buffer' r')
  then show ?case
    using dispatch_packet_result(1) [OF dispatched(3)] by (auto simp: system_ok_def)
qed (auto simp: system_ok_def queue_unchanged max_resolve_queue_depth_def dest: queue_unchanged)

section \<open>A round of the resolver\<close>

lemma dispatch_queue_conserves:
  assumes "dispatch_queue sys now q r = Some (to_adapters, to_mstcp, r')" "\<forall>b \<in> set q. postponable b"
  shows "length to_adapters + length to_mstcp = length q \<and> resolve_queue r' = resolve_queue r"
  using assms
proof (induction q arbitrary: r to_adapters to_mstcp r')
  case (Cons b q)
  from Cons.prems(1) obtain result b' r1 where d: "dispatch_packet sys now b r = Some (result, b', r1)"
    by (auto simp: bind_eq_Some_conv)
  with Cons.prems(1) obtain A M r2 where q: "dispatch_queue sys now q r1 = Some (A, M, r2)"
    by (auto simp: bind_eq_Some_conv)
  from Cons.prems(1) d q have *: "(case result of Some action_type_pass \<Rightarrow> (b' # A, M, r2)
      | Some action_type_revert \<Rightarrow> (A, b' # M, r2) | _ \<Rightarrow> (A, M, r2)) = (to_adapters, to_mstcp, r')"
    by simp
  have "length A + length M = length q" "resolve_queue r2 = resolve_queue r1"
    using Cons.IH [OF q] Cons.prems(2) by simp_all
  moreover have "decided result" "resolve_queue r1 = resolve_queue r"
    using dispatch_packet_result [OF d] Cons.prems(2) by simp_all
  ultimately show ?case
    using * by (auto simp: decided_def)
qed simp

section \<open>Properties\<close>

text \<open>
  C16: however the filter threads and the resolver interleave, and though a thread leaves the lock
  between the test of the size and the insertion, the queue never holds more than its limit of
  2048 packets.
\<close>

theorem resolve_queue_bounded:
  assumes "system_reachable sys env s"
  shows "length (resolve_queue (sys_router s)) \<le> 2048"
  using system_reachable_ok [OF assms] by (simp add: system_ok_def max_resolve_queue_depth_def)

text \<open>
  The assertions of the resolver loop never fail: every packet it has taken is a UDP or TCP
  packet, and the handler decides to pass it or to turn it back, never to postpone or drop it.
\<close>

theorem taken_packet_decided:
  assumes "system_reachable sys env s" "sys_local s = buffer # rest"
    and "dispatch_packet sys now buffer (sys_router s) = Some (result, buffer', r')"
  shows "(ip_p (m_IBuffer buffer) = IPPROTO_UDP \<or> ip_p (m_IBuffer buffer) = IPPROTO_TCP) \<and>
    (result = Some action_type_pass \<or> result = Some action_type_revert)"
proof -
  have "postponable buffer"
    using system_reachable_ok [OF assms(1)] assms(2) by (simp add: system_ok_def)
  then show ?thesis
    using dispatch_packet_result(2) [OF assms(3)] by (simp add: postponable_def decided_def)
qed

text \<open>
  A round of the resolver empties the queue and sends as many packets as it took, each to the
  network or to the protocol stack; when the router is being stopped, the thread exits after it.
\<close>

theorem resolver_round_drains:
  assumes "resolver_round sys env tcp_answers udp_answers now (r, c) = Some (to_adapters, to_mstcp, r', c')"
    and "\<forall>b \<in> set (resolve_queue r). postponable b"
  shows "length to_adapters + length to_mstcp = length (resolve_queue r) \<and> resolver_exits True r'"
proof -
  obtain r1 c1 where m: "report_drops now (maintain sys now (r\<lparr>resolve_queue := []\<rparr>, c)) = (r1, c1)"
    by fastforce
  obtain r0 c0 where m0: "maintain sys now (r\<lparr>resolve_queue := []\<rparr>, c) = (r0, c0)"
    by fastforce
  have empty: "resolve_queue r1 = []"
    using queue_unchanged(1) [OF m0] queue_unchanged(2) [OF m [unfolded m0]] by simp
  show ?thesis
  proof (cases "resolve_queue r = []")
    case True
    with assms(1) m empty show ?thesis
      by (auto simp: resolver_round_def resolver_exits_def)
  next
    case False
    with assms(1) m obtain pl where
      "dispatch_queue sys now (resolve_queue r) (r1\<lparr>lookup_v4 := pl\<rparr>) = Some (to_adapters, to_mstcp, r')"
      by (auto simp: resolver_round_def bind_eq_Some_conv)
    from dispatch_queue_conserves [OF this assms(2)] empty show ?thesis
      by (simp add: resolver_exits_def)
  qed
qed

section \<open>Witnesses\<close>

definition sample_router :: router where
  "sample_router =
     \<lparr>config = sample_config, lookup_v4 = empty_process_lookup (\<lambda>_ _. Query_failed), tcp_mapper = Map.empty,
      udp_mapper = {}, observed_direct_udp_ports = {}, tcp_redirect = sample_redirect Map.empty,
      udp_redirect = sample_udp_redirect, resolve_queue = [], dropped_packets = 0, alloc_failures = 0\<rparr>"

abbreviation sample_packet :: intermediate_buffer where
  "sample_packet \<equiv> sample_tcp 10 3 20 80 2"

lemma sample_packet_header:
  "ntohs (h_proto (m_IBuffer sample_packet)) = ETH_P_IP" "ip_p (m_IBuffer sample_packet) = IPPROTO_TCP"
  "th_sport (m_IBuffer sample_packet) (ip_th (m_IBuffer sample_packet)) = le16 3 0"
  "th_dport (m_IBuffer sample_packet) (ip_th (m_IBuffer sample_packet)) = le16 80 0"
  "ip_src (m_IBuffer sample_packet) = le32 10 0 0 0" "ip_dst (m_IBuffer sample_packet) = le32 20 0 0 0"
  using sample_tcp_fields(1,3) [of 10 3 20 80 2] by (simp_all add: tcp_datagram_def carries_def sample_tcp_th)

lemma sample_ports: "le16 0 3 = 768" "le16 0 80 = 20480" "le16 0 7 = 1792"
  by (simp_all add: le16_def push_bit_eq_mult)

lemma sample_postponed:
  "decide_packet sample_times 0 sample_packet sample_router = Some (None, sample_packet, sample_router)"
proof -
  have "is_tcp_proxy_port 768 sample_config = False"
    by (simp add: is_tcp_proxy_port_def is_proxy_port_def sample_config_def sample_pair_def)
  moreover have "find_process_tcp 0 False s sample_router = (None, sample_router)" for s
    by (simp add: find_process_tcp_def lookup_process_for_tcp_def lookup_protected_def sample_router_def
        empty_process_lookup_def make_shared_def)
  ultimately show ?thesis
    by (simp add: decide_packet_def sample_packet_header proto_defs process_tcp_packet_def wire_simps sample_ports)
      (simp add: sample_router_def)
qed

definition sample_queue :: "intermediate_buffer list" where
  "sample_queue = [sample_packet]"

lemma sample_system:
  "system_reachable sample_times sample_environment
     \<lparr>sys_router = sample_router\<lparr>resolve_queue := sample_queue\<rparr>, sys_copying = [], sys_local = []\<rparr>"
proof -
  have test: "enqueue_test sample_router = (True, sample_router)"
    by (simp add: enqueue_test_def sample_router_def max_resolve_queue_depth_def)
  have push: "enqueue_push True sample_packet sample_router = sample_router\<lparr>resolve_queue := sample_queue\<rparr>"
    by (simp add: enqueue_push_def sample_router_def max_resolve_queue_depth_def sample_queue_def)
  have "system_reachable sample_times sample_environment
      \<lparr>sys_router = sample_router, sys_copying = [], sys_local = []\<rparr>"
    by (rule system_reachable.started) (simp add: sample_router_def)
  from system_reachable.packet_tested [OF this, of 0 sample_packet sample_packet sample_router sample_router]
  have "system_reachable sample_times sample_environment
      \<lparr>sys_router = sample_router, sys_copying = [sample_packet], sys_local = []\<rparr>"
    by (simp add: sample_postponed test)
  from system_reachable.packet_pushed [OF this, of "[]" sample_packet "[]" True] push show ?thesis
    by simp
qed

theorem resolve_queue_bounded_witness: "length sample_queue \<le> 2048"
  using resolve_queue_bounded [OF sample_system] by simp

lemma sample_taken:
  "system_reachable sample_times sample_environment
     \<lparr>sys_router = sample_router, sys_copying = [], sys_local = sample_queue\<rparr>"
proof -
  have "sample_router\<lparr>resolve_queue := []\<rparr> = sample_router"
    by (simp add: sample_router_def)
  with system_reachable.queue_taken [OF sample_system] show ?thesis
    by simp
qed

lemma sample_dispatched:
  "\<exists>r'. dispatch_packet sample_times 0 sample_packet sample_router = Some (Some action_type_pass, sample_packet, r')"
proof -
  have "is_tcp_proxy_port 768 sample_config = False"
    by (simp add: is_tcp_proxy_port_def is_proxy_port_def sample_config_def sample_pair_def)
  moreover have "find_process_tcp 0 True s sample_router =
      (Some 0, sample_router\<lparr>lookup_v4 := (lookup_v4 sample_router)\<lparr>tcp_protected_apps := [s \<mapsto> 0]\<rparr>\<rparr>)" for s
    by (simp add: find_process_tcp_def lookup_process_for_tcp_def lookup_protected_def sample_router_def
        empty_process_lookup_def make_shared_def)
  moreover have "\<exists>r'. route_tcp sample_times 0 0 sample_packet
      (sample_router\<lparr>lookup_v4 := (lookup_v4 sample_router)\<lparr>tcp_protected_apps := cache\<rparr>\<rparr>) =
      Some (Some action_type_pass, sample_packet, r')" for cache
    by (simp add: route_tcp_def Let_def process_at_def sample_router_def empty_process_lookup_def make_shared_def
        new_network_process_def get_proxy_port_tcp_def get_proxy_port_by_def sample_config_def sample_times_def
        match_app_name_def matches_pattern_def wide_def wide_to_upper_def towupper_def)
  ultimately show ?thesis
    by (simp add: dispatch_packet_def sample_packet_header proto_defs process_tcp_packet_def wire_simps sample_ports)
      (simp add: sample_router_def)
qed

theorem taken_packet_decided_witness:
  "\<exists>result buffer' r'. dispatch_packet sample_times 0 sample_packet sample_router = Some (result, buffer', r') \<and>
     (result = Some action_type_pass \<or> result = Some action_type_revert)"
  using sample_dispatched taken_packet_decided [OF sample_taken, of sample_packet "[]" 0]
  by (fastforce simp: sample_queue_def)

lemma sample_refresh:
  "actualize_v4 sample_environment [Table []] [Table []] 0 True True (lookup_v4 sample_router) =
     Some (True, lookup_v4 sample_router)"
  by (simp add: actualize_v4_def actualize_def initialize_tcp_table_def initialize_udp_table_def sample_router_def
      empty_process_lookup_def make_shared_def sweep_protected_def map_erase_if_def Let_def)

theorem resolver_round_drains_witness:
  "\<exists>to_adapters to_mstcp r' c'. resolver_round sample_times sample_environment [Table []] [Table []] 0
      (sample_router\<lparr>resolve_queue := sample_queue\<rparr>, \<lparr>last_sweep = 0, last_drop_log = 0\<rparr>) =
      Some (to_adapters, to_mstcp, r', c') \<and>
    length to_adapters + length to_mstcp = 1 \<and> resolver_exits True r'"
proof -
  have unchanged: "sample_router\<lparr>resolve_queue := []\<rparr> = sample_router" "sample_router\<lparr>lookup_v4 := lookup_v4 sample_router\<rparr> = sample_router"
    by (simp_all add: sample_router_def)
  obtain r1 where "dispatch_packet sample_times 0 sample_packet sample_router = Some (Some action_type_pass, sample_packet, r1)"
    using sample_dispatched by blast
  then have d: "dispatch_queue sample_times 0 sample_queue sample_router = Some ([sample_packet], [], r1)"
    by (simp add: sample_queue_def)
  have round: "resolver_round sample_times sample_environment [Table []] [Table []] 0
      (sample_router\<lparr>resolve_queue := sample_queue\<rparr>, \<lparr>last_sweep = 0, last_drop_log = 0\<rparr>) =
      Some ([sample_packet], [], r1, \<lparr>last_sweep = 0, last_drop_log = 0\<rparr>)"
    unfolding resolver_round_def
    by (simp add: maintain_def report_drops_def maintenance_interval_def tcp_mapper_entry_ttl_def
        drop_log_throttle_interval_def unchanged sample_refresh d) (simp add: sample_queue_def)
  moreover have "\<forall>b \<in> set (resolve_queue (sample_router\<lparr>resolve_queue := sample_queue\<rparr>)). postponable b"
    by (simp add: sample_queue_def postponable_def sample_packet_header)
  from resolver_round_drains [OF round this] show ?thesis
    using round by (auto simp: sample_queue_def)
qed

end
