(* ===== verification/Router_Paths.thy ===== *)
theory Router_Paths
  imports Router_Queue
begin

text \<open>
  The packet path of \<^verbatim>\<open>socks_local_router\<close> end to end: the choice of the route, the redirector and
  the mapper together carry a connection of a routed process to the local proxy and back.
\<close>

section \<open>The chosen port is a proxy's\<close>

lemma port_of_is_proxy_port: "port_of sel (proxy_servers cfg) i = Some (Some port) \<Longrightarrow> is_proxy_port sel port cfg"
  by (auto simp: port_of_def is_proxy_port_def list_ex_iff split: if_splits
      intro!: bexI [of _ "proxy_servers cfg ! i"])

lemma chosen_port:
  "get_proxy_port_by sel sys cfg p = Some (Some port, p') \<Longrightarrow> p' = p \<and> is_proxy_port sel port cfg"
  by (auto simp: get_proxy_port_by_def name_route_closed Let_def port_of_is_proxy_port
      split: option.splits if_splits)

lemma set_process_same [simp]: "set_process ref (process_of r ref) r = r"
  by (simp add: set_process_def write_process_def process_at_def)

text \<open>What makes the router send a process's traffic to the local proxy at \<open>port\<close>.\<close>

definition routed_tcp :: "process_times \<Rightarrow> router \<Rightarrow> process_ref \<Rightarrow> u16 \<Rightarrow> bool" where
  "routed_tcp sys r ref port \<longleftrightarrow>
     \<not> excluded (process_of r ref) \<and> process_tcp_proxy_port (process_of r ref) = None \<and>
     (bypass_tcp (process_of r ref) \<longrightarrow> has_pid_route (process_id (process_of r ref)) (config r)) \<and>
     map_option fst (get_proxy_port_tcp sys (config r) (process_of r ref)) = Some (Some port)"

definition routed_udp :: "process_times \<Rightarrow> router \<Rightarrow> process_ref \<Rightarrow> u16 \<Rightarrow> bool" where
  "routed_udp sys r ref port \<longleftrightarrow>
     \<not> excluded (process_of r ref) \<and> process_udp_proxy_port (process_of r ref) = None \<and>
     (bypass_udp (process_of r ref) \<longrightarrow> has_pid_route (process_id (process_of r ref)) (config r)) \<and>
     map_option fst (get_proxy_port_udp sys (config r) (process_of r ref)) = Some (Some port)"

lemma routed_tcpD:
  assumes "routed_tcp sys r ref port"
  shows "is_tcp_proxy_port port (config r)"
    "route_tcp sys now ref buffer r =
       (if is_syn (th_flags (m_IBuffer buffer) (ip_th (m_IBuffer buffer)))
        then (if match_destination_direct_rule True (process_of r ref) (ip_dst (m_IBuffer buffer))
                (ntohs (th_dport (m_IBuffer buffer) (ip_th (m_IBuffer buffer)))) (destination_direct_rules (config r)) \<noteq> None
              then Some (Some action_type_pass, buffer, r)
              else redirect_tcp now port buffer (map_connection now (m_IBuffer buffer) r))
        else redirect_tcp now port buffer r)"
proof -
  from assms obtain p' where "get_proxy_port_tcp sys (config r) (process_of r ref) = Some (Some port, p')"
    by (auto simp: routed_tcp_def)
  moreover from this have "p' = process_of r ref \<and> is_tcp_proxy_port port (config r)"
    unfolding get_proxy_port_tcp_def is_tcp_proxy_port_def by (rule chosen_port)
  ultimately show "is_tcp_proxy_port port (config r)"
    "route_tcp sys now ref buffer r =
       (if is_syn (th_flags (m_IBuffer buffer) (ip_th (m_IBuffer buffer)))
        then (if match_destination_direct_rule True (process_of r ref) (ip_dst (m_IBuffer buffer))
                (ntohs (th_dport (m_IBuffer buffer) (ip_th (m_IBuffer buffer)))) (destination_direct_rules (config r)) \<noteq> None
              then Some (Some action_type_pass, buffer, r)
              else redirect_tcp now port buffer (map_connection now (m_IBuffer buffer) r))
        else redirect_tcp now port buffer r)"
    using assms by (auto simp: route_tcp_def routed_tcp_def Let_def)
qed

lemma routed_udpD:
  assumes "routed_udp sys r ref port"
  shows "is_udp_proxy_port port (config r)"
    "route_udp sys now ref buffer r =
       (if match_destination_direct_rule False (process_of r ref) (ip_dst (m_IBuffer buffer))
             (ntohs (th_dport (m_IBuffer buffer) (ip_th (m_IBuffer buffer)))) (destination_direct_rules (config r)) \<noteq> None
        then Some (Some action_type_pass, buffer,
               r\<lparr>observed_direct_udp_ports := insert (ntohs (th_sport (m_IBuffer buffer) (ip_th (m_IBuffer buffer))))
                  (observed_direct_udp_ports r)\<rparr>)
        else redirect_udp now port buffer r)"
proof -
  from assms obtain p' where "get_proxy_port_udp sys (config r) (process_of r ref) = Some (Some port, p')"
    by (auto simp: routed_udp_def)
  moreover from this have "p' = process_of r ref \<and> is_udp_proxy_port port (config r)"
    unfolding get_proxy_port_udp_def is_udp_proxy_port_def by (rule chosen_port)
  ultimately show "is_udp_proxy_port port (config r)"
    "route_udp sys now ref buffer r =
       (if match_destination_direct_rule False (process_of r ref) (ip_dst (m_IBuffer buffer))
             (ntohs (th_dport (m_IBuffer buffer) (ip_th (m_IBuffer buffer)))) (destination_direct_rules (config r)) \<noteq> None
        then Some (Some action_type_pass, buffer,
               r\<lparr>observed_direct_udp_ports := insert (ntohs (th_sport (m_IBuffer buffer) (ip_th (m_IBuffer buffer))))
                  (observed_direct_udp_ports r)\<rparr>)
        else redirect_udp now port buffer r)"
    using assms by (auto simp: route_udp_def routed_udp_def Let_def)
qed

section \<open>A packet of a known process\<close>

definition tcp_owner :: "router \<Rightarrow> intermediate_buffer \<Rightarrow> process_ref option" where
  "tcp_owner r b =
     (let m = m_IBuffer b in
      tcp_to_app (lookup_v4 r) (session (ip_src m) (ip_dst m) (ntohs (th_sport m (ip_th m))) (ntohs (th_dport m (ip_th m)))))"

definition udp_owner :: "router \<Rightarrow> intermediate_buffer \<Rightarrow> process_ref option" where
  "udp_owner r b =
     (let m = m_IBuffer b in
      udp_to_app (lookup_v4 r) (endpoint (ip_src m) (ntohs (th_sport m (ip_th m)))))"

lemma decide_owned_tcp:
  assumes "tcp_datagram (m_IBuffer b)" "tcp_owner r b = Some ref"
    and "\<not> is_tcp_proxy_port (ntohs (th_sport (m_IBuffer b) (ip_th (m_IBuffer b)))) (config r)"
  shows "decide_packet sys now b r = route_tcp sys now ref b r"
proof -
  have "find_process_tcp now False (session (ip_src (m_IBuffer b)) (ip_dst (m_IBuffer b))
      (ntohs (th_sport (m_IBuffer b) (ip_th (m_IBuffer b))))
      (ntohs (th_dport (m_IBuffer b) (ip_th (m_IBuffer b))))) r = (Some ref, r)"
    using assms(2) by (simp add: tcp_owner_def Let_def find_process_tcp_def lookup_process_for_tcp_def)
  then show ?thesis
    using assms(1,3) by (simp add: decide_packet_def tcp_datagram_def process_tcp_packet_def Let_def proto_defs)
qed

definition unicast :: "frame \<Rightarrow> bool" where
  "unicast m \<longleftrightarrow> \<not> mac_is_broadcast (map m [0..<6]) \<and> \<not> mac_is_multicast (map m [0..<6])"

lemma decide_owned_udp:
  assumes "udp_packet b" "unicast (m_IBuffer b)" "udp_owner r b = Some ref"
    and "\<not> is_udp_proxy_port (ntohs (th_sport (m_IBuffer b) (ip_th (m_IBuffer b)))) (config r)"
    and "ntohs (th_dport (m_IBuffer b) (ip_th (m_IBuffer b))) \<noteq> 53"
  shows "decide_packet sys now b r = route_udp sys now ref b r"
proof -
  have "find_process_udp now False (endpoint (ip_src (m_IBuffer b))
      (ntohs (th_sport (m_IBuffer b) (ip_th (m_IBuffer b))))) r = (Some ref, r)"
    using assms(3) by (simp add: udp_owner_def Let_def find_process_udp_def lookup_process_for_udp_def)
  moreover have "ntohs (h_proto (m_IBuffer b)) = ETH_P_IP" "ip_p (m_IBuffer b) = IPPROTO_UDP"
    using udp_packetD [OF assms(1)] by simp_all
  ultimately show ?thesis
    using assms(2,4,5) unfolding decide_packet_def unicast_def Let_def
    by (simp add: process_udp_packet_def Let_def)
qed

lemma filter_decided:
  "decide_packet sys now b r = Some (Some action, b', r') \<Longrightarrow>
   filter_packet sys now allocated b r = Some (action, b', r')"
  by (simp add: filter_packet_def)

text \<open>The answer of the local proxy comes from its port and goes back through the redirector.\<close>

lemma decide_answer_tcp:
  assumes "tcp_datagram (m_IBuffer b)"
    and "is_tcp_proxy_port (ntohs (th_sport (m_IBuffer b) (ip_th (m_IBuffer b)))) (config r)"
    and "process_server_to_client_packet_v4 now (tcp_redirect r) b = Some (True, t, b')"
  shows "decide_packet sys now b r = Some (Some action_type_revert, b', r\<lparr>tcp_redirect := t\<rparr>)"
  using assms by (simp add: decide_packet_def tcp_datagram_def process_tcp_packet_def Let_def proto_defs)

lemma decide_answer_udp:
  assumes "udp_packet b" "unicast (m_IBuffer b)"
    and "is_udp_proxy_port (ntohs (th_sport (m_IBuffer b) (ip_th (m_IBuffer b)))) (config r)"
    and "ntohs (th_dport (m_IBuffer b) (ip_th (m_IBuffer b))) \<noteq> 53"
    and "udp_server_to_client_v4 now (udp_redirect r) b = Some (True, u, b')"
  shows "decide_packet sys now b r = Some (Some action_type_revert, b', r\<lparr>udp_redirect := u\<rparr>)"
proof -
  have "ntohs (h_proto (m_IBuffer b)) = ETH_P_IP" "ip_p (m_IBuffer b) = IPPROTO_UDP"
    using udp_packetD [OF assms(1)] by simp_all
  then show ?thesis
    using assms(2-5) unfolding decide_packet_def unicast_def Let_def by (simp add: process_udp_packet_def Let_def)
qed

lemma htons_eq_0 [simp]: "htons w = 0 \<longleftrightarrow> w = 0"
  using ntohs_inject [of w 0] by (simp add: ntohs_def)

lemma redirect_pass_unchanged:
  "redirect_udp now port b r = Some (Some action_type_pass, b', r') \<Longrightarrow> b' = b"
  "redirect_tcp now port b r = Some (Some action_type_pass, b', r') \<Longrightarrow> b' = b"
  by (auto simp: redirect_udp_def redirect_tcp_def Let_def bind_eq_Some_conv udp_client_to_server_v4_def
      process_client_to_server_packet_v4_def split: if_splits option.splits prod.splits)

lemma route_pass_unchanged:
  "route_udp sys now ref b r = Some (Some action_type_pass, b', r') \<Longrightarrow> b' = b"
  "route_tcp sys now ref b r = Some (Some action_type_pass, b', r') \<Longrightarrow> b' = b"
  by (auto simp: route_udp_def route_tcp_def Let_def bind_eq_Some_conv split: if_splits option.splits
      dest: redirect_pass_unchanged)

lemma process_pass_unchanged:
  "process_udp_packet sys now postponed b r = Some (Some action_type_pass, b', r') \<Longrightarrow> b' = b"
  "process_tcp_packet sys now postponed b r = Some (Some action_type_pass, b', r') \<Longrightarrow> b' = b"
  by (auto elim!: process_udp_packet_cases process_tcp_packet_cases dest: route_pass_unchanged)

lemma decide_pass_unchanged:
  "decide_packet sys now b r = Some (Some action_type_pass, b', r') \<Longrightarrow> b' = b"
  by (auto simp: decide_packet_def Let_def split: if_splits dest: process_pass_unchanged)

lemma filter_packet_cases:
  assumes "filter_packet sys now allocated b r = Some (verdict, b', r')"
  obtains result r1 where "decide_packet sys now b r = Some (result, b', r1)"
    "result = Some verdict \<or> result = None \<and> verdict = action_type_drop"
proof -
  obtain result b1 r1 where d: "decide_packet sys now b r = Some (result, b1, r1)"
    using assms by (auto simp: filter_packet_def bind_eq_Some_conv)
  have "b1 = b'" "result = Some verdict \<or> result = None \<and> verdict = action_type_drop"
    using assms d
    by (auto simp: filter_packet_def enqueue_for_deferred_resolve_def split: option.splits bool.splits prod.splits)
  with d show thesis
    using that by blast
qed

lemma filter_packet_unaltered:
  assumes "filter_packet sys now allocated b r = Some (verdict, b', r')"
  shows "verdict = action_type_revert \<or> b' = b"
proof -
  from assms obtain result r1 where d: "decide_packet sys now b r = Some (result, b', r1)"
    and v: "result = Some verdict \<or> result = None \<and> verdict = action_type_drop"
    by (rule filter_packet_cases)
  show ?thesis
    using decide_packet_result(2) [OF d] decide_pass_unchanged [of sys now b r b' r1] d v
    by (cases verdict) (auto simp: decided_def)
qed

text \<open>The redirectors write bytes and lengths, never the direction of a packet.\<close>

lemma redirector_flags:
  "udp_client_to_server_v4 now u port b = Some (ok, u', b') \<Longrightarrow> m_dwDeviceFlags b' = m_dwDeviceFlags b"
  "udp_server_to_client_v4 now u b = Some (ok, u', b') \<Longrightarrow> m_dwDeviceFlags b' = m_dwDeviceFlags b"
  "process_client_to_server_packet_v4 now t port b = Some (ok, t', b') \<Longrightarrow> m_dwDeviceFlags b' = m_dwDeviceFlags b"
  "process_server_to_client_packet_v4 now t b = Some (ok, t', b') \<Longrightarrow> m_dwDeviceFlags b' = m_dwDeviceFlags b"
  by (auto simp: udp_client_to_server_v4_def udp_server_to_client_v4_def encapsulate_v4_def decapsulate_v4_def Let_def
      process_client_to_server_packet_v4_def process_server_to_client_packet_v4_def bind_eq_Some_conv
      split: if_splits option.splits prod.splits)

lemma redirect_flags:
  "redirect_udp now port b r = Some (res, b', r') \<Longrightarrow> m_dwDeviceFlags b' = m_dwDeviceFlags b"
  "redirect_tcp now port b r = Some (res, b', r') \<Longrightarrow> m_dwDeviceFlags b' = m_dwDeviceFlags b"
  by (auto simp: redirect_udp_def redirect_tcp_def Let_def bind_eq_Some_conv split: prod.splits dest: redirector_flags)

lemma route_flags:
  "route_udp sys now ref b r = Some (res, b', r') \<Longrightarrow> m_dwDeviceFlags b' = m_dwDeviceFlags b"
  "route_tcp sys now ref b r = Some (res, b', r') \<Longrightarrow> m_dwDeviceFlags b' = m_dwDeviceFlags b"
  by (auto simp: route_udp_def route_tcp_def Let_def bind_eq_Some_conv split: if_splits option.splits dest: redirect_flags)

lemma filter_packet_flags:
  assumes "filter_packet sys now allocated b r = Some (verdict, b', r')"
  shows "m_dwDeviceFlags b' = m_dwDeviceFlags b"
proof -
  from assms obtain result r1 where "decide_packet sys now b r = Some (result, b', r1)"
    by (rule filter_packet_cases)
  then show ?thesis
    by (auto simp: decide_packet_def Let_def split: if_splits
        elim!: process_udp_packet_cases process_tcp_packet_cases dest: redirector_flags route_flags)
qed

section \<open>The first packet of a proxied connection\<close>

definition connects ::
  "process_times \<Rightarrow> router \<Rightarrow> u16 \<Rightarrow> intermediate_buffer \<Rightarrow> u32 \<Rightarrow> u16 \<Rightarrow> u32 \<Rightarrow> u16 \<Rightarrow> bool" where
  "connects sys r port p app app_port server server_port \<longleftrightarrow>
     tcp_datagram (m_IBuffer p) \<and> carries (m_IBuffer p) app app_port server server_port \<and>
     is_syn (th_flags (m_IBuffer p) (ip_th (m_IBuffer p))) \<and>
     \<not> is_tcp_proxy_port (ntohs app_port) (config r) \<and> port \<noteq> 0 \<and>
     (case tcp_owner r p of
        None \<Rightarrow> False
      | Some ref \<Rightarrow> routed_tcp sys r ref port \<and>
          match_destination_direct_rule True (process_of r ref) server (ntohs server_port)
            (destination_direct_rules (config r)) = None)"

text \<open>The router after such a packet, and the answer the local proxy then gets.\<close>

definition mapped :: "time_point \<Rightarrow> u16 \<Rightarrow> u32 \<Rightarrow> u16 \<Rightarrow> router \<Rightarrow> router" where
  "mapped now app_port server server_port r =
     r\<lparr>tcp_mapper := (tcp_mapper r)(ntohs app_port \<mapsto>
         \<lparr>mapped_endpoint = endpoint server (ntohs server_port), created_at = now\<rparr>)\<rparr>"

definition connected :: "time_point \<Rightarrow> u16 \<Rightarrow> u32 \<Rightarrow> u16 \<Rightarrow> router \<Rightarrow> router" where
  "connected now app_port server server_port r =
     (mapped now app_port server server_port r)\<lparr>tcp_redirect := (tcp_redirect r)\<lparr>redirected_connections :=
         (redirected_connections (tcp_redirect r))(endpoint server app_port \<mapsto> (server_port, now))\<rparr>\<rparr>"

definition peer_answer :: "local_proxy \<Rightarrow> u32 \<Rightarrow> u16 \<Rightarrow> ip_address_v4 \<times> u16 \<times> ip_address_v4 negotiate_context option" where
  "peer_answer proxy server server_port =
     (ep_ip (lp_endpoint proxy), ep_port (lp_endpoint proxy),
      Some \<lparr>remote_address = server, remote_port = ntohs server_port,
            socks5_username = map_option fst (lp_credentials proxy),
            socks5_password = map_option snd (lp_credentials proxy)\<rparr>)"

lemma connects_decided:
  assumes "connects sys r port p app app_port server server_port"
  shows "decide_packet sys now p r = redirect_tcp now port p (mapped now app_port server server_port r)"
proof -
  from assms obtain ref where ref: "tcp_owner r p = Some ref" "routed_tcp sys r ref port"
    "match_destination_direct_rule True (process_of r ref) server (ntohs server_port) (destination_direct_rules (config r)) = None"
    by (auto simp: connects_def split: option.splits)
  moreover have "th_sport (m_IBuffer p) (ip_th (m_IBuffer p)) = app_port" "ip_dst (m_IBuffer p) = server"
    "th_dport (m_IBuffer p) (ip_th (m_IBuffer p)) = server_port"
    using assms by (simp_all add: connects_def carries_def)
  ultimately show ?thesis
    using assms decide_owned_tcp [OF _ ref(1), of sys now] routed_tcpD(2) [OF ref(2)]
    by (simp add: connects_def map_connection_def mapped_def)
qed

lemma syn_redirected:
  assumes "connects sys r port p app app_port server server_port"
    and "redirected_connections (tcp_redirect r) (endpoint server app_port) = None"
  shows "\<exists>m1. filter_packet sys now allocated p r =
      Some (action_type_revert, p\<lparr>m_IBuffer := m1\<rparr>, connected now app_port server server_port r) \<and>
    translated (m_IBuffer p) m1 \<and> carries m1 server app_port app (htons port)"
proof -
  let ?m = "m_IBuffer p" and ?key = "endpoint server app_port"
  have fp: "ip_src ?m = app" "th_sport ?m (ip_th ?m) = app_port" "ip_dst ?m = server" "th_dport ?m (ip_th ?m) = server_port"
    "tcp_datagram ?m" "htons port \<noteq> 0"
    using assms(1) by (simp_all add: connects_def carries_def)
  let ?tbl = "(redirected_connections (tcp_redirect r))(?key \<mapsto> (server_port, now))"
  have "track_client now ?key server_port (th_flags ?m (ip_th ?m)) (redirected_connections (tcp_redirect r)) = Some ?tbl"
    using assms by (simp add: connects_def track_client_def)
  then obtain m1 where "process_client_to_server_packet_v4 now (tcp_redirect r) (htons port) p =
      Some (True, (tcp_redirect r)\<lparr>redirected_connections := ?tbl\<rparr>, p\<lparr>m_IBuffer := m1\<rparr>)"
    "translated ?m m1" "carries m1 server app_port app (htons port)"
    using c2s_v4 [OF fp(5), of now "tcp_redirect r" ?tbl "htons port"] fp(6) by (auto simp: fp)
  then show ?thesis
    by (intro exI [of _ m1] conjI filter_decided)
      (simp_all add: connects_decided [OF assms(1)] redirect_tcp_def mapped_def connected_def)
qed

lemma query_connected:
  "accepted - now \<le> seconds 30 \<Longrightarrow>
   tcp_query_remote_peer accepted proxy (ntohs app_port) (connected now app_port server server_port r) =
     (peer_answer proxy server server_port,
      (connected now app_port server server_port r)
        \<lparr>tcp_mapper := (tcp_mapper (connected now app_port server server_port r))(ntohs app_port := None)\<rparr>)"
  by (simp add: tcp_query_remote_peer_def tcp_mapper_entry_ttl_def connected_def mapped_def peer_answer_def endpoint_def)

lemma connects_connected [simp]:
  "connects sys (connected now' ap s sp r) port p app app_port server server_port \<longleftrightarrow>
   connects sys r port p app app_port server server_port"
  by (simp add: connects_def tcp_owner_def routed_tcp_def connected_def mapped_def Let_def cong: option.case_cong)

section \<open>Properties\<close>

text \<open>
  C3: the life of a proxied connection.  A SYN of a routed process, to a destination no direct
  rule names, is turned to the local proxy, from the address of the server.  The local proxy asks
  within 30 seconds for the peer of the accepted connection, by the application's port: it gets
  the SOCKS5 server with the original destination to ask for, in host byte order, and once only.
  What it then sends is turned into packets from the original server to the application.
\<close>

theorem tcp_proxied_connection:
  assumes "connects sys r port p app app_port server server_port"
    and "redirected_connections (tcp_redirect r) (endpoint server app_port) = None"
    and "tcp_datagram (m_IBuffer q)" "carries (m_IBuffer q) app (htons port) server app_port"
    and "accepted - now \<le> seconds 30"
  shows "\<exists>r1 p1. filter_packet sys now allocated p r = Some (action_type_revert, p1, r1) \<and>
    carries (m_IBuffer p1) server app_port app (htons port) \<and> translated (m_IBuffer p) (m_IBuffer p1) \<and>
    (\<exists>r2. tcp_query_remote_peer accepted proxy (ntohs app_port) r1 = (peer_answer proxy server server_port, r2) \<and>
       (\<forall>other. fst (tcp_query_remote_peer again other (ntohs app_port) r2) = (0, 0, None)) \<and>
       (\<exists>r3 q1. filter_packet sys later allocated' q r2 = Some (action_type_revert, q1, r3) \<and>
          carries (m_IBuffer q1) server server_port app app_port \<and> translated (m_IBuffer q) (m_IBuffer q1)))"
proof -
  let ?r1 = "connected now app_port server server_port r"
  let ?r2 = "?r1\<lparr>tcp_mapper := (tcp_mapper ?r1)(ntohs app_port := None)\<rparr>"
  have fq: "ip_src (m_IBuffer q) = app" "th_sport (m_IBuffer q) (ip_th (m_IBuffer q)) = htons port"
    "ip_dst (m_IBuffer q) = server" "th_dport (m_IBuffer q) (ip_th (m_IBuffer q)) = app_port"
    using assms(4) by (simp_all add: carries_def)
  obtain m1 where s1: "filter_packet sys now allocated p r = Some (action_type_revert, p\<lparr>m_IBuffer := m1\<rparr>, ?r1)"
    "translated (m_IBuffer p) m1" "carries m1 server app_port app (htons port)"
    using syn_redirected [OF assms(1,2)] by blast
  have s2: "tcp_query_remote_peer accepted proxy (ntohs app_port) ?r1 = (peer_answer proxy server server_port, ?r2)"
    using assms(5) by (simp add: query_connected)
  have s3: "fst (tcp_query_remote_peer again other (ntohs app_port) ?r2) = (0, 0, None)" for other
    by (simp add: tcp_query_remote_peer_def)
  have "redirected_connections (tcp_redirect ?r2) (endpoint server app_port) = Some (server_port, now)"
    by (simp add: connected_def)
  then obtain t2 m2 where m2: "process_server_to_client_packet_v4 later (tcp_redirect ?r2) q = Some (True, t2, q\<lparr>m_IBuffer := m2\<rparr>)"
    "translated (m_IBuffer q) m2" "carries m2 server server_port app app_port"
    using s2c_v4 [OF assms(3), of "tcp_redirect ?r2" server_port now later] by (auto simp: fq)
  have "is_tcp_proxy_port port (config ?r2)"
    using assms(1) routed_tcpD(1) [of sys r _ port] by (auto simp: connects_def connected_def mapped_def split: option.splits)
  then have "filter_packet sys later allocated' q ?r2 = Some (action_type_revert, q\<lparr>m_IBuffer := m2\<rparr>, ?r2\<lparr>tcp_redirect := t2\<rparr>)"
    by (intro filter_decided decide_answer_tcp [OF assms(3) _ m2(1)]) (simp add: fq)
  with s1 s2 s3 m2(2,3) show ?thesis
    by fastforce
qed

text \<open>
  C9: a unicast datagram of a routed process, to no DNS port and no destination of a direct rule,
  is turned to the local UDP proxy behind a SOCKS5 header with its destination; a port seen for
  the first time is entered into the mapper of the proxy.  The proxy's answer behind the same
  header is turned into a datagram from the original server.
\<close>

theorem udp_proxied_datagram:
  assumes "udp_packet p" "unicast (m_IBuffer p)" "carries (m_IBuffer p) app app_port server server_port"
    and "ip_th (m_IBuffer p) + seg_len (m_IBuffer p) + socks5_udp_header_size_v4 \<le> MAX_ETHER_FRAME"
    and "ntohs server_port \<noteq> 53" "\<not> is_udp_proxy_port (ntohs app_port) (config r)"
    and "udp_owner r p = Some ref" "routed_udp sys r ref port" "port \<noteq> 0"
    and "match_destination_direct_rule False (process_of r ref) server (ntohs server_port) (destination_direct_rules (config r)) = None"
    and "udp_packet q" "unicast (m_IBuffer q)" "carries (m_IBuffer q) app (htons port) server app_port" "ntohs app_port \<noteq> 53"
    and "udp_payload q = socks5_udp_header_v4 (m_IBuffer p) @ data"
  shows "\<exists>r1 p1. filter_packet sys now allocated p r = Some (action_type_revert, p1, r1) \<and>
    udp_packet p1 \<and> checksums_valid p1 \<and> carries (m_IBuffer p1) server app_port app (htons port) \<and>
    udp_payload p1 = socks5_udp_header_v4 (m_IBuffer p) @ udp_payload p \<and>
    (endpoints (udp_redirect r) app_port = None \<longrightarrow> ntohs app_port \<in> udp_mapper r1) \<and>
    (\<exists>r2 q1. filter_packet sys later allocated' q r1 = Some (action_type_revert, q1, r2) \<and>
       udp_packet q1 \<and> checksums_valid q1 \<and> carries (m_IBuffer q1) server server_port app app_port \<and>
       udp_payload q1 = data)"
proof -
  let ?m = "m_IBuffer p"
  have fp: "th_sport ?m (ip_th ?m) = app_port" "ip_dst ?m = server" "th_dport ?m (ip_th ?m) = server_port"
    using assms(3) by (simp_all add: carries_def)
  have fq: "th_sport (m_IBuffer q) (ip_th (m_IBuffer q)) = htons port" "th_dport (m_IBuffer q) (ip_th (m_IBuffer q)) = app_port"
    using assms(13) by (simp_all add: carries_def)
  obtain is_new u where u: "is_new_endpoint_v4 now (udp_redirect r) p = (is_new, u)"
    by fastforce
  from u udp_packetD [OF assms(1)] have known: "\<exists>t. endpoints u app_port = Some t"
    "endpoints (udp_redirect r) app_port = None \<longrightarrow> is_new"
    by (auto simp: is_new_endpoint_v4_def note_endpoint_def Let_def fp split: option.splits if_splits)
  then obtain t0 where t0: "endpoints u app_port = Some t0"
    by blast
  let ?r0 = "r\<lparr>udp_redirect := u, udp_mapper := (if is_new then insert (ntohs app_port) (udp_mapper r) else udp_mapper r)\<rparr>"
  obtain u1 p1 where p1: "udp_client_to_server_v4 now u (htons port) p = Some (True, u1, p1)"
    "endpoints u1 app_port = Some now" "udp_packet p1" "checksums_valid p1" "carries (m_IBuffer p1) server app_port app (htons port)"
    "udp_payload p1 = socks5_udp_header_v4 ?m @ udp_payload p"
    using client_datagram_encapsulated [OF assms(1,3) t0 _ assms(4), of "htons port" now] assms(9) by auto
  let ?r1 = "?r0\<lparr>udp_redirect := u1\<rparr>"
  have "decide_packet sys now p r = redirect_udp now port p r"
    using decide_owned_udp [OF assms(1,2,7)] routed_udpD(2) [OF assms(8)] assms(5,6,10) by (simp add: fp)
  then have s1: "filter_packet sys now allocated p r = Some (action_type_revert, p1, ?r1)"
    by (intro filter_decided) (simp add: redirect_udp_def u p1(1) fp)
  obtain u2 q1 where q1: "udp_server_to_client_v4 later (udp_redirect ?r1) q = Some (True, u2, q1)"
    "udp_packet q1" "checksums_valid q1" "carries (m_IBuffer q1) server server_port app app_port" "udp_payload q1 = data"
    using answer_decapsulated [OF assms(3,11,13,15), of "udp_redirect ?r1" now later] p1(2) by auto
  have "filter_packet sys later allocated' q ?r1 = Some (action_type_revert, q1, ?r1\<lparr>udp_redirect := u2\<rparr>)"
    using routed_udpD(1) [OF assms(8)] assms(14)
    by (intro filter_decided decide_answer_udp [OF assms(11,12) _ _ q1(1)]) (simp_all add: fq)
  with s1 p1(3-) q1(2-) known(2) show ?thesis
    by fastforce
qed

text \<open>
  C20: a packet the router lets pass or drops is not altered; only IPv4 packets of TCP or UDP are
  ever turned back or dropped.
\<close>

theorem unproxied_packet_unaltered:
  assumes "filter_packet sys now allocated b r = Some (action, b', r')"
  shows "(action = action_type_revert \<or> b' = b) \<and> (action = action_type_pass \<or> postponable b)"
proof -
  from assms obtain result r1 where d: "decide_packet sys now b r = Some (result, b', r1)"
    and v: "result = Some action \<or> result = None \<and> action = action_type_drop"
    by (rule filter_packet_cases)
  have "postponable b" if "result \<noteq> Some action_type_pass"
    using d that by (auto simp: decide_packet_def postponable_def Let_def split: if_splits)
  with filter_packet_unaltered [OF assms] v show ?thesis
    by auto
qed

text \<open>
  The connections the router leaves alone: a packet of an excluded process passes unaltered,
  one of a process once found to have no proxy, until it gets a route of its own, and the first
  packet to a destination a direct rule names.
\<close>

theorem exempt_connection_passes:
  assumes "tcp_datagram (m_IBuffer b)" "\<not> is_tcp_proxy_port (ntohs (th_sport (m_IBuffer b) (ip_th (m_IBuffer b)))) (config r)"
    and "tcp_owner r b = Some ref"
    and "excluded (process_of r ref) \<or>
      bypass_tcp (process_of r ref) \<and> \<not> has_pid_route (process_id (process_of r ref)) (config r) \<or>
      routed_tcp sys r ref port \<and> is_syn (th_flags (m_IBuffer b) (ip_th (m_IBuffer b))) \<and>
      match_destination_direct_rule True (process_of r ref) (ip_dst (m_IBuffer b))
        (ntohs (th_dport (m_IBuffer b) (ip_th (m_IBuffer b)))) (destination_direct_rules (config r)) \<noteq> None"
  shows "filter_packet sys now allocated b r = Some (action_type_pass, b, r)"
proof -
  have "route_tcp sys now ref b r = Some (Some action_type_pass, b, r)"
    using assms(4) routed_tcpD(2) [of sys r ref port now b] by (auto simp: route_tcp_def Let_def)
  then show ?thesis
    using decide_owned_tcp [OF assms(1,3,2)] by (intro filter_decided) simp
qed

text \<open>Datagrams to port 53 and to a group of stations pass in every state.\<close>

lemma dns_and_group_datagrams_pass:
  assumes "udp_packet b" "ntohs (th_dport (m_IBuffer b) (ip_th (m_IBuffer b))) = 53 \<or> \<not> unicast (m_IBuffer b)"
  shows "filter_packet sys now allocated b r = Some (action_type_pass, b, r)"
proof -
  have "ntohs (h_proto (m_IBuffer b)) = ETH_P_IP" "ip_p (m_IBuffer b) = IPPROTO_UDP"
    using udp_packetD [OF assms(1)] by simp_all
  with assms(2) show ?thesis
    by (intro filter_decided) (auto simp: decide_packet_def process_udp_packet_def unicast_def Let_def)
qed

text \<open>
  A retransmitted SYN of a proxied connection, for which the redirector has an entry, passes
  to the network unaltered: the process reaches the server directly, from its own address.
\<close>

theorem retransmitted_syn_bypasses_proxy:
  assumes "connects sys r port p app app_port server server_port"
    and "redirected_connections (tcp_redirect r) (endpoint server app_port) \<noteq> None"
  shows "\<exists>r'. filter_packet sys now allocated p r = Some (action_type_pass, p, r')"
proof -
  have "ip_dst (m_IBuffer p) = server" "th_sport (m_IBuffer p) (ip_th (m_IBuffer p)) = app_port"
    "is_syn (th_flags (m_IBuffer p) (ip_th (m_IBuffer p)))"
    using assms(1) by (simp_all add: connects_def carries_def)
  with assms(2) have "process_client_to_server_packet_v4 now (tcp_redirect (mapped now app_port server server_port r))
      (htons port) p = Some (False, tcp_redirect r, p)"
    by (auto simp: process_client_to_server_packet_v4_def track_client_def mapped_def Let_def)
  then show ?thesis
    using connects_decided [OF assms(1), of now]
    by (intro exI filter_decided) (simp add: redirect_tcp_def)
qed

text \<open>
  The mapper knows a connection by the application's port alone.  When two connections from
  the same port to different servers start before the local proxy has asked for the first, both
  are turned to it, the first question is answered with the second server, and the second with
  nothing.
\<close>

theorem same_port_connections_collide:
  assumes "connects sys r port p app app_port server server_port" "connects sys r port' p' app' app_port server' server_port'"
    and "server \<noteq> server'" "redirected_connections (tcp_redirect r) (endpoint server app_port) = None"
    and "redirected_connections (tcp_redirect r) (endpoint server' app_port) = None"
    and "accepted - later \<le> seconds 30"
  shows "\<exists>r1 p1 r2 p2 r3. filter_packet sys now allocated p r = Some (action_type_revert, p1, r1) \<and>
    filter_packet sys later allocated' p' r1 = Some (action_type_revert, p2, r2) \<and>
    tcp_query_remote_peer accepted proxy (ntohs app_port) r2 = (peer_answer proxy server' server_port', r3) \<and>
    fst (tcp_query_remote_peer again proxy (ntohs app_port) r3) = (0, 0, None)"
proof -
  let ?r1 = "connected now app_port server server_port r"
  let ?r2 = "connected later app_port server' server_port' ?r1"
  obtain p1 where "filter_packet sys now allocated p r = Some (action_type_revert, p1, ?r1)"
    using syn_redirected [OF assms(1,4)] by blast
  moreover have "redirected_connections (tcp_redirect ?r1) (endpoint server' app_port) = None"
    using assms(3,5) by (simp add: connected_def endpoint_def)
  then obtain p2 where "filter_packet sys later allocated' p' ?r1 = Some (action_type_revert, p2, ?r2)"
    using syn_redirected [of sys ?r1 port' p' app' app_port server' server_port'] assms(2) by auto
  moreover have "fst (tcp_query_remote_peer again proxy (ntohs app_port)
      (?r2\<lparr>tcp_mapper := (tcp_mapper ?r2)(ntohs app_port := None)\<rparr>)) = (0, 0, None)"
    by (simp add: tcp_query_remote_peer_def)
  ultimately show ?thesis
    using query_connected [OF assms(6)] by blast
qed

section \<open>Witnesses\<close>

definition routed_process :: network_process where
  "routed_process = new_network_process (\<lambda>_ _. Query_failed) 9 (wide ''xa'') (wide ''c'')"

definition routed_server :: local_proxy where
  "routed_server = \<lparr>lp_port = 1792, lp_endpoint = sample_endpoint,
     lp_credentials = Some (''u'', ''p'')\<rparr>"

definition routed_router :: router where
  "routed_router = sample_router
     \<lparr>config := sample_config\<lparr>proxy_servers := [(Some routed_server, Some routed_server)]\<rparr>,
      lookup_v4 := (lookup_v4 sample_router)
        \<lparr>store := \<lparr>objects = (\<lambda>_. routed_process), next_object = 2\<rparr>,
         tcp_to_app := [session (le32 10 0 0 0) (le32 20 0 0 0) (le16 0 3) (le16 0 80) \<mapsto> 1,
           session (le32 10 0 0 0) (le32 30 0 0 0) (le16 0 3) (le16 0 80) \<mapsto> 1],
         udp_to_app := [endpoint (le32 10 0 0 0) (le16 0 3) \<mapsto> 1]\<rparr>\<rparr>"

lemma routed_router_simps:
  "proxy_servers (config routed_router) = [(Some routed_server, Some routed_server)]"
  "pid_to_proxy (config routed_router) = Map.empty" "destination_direct_rules (config routed_router) = []"
  "process_of routed_router ref = routed_process"
  "tcp_redirect routed_router = sample_redirect Map.empty" "udp_redirect routed_router = sample_udp_redirect"
  by (simp_all add: routed_router_def sample_config_def sample_router_def process_at_def)

lemma routed_router_routes: "routed_tcp sample_times routed_router ref 1792" "routed_udp sample_times routed_router ref 1792"
  by (simp_all add: routed_tcp_def routed_udp_def routed_router_simps get_proxy_port_tcp_def get_proxy_port_udp_def
      get_proxy_port_by_def)
    (simp_all add: routed_process_def new_network_process_def routed_router_def sample_config_def sample_times_def
      match_app_name_def matches_pattern_def wide_def wide_to_upper_def towupper_def port_of_def routed_server_def)

lemma routed_ports: "is_tcp_proxy_port w (config routed_router) \<longleftrightarrow> w = 1792" "is_udp_proxy_port w (config routed_router) \<longleftrightarrow> w = 1792"
  by (auto simp: is_tcp_proxy_port_def is_udp_proxy_port_def is_proxy_port_def routed_router_simps routed_server_def)

lemma sample_connects:
  assumes "b = 20 \<or> b = 30"
  shows "connects sample_times routed_router 1792 (sample_tcp 10 3 b 80 2) (le32 10 0 0 0) (le16 3 0) (le32 b 0 0 0) (le16 80 0)"
proof -
  have "ip_src (m_IBuffer (sample_tcp 10 3 b 80 2)) = le32 10 0 0 0" "ip_dst (m_IBuffer (sample_tcp 10 3 b 80 2)) = le32 b 0 0 0"
    "th_sport (m_IBuffer (sample_tcp 10 3 b 80 2)) 34 = le16 3 0" "th_dport (m_IBuffer (sample_tcp 10 3 b 80 2)) 34 = le16 80 0"
    using sample_tcp_fields(3) [of 10 3 b 80 2] by (simp_all add: carries_def sample_tcp_th)
  then have "tcp_owner routed_router (sample_tcp 10 3 b 80 2) = Some 1"
    using assms by (auto simp: tcp_owner_def sample_tcp_th wire_simps routed_router_def Let_def)
  moreover have "ntohs (le16 3 0) \<noteq> 1792"
    by (simp add: wire_simps sample_ports)
  ultimately show ?thesis
    by (simp add: connects_def sample_tcp_fields sample_tcp_th sample_flags routed_ports routed_router_routes routed_router_simps)
qed

lemma routed_htons: "htons 1792 = le16 7 0"
  using sample_ports(3) ntohs_le16 [of 0 7] by simp

theorem tcp_proxied_connection_witness:
  "\<exists>r1 p1. filter_packet sample_times 0 True (sample_tcp 10 3 20 80 2) routed_router = Some (action_type_revert, p1, r1) \<and>
    carries (m_IBuffer p1) (le32 20 0 0 0) (le16 3 0) (le32 10 0 0 0) (le16 7 0)"
proof -
  have "redirected_connections (tcp_redirect routed_router) (endpoint (le32 20 0 0 0) (le16 3 0)) = None"
    by (simp add: routed_router_simps sample_redirect_def)
  from tcp_proxied_connection [OF sample_connects this, of "sample_tcp 10 7 20 3 16" 5 0]
  show ?thesis
    using sample_tcp_fields(3) [of 10 7 20 3 16] by (fastforce simp: sample_tcp_fields routed_htons)
qed

theorem retransmitted_syn_bypasses_proxy_witness:
  "\<exists>r'. filter_packet sample_times 9 True (sample_tcp 10 3 20 80 2)
      (connected 0 (le16 3 0) (le32 20 0 0 0) (le16 80 0) routed_router) =
    Some (action_type_pass, sample_tcp 10 3 20 80 2, r')"
  by (rule retransmitted_syn_bypasses_proxy [where port = 1792 and app = "le32 10 0 0 0" and app_port = "le16 3 0"
        and server = "le32 20 0 0 0" and server_port = "le16 80 0"])
    (simp add: sample_connects, simp add: connected_def)

theorem same_port_connections_collide_witness:
  "\<exists>r2 r3. tcp_query_remote_peer 5 routed_server (ntohs (le16 3 0)) r2 = (peer_answer routed_server (le32 30 0 0 0) (le16 80 0), r3)"
proof -
  have "redirected_connections (tcp_redirect routed_router) k = None" for k
    by (simp add: routed_router_simps sample_redirect_def)
  moreover have "le32 20 0 0 0 \<noteq> le32 30 0 0 0"
    by (simp add: le32_def push_bit_eq_mult)
  ultimately show ?thesis
    using same_port_connections_collide [OF sample_connects [of 20] sample_connects [of 30], of 5 0] by fastforce
qed

theorem unproxied_packet_unaltered_witness:
  "\<exists>r'. filter_packet sample_times 9 True (sample_tcp 10 3 20 80 2)
      (connected 0 (le16 3 0) (le32 20 0 0 0) (le16 80 0) routed_router) =
    Some (action_type_pass, sample_tcp 10 3 20 80 2, r')"
proof -
  let ?r = "connected 0 (le16 3 0) (le32 20 0 0 0) (le16 80 0) routed_router"
  have f: "process_client_to_server_packet_v4 9 (tcp_redirect (mapped 9 (le16 3 0) (le32 20 0 0 0) (le16 80 0) ?r)) (htons 1792)
      (sample_tcp 10 3 20 80 2) = Some (False, tcp_redirect ?r, sample_tcp 10 3 20 80 2)"
    using sample_tcp_fields [of 10 3 20 80 2]
    by (simp add: process_client_to_server_packet_v4_def track_client_def connected_def mapped_def Let_def
        sample_tcp_th sample_flags carries_def)
  have "connects sample_times ?r 1792 (sample_tcp 10 3 20 80 2) (le32 10 0 0 0) (le16 3 0) (le32 20 0 0 0) (le16 80 0)"
    by (simp add: sample_connects)
  from connects_decided [OF this, of 9] obtain b' r'
    where "filter_packet sample_times 9 True (sample_tcp 10 3 20 80 2) ?r = Some (action_type_pass, b', r')"
    by (auto simp: redirect_tcp_def f intro: filter_decided)
  with unproxied_packet_unaltered [OF this] show ?thesis
    by simp
qed

theorem exempt_connection_passes_witness:
  "filter_packet sample_times 9 True (sample_tcp 10 3 20 80 2)
      (set_process 1 (routed_process\<lparr>excluded := True\<rparr>) routed_router) =
    Some (action_type_pass, sample_tcp 10 3 20 80 2, set_process 1 (routed_process\<lparr>excluded := True\<rparr>) routed_router)"
proof (rule exempt_connection_passes)
  have c: "connects sample_times routed_router 1792 (sample_tcp 10 3 20 80 2) (le32 10 0 0 0) (le16 3 0) (le32 20 0 0 0) (le16 80 0)"
    by (simp add: sample_connects)
  then show "tcp_datagram (m_IBuffer (sample_tcp 10 3 20 80 2))"
    "\<not> is_tcp_proxy_port (ntohs (th_sport (m_IBuffer (sample_tcp 10 3 20 80 2)) (ip_th (m_IBuffer (sample_tcp 10 3 20 80 2)))))
      (config (set_process 1 (routed_process\<lparr>excluded := True\<rparr>) routed_router))"
    by (simp_all add: connects_def carries_def set_process_def)
  show "tcp_owner (set_process 1 (routed_process\<lparr>excluded := True\<rparr>) routed_router) (sample_tcp 10 3 20 80 2) = Some 1"
    by (simp add: tcp_owner_def set_process_def write_process_def Let_def sample_packet_header)
      (simp add: routed_router_def wire_simps)
qed (simp add: set_process_def write_process_def process_at_def)

lemma sample_udp_unicast: "unicast (m_IBuffer (sample_udp a sp b dp bs))"
proof -
  have "map (m_IBuffer (sample_udp a sp b dp bs)) [0..<6] = 0 # replicate 5 0"
    by (rule nth_equalityI) (auto simp: sample_udp_at wr16_apply nth_Cons split: nat.splits)
  moreover have "0 # v \<noteq> replicate eth_address_length (255 :: u8)" for v
    by (simp add: eth_address_length_def replicate_Suc [of 5, simplified])
  ultimately show ?thesis
    by (simp add: unicast_def mac_is_broadcast_def mac_is_multicast_def)
qed

theorem udp_proxied_datagram_witness:
  "\<exists>r1 p1. filter_packet sample_times 0 True (sample_udp 10 3 20 80 [1, 2]) routed_router = Some (action_type_revert, p1, r1) \<and>
    carries (m_IBuffer p1) (le32 20 0 0 0) (le16 3 0) (le32 10 0 0 0) (le16 7 0)"
proof -
  let ?p = "sample_udp 10 3 20 80 [1, 2]" and ?q = "sample_udp 10 7 20 3 (socks5_udp_header_v4 (m_IBuffer (sample_udp 10 3 20 80 [1, 2])) @ [8, 9])"
  have l: "length (socks5_udp_header_v4 m) = 10" for m
    by (simp add: socks5_udp_header_v4_def)
  have p: "udp_packet ?p" "carries (m_IBuffer ?p) (le32 10 0 0 0) (le16 3 0) (le32 20 0 0 0) (le16 80 0)"
    "ip_th (m_IBuffer ?p) + seg_len (m_IBuffer ?p) + socks5_udp_header_size_v4 \<le> MAX_ETHER_FRAME"
    by (simp_all add: sample_udp_ok sample_udp_th socks5_udp_header_size_v4_def MAX_ETHER_FRAME_def)
  have q: "udp_packet ?q" "carries (m_IBuffer ?q) (le32 10 0 0 0) (htons 1792) (le32 20 0 0 0) (le16 3 0)"
    "udp_payload ?q = socks5_udp_header_v4 (m_IBuffer ?p) @ [8, 9]"
    using l by (simp_all add: sample_udp_ok routed_htons)
  have o: "udp_owner routed_router ?p = Some 1"
    using p(2) by (simp add: udp_owner_def Let_def carries_def) (simp add: routed_router_def wire_simps)
  have n: "ntohs (le16 80 0) \<noteq> 53" "ntohs (le16 3 0) \<noteq> 53" "\<not> is_udp_proxy_port (ntohs (le16 3 0)) (config routed_router)"
    by (simp_all add: wire_simps sample_ports routed_ports)
  have d: "match_destination_direct_rule False (process_of routed_router 1) (le32 20 0 0 0) (ntohs (le16 80 0))
      (destination_direct_rules (config routed_router)) = None"
    by (simp add: routed_router_simps)
  from udp_proxied_datagram [OF p(1) sample_udp_unicast p(2,3) n(1,3) o routed_router_routes(2) _ d q(1) sample_udp_unicast q(2) n(2) q(3), of 0]
  show ?thesis
    by (fastforce simp: routed_htons)
qed

end
