(* ===== verification/Tcp_Relay.thy ===== *)
theory Tcp_Relay
  imports Prelude "HOL-Library.Sublist"
begin

text \<open>
  The data relay of \<^verbatim>\<open>tcp_proxy_socket\<close> (proxy/tcp_proxy_socket.h).  A proxied connection joins a
  local and a remote socket; for each direction there is a ring of 64 KiB, a receive request that
  fills it and a send request that empties it, both asynchronous.  The handlers of their
  completions move the two buffer descriptors; the relay is a queue of bytes in each direction.
\<close>

section \<open>State\<close>

datatype connection_status = client_no_change | client_connected | client_established | client_completed

definition send_receive_buffer_size :: nat where
  "send_receive_buffer_size = 65536"

text \<open>A \<^verbatim>\<open>WSABUF\<close> into the ring: an offset and a length.  A length of 0 says that no request is posted.\<close>

record wsabuf =
  wb_buf :: nat
  wb_len :: nat

text \<open>
  One direction: its array with the descriptors of the receive and the send request.  The socket
  has two, \<open>from_local\<close> (\<^verbatim>\<open>from_local_to_remote_buffer_\<close>, \<^verbatim>\<open>local_recv_buf_\<close>, \<^verbatim>\<open>remote_send_buf_\<close>) and
  \<open>from_remote\<close>.  The null pointer of a send descriptor before the first receive is offset 0; it
  is never used.
\<close>

record relay_half =
  ring :: "nat \<Rightarrow> u8"
  recv_buf :: wsabuf
  send_buf :: wsabuf

record tcp_proxy_socket =
  local_open :: bool
  remote_open :: bool
  status :: connection_status
  timestamp :: time_point
  from_local :: relay_half
  from_remote :: relay_half

definition new_relay_half :: relay_half where
  "new_relay_half = \<lparr>ring = (\<lambda>_. 0), recv_buf = \<lparr>wb_buf = 0, wb_len = send_receive_buffer_size\<rparr>,
     send_buf = \<lparr>wb_buf = 0, wb_len = 0\<rparr>\<rparr>"

definition new_tcp_proxy_socket :: "time_point \<Rightarrow> tcp_proxy_socket" where
  "new_tcp_proxy_socket now = \<lparr>local_open = True, remote_open = True, status = client_connected, timestamp = now,
     from_local = new_relay_half, from_remote = new_relay_half\<rparr>"

text \<open>The direction by the socket it receives from.\<close>

definition half :: "bool \<Rightarrow> tcp_proxy_socket \<Rightarrow> relay_half" where
  "half is_local s = (if is_local then from_local s else from_remote s)"

definition update_half :: "bool \<Rightarrow> (relay_half \<Rightarrow> relay_half) \<Rightarrow> tcp_proxy_socket \<Rightarrow> tcp_proxy_socket" where
  "update_half is_local f s =
     (if is_local then s\<lparr>from_local := f (from_local s)\<rparr> else s\<lparr>from_remote := f (from_remote s)\<rparr>)"

definition socket_open :: "bool \<Rightarrow> tcp_proxy_socket \<Rightarrow> bool" where
  "socket_open is_local s = (if is_local then local_open s else remote_open s)"

definition clear_recv :: "relay_half \<Rightarrow> relay_half" where
  "clear_recv h = h\<lparr>recv_buf := (recv_buf h)\<lparr>wb_len := 0\<rparr>\<rparr>"

definition clear_send :: "relay_half \<Rightarrow> relay_half" where
  "clear_send h = h\<lparr>send_buf := (send_buf h)\<lparr>wb_len := 0\<rparr>\<rparr>"

section \<open>Closing\<close>

text \<open>
  \<^verbatim>\<open>close_client\<close> closes the socket it is called for, clears the descriptor of the failed request
  and closes the other socket too.  The send descriptor of a socket belongs to the direction that
  receives from the other one.
\<close>

definition close_client :: "bool \<Rightarrow> bool \<Rightarrow> tcp_proxy_socket \<Rightarrow> tcp_proxy_socket" where
  "close_client is_receive is_local s =
     (let s = (if socket_open is_local s then s\<lparr>status := client_completed\<rparr> else s);
          s = (if is_receive then update_half is_local clear_recv s else update_half (\<not> is_local) clear_send s)
      in s\<lparr>local_open := False, remote_open := False\<rparr>)"

section \<open>Completions\<close>

text \<open>
  The requests the handlers post.  The Winsock calls are parameters: \<open>send_ok\<close> and \<open>recv_ok\<close> say
  whether the call was accepted (success or pending).
\<close>

datatype io_request = Recv_request bool nat nat | Send_request bool nat nat

definition recv_request :: "bool \<Rightarrow> tcp_proxy_socket \<Rightarrow> io_request" where
  "recv_request is_local s =
     Recv_request is_local (wb_buf (recv_buf (half is_local s))) (wb_len (recv_buf (half is_local s)))"

definition send_request :: "bool \<Rightarrow> tcp_proxy_socket \<Rightarrow> io_request" where
  "send_request is_local s =
     Send_request is_local (wb_buf (send_buf (half (\<not> is_local) s))) (wb_len (send_buf (half (\<not> is_local) s)))"

definition start_send :: "nat \<Rightarrow> relay_half \<Rightarrow> relay_half" where
  "start_send io_size h = h\<lparr>send_buf := \<lparr>wb_buf = wb_buf (recv_buf h), wb_len = io_size\<rparr>\<rparr>"

definition advance_recv :: "nat \<Rightarrow> relay_half \<Rightarrow> relay_half" where
  "advance_recv io_size h =
     (let p = wb_buf (recv_buf h) + io_size; s = wb_buf (send_buf h) in
      h\<lparr>recv_buf :=
          (if s < p
           then (if p < send_receive_buffer_size
                 then \<lparr>wb_buf = p, wb_len = send_receive_buffer_size - p\<rparr>
                 else \<lparr>wb_buf = 0, wb_len = s\<rparr>)
           else \<lparr>wb_buf = p, wb_len = s - p\<rparr>)\<rparr>)"

definition process_receive_buffer_complete ::
  "time_point \<Rightarrow> bool \<Rightarrow> bool \<Rightarrow> nat \<Rightarrow> bool \<Rightarrow> tcp_proxy_socket \<Rightarrow> io_request list \<times> tcp_proxy_socket" where
  "process_receive_buffer_complete now send_ok recv_ok io_size is_local s =
     (let s = s\<lparr>timestamp := now\<rparr> in
      case status s of
        client_completed \<Rightarrow> ([], update_half is_local clear_recv s)
      | client_established \<Rightarrow>
          let (requests, s) =
                (if wb_len (send_buf (half is_local s)) = 0
                 then (let s = update_half is_local (start_send io_size) s in
                       if send_ok then ([send_request (\<not> is_local) s], s)
                       else ([], close_client False (\<not> is_local) s))
                 else ([], s));
              s = update_half is_local (advance_recv io_size) s
          in if wb_len (recv_buf (half is_local s)) = 0 then (requests, s)
             else if recv_ok then (requests @ [recv_request is_local s], s)
             else (requests, close_client True is_local s)
      | _ \<Rightarrow> ([], s))"

definition restart_recv :: "nat \<Rightarrow> relay_half \<Rightarrow> relay_half" where
  "restart_recv io_size h = h\<lparr>recv_buf := \<lparr>wb_buf = wb_buf (send_buf h), wb_len = io_size\<rparr>\<rparr>"

definition advance_send :: "nat \<Rightarrow> relay_half \<Rightarrow> relay_half" where
  "advance_send io_size h =
     (let p = wb_buf (send_buf h) + io_size
      in h\<lparr>send_buf := (send_buf h)\<lparr>wb_buf := (if p = send_receive_buffer_size then 0 else p)\<rparr>\<rparr>)"

definition remaining_send :: "relay_half \<Rightarrow> relay_half" where
  "remaining_send h =
     h\<lparr>send_buf := (send_buf h)\<lparr>wb_len :=
         (if wb_buf (send_buf h) < wb_buf (recv_buf h) then wb_buf (recv_buf h) - wb_buf (send_buf h)
          else send_receive_buffer_size - wb_buf (send_buf h))\<rparr>\<rparr>"

text \<open>A send to the socket \<open>is_local\<close> belongs to the direction from the other socket.\<close>

definition process_send_buffer_complete ::
  "time_point \<Rightarrow> bool \<Rightarrow> bool \<Rightarrow> nat \<Rightarrow> bool \<Rightarrow> tcp_proxy_socket \<Rightarrow> io_request list \<times> tcp_proxy_socket" where
  "process_send_buffer_complete now send_ok recv_ok io_size is_local s =
     (let s = s\<lparr>timestamp := now\<rparr>; src = (\<not> is_local);
          (requests, s) =
            (if status s \<noteq> client_completed \<and> wb_len (recv_buf (half src s)) = 0
             then (let s = update_half src (restart_recv io_size) s in
                   if wb_len (recv_buf (half src s)) = 0 then ([], s)
                   else if recv_ok then ([recv_request src s], s)
                   else ([], close_client True src s))
             else ([], s));
          s = update_half src (advance_send io_size) s
      in if wb_buf (send_buf (half src s)) = wb_buf (recv_buf (half src s))
         then (requests, update_half src clear_send
                 (if status s = client_completed then close_client False False s else s))
         else let s = update_half src remaining_send s in
              if wb_len (send_buf (half src s)) = 0 then (requests, s)
              else if send_ok then (requests @ [send_request is_local s], s)
              else (requests, close_client False is_local s))"

text \<open>
  \<^verbatim>\<open>associate_to_completion_port\<close> and \<^verbatim>\<open>start_data_relay\<close>.  The latter closes the sockets when a
  receive is refused; \<open>local_ok\<close> and \<open>remote_ok\<close> are the results of the two calls.
\<close>

definition associate_to_completion_port :: "bool \<Rightarrow> bool \<Rightarrow> tcp_proxy_socket \<Rightarrow> bool \<times> tcp_proxy_socket" where
  "associate_to_completion_port local_ok remote_ok s =
     (let s = s\<lparr>status := client_established\<rparr>
      in (local_open s \<and> remote_open s \<and> local_ok \<and> remote_ok, s))"

definition start_data_relay ::
  "bool \<Rightarrow> bool \<Rightarrow> tcp_proxy_socket \<Rightarrow> bool \<times> io_request list \<times> tcp_proxy_socket" where
  "start_data_relay local_ok remote_ok s =
     (if \<not> local_ok then (False, [], update_half False clear_recv (close_client True True s))
      else if \<not> remote_ok then (False, [recv_request True s], close_client True False s)
      else (True, [recv_request True s, recv_request False s], s))"

definition is_ready_for_removal :: "time_point \<Rightarrow> tcp_proxy_socket \<Rightarrow> bool \<times> tcp_proxy_socket" where
  "is_ready_for_removal now s =
     (if \<not> remote_open s \<and> \<not> local_open s
      then (True, s\<lparr>from_local := clear_send (clear_recv (from_local s)),
                    from_remote := clear_send (clear_recv (from_remote s))\<rparr>)
      else if minutes 60 < now - timestamp s
      then (False, (close_client False False (close_client False True s))\<lparr>timestamp := timestamp s + minutes 1\<rparr>)
      else (False, s))"

section \<open>Byte channels\<close>

text \<open>
  The contract of one direction, whatever its representation: \<open>put\<close> is a completed receive, \<open>took\<close>
  a completed send.  A client that follows the bounds sees a queue of bytes, and one of the two
  requests is always posted.
\<close>

locale byte_channel =
  fixes ok :: "'c \<Rightarrow> bool" and content :: "'c \<Rightarrow> u8 list" and room :: "'c \<Rightarrow> nat" and posted :: "'c \<Rightarrow> nat"
    and put :: "u8 list \<Rightarrow> 'c \<Rightarrow> 'c" and took :: "nat \<Rightarrow> 'c \<Rightarrow> 'c" and capacity :: nat
  assumes put_ok: "ok c \<Longrightarrow> bs \<noteq> [] \<Longrightarrow> length bs \<le> room c \<Longrightarrow> ok (put bs c)"
    and put_content: "ok c \<Longrightarrow> bs \<noteq> [] \<Longrightarrow> length bs \<le> room c \<Longrightarrow> content (put bs c) = content c @ bs"
    and took_ok: "ok c \<Longrightarrow> 0 < n \<Longrightarrow> n \<le> posted c \<Longrightarrow> ok (took n c)"
    and took_content: "ok c \<Longrightarrow> 0 < n \<Longrightarrow> n \<le> posted c \<Longrightarrow> content (took n c) = drop n (content c)"
    and bounded: "ok c \<Longrightarrow> length (content c) \<le> capacity"
    and posted_bound: "ok c \<Longrightarrow> posted c \<le> length (content c)"
    and posted_iff: "ok c \<Longrightarrow> posted c = 0 \<longleftrightarrow> content c = []"
    and room_iff: "ok c \<Longrightarrow> room c = 0 \<longleftrightarrow> length (content c) = capacity"
    and capacity_positive: "0 < capacity"
begin

text \<open>What was received is what was delivered followed by what is in the channel.\<close>

definition carries_stream :: "u8 list \<Rightarrow> u8 list \<Rightarrow> 'c \<Rightarrow> bool" where
  "carries_stream received delivered c \<longleftrightarrow> ok c \<and> received = delivered @ content c"

lemma carries_put:
  "carries_stream received delivered c \<Longrightarrow> bs \<noteq> [] \<Longrightarrow> length bs \<le> room c \<Longrightarrow>
   carries_stream (received @ bs) delivered (put bs c)"
  by (simp add: carries_stream_def put_ok put_content)

lemma carries_took:
  "carries_stream received delivered c \<Longrightarrow> 0 < n \<Longrightarrow> n \<le> posted c \<Longrightarrow>
   carries_stream received (delivered @ take n (content c)) (took n c)"
  by (simp add: carries_stream_def took_ok took_content)

lemma never_stuck: "ok c \<Longrightarrow> 0 < room c \<or> 0 < posted c"
  using posted_iff [of c] room_iff [of c] capacity_positive by (cases "content c = []") auto

lemma in_flight_is_being_sent: "ok c \<Longrightarrow> content c \<noteq> [] \<Longrightarrow> 0 < posted c"
  using posted_iff [of c] by auto

end

section \<open>The ring as a channel\<close>

text \<open>
  The operating system puts the received bytes at the offset of the receive request, then the
  completion handler advances the descriptors; \<open>put_bytes\<close> and \<open>took_bytes\<close> are what the handlers
  do when their calls are accepted.
\<close>

definition deposit :: "u8 list \<Rightarrow> relay_half \<Rightarrow> relay_half" where
  "deposit bs h = h\<lparr>ring := (\<lambda>i. if wb_buf (recv_buf h) \<le> i \<and> i < wb_buf (recv_buf h) + length bs
                               then bs ! (i - wb_buf (recv_buf h)) else ring h i)\<rparr>"

definition put_bytes :: "u8 list \<Rightarrow> relay_half \<Rightarrow> relay_half" where
  "put_bytes bs h =
     (let h = deposit bs h
      in advance_recv (length bs) (if wb_len (send_buf h) = 0 then start_send (length bs) h else h))"

definition took_bytes :: "nat \<Rightarrow> relay_half \<Rightarrow> relay_half" where
  "took_bytes n h =
     (let h = advance_send n (if wb_len (recv_buf h) = 0 then restart_recv n h else h)
      in if wb_buf (send_buf h) = wb_buf (recv_buf h) then clear_send h else remaining_send h)"

definition ring_wrap :: "nat \<Rightarrow> nat" where
  "ring_wrap j = (if j < send_receive_buffer_size then j else j - send_receive_buffer_size)"

definition ring_count :: "relay_half \<Rightarrow> nat" where
  "ring_count h =
     (if wb_len (send_buf h) = 0 then 0
      else if wb_buf (send_buf h) < wb_buf (recv_buf h) then wb_buf (recv_buf h) - wb_buf (send_buf h)
      else send_receive_buffer_size - wb_buf (send_buf h) + wb_buf (recv_buf h))"

definition ring_content :: "relay_half \<Rightarrow> u8 list" where
  "ring_content h = map (\<lambda>i. ring h (ring_wrap (wb_buf (send_buf h) + i))) [0..<ring_count h]"

definition ring_ok :: "relay_half \<Rightarrow> bool" where
  "ring_ok h \<longleftrightarrow>
     (let s = wb_buf (send_buf h); r = wb_buf (recv_buf h); k = ring_count h in
      s < send_receive_buffer_size \<and> r < send_receive_buffer_size \<and>
      (wb_len (send_buf h) = 0 \<longrightarrow> s = r) \<and>
      wb_len (send_buf h) \<le> k \<and> s + wb_len (send_buf h) \<le> send_receive_buffer_size \<and>
      r + wb_len (recv_buf h) \<le> send_receive_buffer_size \<and> k + wb_len (recv_buf h) \<le> send_receive_buffer_size \<and>
      (wb_len (recv_buf h) = 0 \<longleftrightarrow> k = send_receive_buffer_size))"

lemmas ring_defs = ring_ok_def ring_count_def deposit_def advance_recv_def start_send_def advance_send_def
  restart_recv_def remaining_send_def clear_send_def put_bytes_def took_bytes_def Let_def

lemma new_relay_half_ok: "ring_ok new_relay_half" "ring_content new_relay_half = []"
  by (simp_all add: ring_ok_def ring_count_def ring_content_def new_relay_half_def send_receive_buffer_size_def)

lemma put_bytes_ok:
  assumes "ring_ok h" "bs \<noteq> []" "length bs \<le> wb_len (recv_buf h)"
  shows "ring_ok (put_bytes bs h)" "ring_count (put_bytes bs h) = ring_count h + length bs"
proof -
  have "0 < length bs"
    using assms(2) by simp
  with assms(1,3) show "ring_ok (put_bytes bs h)" "ring_count (put_bytes bs h) = ring_count h + length bs"
    unfolding ring_defs by (auto split: if_splits)
qed

lemma took_bytes_fields:
  assumes "s = wb_buf (send_buf h)" "r = wb_buf (recv_buf h)" "rl = wb_len (recv_buf h)"
    and "p = (if s + n = send_receive_buffer_size then 0 else s + n)" "r' = (if rl = 0 then s else r)"
  shows "recv_buf (took_bytes n h) = \<lparr>wb_buf = r', wb_len = (if rl = 0 then n else rl)\<rparr>"
    "wb_buf (send_buf (took_bytes n h)) = p"
    "wb_len (send_buf (took_bytes n h)) =
       (if p = r' then 0 else if p < r' then r' - p else send_receive_buffer_size - p)"
    "ring (took_bytes n h) = ring h"
  using assms by (simp_all add: took_bytes_def Let_def advance_send_def restart_recv_def clear_send_def remaining_send_def)

lemma ring_full:
  assumes "ring_ok h" "wb_len (recv_buf h) = 0"
  shows "wb_buf (recv_buf h) = wb_buf (send_buf h)" "wb_len (send_buf h) \<noteq> 0"
  using assms by (auto simp: ring_ok_def ring_count_def Let_def split: if_splits)

lemma took_bytes_ok:
  assumes "ring_ok h" "0 < n" "n \<le> wb_len (send_buf h)"
  shows "ring_ok (took_bytes n h)" "ring_count (took_bytes n h) = ring_count h - n"
proof -
  define s r sl rl where d: "s = wb_buf (send_buf h)" "r = wb_buf (recv_buf h)" "sl = wb_len (send_buf h)" "rl = wb_len (recv_buf h)"
  define k where k: "k = (if s < r then r - s else send_receive_buffer_size - s + r)"
  define p where p: "p = (if s + n = send_receive_buffer_size then 0 else s + n)"
  define r' where r': "r' = (if rl = 0 then s else r)"
  note f = took_bytes_fields [OF d(1,2,4) p r']
  have kk: "ring_count h = k"
    using assms(2,3) by (simp add: ring_count_def d k)
  have i: "s < send_receive_buffer_size" "r < send_receive_buffer_size" "sl \<le> k" "s + sl \<le> send_receive_buffer_size"
    "r + rl \<le> send_receive_buffer_size" "k + rl \<le> send_receive_buffer_size" "rl = 0 \<longleftrightarrow> k = send_receive_buffer_size" "n \<le> sl"
    using assms(1,3) unfolding ring_ok_def Let_def kk by (auto simp: d)
  have c: "(if p = r' then 0 else if p < r' then r' - p else send_receive_buffer_size - p + r') = k - n"
    using i assms(2) unfolding k p r' by (auto split: if_splits)
  have p_less: "p < send_receive_buffer_size"
    using i(1,4,8) p by auto
  define sl' where sl': "sl' = (if p = r' then 0 else if p < r' then r' - p else send_receive_buffer_size - p)"
  have count: "ring_count (took_bytes n h) = k - n"
    unfolding ring_count_def f using p_less by (simp add: c [symmetric])
  then show "ring_count (took_bytes n h) = ring_count h - n"
    by (simp add: kk)
  have r'_less: "r' < send_receive_buffer_size"
    using i(1,2) r' by simp
  have 1: "sl' \<le> k - n" "p + sl' \<le> send_receive_buffer_size" "sl' = 0 \<longrightarrow> p = r'"
    using c p_less r'_less unfolding sl' by (auto split: if_splits)
  have 2: "r' + (if rl = 0 then n else rl) \<le> send_receive_buffer_size"
    "k - n + (if rl = 0 then n else rl) \<le> send_receive_buffer_size"
    "(if rl = 0 then n else rl) = 0 \<longleftrightarrow> k - n = send_receive_buffer_size"
    using i assms(2) unfolding r' by auto
  show "ring_ok (took_bytes n h)"
    unfolding ring_ok_def Let_def count f sl' [symmetric] wsabuf.select_convs
    by (intro conjI p_less r'_less 1 2)
qed

lemma ring_count_bound: "ring_ok h \<Longrightarrow> ring_count h \<le> send_receive_buffer_size"
  by (auto simp: ring_ok_def Let_def)

lemma put_bytes_content:
  assumes "ring_ok h" "bs \<noteq> []" "length bs \<le> wb_len (recv_buf h)"
  shows "ring_content (put_bytes bs h) = ring_content h @ bs"
proof (rule nth_equalityI)
  let ?s = "wb_buf (send_buf h)" and ?r = "wb_buf (recv_buf h)" and ?k = "ring_count h"
  show "length (ring_content (put_bytes bs h)) = length (ring_content h @ bs)"
    by (simp add: ring_content_def put_bytes_ok [OF assms])
  have i: "?s < send_receive_buffer_size" "?r < send_receive_buffer_size" "wb_len (send_buf h) = 0 \<longrightarrow> ?s = ?r"
    "?r + length bs \<le> send_receive_buffer_size" "?k + length bs \<le> send_receive_buffer_size"
    using assms(1,3) by (auto simp: ring_ok_def Let_def)
  have k: "?r = ring_wrap (?s + ?k)"
    using i by (auto simp: ring_count_def ring_wrap_def)
  have f: "wb_buf (send_buf (put_bytes bs h)) = ?s" "ring (put_bytes bs h) = ring (deposit bs h)"
    using i(3) by (auto simp: put_bytes_def Let_def advance_recv_def start_send_def deposit_def)
  fix j
  assume "j < length (ring_content (put_bytes bs h))"
  then have j: "j < ?k + length bs"
    by (simp add: ring_content_def put_bytes_ok [OF assms])
  then have at: "ring_content (put_bytes bs h) ! j = ring (deposit bs h) (ring_wrap (?s + j))"
    by (simp add: ring_content_def put_bytes_ok [OF assms] f)
  show "ring_content (put_bytes bs h) ! j = (ring_content h @ bs) ! j"
  proof (cases "j < ?k")
    case True
    then have "ring_wrap (?s + j) < ?r \<or> ?r + length bs \<le> ring_wrap (?s + j)"
      using i k by (auto simp: ring_wrap_def split: if_splits)
    with True at show ?thesis
      by (auto simp: deposit_def ring_content_def nth_append)
  next
    case False
    then obtain d where d: "j = ?k + d"
      by (metis le_add_diff_inverse not_less)
    then have "ring_wrap (?s + j) = ?r + d"
      using i(1,4,5) j unfolding k by (auto simp: ring_wrap_def split: if_splits)
    with d j have "ring_content (put_bytes bs h) ! j = bs ! d"
      unfolding at by (simp add: deposit_def)
    with d show ?thesis
      by (simp add: nth_append ring_content_def [of h])
  qed
qed

lemma took_bytes_content:
  assumes "ring_ok h" "0 < n" "n \<le> wb_len (send_buf h)"
  shows "ring_content (took_bytes n h) = drop n (ring_content h)"
proof (rule nth_equalityI)
  let ?s = "wb_buf (send_buf h)"
  show "length (ring_content (took_bytes n h)) = length (drop n (ring_content h))"
    by (simp add: ring_content_def took_bytes_ok [OF assms])
  have i: "?s + n \<le> send_receive_buffer_size" "ring_count h \<le> send_receive_buffer_size"
    using assms by (auto simp: ring_ok_def Let_def)
  fix j
  assume "j < length (ring_content (took_bytes n h))"
  then have j: "j < ring_count h - n"
    by (simp add: ring_content_def took_bytes_ok [OF assms])
  have "ring_wrap (wb_buf (send_buf (took_bytes n h)) + j) = ring_wrap (?s + (n + j))"
    using i j assms(2) unfolding took_bytes_fields(2) [OF refl refl refl refl refl] by (auto simp: ring_wrap_def)
  with j show "ring_content (took_bytes n h) ! j = drop n (ring_content h) ! j"
    by (simp add: ring_content_def took_bytes_ok [OF assms] took_bytes_fields(4) [OF refl refl refl refl refl] less_diff_conv add.commute)
qed

interpretation relay: byte_channel ring_ok ring_content "\<lambda>h. wb_len (recv_buf h)" "\<lambda>h. wb_len (send_buf h)"
  put_bytes took_bytes send_receive_buffer_size
proof unfold_locales
  show "(0 :: nat) < send_receive_buffer_size"
    by (simp add: send_receive_buffer_size_def)
next
  fix h
  assume "ring_ok h"
  then show "wb_len (send_buf h) = 0 \<longleftrightarrow> ring_content h = []" "wb_len (send_buf h) \<le> length (ring_content h)"
    "wb_len (recv_buf h) = 0 \<longleftrightarrow> length (ring_content h) = send_receive_buffer_size"
    "length (ring_content h) \<le> send_receive_buffer_size"
    by (auto simp: ring_ok_def ring_content_def ring_count_def Let_def split: if_splits)
qed (simp_all add: put_bytes_ok put_bytes_content took_bytes_ok took_bytes_content)

section \<open>A relayed connection\<close>

text \<open>
  A run of the relay: the socket with what each side has sent (\<open>got\<close>) and been given (\<open>given\<close>),
  by the side (true is local), and the requests outstanding at the operating system.  An end of
  stream or an error of a request reaches \<^verbatim>\<open>close_client\<close> through the completion callback of the
  server; a closed socket transfers nothing any more.
\<close>

record relay_system =
  sock :: tcp_proxy_socket
  got :: "bool \<Rightarrow> u8 list"
  given :: "bool \<Rightarrow> u8 list"
  outstanding :: "io_request set"

definition relay_open :: "tcp_proxy_socket \<Rightarrow> bool" where
  "relay_open s \<longleftrightarrow> local_open s \<and> remote_open s \<and> status s = client_established"

inductive relay_step :: "relay_system \<Rightarrow> relay_system \<Rightarrow> bool" where
  received: "socket_open d (sock y) \<Longrightarrow> bs \<noteq> [] \<Longrightarrow> length bs \<le> wb_len (recv_buf (half d (sock y))) \<Longrightarrow>
    process_receive_buffer_complete now send_ok recv_ok (length bs) d (update_half d (deposit bs) (sock y)) = (requests, s') \<Longrightarrow>
    relay_step y (y\<lparr>sock := s', got := (got y)(d := got y d @ bs),
      outstanding := outstanding y - {recv_request d (sock y)} \<union> set requests\<rparr>)"
| sent: "socket_open d (sock y) \<Longrightarrow> 0 < n \<Longrightarrow> h = half (\<not> d) (sock y) \<Longrightarrow> n \<le> wb_len (send_buf h) \<Longrightarrow>
    process_send_buffer_complete now send_ok recv_ok n d (sock y) = (requests, s') \<Longrightarrow>
    relay_step y (y\<lparr>sock := s',
      given := (given y)(d := given y d @ map (ring h) [wb_buf (send_buf h)..<wb_buf (send_buf h) + n]),
      outstanding := outstanding y - {send_request d (sock y)} \<union> set requests\<rparr>)"
| failed: "relay_step y (y\<lparr>sock := close_client is_receive d (sock y)\<rparr>)"
| checked: "is_ready_for_removal now (sock y) = (removed, s') \<Longrightarrow> relay_step y (y\<lparr>sock := s'\<rparr>)"

definition relay_start :: "time_point \<Rightarrow> bool \<Rightarrow> bool \<Rightarrow> relay_system" where
  "relay_start now local_ok remote_ok =
     (let (ok, requests, s) = start_data_relay local_ok remote_ok
            (snd (associate_to_completion_port True True (new_tcp_proxy_socket now)))
      in \<lparr>sock = s, got = (\<lambda>_. []), given = (\<lambda>_. []), outstanding = set requests\<rparr>)"

definition relay_reachable :: "relay_system \<Rightarrow> bool" where
  "relay_reachable y \<longleftrightarrow> (\<exists>now local_ok remote_ok. relay_step\<^sup>*\<^sup>* (relay_start now local_ok remote_ok) y)"

section \<open>The handlers as channel operations\<close>

lemma half_update [simp]:
  "half d (update_half d f s) = f (half d s)" "half (\<not> d) (update_half d f s) = half (\<not> d) s"
  "half d (update_half (\<not> d) f s) = half d s"
  by (auto simp: half_def update_half_def)

lemma update_half_cong: "f (half d s) = g (half d s) \<Longrightarrow> update_half d f s = update_half d g s"
  by (auto simp: half_def update_half_def)

lemma update_half_others [simp]:
  "local_open (update_half d f s) = local_open s" "remote_open (update_half d f s) = remote_open s"
  "status (update_half d f s) = status s" "timestamp (update_half d f s) = timestamp s"
  by (simp_all add: update_half_def)

lemma update_half_update [simp]: "update_half d f (update_half d g s) = update_half d (\<lambda>h. f (g h)) s"
  by (simp add: update_half_def)

lemma update_half_timestamp [simp]: "(update_half d f s)\<lparr>timestamp := now\<rparr> = update_half d f (s\<lparr>timestamp := now\<rparr>)"
  by (simp add: update_half_def)

lemma half_timestamp [simp]: "half d (s\<lparr>timestamp := now\<rparr>) = half d s"
  by (simp add: half_def)

lemma close_client_closed [simp]:
  "\<not> local_open (close_client r d s)" "\<not> remote_open (close_client r d s)"
  by (simp_all add: close_client_def Let_def)

definition relay_closed :: "tcp_proxy_socket \<Rightarrow> bool" where
  "relay_closed s \<longleftrightarrow> \<not> local_open s \<and> \<not> remote_open s"

lemma relay_closed_simps [simp]:
  "relay_closed (close_client r d s)" "relay_closed (update_half d f s) \<longleftrightarrow> relay_closed s"
  by (simp_all add: relay_closed_def)

text \<open>An accepted completion is one channel operation; a refused call closes both sockets.\<close>

lemma receive_result:
  assumes "relay_open s"
    and "process_receive_buffer_complete now send_ok recv_ok (length bs) d (update_half d (deposit bs) s) = (requests, s')"
  shows "relay_closed s' \<or> s' = update_half d (put_bytes bs) (s\<lparr>timestamp := now\<rparr>) \<and>
    requests = (if wb_len (send_buf (half d s)) = 0 then [send_request (\<not> d) s'] else []) @
      (if wb_len (recv_buf (half d s')) = 0 then [] else [recv_request d s'])"
proof -
  let ?n = "length bs" and ?s = "s\<lparr>timestamp := now\<rparr>"
  have k: "send_buf (deposit bs h) = send_buf h" "send_buf (advance_recv n h) = send_buf h" for n h
    by (simp_all add: deposit_def advance_recv_def Let_def)
  show ?thesis
  proof (cases "wb_len (send_buf (half d s)) = 0")
    case True
    then have e: "update_half d (put_bytes bs) ?s = update_half d (\<lambda>h. advance_recv ?n (start_send ?n (deposit bs h))) ?s"
      by (intro update_half_cong) (simp add: put_bytes_def k)
    show ?thesis
      using assms True unfolding e
      by (auto simp: process_receive_buffer_complete_def relay_open_def Let_def send_request_def recv_request_def k
          split: if_splits)
  next
    case False
    then have e: "update_half d (put_bytes bs) ?s = update_half d (\<lambda>h. advance_recv ?n (deposit bs h)) ?s"
      by (intro update_half_cong) (simp add: put_bytes_def k)
    show ?thesis
      using assms False unfolding e
      by (auto simp: process_receive_buffer_complete_def relay_open_def Let_def recv_request_def k split: if_splits)
  qed
qed

lemma send_result:
  assumes "relay_open s" "0 < n"
    and "process_send_buffer_complete now send_ok recv_ok n d s = (requests, s')"
    and "ring_ok (half (\<not> d) s)" "n \<le> wb_len (send_buf (half (\<not> d) s))"
  shows "relay_closed s' \<or> s' = update_half (\<not> d) (took_bytes n) (s\<lparr>timestamp := now\<rparr>) \<and>
    requests = (if wb_len (recv_buf (half (\<not> d) s)) = 0 then [recv_request (\<not> d) s'] else []) @
      (if wb_len (send_buf (half (\<not> d) s')) = 0 then [] else [send_request d s'])"
proof -
  let ?h = "half (\<not> d) s" and ?s = "s\<lparr>timestamp := now\<rparr>"
  define g where "g = (if wb_len (recv_buf ?h) = 0 then restart_recv n else (\<lambda>h. h))"
  let ?H = "advance_send n (g ?h)"
  have k: "recv_buf (advance_send m h) = recv_buf h" "recv_buf (clear_send h) = recv_buf h"
    "recv_buf (remaining_send h) = recv_buf h" "wb_buf (send_buf (remaining_send h)) = wb_buf (send_buf h)" for m h
    by (simp_all add: advance_send_def clear_send_def remaining_send_def Let_def)
  have "send_buf (g ?h) = send_buf ?h"
    by (simp add: g_def restart_recv_def)
  then have "wb_buf (send_buf ?H) < send_receive_buffer_size"
    using assms(2,4,5) by (auto simp: advance_send_def ring_ok_def Let_def)
  then have p: "wb_len (send_buf (remaining_send ?H)) \<noteq> 0" if "wb_buf (send_buf ?H) \<noteq> wb_buf (recv_buf ?H)"
    using that by (auto simp: remaining_send_def)
  define first where "first = update_half (\<not> d) g ?s"
  have first: "first = (if wb_len (recv_buf ?h) = 0 then update_half (\<not> d) (restart_recv n) ?s else ?s)"
    by (simp add: first_def g_def update_half_def)
  have reqs: "(if wb_len (recv_buf ?h) = 0 \<and> \<not> recv_ok then relay_closed s'
     else if wb_buf (send_buf ?H) = wb_buf (recv_buf ?H)
     then s' = update_half (\<not> d) clear_send (update_half (\<not> d) (advance_send n) first) \<and>
       requests = (if wb_len (recv_buf ?h) = 0 then [recv_request (\<not> d) first] else [])
     else if \<not> send_ok then relay_closed s'
     else s' = update_half (\<not> d) remaining_send (update_half (\<not> d) (advance_send n) first) \<and>
       requests = (if wb_len (recv_buf ?h) = 0 then [recv_request (\<not> d) first] else []) @ [send_request d s'])"
    using assms(1-3) p unfolding first g_def
    by (auto simp: process_send_buffer_complete_def relay_open_def Let_def k restart_recv_def split: if_splits)
  have e: "update_half (\<not> d) (took_bytes n) ?s =
      (if wb_buf (send_buf ?H) = wb_buf (recv_buf ?H)
       then update_half (\<not> d) clear_send (update_half (\<not> d) (advance_send n) first)
       else update_half (\<not> d) remaining_send (update_half (\<not> d) (advance_send n) first))"
    unfolding first_def by (auto simp: took_bytes_def g_def Let_def intro!: update_half_cong)
  show ?thesis
    using reqs p unfolding e
    by (auto simp: recv_request_def first_def k clear_send_def split: if_splits)
qed

section \<open>Invariant of a relayed connection\<close>

text \<open>The requests the descriptors of an open connection stand for.\<close>

definition posted_requests :: "bool \<Rightarrow> tcp_proxy_socket \<Rightarrow> io_request set" where
  "posted_requests d s =
     (if wb_len (recv_buf (half d s)) = 0 then {} else {recv_request d s}) \<union>
     (if wb_len (send_buf (half d s)) = 0 then {} else {send_request (\<not> d) s})"

definition relay_inv :: "relay_system \<Rightarrow> bool" where
  "relay_inv y \<longleftrightarrow> (\<forall>d. prefix (given y (\<not> d)) (got y d)) \<and>
     (relay_closed (sock y) \<or> relay_open (sock y) \<and>
        (\<forall>d. relay.carries_stream (got y d) (given y (\<not> d)) (half d (sock y))) \<and>
        outstanding y = posted_requests True (sock y) \<union> posted_requests False (sock y))"

lemma posted_requests_other [simp]:
  "posted_requests (\<not> d) (update_half d f s) = posted_requests (\<not> d) s"
  "posted_requests d (update_half (\<not> d) f s) = posted_requests d s"
  "posted_requests d (s\<lparr>timestamp := now\<rparr>) = posted_requests d s"
  by (auto simp: posted_requests_def recv_request_def send_request_def)

lemma relay_open_update [simp]:
  "relay_open (update_half d f s) \<longleftrightarrow> relay_open s" "relay_open (s\<lparr>timestamp := now\<rparr>) \<longleftrightarrow> relay_open s"
  by (simp_all add: relay_open_def)

lemma requests_disjoint:
  "recv_request d s \<notin> posted_requests (\<not> d) s" "send_request d s \<notin> posted_requests d s"
  by (auto simp: posted_requests_def recv_request_def send_request_def)

lemma posted_both: "posted_requests True s \<union> posted_requests False s = posted_requests d s \<union> posted_requests (\<not> d) s"
  by (cases d) auto

lemma sent_bytes:
  assumes "ring_ok h" "n \<le> wb_len (send_buf h)"
  shows "map (ring h) [wb_buf (send_buf h)..<wb_buf (send_buf h) + n] = take n (ring_content h)"
proof (rule nth_equalityI)
  have n: "n \<le> ring_count h" "wb_buf (send_buf h) + n \<le> send_receive_buffer_size"
    using assms by (auto simp: ring_ok_def Let_def)
  then show "length (map (ring h) [wb_buf (send_buf h)..<wb_buf (send_buf h) + n]) = length (take n (ring_content h))"
    by (simp add: ring_content_def)
  fix j
  assume "j < length (map (ring h) [wb_buf (send_buf h)..<wb_buf (send_buf h) + n])"
  with n show "map (ring h) [wb_buf (send_buf h)..<wb_buf (send_buf h) + n] ! j = take n (ring_content h) ! j"
    by (simp add: ring_content_def ring_wrap_def)
qed

lemma relay_inv_open:
  assumes "relay_inv y" "socket_open d (sock y)"
  shows "relay_open (sock y)" "relay.carries_stream (got y e) (given y (\<not> e)) (half e (sock y))"
    "outstanding y = posted_requests d (sock y) \<union> posted_requests (\<not> d) (sock y)"
proof -
  have "\<not> relay_closed (sock y)"
    using assms(2) by (auto simp: relay_closed_def socket_open_def split: if_splits)
  with assms(1) have o: "relay_open (sock y) \<and>
      (\<forall>d. relay.carries_stream (got y d) (given y (\<not> d)) (half d (sock y))) \<and>
      outstanding y = posted_requests True (sock y) \<union> posted_requests False (sock y)"
    unfolding relay_inv_def by blast
  then show "relay_open (sock y)" "relay.carries_stream (got y e) (given y (\<not> e)) (half e (sock y))"
    by blast+
  show "outstanding y = posted_requests d (sock y) \<union> posted_requests (\<not> d) (sock y)"
    using o by (simp only: posted_both [of _ d])
qed

lemma relay_invI:
  assumes "\<And>e. prefix (given y (\<not> e)) (got y e)" "relay_open (sock y)"
    and "\<And>e. relay.carries_stream (got y e) (given y (\<not> e)) (half e (sock y))"
    and "outstanding y = posted_requests d (sock y) \<union> posted_requests (\<not> d) (sock y)"
  shows "relay_inv y"
  using assms unfolding relay_inv_def posted_both [of _ d] by blast

lemma received_inv:
  assumes inv: "relay_inv y" and pre: "socket_open d (sock y)" "bs \<noteq> []" "length bs \<le> wb_len (recv_buf (half d (sock y)))"
    and step: "process_receive_buffer_complete now send_ok recv_ok (length bs) d (update_half d (deposit bs) (sock y)) = (requests, s')"
  shows "relay_inv (y\<lparr>sock := s', got := (got y)(d := got y d @ bs),
    outstanding := outstanding y - {recv_request d (sock y)} \<union> set requests\<rparr>)"
proof -
  let ?s = "sock y"
  note i = relay_inv_open [OF inv pre(1)]
  from i have o: "relay_open ?s" and c: "\<And>d. relay.carries_stream (got y d) (given y (\<not> d)) (half d ?s)"
    and out: "outstanding y = posted_requests d ?s \<union> posted_requests (\<not> d) ?s"
    by simp_all
  have prefixes: "prefix (given y (\<not> e)) (((got y)(d := got y d @ bs)) e)" for e
  proof -
    have "prefix (given y (\<not> e)) (got y e)"
      using inv by (simp add: relay_inv_def)
    then show ?thesis
      by (auto simp: prefix_prefix)
  qed
  show ?thesis
  proof (cases "relay_closed s'")
    case True
    then show ?thesis
      using prefixes by (simp add: relay_inv_def)
  next
    case False
    with receive_result [OF o step] have s': "s' = update_half d (put_bytes bs) (?s\<lparr>timestamp := now\<rparr>)"
      "requests = (if wb_len (send_buf (half d ?s)) = 0 then [send_request (\<not> d) s'] else []) @
        (if wb_len (recv_buf (half d s')) = 0 then [] else [recv_request d s'])"
      by auto
    have "relay.carries_stream (got y d @ bs) (given y (\<not> d)) (half d s')"
      using relay.carries_put [OF c pre(2,3)] by (simp add: s'(1))
    moreover have "relay.carries_stream (got y (\<not> d)) (given y d) (half (\<not> d) s')"
      using c [of "\<not> d"] by (simp add: s'(1))
    ultimately have streams: "relay.carries_stream (((got y)(d := got y d @ bs)) e) (given y (\<not> e)) (half e s')" for e
      by (cases "e = d") auto
    have k: "wb_len (send_buf (half d ?s)) \<noteq> 0 \<Longrightarrow> send_buf (half d s') = send_buf (half d ?s)"
      "wb_len (send_buf (half d s')) \<noteq> 0"
      using pre(2) by (auto simp: s'(1) put_bytes_def Let_def advance_recv_def start_send_def deposit_def)
    then have mine: "posted_requests d s' = posted_requests d ?s - {recv_request d ?s} \<union> set requests"
      by (auto simp: s'(2) posted_requests_def recv_request_def send_request_def)
    have "posted_requests (\<not> d) s' = posted_requests (\<not> d) ?s - {recv_request d ?s}"
      using requests_disjoint(1) by (simp add: s'(1))
    with mine have "outstanding y - {recv_request d ?s} \<union> set requests = posted_requests d s' \<union> posted_requests (\<not> d) s'"
      unfolding out by blast
    moreover have "relay_open s'"
      using o by (simp add: s'(1))
    ultimately show ?thesis
      using prefixes streams by (intro relay_invI [of _ d]) simp_all
  qed
qed

lemma sent_inv:
  assumes inv: "relay_inv y" and pre: "socket_open d (sock y)" "0 < n" "h = half (\<not> d) (sock y)" "n \<le> wb_len (send_buf h)"
    and step: "process_send_buffer_complete now send_ok recv_ok n d (sock y) = (requests, s')"
  shows "relay_inv (y\<lparr>sock := s',
    given := (given y)(d := given y d @ map (ring h) [wb_buf (send_buf h)..<wb_buf (send_buf h) + n]),
    outstanding := outstanding y - {send_request d (sock y)} \<union> set requests\<rparr>)"
proof -
  let ?s = "sock y" and ?bs = "map (ring h) [wb_buf (send_buf h)..<wb_buf (send_buf h) + n]"
  note i = relay_inv_open [OF inv pre(1)]
  from i have o: "relay_open ?s" and c: "\<And>d. relay.carries_stream (got y d) (given y (\<not> d)) (half d ?s)"
    and out: "outstanding y = posted_requests d ?s \<union> posted_requests (\<not> d) ?s"
    by simp_all
  have ok: "ring_ok h"
    using c [of "\<not> d"] pre(3) by (simp add: relay.carries_stream_def)
  have next_stream: "relay.carries_stream (got y (\<not> d)) (given y d @ ?bs) (took_bytes n h)"
    using relay.carries_took [OF c [of "\<not> d", folded pre(3)] pre(2,4)] sent_bytes [OF ok pre(4)] by simp
  have prefixes: "prefix (((given y)(d := given y d @ ?bs)) (\<not> e)) (got y e)" for e
  proof (cases "e = d")
    case True
    then show ?thesis
      using inv by (simp add: relay_inv_def)
  next
    case False
    then have "e = (\<not> d)"
      by auto
    then show ?thesis
      using next_stream by (simp add: relay.carries_stream_def)
  qed
  show ?thesis
  proof (cases "relay_closed s'")
    case True
    then show ?thesis
      using prefixes by (simp add: relay_inv_def)
  next
    case False
    with send_result [OF o pre(2) step] ok pre have s': "s' = update_half (\<not> d) (took_bytes n) (?s\<lparr>timestamp := now\<rparr>)"
      "requests = (if wb_len (recv_buf h) = 0 then [recv_request (\<not> d) s'] else []) @
        (if wb_len (send_buf (half (\<not> d) s')) = 0 then [] else [send_request d s'])"
      by auto
    have streams: "relay.carries_stream (got y e) (((given y)(d := given y d @ ?bs)) (\<not> e)) (half e s')" for e
      using next_stream c [of d] by (cases "e = d") (auto simp: s'(1) pre(3))
    note f = took_bytes_fields [OF refl refl refl refl refl, of n h]
    have "recv_buf (half (\<not> d) s') = (if wb_len (recv_buf h) = 0 then \<lparr>wb_buf = wb_buf (send_buf h), wb_len = n\<rparr> else recv_buf h)"
      using f(1) pre(3) by (simp add: s'(1))
    with pre(2) have mine: "posted_requests (\<not> d) s' = posted_requests (\<not> d) ?s - {send_request d ?s} \<union> set requests"
      by (auto simp: s'(2) posted_requests_def recv_request_def send_request_def pre(3) split: if_splits)
    have "posted_requests d s' = posted_requests d ?s - {send_request d ?s}"
      using requests_disjoint(2) by (simp add: s'(1))
    with mine have "outstanding y - {send_request d ?s} \<union> set requests = posted_requests d s' \<union> posted_requests (\<not> d) s'"
      unfolding out by blast
    moreover have "relay_open s'"
      using o by (simp add: s'(1))
    ultimately show ?thesis
      using prefixes streams by (intro relay_invI [of _ d]) simp_all
  qed
qed

lemma is_ready_for_removal_result:
  assumes "is_ready_for_removal now s = (removed, s')"
  shows "relay_closed s' \<or> s' = s" "relay_closed s \<Longrightarrow> relay_closed s'"
  using assms by (auto simp: is_ready_for_removal_def relay_closed_def split: if_splits)

lemma relay_step_inv: "relay_step y y' \<Longrightarrow> relay_inv y \<Longrightarrow> relay_inv y'"
proof (induction rule: relay_step.induct)
  case (received d y bs now send_ok recv_ok requests s')
  then show ?case
    by (intro received_inv)
next
  case (sent d y n h now send_ok recv_ok requests s')
  then show ?case
    by (intro sent_inv)
next
  case (failed y is_receive d)
  then show ?case
    by (simp add: relay_inv_def)
next
  case (checked now y removed s')
  then show ?case
    using is_ready_for_removal_result [OF checked(1)] by (auto simp: relay_inv_def)
qed

lemma relay_start_inv: "relay_inv (relay_start now local_ok remote_ok)"
proof (cases "local_ok \<and> remote_ok")
  case True
  have h: "half d (snd (associate_to_completion_port True True (new_tcp_proxy_socket now))) = new_relay_half" for d
    by (simp add: half_def associate_to_completion_port_def new_tcp_proxy_socket_def)
  have "relay_open (snd (associate_to_completion_port True True (new_tcp_proxy_socket now)))"
    by (simp add: relay_open_def associate_to_completion_port_def new_tcp_proxy_socket_def)
  with True show ?thesis
    by (intro relay_invI [of _ True])
      (auto simp: relay_start_def start_data_relay_def relay.carries_stream_def h new_relay_half_ok posted_requests_def,
       simp_all add: new_relay_half_def send_receive_buffer_size_def)
next
  case False
  then show ?thesis
    by (auto simp: relay_start_def start_data_relay_def relay_inv_def)
qed

lemma relay_reachable_inv: "relay_reachable y \<Longrightarrow> relay_inv y"
proof -
  have "relay_step\<^sup>*\<^sup>* y0 y \<Longrightarrow> relay_inv y0 \<Longrightarrow> relay_inv y" for y0
    by (induction rule: rtranclp_induct) (auto intro: relay_step_inv)
  then show "relay_reachable y \<Longrightarrow> relay_inv y"
    using relay_start_inv by (auto simp: relay_reachable_def)
qed

lemma relay_step_closed:
  assumes "relay_step y y'" "relay_closed (sock y)"
  shows "relay_closed (sock y') \<and> got y' = got y \<and> given y' = given y"
  using assms by induction (auto simp: relay_closed_def socket_open_def is_ready_for_removal_def split: if_splits)

section \<open>Properties\<close>

text \<open>
  C4: the relay is a queue of bytes in each direction.  Whatever the sizes of the completed
  receives and sends, their interleaving and the calls that fail, what one side has been given is
  a prefix of what the other side sent: nothing is lost in between, repeated or reordered.  While
  the connection is open the rest is in the ring, at most 64 KiB of it.
\<close>

theorem relay_delivers_in_order:
  assumes "relay_reachable y"
  shows "prefix (given y False) (got y True) \<and> prefix (given y True) (got y False) \<and>
    (relay_open (sock y) \<longrightarrow>
       got y True = given y False @ ring_content (from_local (sock y)) \<and>
       got y False = given y True @ ring_content (from_remote (sock y)) \<and>
       length (ring_content (from_local (sock y))) \<le> 65536 \<and> length (ring_content (from_remote (sock y))) \<le> 65536)"
proof -
  note inv = relay_reachable_inv [OF assms]
  have pre: "prefix (given y (\<not> True)) (got y True)" "prefix (given y (\<not> False)) (got y False)"
    using inv unfolding relay_inv_def by blast+
  have open_streams: "relay.carries_stream (got y d) (given y (\<not> d)) (half d (sock y))" if "relay_open (sock y)" for d
    using inv that unfolding relay_inv_def relay_open_def relay_closed_def by blast
  have "ring_ok (half d (sock y)) \<and> got y d = given y (\<not> d) @ ring_content (half d (sock y))" if "relay_open (sock y)" for d
    using open_streams [OF that] by (simp add: relay.carries_stream_def)
  from this [of True] this [of False] pre show ?thesis
    using relay.bounded by (auto simp: half_def send_receive_buffer_size_def)
qed

text \<open>
  C11: an open relay never stalls.  In each direction a receive is outstanding as long as the ring
  has room, and a send as long as it holds a byte, so at every moment one of them is.
\<close>

theorem relay_never_stalls:
  assumes "relay_reachable y" "relay_open (sock y)"
  shows "(length (ring_content (half d (sock y))) < 65536 \<longrightarrow> recv_request d (sock y) \<in> outstanding y) \<and>
    (ring_content (half d (sock y)) \<noteq> [] \<longrightarrow> send_request (\<not> d) (sock y) \<in> outstanding y)"
proof -
  note inv = relay_reachable_inv [OF assms(1)]
  have "socket_open d (sock y)"
    using assms(2) by (simp add: relay_open_def socket_open_def)
  note i = relay_inv_open [OF inv this]
  have "ring_ok (half d (sock y))"
    using i(2) [of d] by (simp add: relay.carries_stream_def)
  from relay.room_iff [OF this] relay.posted_iff [OF this] show ?thesis
    unfolding i(3) by (auto simp: posted_requests_def send_receive_buffer_size_def)
qed

text \<open>
  The end of the stream of one side closes both sockets at once.  What the ring still held for
  the other side is never delivered: the other side gets a proper prefix only.
\<close>

theorem close_discards_ring:
  assumes "relay_reachable y" "relay_open (sock y)" "ring_content (half d (sock y)) \<noteq> []"
    and "relay_step\<^sup>*\<^sup>* (y\<lparr>sock := close_client True d (sock y)\<rparr>) y'"
  shows "given y' (\<not> d) = given y (\<not> d) \<and> given y' (\<not> d) \<noteq> got y' d"
proof -
  have "relay_closed (sock y') \<and> got y' = got y \<and> given y' = given y"
    using assms(4)
  proof (induction rule: rtranclp_induct)
    case (step a b)
    then show ?case
      using relay_step_closed by metis
  qed simp
  moreover have "socket_open d (sock y)"
    using assms(2) by (simp add: relay_open_def socket_open_def)
  then have "got y d = given y (\<not> d) @ ring_content (half d (sock y))"
    using relay_inv_open(2) [OF relay_reachable_inv [OF assms(1)]] by (auto simp: relay.carries_stream_def)
  ultimately show ?thesis
    using assms(3) by simp
qed

section \<open>Witnesses\<close>

definition sample_relay :: relay_system where
  "sample_relay = (let (requests, s) = process_receive_buffer_complete 1 True True 2 False
       (update_half False (deposit [7, 8]) (sock (relay_start 0 True True)))
     in (relay_start 0 True True)\<lparr>sock := s, got := (\<lambda>_. [])(False := [7, 8]),
       outstanding := outstanding (relay_start 0 True True) - {recv_request False (sock (relay_start 0 True True))} \<union> set requests\<rparr>)"

lemma sample_relay_reachable: "relay_reachable sample_relay"
proof -
  obtain requests s where r: "process_receive_buffer_complete 1 True True 2 False
       (update_half False (deposit [7, 8]) (sock (relay_start 0 True True))) = (requests, s)"
    by fastforce
  have "relay_step (relay_start 0 True True) ((relay_start 0 True True)\<lparr>sock := s,
      got := (got (relay_start 0 True True))(False := got (relay_start 0 True True) False @ [7, 8]),
      outstanding := outstanding (relay_start 0 True True) - {recv_request False (sock (relay_start 0 True True))} \<union> set requests\<rparr>)"
  proof (rule relay_step.received)
    show "process_receive_buffer_complete 1 True True (length [7, 8 :: u8]) False
        (update_half False (deposit [7, 8]) (sock (relay_start 0 True True))) = (requests, s)"
      using r by (simp add: numeral_2_eq_2)
  qed (simp_all add: relay_start_def start_data_relay_def associate_to_completion_port_def
      new_tcp_proxy_socket_def new_relay_half_def socket_open_def half_def send_receive_buffer_size_def)
  moreover have "got (relay_start 0 True True) = (\<lambda>_. [])"
    by (simp add: relay_start_def start_data_relay_def)
  ultimately have "relay_step (relay_start 0 True True) sample_relay"
    by (simp add: sample_relay_def r)
  then show ?thesis
    unfolding relay_reachable_def by blast
qed

lemma sample_relay_state:
  "relay_open (sock sample_relay)" "ring_content (half False (sock sample_relay)) = [7, 8]"
  "got sample_relay False = [7, 8]" "given sample_relay True = []"
  by (simp_all add: sample_relay_def process_receive_buffer_complete_def relay_start_def start_data_relay_def
      associate_to_completion_port_def new_tcp_proxy_socket_def new_relay_half_def relay_open_def half_def update_half_def
      ring_content_def ring_count_def ring_wrap_def deposit_def advance_recv_def start_send_def Let_def
      send_receive_buffer_size_def upt_rec)

theorem relay_delivers_in_order_witness:
  "got sample_relay False = given sample_relay True @ ring_content (from_remote (sock sample_relay))"
  using relay_delivers_in_order [OF sample_relay_reachable] sample_relay_state(1) by simp

theorem relay_never_stalls_witness: "send_request True (sock sample_relay) \<in> outstanding sample_relay"
  using relay_never_stalls [OF sample_relay_reachable sample_relay_state(1), of False] sample_relay_state(2) by simp

theorem close_discards_ring_witness:
  "given (sample_relay\<lparr>sock := close_client True False (sock sample_relay)\<rparr>) True \<noteq>
   got (sample_relay\<lparr>sock := close_client True False (sock sample_relay)\<rparr>) False"
  using close_discards_ring [OF sample_relay_reachable sample_relay_state(1) _ rtranclp.rtrancl_refl, of False]
    sample_relay_state(2) by simp

end
