(* ===== verification/Socks5_Tcp.thy ===== *)
theory Socks5_Tcp
  imports Tcp_Relay Socks5_Protocol
begin

text \<open>
  \<^verbatim>\<open>socks5_tcp_proxy_socket\<close> (proxy/socks5_tcp_proxy_socket.h): the negotiation with the SOCKS5
  server on the remote socket before the data relay starts.  A state machine driven by completed
  receives; it never looks at the number of bytes received.
\<close>

datatype socks5_state = pre_login | login_sent | login_responded | password_sent | password_responded | connect_sent

text \<open>
  The answers are read into \<open>ident_resp\<close> and \<open>connect_response\<close>; \<open>awaiting\<close> is the length of the
  receive request that is posted for them, 0 when there is none.
\<close>

record 'a socks5_tcp_proxy_socket =
  base :: tcp_proxy_socket
  negotiate_ctx :: "'a negotiate_context option"
  current_state :: socks5_state
  ident_resp :: "u8 list"
  connect_response :: "u8 list"
  awaiting :: nat

definition new_socks5_tcp_proxy_socket ::
  "'a address_family \<Rightarrow> time_point \<Rightarrow> 'a negotiate_context option \<Rightarrow> 'a socks5_tcp_proxy_socket" where
  "new_socks5_tcp_proxy_socket family now ctx =
     \<lparr>base = snd (associate_to_completion_port True True (new_tcp_proxy_socket now)), negotiate_ctx = ctx,
      current_state = pre_login, ident_resp = new_ident_resp, connect_response = new_socks5_resp family, awaiting = 0\<rparr>"

definition close_negotiation :: "bool \<Rightarrow> 'a socks5_tcp_proxy_socket \<Rightarrow> 'a socks5_tcp_proxy_socket" where
  "close_negotiation is_receive s = s\<lparr>base := close_client is_receive False (base s)\<rparr>"

text \<open>
  The common shape of a step: send a message, enter a state, post a receive of \<open>len\<close> bytes.  The
  result holds the bytes that were sent; a refused call closes the sockets, but the step goes on.
\<close>

definition exchange ::
  "bool \<Rightarrow> bool \<Rightarrow> u8 list \<Rightarrow> socks5_state \<Rightarrow> nat \<Rightarrow> 'a socks5_tcp_proxy_socket \<Rightarrow>
   u8 list \<times> 'a socks5_tcp_proxy_socket" where
  "exchange send_ok recv_ok message next_state len s =
     (let s = (if send_ok then s else close_negotiation False s)\<lparr>current_state := next_state\<rparr>;
          s = (if recv_ok then s\<lparr>awaiting := len\<rparr> else close_negotiation True s)
      in (if send_ok then message else [], s))"

definition remote_negotiate ::
  "bool \<Rightarrow> bool \<Rightarrow> 'a socks5_tcp_proxy_socket \<Rightarrow> bool \<times> u8 list \<times> 'a socks5_tcp_proxy_socket" where
  "remote_negotiate send_ok recv_ok s =
     (case negotiate_ctx s of
        None \<Rightarrow> (True, [], s)
      | Some ctx \<Rightarrow>
          if current_state s = pre_login
          then (if send_ok
                then (False, exchange True recv_ok
                        (socks5_ident_req (if socks5_username ctx = None then [0] else [0, 2])) login_sent 2 s)
                else (False, [], close_negotiation False s))
          else (False, [], s))"

definition usable_credentials :: "'a negotiate_context \<Rightarrow> (string \<times> string) option" where
  "usable_credentials ctx =
     (case (socks5_username ctx, socks5_password ctx) of
        (Some u, Some p) \<Rightarrow>
          if length u \<le> socks5_username_max_length \<and> 1 \<le> length u \<and>
             length p \<le> socks5_username_max_length \<and> 1 \<le> length p
          then Some (u, p) else None
      | _ \<Rightarrow> None)"

definition send_connect ::
  "'a address_family \<Rightarrow> u8 \<Rightarrow> bool \<Rightarrow> bool \<Rightarrow> 'a negotiate_context \<Rightarrow> 'a socks5_tcp_proxy_socket \<Rightarrow>
   u8 list \<times> 'a socks5_tcp_proxy_socket" where
  "send_connect family address_type send_ok recv_ok ctx s =
     exchange send_ok recv_ok (socks5_req family 1 address_type (remote_address ctx) (remote_port ctx)) connect_sent
       (length (new_socks5_resp family)) s"

text \<open>
  \<^verbatim>\<open>process_receive_negotiate_complete\<close>.  The result holds the bytes sent and whether the relay was
  started; \<open>None\<close> is a null context or the end of the program in \<^verbatim>\<open>strcpy_s\<close>.  Without
  authentication the address type is always 1, after a password it follows the family.
\<close>

definition method_chosen ::
  "'a address_family \<Rightarrow> bool \<Rightarrow> bool \<Rightarrow> 'a socks5_tcp_proxy_socket \<Rightarrow>
   (u8 list \<times> 'a socks5_tcp_proxy_socket) option" where
  "method_chosen family send_ok recv_ok s =
     (let s = s\<lparr>current_state := login_responded\<rparr> in
      if ident_resp s ! 0 \<noteq> 5 \<or> ident_resp s ! 1 = 0xFF then Some ([], close_negotiation True s)
      else case negotiate_ctx s of
        None \<Rightarrow> None
      | Some ctx \<Rightarrow>
          if ident_resp s ! 1 = 2
          then (case usable_credentials ctx of
                  None \<Rightarrow> Some ([], close_negotiation True s)
                | Some (u, p) \<Rightarrow> do {
                    message \<leftarrow> username_auth_init u p;
                    Some (if message = [] then ([], s) else exchange send_ok recv_ok message password_sent 2 s)
                  })
          else Some (send_connect family 1 send_ok recv_ok ctx s))"

definition password_answered ::
  "'a address_family \<Rightarrow> bool \<Rightarrow> bool \<Rightarrow> 'a socks5_tcp_proxy_socket \<Rightarrow>
   (u8 list \<times> 'a socks5_tcp_proxy_socket) option" where
  "password_answered family send_ok recv_ok s =
     (let s = s\<lparr>current_state := password_responded\<rparr> in
      if ident_resp s ! 1 \<noteq> 0 then Some ([], close_negotiation True s)
      else case negotiate_ctx s of
        None \<Rightarrow> None
      | Some ctx \<Rightarrow> Some (send_connect family (if is_inet6 family then 4 else 1) send_ok recv_ok ctx s))"

definition connect_answered ::
  "bool \<Rightarrow> bool \<Rightarrow> 'a socks5_tcp_proxy_socket \<Rightarrow> bool \<times> 'a socks5_tcp_proxy_socket" where
  "connect_answered local_ok remote_ok s =
     (if connect_response s ! 1 \<noteq> 0 then (False, close_negotiation True s)
      else let (started, _, b) = start_data_relay local_ok remote_ok (base s) in (started, s\<lparr>base := b\<rparr>))"

definition process_receive_negotiate_complete ::
  "'a address_family \<Rightarrow> bool \<Rightarrow> bool \<Rightarrow> bool \<Rightarrow> 'a socks5_tcp_proxy_socket \<Rightarrow>
   (u8 list \<times> bool \<times> 'a socks5_tcp_proxy_socket) option" where
  "process_receive_negotiate_complete family send_ok recv_ok is_local s =
     (if is_local then Some ([], False, s)
      else if current_state s = login_sent then do {
        (message, s) \<leftarrow> method_chosen family send_ok recv_ok s;
        Some (message, False, s)
      }
      else if current_state s = password_sent then do {
        (message, s) \<leftarrow> password_answered family send_ok recv_ok s;
        Some (message, False, s)
      }
      else if current_state s = connect_sent then
        (let (started, s) = connect_answered send_ok recv_ok s in Some ([], started, s))
      else Some ([], False, s))"

text \<open>The operating system completes the posted receive with the bytes \<open>bs\<close>.\<close>

definition negotiate_read :: "u8 list \<Rightarrow> 'a socks5_tcp_proxy_socket \<Rightarrow> 'a socks5_tcp_proxy_socket" where
  "negotiate_read bs s =
     (if current_state s = connect_sent then s\<lparr>connect_response := read_into (connect_response s) bs, awaiting := 0\<rparr>
      else s\<lparr>ident_resp := read_into (ident_resp s) bs, awaiting := 0\<rparr>)"

text \<open>
  \<^verbatim>\<open>start\<close>: the local side has nothing to negotiate; without a context the relay starts at once.
\<close>

definition start_session ::
  "bool \<Rightarrow> bool \<Rightarrow> 'a socks5_tcp_proxy_socket \<Rightarrow> u8 list \<times> bool \<times> 'a socks5_tcp_proxy_socket" where
  "start_session send_ok recv_ok s =
     (let (negotiated, message, s) = remote_negotiate send_ok recv_ok s in
      if negotiated then (let (started, _, b) = start_data_relay send_ok recv_ok (base s) in (message, started, s\<lparr>base := b\<rparr>))
      else (message, False, s))"

section \<open>Runs\<close>

text \<open>
  A negotiation with all bytes sent to the server, the answers as they were read, and whether the
  relay was started.  The relay then owns the sockets: whatever it does to them is covered by the
  arbitrary new state in \<open>relay_active\<close>.
\<close>

record 'a negotiation =
  session_socket :: "'a socks5_tcp_proxy_socket"
  to_server :: "u8 list"
  from_server :: "u8 list list"
  relaying :: bool

inductive negotiation_reachable :: "'a address_family \<Rightarrow> 'a negotiate_context \<Rightarrow> 'a negotiation \<Rightarrow> bool" for family ctx where
  started: "start_session send_ok recv_ok (new_socks5_tcp_proxy_socket family now (Some ctx)) = (message, r, s) \<Longrightarrow>
    negotiation_reachable family ctx \<lparr>session_socket = s, to_server = message, from_server = [], relaying = r\<rparr>"
| answered: "negotiation_reachable family ctx y \<Longrightarrow> remote_open (base (session_socket y)) \<Longrightarrow> bs \<noteq> [] \<Longrightarrow>
    length bs \<le> awaiting (session_socket y) \<Longrightarrow>
    process_receive_negotiate_complete family send_ok recv_ok False (negotiate_read bs (session_socket y)) =
      Some (message, r, s) \<Longrightarrow>
    negotiation_reachable family ctx \<lparr>session_socket = s, to_server = to_server y @ message,
      from_server = from_server y @ [bs], relaying = (relaying y \<or> r)\<rparr>"
| closed: "negotiation_reachable family ctx y \<Longrightarrow>
    negotiation_reachable family ctx (y\<lparr>session_socket := (session_socket y)
      \<lparr>base := close_client is_receive is_local (base (session_socket y))\<rparr>\<rparr>)"
| relay_active: "negotiation_reachable family ctx y \<Longrightarrow> relaying y \<Longrightarrow>
    negotiation_reachable family ctx (y\<lparr>session_socket := (session_socket y)\<lparr>base := b\<rparr>\<rparr>)"

section \<open>Invariant\<close>

definition greeting :: "'a negotiate_context \<Rightarrow> u8 list" where
  "greeting ctx = (if socks5_username ctx = None then [5, 1, 0] else [5, 2, 0, 2])"

text \<open>The messages between the greeting and the request, and the address type that follows them.\<close>

definition login :: "'a address_family \<Rightarrow> 'a negotiate_context \<Rightarrow> u8 list list \<Rightarrow> u8 list \<Rightarrow> u8 \<Rightarrow> bool" where
  "login family ctx answers message address_type \<longleftrightarrow>
     message = [] \<and> address_type = 1 \<or>
     (\<exists>u p. usable_credentials ctx = Some (u, p) \<and> username_auth_init u p = Some message) \<and>
     answers \<noteq> [] \<and> hd answers = [5, 2] \<and> address_type = (if is_inet6 family then 4 else 1)"

definition connect_request :: "'a address_family \<Rightarrow> 'a negotiate_context \<Rightarrow> u8 \<Rightarrow> u8 list" where
  "connect_request family ctx address_type = socks5_req family 1 address_type (remote_address ctx) (remote_port ctx)"

definition connect_requested :: "'a address_family \<Rightarrow> 'a negotiate_context \<Rightarrow> 'a negotiation \<Rightarrow> bool" where
  "connect_requested family ctx y \<longleftrightarrow>
     (\<exists>message address_type. login family ctx (from_server y) message address_type \<and>
        to_server y = greeting ctx @ message @ connect_request family ctx address_type)"

definition password_requested :: "'a address_family \<Rightarrow> 'a negotiate_context \<Rightarrow> 'a negotiation \<Rightarrow> bool" where
  "password_requested family ctx y \<longleftrightarrow>
     (\<exists>message. login family ctx (from_server y) message (if is_inet6 family then 4 else 1) \<and> message \<noteq> [] \<and>
        to_server y = greeting ctx @ message)"

definition negotiation_inv :: "'a address_family \<Rightarrow> 'a negotiate_context \<Rightarrow> 'a negotiation \<Rightarrow> bool" where
  "negotiation_inv family ctx y \<longleftrightarrow>
     (let s = session_socket y; opened = remote_open (base s) in
      negotiate_ctx s = Some ctx \<and> (relaying y \<longrightarrow> current_state s = connect_sent) \<and>
      (case current_state s of
         login_sent \<Rightarrow> (opened \<longrightarrow> to_server y = greeting ctx \<and> from_server y = [] \<and> ident_resp s = [5, 0] \<and> awaiting s \<le> 2)
       | password_sent \<Rightarrow> (opened \<longrightarrow> password_requested family ctx y)
       | connect_sent \<Rightarrow> (opened \<or> relaying y \<longrightarrow> connect_requested family ctx y) \<and>
           (relaying y \<longrightarrow> awaiting s = 0 \<and> connect_response s ! 1 = 0)
       | _ \<Rightarrow> awaiting s = 0))"

lemma close_negotiation_simps [simp]:
  "negotiate_ctx (close_negotiation r s) = negotiate_ctx s" "current_state (close_negotiation r s) = current_state s"
  "\<not> remote_open (base (close_negotiation r s))" "awaiting (close_negotiation r s) = awaiting s"
  "ident_resp (close_negotiation r s) = ident_resp s" "connect_response (close_negotiation r s) = connect_response s"
  by (simp_all add: close_negotiation_def)

text \<open>What an exchange leaves: when the remote socket is still open, the message has been sent.\<close>

lemma exchange_result:
  assumes "exchange send_ok recv_ok message next_state len s = (sent, s')"
  shows "negotiate_ctx s' = negotiate_ctx s" "current_state s' = next_state" "ident_resp s' = ident_resp s"
    "connect_response s' = connect_response s"
    "remote_open (base s') \<Longrightarrow> sent = message \<and> awaiting s' = len \<and> base s' = base s"
  using assms by (auto simp: exchange_def Let_def split: if_splits)

lemma read_into_1: "bs \<noteq> [] \<Longrightarrow> length bs \<le> 2 \<Longrightarrow> read_into [5, 0] bs = [5, 2] \<longleftrightarrow> bs = [5, 2 :: u8]"
  by (cases bs; cases "tl bs") (auto simp: read_into_def)

lemma method_result:
  assumes "method_chosen family send_ok recv_ok s = Some (m, s')" "negotiate_ctx s = Some ctx"
  obtains (ended) "negotiate_ctx s' = Some ctx" "current_state s' = login_responded" "awaiting s' = awaiting s"
  | (password) "negotiate_ctx s' = Some ctx" "current_state s' = password_sent" "ident_resp s ! 0 = 5" "ident_resp s ! 1 = 2"
      "remote_open (base s') \<Longrightarrow> m \<noteq> [] \<and> (\<exists>u p. usable_credentials ctx = Some (u, p) \<and> username_auth_init u p = Some m)"
  | (connect) "negotiate_ctx s' = Some ctx" "current_state s' = connect_sent"
      "remote_open (base s') \<Longrightarrow> m = connect_request family ctx 1"
proof -
  let ?s = "s\<lparr>current_state := login_responded\<rparr>"
  consider "ident_resp s ! 0 \<noteq> 5 \<or> ident_resp s ! 1 = 0xFF \<or> ident_resp s ! 1 = 2 \<and> usable_credentials ctx = None"
    | u p where "ident_resp s ! 0 = 5" "ident_resp s ! 1 = 2" "usable_credentials ctx = Some (u, p)"
    | "ident_resp s ! 0 = 5" "ident_resp s ! 1 \<noteq> 0xFF" "ident_resp s ! 1 \<noteq> 2"
    by (cases "usable_credentials ctx") auto
  then show thesis
  proof cases
    case 1
    with assms show thesis
      by (intro ended) (auto simp: method_chosen_def Let_def split: if_splits)
  next
    case (2 u p)
    with assms obtain message where m: "username_auth_init u p = Some message"
      "(m, s') = (if message = [] then ([], ?s) else exchange send_ok recv_ok message password_sent 2 ?s)"
      by (auto simp: method_chosen_def Let_def bind_eq_Some_conv)
    show thesis
    proof (cases "message = []")
      case True
      with m(2) assms(2) show thesis
        by (intro ended) simp_all
    next
      case False
      with m(2) have e: "exchange send_ok recv_ok message password_sent 2 ?s = (m, s')"
        by simp
      show thesis
        using exchange_result [OF e] False m(1) 2 assms(2) by (intro password) auto
    qed
  next
    case 3
    with assms have e: "exchange send_ok recv_ok (connect_request family ctx 1) connect_sent (length (new_socks5_resp family)) ?s = (m, s')"
      by (simp add: method_chosen_def Let_def send_connect_def connect_request_def)
    show thesis
      using exchange_result [OF e] assms(2) by (intro connect) auto
  qed
qed

lemma password_result:
  assumes "password_answered family send_ok recv_ok s = Some (m, s')" "negotiate_ctx s = Some ctx"
  obtains (ended) "negotiate_ctx s' = Some ctx" "current_state s' = password_responded" "awaiting s' = awaiting s"
  | (connect) "negotiate_ctx s' = Some ctx" "current_state s' = connect_sent"
      "remote_open (base s') \<Longrightarrow> m = connect_request family ctx (if is_inet6 family then 4 else 1) \<and> remote_open (base s)"
proof (cases "ident_resp s ! 1 = 0")
  case False
  with assms show thesis
    by (intro ended) (auto simp: password_answered_def Let_def)
next
  case True
  with assms have e: "exchange send_ok recv_ok (connect_request family ctx (if is_inet6 family then 4 else 1)) connect_sent
      (length (new_socks5_resp family)) (s\<lparr>current_state := password_responded\<rparr>) = (m, s')"
    by (simp add: password_answered_def Let_def send_connect_def connect_request_def)
  show thesis
    using exchange_result [OF e] assms(2) by (intro connect) auto
qed

lemma login_append: "login family ctx answers message address_type \<Longrightarrow> login family ctx (answers @ later) message address_type"
  by (auto simp: login_def)

lemma answered_inv:
  assumes inv: "negotiation_inv family ctx y" and live: "remote_open (base (session_socket y))" "bs \<noteq> []" "length bs \<le> awaiting (session_socket y)"
    and step: "process_receive_negotiate_complete family send_ok recv_ok False (negotiate_read bs (session_socket y)) = Some (message, r, s)"
  shows "negotiation_inv family ctx \<lparr>session_socket = s, to_server = to_server y @ message,
      from_server = from_server y @ [bs], relaying = (relaying y \<or> r)\<rparr>"
proof -
  let ?s = "session_socket y" and ?t = "negotiate_read bs (session_socket y)"
  have t: "negotiate_ctx ?t = Some ctx" "current_state ?t = current_state ?s" "base ?t = base ?s" "awaiting ?t = 0"
    using inv by (auto simp: negotiation_inv_def negotiate_read_def Let_def)
  have quiet: "\<not> relaying y"
    using inv live(2,3) by (cases bs) (auto simp: negotiation_inv_def Let_def)
  show ?thesis
  proof (cases "current_state ?s")
    case login_sent
    with step t(2) obtain m where m: "method_chosen family send_ok recv_ok ?t = Some (message, s)" "\<not> r"
      by (auto simp: process_receive_negotiate_complete_def bind_eq_Some_conv)
    have now: "to_server y = greeting ctx" "from_server y = []" "ident_resp ?s = [5, 0]" "awaiting ?s \<le> 2"
      using inv live(1) login_sent by (simp_all add: negotiation_inv_def Let_def)
    then have i: "ident_resp ?t = read_into [5, 0] bs" "length bs \<le> 2"
      using login_sent live(3) by (simp_all add: negotiate_read_def)
    from m(1) t(1) show ?thesis
    proof (cases rule: method_result)
      case ended
      with t(4) quiet m(2) show ?thesis
        by (simp add: negotiation_inv_def Let_def)
    next
      case password
      have "read_into [5, 0] bs = [5, 2]"
        using password(3,4) i live(2) by (cases bs; cases "tl bs") (auto simp: read_into_def)
      then have "bs = [5, 2]"
        using read_into_1 [OF live(2) i(2)] by blast
      with password now quiet m(2) show ?thesis
        by (auto simp: negotiation_inv_def Let_def password_requested_def login_def)
    next
      case connect
      with now quiet m(2) show ?thesis
        by (auto simp: negotiation_inv_def Let_def connect_requested_def login_def)
    qed
  next
    case password_sent
    with step t(2) obtain m where m: "password_answered family send_ok recv_ok ?t = Some (message, s)" "\<not> r"
      by (auto simp: process_receive_negotiate_complete_def bind_eq_Some_conv)
    have now: "password_requested family ctx y"
      using inv live(1) password_sent by (simp add: negotiation_inv_def Let_def)
    from m(1) t(1) show ?thesis
    proof (cases rule: password_result)
      case ended
      with t(4) quiet m(2) show ?thesis
        by (simp add: negotiation_inv_def Let_def)
    next
      case connect
      from now obtain l where l: "login family ctx (from_server y) l (if is_inet6 family then 4 else 1)" "l \<noteq> []"
        "to_server y = greeting ctx @ l"
        by (auto simp: password_requested_def)
      then have l': "login family ctx (from_server y @ [bs]) l (if is_inet6 family then 4 else 1)"
        by (simp add: login_append)
      have "connect_requested family ctx \<lparr>session_socket = s, to_server = to_server y @ message,
          from_server = from_server y @ [bs], relaying = r\<rparr>" if "remote_open (base s)"
        unfolding connect_requested_def
        by (intro exI [of _ l] exI [of _ "if is_inet6 family then 4 else 1 :: u8"])
          (use connect(3) [OF that] l' in \<open>simp add: l\<close>)
      with connect quiet m(2) show ?thesis
        by (simp add: negotiation_inv_def Let_def)
    qed
  next
    case connect_sent
    have now: "connect_requested family ctx y"
      using inv live(1) connect_sent by (simp add: negotiation_inv_def Let_def)
    then have now': "connect_requested family ctx \<lparr>session_socket = s, to_server = to_server y, from_server = from_server y @ [bs], relaying = r\<rparr>"
      using login_append unfolding connect_requested_def by fastforce
    from step t(2) connect_sent have c: "connect_answered send_ok recv_ok ?t = (r, s)" "message = []"
      by (auto simp: process_receive_negotiate_complete_def split: prod.splits)
    have k: "negotiate_ctx s = Some ctx" "current_state s = connect_sent" "awaiting s = 0" "r \<Longrightarrow> connect_response s ! 1 = 0"
      using c(1) t connect_sent by (auto simp: connect_answered_def split: if_splits prod.splits)
    with now' c(2) quiet show ?thesis
      by (auto simp: negotiation_inv_def Let_def)
  qed (use step t inv quiet in \<open>auto simp: process_receive_negotiate_complete_def negotiation_inv_def Let_def\<close>)
qed

lemma started_inv:
  assumes "start_session send_ok recv_ok (new_socks5_tcp_proxy_socket family now (Some ctx)) = (message, r, s)"
  shows "negotiation_inv family ctx \<lparr>session_socket = s, to_server = message, from_server = [], relaying = r\<rparr>"
proof -
  have "socks5_ident_req (if socks5_username ctx = None then [0] else [0, 2]) = greeting ctx"
    by (simp add: socks5_ident_req_def greeting_def socks5_protocol_version_def)
  with assms show ?thesis
    by (auto simp: start_session_def remote_negotiate_def new_socks5_tcp_proxy_socket_def negotiation_inv_def exchange_def
        close_negotiation_def new_ident_resp_def socks5_protocol_version_def Let_def split: if_splits)
qed

lemma negotiation_reachable_inv: "negotiation_reachable family ctx y \<Longrightarrow> negotiation_inv family ctx y"
proof (induction rule: negotiation_reachable.induct)
  case (started send_ok recv_ok now message r s)
  then show ?case
    by (rule started_inv)
next
  case (answered y bs send_ok recv_ok message r s)
  show ?case
    by (rule answered_inv [OF answered(6,2,3,4,5)])
next
  case (closed y is_receive is_local)
  then show ?case
    by (auto simp: negotiation_inv_def Let_def connect_requested_def split: socks5_state.splits)
next
  case (relay_active y b)
  then show ?case
    by (auto simp: negotiation_inv_def Let_def connect_requested_def split: socks5_state.splits)
qed

section \<open>Properties\<close>

text \<open>
  C5: when the relay of a connection has started, the SOCKS5 server was sent the greeting, then
  user name and password only if it answered the greeting with exactly that method and the context
  has both, then a request for the context's destination, and nothing else; the reply field read
  was 0.  Without a password the request announces an IPv4 address, also for IPv6.
\<close>

theorem relay_needs_handshake:
  assumes "negotiation_reachable family ctx y" "relaying y"
  shows "\<exists>message address_type.
    to_server y = greeting ctx @ message @ socks5_req family 1 address_type (remote_address ctx) (remote_port ctx) \<and>
    (message = [] \<and> address_type = 1 \<or>
     hd (from_server y) = [5, 2] \<and> address_type = (if is_inet6 family then 4 else 1) \<and>
     (\<exists>u p. usable_credentials ctx = Some (u, p) \<and> username_auth_init u p = Some message)) \<and>
    connect_response (session_socket y) ! 1 = 0"
proof -
  have "connect_requested family ctx y \<and> connect_response (session_socket y) ! 1 = 0"
    using negotiation_reachable_inv [OF assms(1)] assms(2)
    by (auto simp: negotiation_inv_def Let_def split: socks5_state.splits)
  then obtain message address_type where *: "login family ctx (from_server y) message address_type"
    "to_server y = greeting ctx @ message @ connect_request family ctx address_type" "connect_response (session_socket y) ! 1 = 0"
    by (auto simp: connect_requested_def)
  then show ?thesis
    by (intro exI [of _ message] exI [of _ address_type]) (auto simp: login_def connect_request_def)
qed

text \<open>
  Answers cut short and methods nobody offered pass for success.  The relay starts after a
  server that chose any method but the password and the refusal, and of whose reply a single byte
  was read: the rest of the reply is then relayed to the application as data.
\<close>

theorem unfinished_answers_accepted:
  assumes "method \<noteq> 2" "method \<noteq> 0xFF"
  shows "\<exists>y. negotiation_reachable family ctx y \<and> relaying y \<and> from_server y = [[5, method], [5]]"
proof -
  let ?s0 = "new_socks5_tcp_proxy_socket family 0 (Some ctx)"
  let ?s1 = "?s0\<lparr>current_state := login_sent, awaiting := 2\<rparr>"
  let ?request = "connect_request family ctx 1"
  let ?s2 = "?s1\<lparr>ident_resp := [5, method], current_state := connect_sent, awaiting := length (new_socks5_resp family)\<rparr>"
  have o: "local_open (base ?s0)" "remote_open (base ?s0)"
    by (simp_all add: new_socks5_tcp_proxy_socket_def associate_to_completion_port_def new_tcp_proxy_socket_def)
  have "start_session True True ?s0 = (greeting ctx, False, ?s1)"
    by (simp add: start_session_def remote_negotiate_def new_socks5_tcp_proxy_socket_def exchange_def greeting_def
        socks5_ident_req_def socks5_protocol_version_def)
  from negotiation_reachable.started [OF this]
  have 1: "negotiation_reachable family ctx \<lparr>session_socket = ?s1, to_server = greeting ctx, from_server = [], relaying = False\<rparr>" .
  have "process_receive_negotiate_complete family True True False (negotiate_read [5, method] ?s1) = Some (?request, False, ?s2)"
    using assms by (simp add: process_receive_negotiate_complete_def negotiate_read_def method_chosen_def send_connect_def
        exchange_def connect_request_def new_socks5_tcp_proxy_socket_def read_into_def new_ident_resp_def)
  from negotiation_reachable.answered [OF 1, of "[5, method]" True True ?request False ?s2] this o
  have 2: "negotiation_reachable family ctx
      \<lparr>session_socket = ?s2, to_server = greeting ctx @ ?request, from_server = [[5, method]], relaying = False\<rparr>"
    by simp
  let ?s3 = "?s2\<lparr>connect_response := read_into (connect_response ?s2) [5], awaiting := 0\<rparr>"
  have "process_receive_negotiate_complete family True True False (negotiate_read [5] ?s2) = Some ([], True, ?s3)"
    by (simp add: process_receive_negotiate_complete_def negotiate_read_def connect_answered_def start_data_relay_def
        new_socks5_tcp_proxy_socket_def new_socks5_resp_def read_into_def)
  moreover have "1 \<le> awaiting ?s2"
    by (simp add: new_socks5_resp_def)
  ultimately have "negotiation_reachable family ctx
      \<lparr>session_socket = ?s3, to_server = greeting ctx @ ?request, from_server = [[5, method], [5]], relaying = True\<rparr>"
    using negotiation_reachable.answered [OF 2, of "[5]" True True "[]" True ?s3] o by simp
  then show ?thesis
    by fastforce
qed

section \<open>Witnesses\<close>

definition sample_context :: "ip_address_v6 negotiate_context" where
  "sample_context = \<lparr>remote_address = 0, remote_port = 443, socks5_username = None, socks5_password = None\<rparr>"

theorem unfinished_answers_accepted_witness:
  "\<exists>y. negotiation_reachable inet6 sample_context y \<and> relaying y \<and> from_server y = [[5, 3], [5]]"
  using unfinished_answers_accepted [of 3 inet6 sample_context] by simp

theorem relay_needs_handshake_witness:
  "\<exists>y :: ip_address_v6 negotiation. relaying y \<and> to_server y = [5, 1, 0] @ socks5_req inet6 1 1 0 443"
proof -
  obtain y where y: "negotiation_reachable inet6 sample_context y" "relaying y" "from_server y = [[5, 0], [5]]"
    using unfinished_answers_accepted [of 0 inet6 sample_context] by auto
  have "to_server y = [5, 1, 0] @ socks5_req inet6 1 1 0 443"
    using relay_needs_handshake [OF y(1,2)] y(3) by (auto simp: greeting_def sample_context_def)
  with y(2) show ?thesis
    by blast
qed

end
