(* ===== verification/Tcp_Server.thy ===== *)
theory Tcp_Server
  imports Socks5_Tcp
begin

text \<open>
  \<^verbatim>\<open>tcp_proxy_server\<close> (proxy/tcp_proxy_server.h): the local server the redirected connections arrive
  at.  It accepts a connection, asks for its peer, connects to the SOCKS5 server, and makes a
  session of the two sockets when that connection is established.  Its threads are modelled by
  their steps; the results of the Winsock calls are parameters.  Sockets are numbers.
\<close>

section \<open>State\<close>

definition connections_array_size :: nat where
  "connections_array_size = 64"

text \<open>
  An element of \<^verbatim>\<open>sock_array_events_\<close>: the accepted and the connecting socket; the first element is
  the server's own event.  \<open>closed_sockets\<close> records the calls of \<^verbatim>\<open>closesocket\<close>.
\<close>

record 'a pending_connection =
  accepted_socket :: "nat option"
  remote_socket :: "nat option"
  pending_ctx :: "'a negotiate_context option"

record 'a tcp_proxy_server =
  server_port :: u16
  listening :: bool
  end_server :: bool
  completion_key :: nat
  accepting :: bool
  sock_array_events :: "'a pending_connection list"
  proxy_sockets :: "'a socks5_tcp_proxy_socket list"
  closed_sockets :: "nat list"

section \<open>Construction, start and stop\<close>

record listen_results =
  socket_ok :: bool
  bind_ok :: bool
  name_result :: "u16 option"
  listen_ok :: bool

definition create_server_socket :: "listen_results \<Rightarrow> u16 \<Rightarrow> u16 option" where
  "create_server_socket env port =
     (if \<not> socket_ok env then None
      else if \<not> bind_ok env then None
      else do {
        port \<leftarrow> (if port = 0 then name_result env else Some port);
        if listen_ok env then Some port else None
      })"

definition new_tcp_proxy_server :: "listen_results \<Rightarrow> u16 \<Rightarrow> 'a tcp_proxy_server option" where
  "new_tcp_proxy_server env port = do {
     port \<leftarrow> create_server_socket env port;
     Some \<lparr>server_port = port, listening = True, end_server = True, completion_key = 0, accepting = False,
           sock_array_events = [], proxy_sockets = [], closed_sockets = []\<rparr>
   }"

definition start_server :: "nat option \<Rightarrow> nat option \<Rightarrow> 'a tcp_proxy_server \<Rightarrow> bool \<times> 'a tcp_proxy_server" where
  "start_server control io_key s =
     (if \<not> end_server s then (True, s)
      else let s = s\<lparr>end_server := False,
                     sock_array_events := sock_array_events s @ [\<lparr>accepted_socket = control, remote_socket = None, pending_ctx = None\<rparr>]\<rparr>
           in case control of
                None \<Rightarrow> (True, s\<lparr>accepting := True\<rparr>)
              | Some c \<Rightarrow>
                  (case io_key of
                     Some key \<Rightarrow> (True, s\<lparr>completion_key := key, accepting := True\<rparr>)
                   | None \<Rightarrow> (False, s\<lparr>sock_array_events := [], end_server := True, closed_sockets := closed_sockets s @ [c]\<rparr>)))"

definition sockets_of :: "'a pending_connection \<Rightarrow> nat list" where
  "sockets_of p = (case accepted_socket p of None \<Rightarrow> [] | Some a \<Rightarrow> [a]) @ (case remote_socket p of None \<Rightarrow> [] | Some r \<Rightarrow> [r])"

text \<open>The connecting thread closes the sockets of all elements when it ends.\<close>

definition stop_server :: "'a tcp_proxy_server \<Rightarrow> 'a tcp_proxy_server" where
  "stop_server s =
     (if end_server s then s
      else s\<lparr>end_server := True, listening := False, completion_key := 0, accepting := False,
             closed_sockets := closed_sockets s @ concat (map sockets_of (sock_array_events s)),
             sock_array_events := [], proxy_sockets := []\<rparr>)"

section \<open>Accepting and connecting\<close>

text \<open>
  The results of the calls on the connecting socket.  \<open>Failed\<close> is an error of \<^verbatim>\<open>connect\<close> other than
  that it is in progress.
\<close>

datatype connect_result = Connected | Would_block | Failed

record connect_results =
  new_socket :: "nat option"
  local_bind_ok :: bool
  event_ok :: bool
  select_ok :: bool
  connect_result :: connect_result

text \<open>\<open>peer\<close> is the answer of \<^verbatim>\<open>get_remote_peer\<close>.  The outcome \<open>Failed\<close> comes after the element was entered.\<close>

definition connect_to_remote_host ::
  "connect_results \<Rightarrow> 'a \<times> u16 \<times> 'a negotiate_context option \<Rightarrow> nat \<Rightarrow> 'a tcp_proxy_server \<Rightarrow>
   bool \<times> 'a tcp_proxy_server" where
  "connect_to_remote_host env peer accepted s =
     (let (remote_ip, remote_port, ctx) = peer in
      if remote_port = 0 then (False, s)
      else case new_socket env of
        None \<Rightarrow> (False, s)
      | Some r \<Rightarrow>
          let closed = s\<lparr>closed_sockets := closed_sockets s @ [r]\<rparr> in
          if \<not> local_bind_ok env then (False, closed)
          else if connections_array_size - 1 \<le> length (sock_array_events s) then (False, closed)
          else if \<not> event_ok env then (False, closed)
          else if \<not> select_ok env then (False, closed)
          else let entry = \<lparr>accepted_socket = Some accepted, remote_socket = Some r, pending_ctx = ctx\<rparr>;
                   s = s\<lparr>sock_array_events := sock_array_events s @ [entry]\<rparr>
               in if connect_result env = Failed then (False, s\<lparr>closed_sockets := closed_sockets s @ [r]\<rparr>)
                  else (True, s))"

text \<open>
  One round of the accepting thread, \<open>accepted\<close> being the result of \<^verbatim>\<open>WSAAccept\<close>.  It ends when there
  is no socket to accept from.
\<close>

definition accept_connection ::
  "connect_results \<Rightarrow> 'a \<times> u16 \<times> 'a negotiate_context option \<Rightarrow> nat option \<Rightarrow> 'a tcp_proxy_server \<Rightarrow>
   'a tcp_proxy_server" where
  "accept_connection env peer accepted s =
     (if \<not> accepting s then s
      else case (if listening s then accepted else None) of
        None \<Rightarrow> s\<lparr>accepting := False\<rparr>
      | Some a \<Rightarrow>
          if end_server s then s\<lparr>accepting := False\<rparr>
          else if connections_array_size \<le> length (sock_array_events s)
          then s\<lparr>closed_sockets := closed_sockets s @ [a]\<rparr>
          else case connect_to_remote_host env peer a s of
            (True, s) \<Rightarrow> s
          | (False, s) \<Rightarrow> s\<lparr>closed_sockets := closed_sockets s @ [a]\<rparr>)"

text \<open>
  One round of the connecting thread: the event of element \<open>i\<close> is signalled.  The session is made
  and started, or both sockets are closed when that throws.
\<close>

definition connection_signalled ::
  "'a address_family \<Rightarrow> time_point \<Rightarrow> bool \<Rightarrow> bool \<Rightarrow> bool \<Rightarrow> nat \<Rightarrow> 'a tcp_proxy_server \<Rightarrow> 'a tcp_proxy_server" where
  "connection_signalled family now init_ok send_ok recv_ok i s =
     (if i = 0 \<or> length (sock_array_events s) \<le> i then s
      else let entry = sock_array_events s ! i;
               s = s\<lparr>sock_array_events := take i (sock_array_events s) @ drop (Suc i) (sock_array_events s)\<rparr>
           in if init_ok
              then let (_, _, session) = start_session send_ok recv_ok (new_socks5_tcp_proxy_socket family now (pending_ctx entry))
                   in s\<lparr>proxy_sockets := proxy_sockets s @ [session]\<rparr>
              else s\<lparr>closed_sockets := closed_sockets s @ sockets_of entry\<rparr>)"

text \<open>One round of the clearing thread.\<close>

definition clear_sessions :: "time_point \<Rightarrow> 'a tcp_proxy_server \<Rightarrow> 'a tcp_proxy_server" where
  "clear_sessions now s =
     s\<lparr>proxy_sockets :=
         map (\<lambda>x. x\<lparr>base := snd (is_ready_for_removal now (base x))\<rparr>)
           (filter (\<lambda>x. \<not> fst (is_ready_for_removal now (base x))) (proxy_sockets s))\<rparr>"

section \<open>Completions\<close>

datatype proxy_io_operation = relay_io_read | relay_io_write | negotiate_io_read | negotiate_io_write | inject_io_write

text \<open>
  The callback of the completion port for a session: \<open>ok\<close> is the status of the operation.  A failed
  operation, and a read that ends the stream, close the session's sockets.
\<close>

definition completion_callback ::
  "'a address_family \<Rightarrow> time_point \<Rightarrow> bool \<Rightarrow> bool \<Rightarrow> bool \<Rightarrow> bool \<Rightarrow> nat \<Rightarrow> proxy_io_operation \<Rightarrow> bool \<Rightarrow>
   'a socks5_tcp_proxy_socket \<Rightarrow> (bool \<times> 'a socks5_tcp_proxy_socket) option" where
  "completion_callback family now send_ok recv_ok ended ok num_bytes op is_local x =
     (if ended then Some (False, x)
      else if (\<not> ok \<or> num_bytes = 0) \<and> (op = relay_io_read \<or> op = negotiate_io_read)
      then Some (False, x\<lparr>base := close_client True is_local (base x)\<rparr>)
      else if \<not> ok then Some (False, x\<lparr>base := close_client False is_local (base x)\<rparr>)
      else case op of
        relay_io_read \<Rightarrow>
          Some (True, x\<lparr>base := snd (process_receive_buffer_complete now send_ok recv_ok num_bytes is_local (base x))\<rparr>)
      | relay_io_write \<Rightarrow>
          Some (True, x\<lparr>base := snd (process_send_buffer_complete now send_ok recv_ok num_bytes is_local (base x))\<rparr>)
      | negotiate_io_read \<Rightarrow> do {
          (_, _, x) \<leftarrow> process_receive_negotiate_complete family send_ok recv_ok is_local x;
          Some (True, x)
        }
      | negotiate_io_write \<Rightarrow> Some (True, x\<lparr>base := (base x)\<lparr>timestamp := now\<rparr>\<rparr>)
      | inject_io_write \<Rightarrow> Some (True, x))"

section \<open>Runs of a server\<close>

inductive server_reachable :: "'a address_family \<Rightarrow> 'a tcp_proxy_server \<Rightarrow> bool" for family where
  built: "new_tcp_proxy_server env port = Some s \<Longrightarrow> server_reachable family s"
| started: "server_reachable family s \<Longrightarrow> server_reachable family (snd (start_server control io_key s))"
| stopped: "server_reachable family s \<Longrightarrow> server_reachable family (stop_server s)"
| accepted: "server_reachable family s \<Longrightarrow> server_reachable family (accept_connection results peer a s)"
| signalled: "server_reachable family s \<Longrightarrow>
    server_reachable family (connection_signalled family now init_ok send_ok recv_ok i s)"
| cleared: "server_reachable family s \<Longrightarrow> server_reachable family (clear_sessions now s)"
| completed: "server_reachable family s \<Longrightarrow> i < length (proxy_sockets s) \<Longrightarrow>
    completion_callback family now send_ok recv_ok (end_server s) ok n op is_local (proxy_sockets s ! i) = Some (r, x) \<Longrightarrow>
    server_reachable family (s\<lparr>proxy_sockets := (proxy_sockets s)[i := x]\<rparr>)"

definition server_ok :: "'a tcp_proxy_server \<Rightarrow> bool" where
  "server_ok s \<longleftrightarrow> (end_server s \<longrightarrow> sock_array_events s = [] \<and> proxy_sockets s = []) \<and>
     length (sock_array_events s) < connections_array_size \<and> (accepting s \<longrightarrow> \<not> end_server s)"

lemma connect_keeps:
  assumes "connect_to_remote_host env peer a s = (r, s')"
  shows "end_server s' = end_server s" "proxy_sockets s' = proxy_sockets s" "accepting s' = accepting s"
    "listening s' = listening s"
    "length (sock_array_events s) < connections_array_size \<Longrightarrow> length (sock_array_events s') < connections_array_size"
  using assms by (auto simp: connect_to_remote_host_def Let_def connections_array_size_def split: if_splits prod.splits option.splits)

lemma accept_ok: "server_ok s \<Longrightarrow> server_ok (accept_connection results peer a s)"
  by (auto simp: accept_connection_def server_ok_def connect_keeps split: option.splits prod.splits bool.splits)

lemma server_reachable_ok: "server_reachable family s \<Longrightarrow> server_ok s"
proof (induction rule: server_reachable.induct)
  case (accepted s results peer a)
  then show ?case
    by (simp add: accept_ok)
next
  case (completed s i now send_ok recv_ok ok n op is_local r x)
  then show ?case
    by (auto simp: server_ok_def)
qed (auto simp: server_ok_def new_tcp_proxy_server_def connections_array_size_def start_server_def stop_server_def
    connection_signalled_def clear_sessions_def Let_def bind_eq_Some_conv split: option.splits prod.splits)

section \<open>Properties\<close>

text \<open>
  C17: however connections are accepted, established and lost and the server is started and
  stopped, the array of pending connections has fewer than 64 elements, so all its events fit into
  one wait of the system.
\<close>

theorem pending_connections_bounded:
  assumes "server_reachable family s"
  shows "length (sock_array_events s) < 64"
  using server_reachable_ok [OF assms] by (simp add: server_ok_def connections_array_size_def)

fun accept_all ::
  "(connect_results \<times> ('a \<times> u16 \<times> 'a negotiate_context option) \<times> nat) list \<Rightarrow> 'a tcp_proxy_server \<Rightarrow> 'a tcp_proxy_server" where
  "accept_all [] s = s"
| "accept_all ((results, peer, a) # attempts) s = accept_all attempts (accept_connection results peer (Some a) s)"

definition fails_at_once :: "connect_results \<times> ('a \<times> u16 \<times> 'a negotiate_context option) \<times> nat \<Rightarrow> bool" where
  "fails_at_once = (\<lambda>(results, (ip, port, ctx), a). port \<noteq> 0 \<and> new_socket results \<noteq> None \<and> local_bind_ok results \<and>
     event_ok results \<and> select_ok results \<and> connect_result results = Failed)"

definition serving :: "'a tcp_proxy_server \<Rightarrow> bool" where
  "serving s \<longleftrightarrow> accepting s \<and> listening s \<and> \<not> end_server s"

lemma accept_serving: "serving s \<Longrightarrow> serving (accept_connection results peer (Some a) s)"
  by (auto simp: accept_connection_def serving_def connect_keeps split: prod.splits bool.splits)

lemma accept_failing:
  assumes "fails_at_once (results, peer, a)" "serving s" "length (sock_array_events s) < 64"
  shows "length (sock_array_events (accept_connection results peer (Some a) s)) = min 63 (Suc (length (sock_array_events s)))"
  using assms
  by (cases peer) (auto simp: accept_connection_def connect_to_remote_host_def fails_at_once_def serving_def
      connections_array_size_def Let_def min_def)

lemma accept_all_failing:
  "\<forall>x \<in> set attempts. fails_at_once x \<Longrightarrow> serving s \<Longrightarrow> length (sock_array_events s) < 64 \<Longrightarrow>
   serving (accept_all attempts s) \<and>
   length (sock_array_events (accept_all attempts s)) = min 63 (length (sock_array_events s) + length attempts)"
proof (induction attempts arbitrary: s)
  case (Cons x attempts)
  obtain results peer a where x: "x = (results, peer, a)"
    by (cases x) auto
  then have "length (sock_array_events (accept_connection results peer (Some a) s)) = min 63 (Suc (length (sock_array_events s)))"
    using Cons.prems by (intro accept_failing) simp_all
  with Cons.prems Cons.IH [of "accept_connection results peer (Some a) s"] accept_serving [of s results peer a] show ?case
    by (simp add: x)
qed simp

text \<open>
  A connection whose \<^verbatim>\<open>connect\<close> fails at once leaves its element behind.  After 62 of them a
  running server turns every further connection away: nothing is entered, and the accepted socket
  is closed.
\<close>

theorem failed_connects_exhaust_server:
  assumes "serving s" "length (sock_array_events s) = 1"
    and "\<forall>x \<in> set attempts. fails_at_once x" "62 \<le> length attempts"
  shows "\<exists>more. accept_connection results peer (Some a) (accept_all attempts s) =
    (accept_all attempts s)\<lparr>closed_sockets := closed_sockets (accept_all attempts s) @ more @ [a]\<rparr>"
proof -
  let ?s = "accept_all attempts s"
  have "serving ?s" "length (sock_array_events ?s) = 63"
    using accept_all_failing [OF assms(3,1)] assms(2,4) by simp_all
  moreover obtain ip port ctx where "peer = (ip, port, ctx)"
    by (cases peer)
  ultimately show ?thesis
    by (intro exI [of _ "if port = 0 then [] else case new_socket results of None \<Rightarrow> [] | Some r \<Rightarrow> [r]"])
      (auto simp: accept_connection_def connect_to_remote_host_def serving_def connections_array_size_def Let_def
        split: option.splits)
qed

text \<open>
  C39: \<^verbatim>\<open>stop\<close> closes the listening socket and \<^verbatim>\<open>start\<close> does not make a new one.  A server that was
  stopped and is started again reports success, but its accepting thread ends at once and the
  connections redirected to its port meet nobody.
\<close>

theorem restarted_server_never_accepts:
  assumes "server_reachable family s" "\<not> end_server s" "start_server control (Some io_key) (stop_server s) = (started, s')"
  shows "started \<and> \<not> listening s' \<and> \<not> end_server s' \<and> server_port s' = server_port s \<and>
    (\<forall>results peer a. accept_connection results peer a s' = s'\<lparr>accepting := False\<rparr>)"
  using assms by (cases control) (auto simp: start_server_def stop_server_def accept_connection_def Let_def)

text \<open>
  The completion callback on a relaying session is a step of the relay: a completed read or
  write goes to its handler, anything else that ends an operation closes the sockets.
\<close>

theorem callback_is_relay_step:
  assumes "completion_callback family now send_ok recv_ok False ok n op d x = Some (r, x')"
    and "op = relay_io_read \<or> op = relay_io_write" "socket_open d (sock y)"
    and "if ok \<and> 0 < n \<and> op = relay_io_read
         then length bs = n \<and> n \<le> wb_len (recv_buf (half d (sock y))) \<and> base x = update_half d (deposit bs) (sock y)
         else base x = sock y \<and> (ok \<longrightarrow> 0 < n) \<and> n \<le> wb_len (send_buf (half (\<not> d) (sock y)))"
  shows "\<exists>y'. relay_step y y' \<and> base x' = sock y'"
proof -
  have failed: "\<exists>y'. relay_step y y' \<and> close_client c d (sock y) = sock y'" for c
    by (intro exI [of _ "y\<lparr>sock := close_client c d (sock y)\<rparr>"]) (simp add: relay_step.failed)
  consider (read) "ok" "0 < n" "op = relay_io_read" | (sending) "ok" "0 < n" "op = relay_io_write" | (ended) "\<not> ok \<or> n = 0"
    using assms(2) by auto
  then show ?thesis
  proof cases
    case read
    with assms(4) have bs: "length bs = n" "n \<le> wb_len (recv_buf (half d (sock y)))" "base x = update_half d (deposit bs) (sock y)"
      by simp_all
    obtain requests s' where p: "process_receive_buffer_complete now send_ok recv_ok (length bs) d (update_half d (deposit bs) (sock y)) = (requests, s')"
      by fastforce
    have "bs \<noteq> []" "length bs \<le> wb_len (recv_buf (half d (sock y)))"
      using bs(1,2) read(2) by auto
    from relay_step.received [OF assms(3) this p] have "\<exists>y'. relay_step y y' \<and> s' = sock y'"
      by (intro exI conjI) (assumption, simp)
    moreover have "base x' = s'"
      using assms(1) read bs p by (auto simp: completion_callback_def)
    ultimately show ?thesis
      by simp
  next
    case sending
    with assms(4) have b: "base x = sock y" "n \<le> wb_len (send_buf (half (\<not> d) (sock y)))"
      by simp_all
    obtain requests s' where p: "process_send_buffer_complete now send_ok recv_ok n d (sock y) = (requests, s')"
      by fastforce
    from relay_step.sent [OF assms(3) sending(2) refl b(2) p] have "\<exists>y'. relay_step y y' \<and> s' = sock y'"
      by (intro exI conjI) (assumption, simp)
    moreover have "base x' = s'"
      using assms(1) sending b p by (auto simp: completion_callback_def)
    ultimately show ?thesis
      by simp
  next
    case ended
    with assms(1,2,4) have "\<exists>c. base x' = close_client c d (sock y)"
      by (auto simp: completion_callback_def split: if_splits)
    with failed show ?thesis
      by metis
  qed
qed

section \<open>Witnesses\<close>

definition sample_listen :: listen_results where
  "sample_listen = \<lparr>socket_ok = True, bind_ok = True, name_result = Some 7000, listen_ok = True\<rparr>"

definition sample_server :: "ip_address_v4 tcp_proxy_server" where
  "sample_server = \<lparr>server_port = 7000, listening = True, end_server = False, completion_key = 5, accepting = True,
     sock_array_events = [\<lparr>accepted_socket = Some 1, remote_socket = None, pending_ctx = None\<rparr>],
     proxy_sockets = [], closed_sockets = []\<rparr>"

lemma sample_server_reachable: "server_reachable inet sample_server"
proof -
  obtain s where s: "new_tcp_proxy_server sample_listen 0 = Some (s :: ip_address_v4 tcp_proxy_server)"
    by (auto simp: new_tcp_proxy_server_def create_server_socket_def sample_listen_def)
  then have "snd (start_server (Some 1) (Some 5) s) = sample_server"
    by (auto simp: new_tcp_proxy_server_def create_server_socket_def sample_listen_def start_server_def sample_server_def)
  with server_reachable.started [OF server_reachable.built [OF s]] show ?thesis
    by metis
qed

theorem pending_connections_bounded_witness: "length (sock_array_events sample_server) < 64"
  by (rule pending_connections_bounded [OF sample_server_reachable])

definition failing_attempt :: "connect_results \<times> (ip_address_v4 \<times> u16 \<times> ip_address_v4 negotiate_context option) \<times> nat" where
  "failing_attempt = (\<lparr>new_socket = Some 3, local_bind_ok = True, event_ok = True, select_ok = True, connect_result = Failed\<rparr>,
     (77, 1080, None), 2)"

theorem failed_connects_exhaust_server_witness:
  "\<exists>more. accept_connection (fst failing_attempt) (77, 1080, None) (Some 2) (accept_all (replicate 62 failing_attempt) sample_server) =
    (accept_all (replicate 62 failing_attempt) sample_server)
      \<lparr>closed_sockets := closed_sockets (accept_all (replicate 62 failing_attempt) sample_server) @ more @ [2]\<rparr>"
proof (rule failed_connects_exhaust_server)
  have "fails_at_once failing_attempt"
    by (simp add: fails_at_once_def failing_attempt_def)
  then show "\<forall>x \<in> set (replicate 62 failing_attempt). fails_at_once x"
    by (metis in_set_replicate)
qed (simp_all only: serving_def sample_server_def tcp_proxy_server.select_convs length_replicate, simp_all)

theorem restarted_server_never_accepts_witness:
  "\<not> listening (snd (start_server (Some 1) (Some 6) (stop_server sample_server)))"
  using restarted_server_never_accepts [OF sample_server_reachable, of "Some 1" 6]
  by (metis prod.collapse sample_server_def tcp_proxy_server.select_convs(3))

theorem callback_is_relay_step_witness:
  "\<exists>y'. relay_step sample_relay y' \<and> local_open (sock y') = False"
proof -
  define x where "x = (new_socks5_tcp_proxy_socket inet 0 None)\<lparr>base := sock sample_relay\<rparr>"
  have "completion_callback inet 3 True True False False 0 relay_io_read False x =
      Some (False, x\<lparr>base := close_client True False (sock sample_relay)\<rparr>)"
    by (simp add: completion_callback_def x_def)
  from callback_is_relay_step [OF this, of sample_relay] sample_relay_state(1)
  obtain y' where y': "relay_step sample_relay y'" "close_client True False (sock sample_relay) = sock y'"
    by (auto simp: relay_open_def socket_open_def x_def)
  from y'(2) have "\<not> local_open (sock y')"
    by (metis close_client_closed(1))
  with y'(1) show ?thesis
    by blast
qed

end
