(* ===== verification/Router_Sessions.thy ===== *)
theory Router_Sessions
  imports Router_Paths Tcp_Server
begin

text \<open>
  The router and its local TCP server together: what a connection of a routed process makes the
  session of the local server ask the SOCKS5 server for.
\<close>

lemma inet_bytes: "address_bytes inet (rd32 m i) = [m i, m (i + 1), m (i + 2), m (i + 3)]"
  by (simp add: inet_def rd32_def v4_byte_def le32_bytes upt_conv_Cons)

lemma port_bytes: "lo8 (rd16 m i) = m i" "hi8 (rd16 m i) = m (i + 1)"
  by (simp_all add: rd16_def)

text \<open>The bytes a relaying session has sent end with the request for its destination.\<close>

definition requested :: "ip_address_v4 negotiate_context \<Rightarrow> ip_address_v4 negotiation \<Rightarrow> u8 list \<Rightarrow> bool" where
  "requested ctx y destination \<longleftrightarrow> (\<exists>message. to_server y = greeting ctx @ message @ [5, 1, 0, 1] @ destination)"

lemma relaying_requested:
  assumes "negotiation_reachable inet ctx y" "relaying y"
  shows "requested ctx y (address_bytes inet (remote_address ctx) @ [lo8 (htons (remote_port ctx)), hi8 (htons (remote_port ctx))])"
proof -
  have "connect_requested inet ctx y"
    using negotiation_reachable_inv [OF assms(1)] assms(2)
    by (auto simp: negotiation_inv_def Let_def split: socks5_state.splits)
  moreover have "\<not> is_inet6 inet"
    by (simp add: inet_def)
  ultimately show ?thesis
    by (auto simp: requested_def connect_requested_def connect_request_def login_def socks5_req_def
        socks5_protocol_version_def)
qed

text \<open>The element a connection makes in the array of a server that has room and whose calls succeed.\<close>

definition connecting :: "connect_results \<Rightarrow> bool" where
  "connecting results \<longleftrightarrow> new_socket results \<noteq> None \<and> local_bind_ok results \<and> event_ok results \<and> select_ok results \<and>
     connect_result results \<noteq> Failed"

lemma accept_enters:
  assumes "serving s" "length (sock_array_events s) < 63" "connecting results" "fst (snd peer) \<noteq> 0"
  shows "sock_array_events (accept_connection results peer (Some a) s) = sock_array_events s @
    [\<lparr>accepted_socket = Some a, remote_socket = new_socket results, pending_ctx = snd (snd peer)\<rparr>]"
  using assms
  by (auto simp: accept_connection_def connect_to_remote_host_def serving_def connecting_def connections_array_size_def
      Let_def split: option.splits prod.splits)

section \<open>Properties\<close>

text \<open>
  C1: from the first packet of a routed connection to the request of its session.  The router turns
  the SYN to the local proxy; the server, asking for the peer within 30 seconds, enters the
  connection with the destination and the user of its SOCKS5 server; and a session of that element
  relays only after it has sent the SOCKS5 server, behind the greeting and at most one login, a
  request to connect to exactly the four address bytes and the two port bytes of the SYN.
\<close>

theorem proxied_connection_requests_destination:
  assumes "connects sys r port p app app_port server dest_port"
    and "redirected_connections (tcp_redirect r) (endpoint server app_port) = None"
    and "accepted - now \<le> seconds 30" "ep_port (lp_endpoint proxy) \<noteq> 0"
    and "serving s" "length (sock_array_events s) < 63" "connecting results"
  shows "\<exists>p1 r1 r2 peer ctx.
    filter_packet sys now allocated p r = Some (action_type_revert, p1, r1) \<and>
    carries (m_IBuffer p1) server app_port app (htons port) \<and>
    tcp_query_remote_peer accepted proxy (ntohs app_port) r1 = (peer, r2) \<and>
    sock_array_events (accept_connection results peer (Some a) s) = sock_array_events s @
      [\<lparr>accepted_socket = Some a, remote_socket = new_socket results, pending_ctx = Some ctx\<rparr>] \<and>
    (\<forall>y. negotiation_reachable inet ctx y \<and> relaying y \<longrightarrow>
       (let m = m_IBuffer p; t = ip_th m in
        requested ctx y [m 30, m 31, m 32, m 33, m (t + 2), m (t + 3)]))"
proof -
  let ?r1 = "connected now app_port server dest_port r" and ?m = "m_IBuffer p"
  obtain ctx where ctx: "snd (snd (peer_answer proxy server dest_port)) = Some ctx" "remote_address ctx = ip_dst ?m"
    "htons (remote_port ctx) = th_dport ?m (ip_th ?m)" "fst (snd (peer_answer proxy server dest_port)) \<noteq> 0"
    using assms(1,4) by (simp add: peer_answer_def connects_def carries_def)
  obtain m1 where s1: "filter_packet sys now allocated p r = Some (action_type_revert, p\<lparr>m_IBuffer := m1\<rparr>, ?r1)"
    "carries m1 server app_port app (htons port)"
    using syn_redirected [OF assms(1,2)] by blast
  have "requested ctx y [?m 30, ?m 31, ?m 32, ?m 33, ?m (ip_th ?m + 2), ?m (ip_th ?m + 3)]"
    if "negotiation_reachable inet ctx y" "relaying y" for y
    using relaying_requested [OF that]
    unfolding ctx(2,3) by (simp add: ip_dst_def inet_bytes th_dport_def port_bytes numeral_3_eq_3)
  then have "\<forall>y. negotiation_reachable inet ctx y \<and> relaying y \<longrightarrow>
      requested ctx y [?m 30, ?m 31, ?m 32, ?m 33, ?m (ip_th ?m + 2), ?m (ip_th ?m + 3)]"
    by blast
  moreover have "sock_array_events (accept_connection results (peer_answer proxy server dest_port) (Some a) s) = sock_array_events s @
      [\<lparr>accepted_socket = Some a, remote_socket = new_socket results, pending_ctx = Some ctx\<rparr>]"
    using accept_enters [OF assms(5-7) ctx(4), of a] by (simp only: ctx(1))
  ultimately show ?thesis
    using s1 query_connected [OF assms(3)] unfolding Let_def
    by (intro exI [of _ "p\<lparr>m_IBuffer := m1\<rparr>"] exI [of _ ctx] exI conjI) (assumption | simp only: s1 | simp)+
qed

section \<open>Witness\<close>

definition sample_results :: connect_results where
  "sample_results = \<lparr>new_socket = Some 8, local_bind_ok = True, event_ok = True, select_ok = True,
     connect_result = Would_block\<rparr>"

theorem proxied_connection_requests_destination_witness:
  "\<exists>p1 r1 r2 peer ctx.
    filter_packet sample_times 0 True (sample_tcp 10 3 20 80 2) routed_router = Some (action_type_revert, p1, r1) \<and>
    tcp_query_remote_peer 5 routed_server (ntohs (le16 3 0)) r1 = (peer, r2) \<and>
    sock_array_events (accept_connection sample_results peer (Some 7) sample_server) = sock_array_events sample_server @
      [\<lparr>accepted_socket = Some 7, remote_socket = Some 8, pending_ctx = Some ctx\<rparr>]"
proof -
  have "redirected_connections (tcp_redirect routed_router) (endpoint (le32 20 0 0 0) (le16 3 0)) = None"
    by (simp add: routed_router_simps sample_redirect_def)
  moreover have "ep_port (lp_endpoint routed_server) \<noteq> 0"
    by (simp add: routed_server_def sample_endpoint_def endpoint_def)
  moreover have "serving sample_server" "length (sock_array_events sample_server) < 63" "connecting sample_results"
    by (simp_all add: serving_def sample_server_def connecting_def sample_results_def)
  ultimately show ?thesis
    using proxied_connection_requests_destination [OF sample_connects, of 20 5 0 routed_server sample_server sample_results True 7]
    by (fastforce simp: sample_results_def)
qed

end
