(* ===== verification/Packet_Pool.thy ===== *)
theory Packet_Pool
  imports Prelude "HOL-Library.Multiset"
begin

text \<open>
  \<^verbatim>\<open>packet_pool\<close> (proxy/packet_pool.h): the buffers of the UDP relay in eight size classes, each with
  a bounded stack of free ones.  A buffer has an identity, so that sharing can be stated; the
  identity of a new one is a parameter.
\<close>

record net_packet =
  np_id :: nat
  np_len :: nat
  max_size :: nat
  np_data :: "nat \<Rightarrow> u8"

definition new_net_packet :: "nat \<Rightarrow> nat \<Rightarrow> net_packet" where
  "new_net_packet i n = \<lparr>np_id = i, np_len = n, max_size = n, np_data = (\<lambda>_. 0)\<rparr>"

text \<open>The length is set and the bytes are copied to the buffer; undefined when they do not fit.\<close>

definition fill_packet :: "u8 list \<Rightarrow> net_packet \<Rightarrow> net_packet option" where
  "fill_packet bs k =
     (if length bs \<le> max_size k
      then Some (k\<lparr>np_len := length bs, np_data := (\<lambda>j. if j < length bs then bs ! j else np_data k j)\<rparr>) else None)"

definition packet_bytes :: "net_packet \<Rightarrow> u8 list" where
  "packet_bytes k = map (np_data k) [0..<np_len k]"

text \<open>The eight stacks, by the size of their buffers.\<close>

record packet_pool =
  p_32_b :: "net_packet list"
  p_64_b :: "net_packet list"
  p_128_b :: "net_packet list"
  p_256_b :: "net_packet list"
  p_512_b :: "net_packet list"
  p_1024_b :: "net_packet list"
  p_2048_b :: "net_packet list"
  p_max_b :: "net_packet list"
  pool_count_limit :: nat

definition reset_pool :: "packet_pool \<Rightarrow> packet_pool" where
  "reset_pool p = p\<lparr>p_32_b := [], p_64_b := [], p_128_b := [], p_256_b := [], p_512_b := [], p_1024_b := [],
     p_2048_b := [], p_max_b := []\<rparr>"

definition set_pool_size_limit :: "nat \<Rightarrow> packet_pool \<Rightarrow> packet_pool" where
  "set_pool_size_limit n p = (reset_pool p)\<lparr>pool_count_limit := n\<rparr>"

definition new_packet_pool :: "nat \<Rightarrow> packet_pool" where
  "new_packet_pool n = \<lparr>p_32_b = [], p_64_b = [], p_128_b = [], p_256_b = [], p_512_b = [], p_1024_b = [],
     p_2048_b = [], p_max_b = [], pool_count_limit = n\<rparr>"

text \<open>One class of \<^verbatim>\<open>allocate\<close>: the top of its stack, or a new buffer as long as there is memory.\<close>

definition from_class ::
  "bool \<Rightarrow> nat \<Rightarrow> nat \<Rightarrow> net_packet list \<Rightarrow> (net_packet list \<Rightarrow> packet_pool) \<Rightarrow> net_packet option \<times> packet_pool" where
  "from_class memory i n stack put =
     (case stack of
        k # rest \<Rightarrow> (Some k, put rest)
      | [] \<Rightarrow> (if memory then Some (new_net_packet i n) else None, put []))"

definition allocate :: "bool \<Rightarrow> nat \<Rightarrow> nat \<Rightarrow> packet_pool \<Rightarrow> net_packet option \<times> packet_pool" where
  "allocate memory i n p =
     (if 65536 < n then (None, p)
      else if n \<le> 32 then from_class memory i 32 (p_32_b p) (\<lambda>s. p\<lparr>p_32_b := s\<rparr>)
      else if n \<le> 64 then from_class memory i 64 (p_64_b p) (\<lambda>s. p\<lparr>p_64_b := s\<rparr>)
      else if n \<le> 128 then from_class memory i 128 (p_128_b p) (\<lambda>s. p\<lparr>p_128_b := s\<rparr>)
      else if n \<le> 256 then from_class memory i 256 (p_256_b p) (\<lambda>s. p\<lparr>p_256_b := s\<rparr>)
      else if n \<le> 512 then from_class memory i 512 (p_512_b p) (\<lambda>s. p\<lparr>p_512_b := s\<rparr>)
      else if n \<le> 1024 then from_class memory i 1024 (p_1024_b p) (\<lambda>s. p\<lparr>p_1024_b := s\<rparr>)
      else if n \<le> 2048 then from_class memory i 2048 (p_2048_b p) (\<lambda>s. p\<lparr>p_2048_b := s\<rparr>)
      else from_class memory i 65536 (p_max_b p) (\<lambda>s. p\<lparr>p_max_b := s\<rparr>))"

text \<open>One class of \<^verbatim>\<open>free\<close>: a full stack takes nothing, the buffer is destroyed.\<close>

definition to_class :: "nat \<Rightarrow> net_packet \<Rightarrow> net_packet list \<Rightarrow> net_packet list" where
  "to_class limit k stack = (if length stack < limit then k # stack else stack)"

definition free :: "net_packet \<Rightarrow> packet_pool \<Rightarrow> packet_pool" where
  "free k p =
     (let put = to_class (pool_count_limit p) k in
      if max_size k = 32 then p\<lparr>p_32_b := put (p_32_b p)\<rparr>
      else if max_size k = 64 then p\<lparr>p_64_b := put (p_64_b p)\<rparr>
      else if max_size k = 128 then p\<lparr>p_128_b := put (p_128_b p)\<rparr>
      else if max_size k = 256 then p\<lparr>p_256_b := put (p_256_b p)\<rparr>
      else if max_size k = 512 then p\<lparr>p_512_b := put (p_512_b p)\<rparr>
      else if max_size k = 1024 then p\<lparr>p_1024_b := put (p_1024_b p)\<rparr>
      else if max_size k = 2048 then p\<lparr>p_2048_b := put (p_2048_b p)\<rparr>
      else if max_size k = 65536 then p\<lparr>p_max_b := put (p_max_b p)\<rparr>
      else p)"

section \<open>Facts about buffers\<close>

lemma fill_packet_fits: "length bs \<le> max_size k \<Longrightarrow> \<exists>k'. fill_packet bs k = Some k'"
  by (simp add: fill_packet_def)

lemma fill_packet_result:
  assumes "fill_packet bs k = Some k'"
  shows "packet_bytes k' = bs" "np_id k' = np_id k" "max_size k' = max_size k"
proof -
  have "map (\<lambda>j. if j < length bs then bs ! j else np_data k j) [0..<length bs] = bs"
    by (rule nth_equalityI) simp_all
  with assms show "packet_bytes k' = bs" "np_id k' = np_id k" "max_size k' = max_size k"
    by (auto simp: fill_packet_def packet_bytes_def split: if_splits)
qed

section \<open>Pools of buffers\<close>

text \<open>
  The contract a user of a pool relies on: a buffer is large enough for its request, and it is
  either in the pool or given out, once.  \<open>stored\<close> are the identities in the pool.
\<close>

locale buffer_pool =
  fixes ok :: "'p \<Rightarrow> bool" and stored :: "'p \<Rightarrow> nat multiset" and capacity :: nat
    and take_out :: "nat \<Rightarrow> nat \<Rightarrow> 'p \<Rightarrow> net_packet option \<times> 'p" and give_back :: "net_packet \<Rightarrow> 'p \<Rightarrow> 'p"
  assumes take_fits: "ok p \<Longrightarrow> take_out i n p = (Some k, p') \<Longrightarrow> n \<le> max_size k"
    and take_bound: "capacity < n \<Longrightarrow> fst (take_out i n p) = None"
    and take_ok: "ok p \<Longrightarrow> take_out i n p = (r, p') \<Longrightarrow> ok p'"
    and take_stored: "ok p \<Longrightarrow> take_out i n p = (Some k, p') \<Longrightarrow> add_mset (np_id k) (stored p') \<subseteq># add_mset i (stored p)"
    and take_none: "take_out i n p = (None, p') \<Longrightarrow> p' = p"
    and give_ok: "ok p \<Longrightarrow> ok (give_back k p)"
    and give_stored: "stored (give_back k p) \<subseteq># add_mset (np_id k) (stored p)"
begin

text \<open>\<open>live\<close> are the identities given out; new ones are taken from \<open>next\<close> on.\<close>

definition exclusive :: "'p \<Rightarrow> nat multiset \<Rightarrow> nat \<Rightarrow> bool" where
  "exclusive p live next \<longleftrightarrow> ok p \<and> (\<forall>x. count (stored p + live) x \<le> (if x < next then 1 else 0))"

lemma exclusive_mono:
  assumes "exclusive p live next" "ok p'" "stored p' + live' \<subseteq># stored p + live"
  shows "exclusive p' live' next"
  using assms unfolding exclusive_def by (meson mset_subset_eq_count order_trans)

lemma exclusive_take:
  assumes e: "exclusive p live next" and t: "take_out next n p = (Some k, p')"
  shows "exclusive p' (add_mset (np_id k) live) (Suc next)"
proof -
  have ok: "ok p" "ok p'"
    using e take_ok t by (auto simp: exclusive_def)
  have "stored p' + add_mset (np_id k) live \<subseteq># add_mset next (stored p + live)"
    using subset_mset.add_right_mono [OF take_stored [OF ok(1) t], of live] by simp
  then have "count (stored p' + add_mset (np_id k) live) x \<le> count (add_mset next (stored p + live)) x" for x
    by (rule mset_subset_eq_count)
  moreover have "count (add_mset next (stored p + live)) x \<le> (if x < Suc next then 1 else 0)" for x
  proof -
    have "count (stored p + live) x \<le> (if x < next then 1 else 0)"
      using e by (simp only: exclusive_def)
    then show ?thesis
      by (auto split: if_splits)
  qed
  ultimately show ?thesis
    using ok(2) unfolding exclusive_def by (meson order_trans)
qed

lemma exclusive_give:
  assumes "exclusive p (add_mset (np_id k) live) next"
  shows "exclusive (give_back k p) live next"
proof (rule exclusive_mono [OF assms])
  show "ok (give_back k p)"
    using assms give_ok by (simp add: exclusive_def)
  show "stored (give_back k p) + live \<subseteq># stored p + add_mset (np_id k) live"
    using subset_mset.add_right_mono [OF give_stored [of k p], of live] by simp
qed

lemma exclusive_drop:
  assumes "exclusive p (live + lost) next"
  shows "exclusive p live next"
  using assms by (rule exclusive_mono) (use assms in \<open>simp_all only: exclusive_def\<close>, simp)

lemma exclusiveD:
  assumes "exclusive p (live + {#x#} + {#y#}) next"
  shows "x \<noteq> y" "x \<notin># stored p"
proof -
  have *: "count (stored p + (live + {#x#} + {#y#})) x \<le> 1"
    using assms unfolding exclusive_def by (metis le_zero_eq zero_le_one)
  then show "x \<noteq> y"
    by auto
  from * show "x \<notin># stored p"
    by (simp add: not_in_iff split: if_splits)
qed

end

section \<open>The pool provides it\<close>

definition stacks :: "packet_pool \<Rightarrow> (nat \<times> net_packet list) list" where
  "stacks p = [(32, p_32_b p), (64, p_64_b p), (128, p_128_b p), (256, p_256_b p), (512, p_512_b p),
     (1024, p_1024_b p), (2048, p_2048_b p), (65536, p_max_b p)]"

definition stored :: "packet_pool \<Rightarrow> nat multiset" where
  "stored p = (\<Sum>(n, s) \<leftarrow> stacks p. mset (map np_id s))"

definition pool_ok :: "packet_pool \<Rightarrow> bool" where
  "pool_ok p \<longleftrightarrow> (\<forall>(n, s) \<in> set (stacks p). length s \<le> pool_count_limit p \<and> (\<forall>k \<in> set s. max_size k = n))"

lemmas pool_defs = pool_ok_def stored_def stacks_def

lemma from_class_cases:
  assumes "from_class memory i n stack put = (r, p')"
  obtains (old) k rest where "stack = k # rest" "r = Some k" "p' = put rest"
  | (new) "stack = []" "r = Some (new_net_packet i n)" "p' = put []"
  | (none) "stack = []" "r = None" "p' = put []"
  using assms by (auto simp: from_class_def split: list.splits if_splits)

text \<open>One stack of a pool is replaced by another, and the two operations do just that.\<close>

definition stack_update :: "nat \<Rightarrow> net_packet list \<Rightarrow> packet_pool \<Rightarrow> (net_packet list \<Rightarrow> packet_pool) \<Rightarrow> bool" where
  "stack_update n stack p put \<longleftrightarrow> (n, stack) \<in> set (stacks p) \<and> put stack = p \<and>
     (\<forall>s. stored (put s) + mset (map np_id stack) = stored p + mset (map np_id s) \<and>
        (pool_ok p \<longrightarrow> length s \<le> pool_count_limit p \<longrightarrow> (\<forall>k \<in> set s. max_size k = n) \<longrightarrow> pool_ok (put s)))"

lemma stack_updates:
  "stack_update 32 (p_32_b p) p (\<lambda>s. p\<lparr>p_32_b := s\<rparr>)" "stack_update 64 (p_64_b p) p (\<lambda>s. p\<lparr>p_64_b := s\<rparr>)"
  "stack_update 128 (p_128_b p) p (\<lambda>s. p\<lparr>p_128_b := s\<rparr>)" "stack_update 256 (p_256_b p) p (\<lambda>s. p\<lparr>p_256_b := s\<rparr>)"
  "stack_update 512 (p_512_b p) p (\<lambda>s. p\<lparr>p_512_b := s\<rparr>)" "stack_update 1024 (p_1024_b p) p (\<lambda>s. p\<lparr>p_1024_b := s\<rparr>)"
  "stack_update 2048 (p_2048_b p) p (\<lambda>s. p\<lparr>p_2048_b := s\<rparr>)" "stack_update 65536 (p_max_b p) p (\<lambda>s. p\<lparr>p_max_b := s\<rparr>)"
  by (simp_all add: stack_update_def pool_defs)

lemma allocate_class:
  assumes "n \<le> 65536"
  obtains c stack put where "allocate memory i n p = from_class memory i c stack put" "n \<le> c" "stack_update c stack p put"
proof -
  note branch = that [of 32, OF _ _ stack_updates(1)] that [of 64, OF _ _ stack_updates(2)] that [of 128, OF _ _ stack_updates(3)]
    that [of 256, OF _ _ stack_updates(4)] that [of 512, OF _ _ stack_updates(5)] that [of 1024, OF _ _ stack_updates(6)]
    that [of 2048, OF _ _ stack_updates(7)] that [of 65536, OF _ _ stack_updates(8)]
  consider "n \<le> 32" | "32 < n" "n \<le> 64" | "64 < n" "n \<le> 128" | "128 < n" "n \<le> 256" | "256 < n" "n \<le> 512"
    | "512 < n" "n \<le> 1024" | "1024 < n" "n \<le> 2048" | "2048 < n"
    by linarith
  then show thesis
    by cases (rule branch; use assms in \<open>simp add: allocate_def; fail\<close>)+
qed

lemma free_class:
  obtains (none) "free k p = p"
  | (stack) stack put where "free k p = put (to_class (pool_count_limit p) k stack)" "stack_update (max_size k) stack p put"
proof -
  note put = that(2) [OF _ subst [of "max_size k" _ "\<lambda>n. stack_update n _ p _", OF sym]]
  consider "max_size k = 32" | "max_size k = 64" | "max_size k = 128" | "max_size k = 256" | "max_size k = 512"
    | "max_size k = 1024" | "max_size k = 2048" | "max_size k = 65536"
    | "max_size k \<notin> {32, 64, 128, 256, 512, 1024, 2048, 65536}"
    by auto
  then show thesis
  proof cases
    case 9
    then have "free k p = p"
      by (simp add: free_def)
    then show thesis
      by (rule that(1))
  qed (rule put, simp_all add: free_def, rule stack_updates)+
qed

lemma stack_of_pool:
  assumes "stack_update c stack p put" "pool_ok p"
  shows "length stack \<le> pool_count_limit p" "\<forall>k \<in> set stack. max_size k = c"
  using assms by (auto simp: stack_update_def pool_ok_def)

lemma exchange_stored:
  assumes "stored p' + t = stored p + s" "s + x \<subseteq># t + y"
  shows "stored p' + x \<subseteq># stored p + y"
proof -
  have "stored p + s + x \<subseteq># stored p + t + y"
    using assms(2) by (simp add: add.assoc)
  then have "stored p' + x + t \<subseteq># stored p + y + t"
    unfolding assms(1) [symmetric] by (simp add: ac_simps)
  then show ?thesis
    by simp
qed

lemma allocate_result:
  assumes "allocate memory i n p = (r, p')" "pool_ok p"
  shows "pool_ok p' \<and> (case r of None \<Rightarrow> True
     | Some k \<Rightarrow> n \<le> max_size k \<and> add_mset (np_id k) (stored p') \<subseteq># add_mset i (stored p))"
proof (cases "n \<le> 65536")
  case True
  from allocate_class [OF True, of memory i p] obtain c stack put
    where c: "from_class memory i c stack put = (r, p')" "n \<le> c" "stack_update c stack p put"
    using assms(1) by metis
  note s = stack_of_pool [OF c(3) assms(2)]
  from c(1) show ?thesis
  proof (cases rule: from_class_cases)
    case (old k rest)
    then have "stored p' + mset (map np_id stack) = stored p + mset (map np_id rest)" "pool_ok p'"
      using c(3) assms(2) s by (auto simp: stack_update_def)
    from exchange_stored [OF this(1), of "{#np_id k#}" "{#i#}"] this(2) show ?thesis
      using old s(2) c(2) by simp
  next
    case new
    then have "p' = p"
      using c(3) by (simp add: stack_update_def)
    with new c(2) assms(2) show ?thesis
      by (simp add: new_net_packet_def)
  next
    case none
    then show ?thesis
      using c(3) assms(2) by (simp add: stack_update_def)
  qed
qed (use assms in \<open>simp add: allocate_def\<close>)

lemma allocate_none:
  assumes "allocate memory i n p = (None, p')"
  shows "p' = p"
proof (cases "n \<le> 65536")
  case True
  from allocate_class [OF True, of memory i p] obtain c stack put
    where "from_class memory i c stack put = (None, p')" "stack_update c stack p put"
    using assms by metis
  then show ?thesis
    by (auto simp: stack_update_def elim: from_class_cases)
qed (use assms in \<open>simp add: allocate_def\<close>)

lemma free_result:
  assumes "pool_ok p"
  shows "pool_ok (free k p)"
proof (cases rule: free_class [of k p])
  case (stack stack put)
  then show ?thesis
    using stack_of_pool [OF stack(2) assms] assms by (auto simp: stack_update_def to_class_def)
qed (simp add: assms)

lemma free_stored: "stored (free k p) \<subseteq># add_mset (np_id k) (stored p)"
proof (cases rule: free_class [of k p])
  case (stack stack put)
  let ?s = "to_class (pool_count_limit p) k stack"
  have "stored (free k p) + mset (map np_id stack) = stored p + mset (map np_id ?s)"
    using stack by (simp add: stack_update_def)
  from exchange_stored [OF this, of "{#}" "{#np_id k#}"] show ?thesis
    by (simp add: to_class_def split: if_splits)
qed simp

interpretation pool: buffer_pool pool_ok stored 65536 "allocate memory" free for memory
proof (unfold_locales, goal_cases)
  case (1 p i n k p')
  then show ?case
    using allocate_result [of memory i n p "Some k" p'] by simp
next
  case (2 n i p)
  then show ?case
    by (simp add: allocate_def)
next
  case (3 p i n r p')
  then show ?case
    using allocate_result [of memory i n p r p'] by simp
next
  case (4 p i n k p')
  then show ?case
    using allocate_result [of memory i n p "Some k" p'] by simp
qed (rule allocate_none free_result free_stored; assumption)+

end
