(* ===== verification/Udp_Server.thy ===== *)
theory Udp_Server
  imports Packet_Pool Socks5_Tcp
begin

text \<open>
  \<^verbatim>\<open>socks5_local_udp_proxy_server\<close> and its sessions \<^verbatim>\<open>socks5_udp_proxy_socket\<close>
  (proxy/socks5_local_udp_proxy_server.h, proxy/socks5_udp_proxy_socket.h): the local UDP server
  the redirected datagrams arrive at.  For each client port it associates a session at the SOCKS5
  server, over a control connection it talks to synchronously, and relays datagrams both ways.
  The results of the Winsock calls are parameters.  Sockets are numbers.
\<close>

section \<open>Association at the SOCKS5 server\<close>

text \<open>
  One question: the send succeeds and the receive returns some bytes, or the call has failed.  A
  receive of no bytes, from a server that closed the connection, leaves the structure as it was.
\<close>

definition ask :: "bool \<times> u8 list option \<Rightarrow> u8 list \<Rightarrow> u8 list option" where
  "ask results structure = (if fst results then map_option (read_into structure) (snd results) else None)"

text \<open>
  \<^verbatim>\<open>associate_to_socks5_proxy\<close>, in its two parts.  \<open>io\<close> are the results of the questions in their
  order.  The results hold the messages sent; \<open>None\<close> is the end of the program.
\<close>

definition login_to_socks5_proxy ::
  "(nat \<Rightarrow> bool \<times> u8 list option) \<Rightarrow> 'a negotiate_context \<Rightarrow> (u8 list list \<times> bool) option" where
  "login_to_socks5_proxy io ctx =
     (let ident_req = socks5_ident_req (if socks5_username ctx = None then [0] else [0, 2]) in
      case ask (io 0) [socks5_protocol_version, 0] of
        None \<Rightarrow> Some ([ident_req], False)
      | Some answer \<Rightarrow>
          if answer ! 0 \<noteq> 5 \<or> answer ! 1 = 0xFF then Some ([ident_req], False)
          else if answer ! 1 = 2 then
            (case usable_credentials ctx of
               None \<Rightarrow> Some ([ident_req], False)
             | Some (u, p) \<Rightarrow> do {
                 auth_req \<leftarrow> username_auth_init u p;
                 Some ([ident_req, auth_req],
                   case ask (io 1) answer of None \<Rightarrow> False | Some answer \<Rightarrow> answer ! 1 = 0)
               })
          else Some ([ident_req], True))"

definition associate_to_socks5_proxy ::
  "'a::zero address_family \<Rightarrow> (nat \<Rightarrow> bool \<times> u8 list option) \<Rightarrow> 'a negotiate_context option \<Rightarrow>
   (u8 list list \<times> u16 option) option" where
  "associate_to_socks5_proxy family io ctx = do {
     ctx \<leftarrow> ctx;
     (sent, logged_in) \<leftarrow> login_to_socks5_proxy io ctx;
     Some (if \<not> logged_in then (sent, None)
       else let associate_req = socks5_req family 3 (if is_inet6 family then 4 else 1) 0 0 in
            (sent @ [associate_req],
             case ask (io 2) (new_socks5_resp family) of
               None \<Rightarrow> None
             | Some resp \<Rightarrow>
                 if resp ! 0 \<noteq> 5 \<or> resp ! 1 \<noteq> 0 then None
                 else let n = length (new_socks5_resp family) in Some (ntohs (le16 (resp ! (n - 2)) (resp ! (n - 1))))))
   }"

section \<open>State\<close>

text \<open>
  A session; its negotiation context is never read and left out.  \<open>receiving\<close> says that the receive
  on its remote socket is outstanding.
\<close>

record 'a udp_session =
  session_timestamp :: time_point
  socks_socket :: nat
  relay_socket :: nat
  local_address :: "'a \<times> u16"
  remote_peer :: "'a \<times> u16"
  ready_for_removal :: bool
  receiving :: bool

text \<open>An outstanding send: its context with the session it keeps and its buffer.\<close>

record udp_send =
  send_to_local :: bool
  send_session :: nat
  send_packet :: net_packet

text \<open>
  Sessions are objects with shared references: \<open>sessions\<close> holds all that were made, by number, the
  map of the server and the contexts refer to them.  \<open>read_session\<close> and \<open>read_packet\<close> are the
  context of the receive on the server's socket, which is reused for all of them.
\<close>

record 'a udp_server =
  udp_proxy_port :: u16
  server_socket :: "nat option"
  udp_ended :: bool
  udp_completion_key :: nat
  udp_sockets :: "u16 \<rightharpoonup> nat"
  sessions :: "'a udp_session list"
  packets :: packet_pool
  next_packet :: nat
  read_session :: "nat option"
  read_packet :: "net_packet option"
  reading :: bool
  sends :: "udp_send list"
  active_iocp_operations :: int
  closed_handles :: "nat list"

text \<open>The results of the calls during one step.\<close>

record 'a udp_results =
  control_socket :: "nat option"
  control_bound :: bool
  control_connected :: "'a \<times> u16 \<Rightarrow> bool"
  questions :: "nat \<Rightarrow> bool \<times> u8 list option"
  udp_socket :: "nat option"
  udp_bound :: bool
  udp_connected :: bool
  has_memory :: bool
  context_memory :: bool
  send_accepted :: bool
  recv_accepted :: bool
  server_recv_accepted :: bool

definition close_handle :: "nat \<Rightarrow> 'a udp_server \<Rightarrow> 'a udp_server" where
  "close_handle h s = s\<lparr>closed_handles := closed_handles s @ [h]\<rparr>"

definition update_session :: "nat \<Rightarrow> ('a udp_session \<Rightarrow> 'a udp_session) \<Rightarrow> 'a udp_server \<Rightarrow> 'a udp_server" where
  "update_session i f s = s\<lparr>sessions := (sessions s)[i := f (sessions s ! i)]\<rparr>"

section \<open>Sessions\<close>

definition new_udp_session :: "time_point \<Rightarrow> nat \<Rightarrow> nat \<Rightarrow> 'a \<times> u16 \<Rightarrow> 'a \<times> u16 \<Rightarrow> 'a udp_session" where
  "new_udp_session now control remote client peer =
     \<lparr>session_timestamp = now, socks_socket = control, relay_socket = remote, local_address = client,
      remote_peer = peer, ready_for_removal = False, receiving = False\<rparr>"

definition close_udp_client :: "'a udp_session \<Rightarrow> 'a udp_session" where
  "close_udp_client x = x\<lparr>ready_for_removal := True\<rparr>"

definition udp_ready_for_removal :: "time_point \<Rightarrow> 'a udp_session \<Rightarrow> bool" where
  "udp_ready_for_removal now x \<longleftrightarrow> ready_for_removal x \<or> minutes 5 < now - session_timestamp x"

definition start_udp_session :: "bool \<Rightarrow> 'a udp_session \<Rightarrow> bool \<times> 'a udp_session" where
  "start_udp_session recv_ok x = (if recv_ok then (True, x\<lparr>receiving := True\<rparr>) else (False, close_udp_client x))"

text \<open>
  The two branches of \<^verbatim>\<open>process_receive_buffer_complete\<close>.  A send without a buffer is refused by the
  system; an answer of no bytes gets a context without a buffer, whose length is then written.
\<close>

definition relay_to_proxy :: "'a udp_results \<Rightarrow> time_point \<Rightarrow> nat \<Rightarrow> 'a udp_server \<Rightarrow> 'a udp_server option" where
  "relay_to_proxy env now i s =
     (let s = update_session i (\<lambda>x. x\<lparr>session_timestamp := now\<rparr>) s; moved = s\<lparr>read_packet := None\<rparr> in
      case read_packet s of
        Some k \<Rightarrow>
          Some (if \<not> context_memory env then moved\<lparr>packets := free k (packets s)\<rparr>
            else if send_accepted env
            then moved\<lparr>sends := sends s @ [\<lparr>send_to_local = False, send_session = i, send_packet = k\<rparr>]\<rparr>
            else update_session i close_udp_client moved)
      | None \<Rightarrow> if context_memory env then Some (update_session i close_udp_client moved) else None)"

definition post_answer :: "'a udp_results \<Rightarrow> nat \<Rightarrow> u8 list \<Rightarrow> 'a udp_server \<Rightarrow> 'a udp_server option" where
  "post_answer env i bytes s =
     (if \<not> context_memory env then Some s
      else if bytes = [] then None
      else case allocate (has_memory env) (next_packet s) (length bytes) (packets s) of
        (None, pool) \<Rightarrow> Some (s\<lparr>packets := pool\<rparr>)
      | (Some k, pool) \<Rightarrow> do {
          k \<leftarrow> fill_packet bytes k;
          let s = s\<lparr>packets := pool, next_packet := Suc (next_packet s)\<rparr>;
          Some (if send_accepted env
            then s\<lparr>sends := sends s @ [\<lparr>send_to_local = True, send_session = i, send_packet = k\<rparr>]\<rparr>
            else update_session i close_udp_client s)
        })"

definition relay_to_client ::
  "'a udp_results \<Rightarrow> time_point \<Rightarrow> nat \<Rightarrow> u8 list \<Rightarrow> 'a udp_server \<Rightarrow> 'a udp_server option" where
  "relay_to_client env now i bytes s = do {
     s \<leftarrow> post_answer env i bytes (update_session i (\<lambda>x. x\<lparr>session_timestamp := now\<rparr>) s);
     Some (update_session i (if recv_accepted env then (\<lambda>x. x\<lparr>receiving := True\<rparr>) else close_udp_client) s)
   }"

section \<open>The server\<close>

definition create_udp_server_socket :: "nat option \<Rightarrow> bool \<Rightarrow> u16 option \<Rightarrow> u16 \<Rightarrow> (nat \<times> u16) option" where
  "create_udp_server_socket new_socket bound name_result port =
     (case new_socket of
        None \<Rightarrow> None
      | Some h \<Rightarrow>
          if \<not> bound then None
          else if port = 0 then map_option (Pair h) name_result
          else Some (h, port))"

definition new_udp_server :: "nat option \<Rightarrow> bool \<Rightarrow> u16 option \<Rightarrow> u16 \<Rightarrow> 'a udp_server option" where
  "new_udp_server new_socket bound name_result port = do {
     (h, port) \<leftarrow> create_udp_server_socket new_socket bound name_result port;
     Some \<lparr>udp_proxy_port = port, server_socket = Some h, udp_ended = True, udp_completion_key = 0,
           udp_sockets = Map.empty, sessions = [], packets = new_packet_pool 100, next_packet = 0,
           read_session = None, read_packet = None, reading = False, sends = [], active_iocp_operations = 0,
           closed_handles = []\<rparr>
   }"

text \<open>\<open>io_key\<close> is the result of the association with the completion port, \<open>recv_ok\<close> that of the first receive.\<close>

definition start_udp_server :: "nat option \<Rightarrow> bool \<Rightarrow> 'a udp_server \<Rightarrow> bool \<times> 'a udp_server" where
  "start_udp_server io_key recv_ok s =
     (if \<not> udp_ended s then (True, s)
      else let s = s\<lparr>udp_ended := False\<rparr> in
           case server_socket s of
             None \<Rightarrow> (True, s)
           | Some h \<Rightarrow>
               (case io_key of
                  None \<Rightarrow> (False, (close_handle h s)\<lparr>udp_ended := True\<rparr>)
                | Some key \<Rightarrow>
                    let s = s\<lparr>udp_completion_key := key\<rparr> in
                    if recv_ok then (True, s\<lparr>reading := True, active_iocp_operations := active_iocp_operations s + 1\<rparr>)
                    else (False, (close_handle h s)\<lparr>udp_ended := True\<rparr>)))"

definition stop_udp_server :: "'a udp_server \<Rightarrow> 'a udp_server" where
  "stop_udp_server s =
     (if udp_ended s then s
      else let s = (case server_socket s of None \<Rightarrow> s | Some h \<Rightarrow> close_handle h s)
           in s\<lparr>udp_ended := True, server_socket := None, udp_completion_key := 0, udp_sockets := Map.empty\<rparr>)"

definition connect_to_socks5_proxy :: "'a udp_results \<Rightarrow> 'a \<times> u16 \<Rightarrow> 'a udp_server \<Rightarrow> nat option \<times> 'a udp_server" where
  "connect_to_socks5_proxy env peer s =
     (case control_socket env of
        None \<Rightarrow> (None, s)
      | Some t \<Rightarrow>
          if \<not> control_bound env then (None, close_handle t s)
          else if \<not> control_connected env peer then (None, close_handle t s)
          else (Some t, s))"

text \<open>
  The second half of \<^verbatim>\<open>connect_to_remote_host\<close>: the session for the control socket \<open>t\<close> and the port
  the SOCKS5 server has answered.
\<close>

definition open_udp_session ::
  "'a udp_results \<Rightarrow> time_point \<Rightarrow> 'a \<times> u16 \<Rightarrow> 'a \<Rightarrow> nat \<Rightarrow> u16 option \<Rightarrow> 'a udp_server \<Rightarrow> bool \<times> 'a udp_server" where
  "open_udp_session env now peer address t answer s =
     (case answer of
        None \<Rightarrow> (False, close_handle t s)
      | Some port \<Rightarrow>
          (case udp_socket env of
             None \<Rightarrow> (False, s)
           | Some u \<Rightarrow>
               if \<not> udp_bound env \<or> \<not> udp_connected env then (False, close_handle t (close_handle u s))
               else let x = snd (start_udp_session (recv_accepted env) (new_udp_session now t u peer (address, port)))
                    in (True, s\<lparr>udp_sockets := (udp_sockets s)(snd peer \<mapsto> length (sessions s)),
                         sessions := sessions s @ [x], read_session := Some (length (sessions s))\<rparr>)))"

text \<open>
  \<^verbatim>\<open>connect_to_remote_host\<close> for a datagram of \<open>peer\<close>.  \<open>query\<close> is \<^verbatim>\<open>query_remote_peer_\<close>, a step on a
  state of its owner.
\<close>

definition udp_connect_to_remote_host ::
  "'a::zero address_family \<Rightarrow> 'a udp_results \<Rightarrow> ('a \<Rightarrow> u16 \<Rightarrow> 'r \<Rightarrow> ('a \<times> u16 \<times> 'a negotiate_context option) \<times> 'r) \<Rightarrow>
   time_point \<Rightarrow> 'a \<times> u16 \<Rightarrow> 'r \<Rightarrow> 'a udp_server \<Rightarrow> (bool \<times> 'r \<times> 'a udp_server) option" where
  "udp_connect_to_remote_host family env query now peer r s =
     (case udp_sockets s (snd peer) of
        Some i \<Rightarrow> Some (True, r, s\<lparr>read_session := Some i\<rparr>)
      | None \<Rightarrow>
          let ((address, proxy_port, ctx), r) = query (fst peer) (snd peer) r;
              (control, s) = connect_to_socks5_proxy env (address, proxy_port) s
          in case control of
            None \<Rightarrow> Some (False, r, s)
          | Some t \<Rightarrow> do {
              (_, answer) \<leftarrow> associate_to_socks5_proxy family (questions env) ctx;
              Some (let (connected, s) = open_udp_session env now peer address t answer s in (connected, r, s))
            })"

section \<open>Completions\<close>

text \<open>
  The callback of the completion port: for the receive on the server's socket, for that of a
  session, and for the send of place \<open>n\<close>.  Each call lowers the counter of active operations; only
  the receives on the server's socket have raised it.
\<close>

definition accept_datagram ::
  "'a::zero address_family \<Rightarrow> 'a udp_results \<Rightarrow> ('a \<Rightarrow> u16 \<Rightarrow> 'r \<Rightarrow> ('a \<times> u16 \<times> 'a negotiate_context option) \<times> 'r) \<Rightarrow>
   time_point \<Rightarrow> u8 list \<Rightarrow> 'a \<times> u16 \<Rightarrow> 'r \<Rightarrow> 'a udp_server \<Rightarrow> (bool \<times> 'r \<times> 'a udp_server) option" where
  "accept_datagram family env query now bytes peer r s = do {
     (connected, r, s) \<leftarrow> udp_connect_to_remote_host family env query now peer r s;
     if \<not> connected then Some (False, r, s)
     else case allocate (has_memory env) (next_packet s) (length bytes) (packets s) of
       (None, pool) \<Rightarrow> Some (False, r, s\<lparr>packets := pool, read_packet := None\<rparr>)
     | (Some k, pool) \<Rightarrow> do {
         k \<leftarrow> fill_packet bytes k;
         Some (True, r, s\<lparr>packets := pool, next_packet := Suc (next_packet s), read_packet := Some k\<rparr>)
       }
   }"

definition handle_datagram ::
  "'a::zero address_family \<Rightarrow> 'a udp_results \<Rightarrow> ('a \<Rightarrow> u16 \<Rightarrow> 'r \<Rightarrow> ('a \<times> u16 \<times> 'a negotiate_context option) \<times> 'r) \<Rightarrow>
   time_point \<Rightarrow> bool \<Rightarrow> u8 list \<Rightarrow> 'a \<times> u16 \<Rightarrow> 'r \<Rightarrow> 'a udp_server \<Rightarrow> (bool \<times> 'r \<times> 'a udp_server) option" where
  "handle_datagram family env query now ok bytes peer r s = do {
     (result, r, s) \<leftarrow> (if ok \<and> bytes \<noteq> [] then accept_datagram family env query now bytes peer r s else Some (True, r, s));
     s \<leftarrow> (if ok \<and> result then do { i \<leftarrow> read_session s; relay_to_proxy env now i s } else Some s);
     Some (result, r, s)
   }"

definition server_read_complete ::
  "'a::zero address_family \<Rightarrow> 'a udp_results \<Rightarrow> ('a \<Rightarrow> u16 \<Rightarrow> 'r \<Rightarrow> ('a \<times> u16 \<times> 'a negotiate_context option) \<times> 'r) \<Rightarrow>
   time_point \<Rightarrow> bool \<Rightarrow> u8 list \<Rightarrow> 'a \<times> u16 \<Rightarrow> 'r \<Rightarrow> 'a udp_server \<Rightarrow> (bool \<times> 'r \<times> 'a udp_server) option" where
  "server_read_complete family env query now ok bytes peer r s =
     (let s = s\<lparr>reading := False, active_iocp_operations := active_iocp_operations s - 1\<rparr> in
      if udp_ended s then Some (False, r, s)
      else do {
        (result, r, s) \<leftarrow> handle_datagram family env query now ok bytes peer r s;
        Some (if server_recv_accepted env
          then (result, r, s\<lparr>reading := True, active_iocp_operations := active_iocp_operations s + 1\<rparr>)
          else (False, r, s))
      })"

definition session_read_complete ::
  "'a udp_results \<Rightarrow> time_point \<Rightarrow> bool \<Rightarrow> nat \<Rightarrow> u8 list \<Rightarrow> 'a udp_server \<Rightarrow> (bool \<times> 'a udp_server) option" where
  "session_read_complete env now ok i bytes s =
     (let s = (update_session i (\<lambda>x. x\<lparr>receiving := False\<rparr>) s)\<lparr>active_iocp_operations := active_iocp_operations s - 1\<rparr> in
      if udp_ended s then Some (False, s)
      else if ok then map_option (Pair True) (relay_to_client env now i bytes s)
      else Some (True, s))"

definition send_complete :: "bool \<Rightarrow> nat \<Rightarrow> 'a udp_server \<Rightarrow> bool \<times> 'a udp_server" where
  "send_complete ok n s =
     (let k = send_packet (sends s ! n);
          s = s\<lparr>sends := take n (sends s) @ drop (Suc n) (sends s), active_iocp_operations := active_iocp_operations s - 1\<rparr> in
      if udp_ended s then (False, s)
      else (True, if ok then s\<lparr>packets := free k (packets s)\<rparr> else s))"

text \<open>One round of the clearing thread.\<close>

definition clear_udp_sessions :: "time_point \<Rightarrow> 'a udp_server \<Rightarrow> 'a udp_server" where
  "clear_udp_sessions now s =
     (if udp_ended s then s
      else s\<lparr>udp_sockets := (\<lambda>port. case udp_sockets s port of
               None \<Rightarrow> None
             | Some i \<Rightarrow> if udp_ready_for_removal now (sessions s ! i) then None else Some i)\<rparr>)"

end
