(* ===== verification/Udp_Relay.thy ===== *)
theory Udp_Relay
  imports Udp_Server "HOL-Library.Sublist"
begin

text \<open>
  The relay of datagrams by the local UDP server: in every run of its completions, sessions come
  and go, and each forwards a subsequence of the datagrams unaltered, from buffers no two
  operations share.
\<close>

section \<open>Invariant of the server\<close>

definition map_ok :: "'a udp_server \<Rightarrow> bool" where
  "map_ok s \<longleftrightarrow>
     (\<forall>p i. udp_sockets s p = Some i \<longrightarrow> i < length (sessions s) \<and> snd (local_address (sessions s ! i)) = p) \<and>
     (\<forall>i. read_session s = Some i \<longrightarrow> i < length (sessions s))"

text \<open>The buffers in use: those of outstanding sends and of the server's own context.\<close>

definition live_packets :: "'a udp_server \<Rightarrow> net_packet list" where
  "live_packets s = map send_packet (sends s) @ (case read_packet s of None \<Rightarrow> [] | Some k \<Rightarrow> [k])"

definition buffers_ok :: "'a udp_server \<Rightarrow> bool" where
  "buffers_ok s \<longleftrightarrow> pool.exclusive (packets s) (mset (map np_id (live_packets s))) (next_packet s)"

definition clients :: "'a udp_server \<Rightarrow> ('a \<times> u16) list" where
  "clients s = map local_address (sessions s)"

lemma update_session_simps [simp]:
  "udp_sockets (update_session i f s) = udp_sockets s" "read_session (update_session i f s) = read_session s"
  "packets (update_session i f s) = packets s" "next_packet (update_session i f s) = next_packet s"
  "read_packet (update_session i f s) = read_packet s" "sends (update_session i f s) = sends s"
  "length (sessions (update_session i f s)) = length (sessions s)" "udp_ended (update_session i f s) = udp_ended s"
  "reading (update_session i f s) = reading s" "active_iocp_operations (update_session i f s) = active_iocp_operations s"
  "server_socket (update_session i f s) = server_socket s"
  by (simp_all add: update_session_def)

lemma sessions_update_session:
  "j < length (sessions s) \<Longrightarrow> sessions (update_session i f s) ! j = (if i = j then f (sessions s ! j) else sessions s ! j)"
  by (auto simp: update_session_def nth_list_update)

lemma clients_simps [simp]:
  "clients (s\<lparr>read_packet := k\<rparr>) = clients s" "clients (s\<lparr>packets := pool\<rparr>) = clients s"
  "clients (s\<lparr>next_packet := n\<rparr>) = clients s" "clients (s\<lparr>sends := xs\<rparr>) = clients s"
  "clients (s\<lparr>reading := b\<rparr>) = clients s" "clients (s\<lparr>active_iocp_operations := a\<rparr>) = clients s"
  by (simp_all add: clients_def)

lemma clients_update_session: "(\<And>x. local_address (f x) = local_address x) \<Longrightarrow> clients (update_session i f s) = clients s"
  by (rule nth_equalityI) (simp_all add: clients_def sessions_update_session)

lemma map_ok_cong:
  assumes "udp_sockets s' = udp_sockets s" "read_session s' = read_session s" "clients s' = clients s" "map_ok s"
  shows "map_ok s'"
proof -
  have "length (sessions s') = length (sessions s)"
    using arg_cong [OF assms(3), of length] by (simp add: clients_def)
  moreover have "local_address (sessions s' ! i) = local_address (sessions s ! i)" if "i < length (sessions s)" for i
    using arg_cong [OF assms(3), of "\<lambda>l. l ! i"] that calculation by (simp add: clients_def)
  ultimately show ?thesis
    using assms(1,2,4) by (simp add: map_ok_def)
qed

text \<open>A step that touches neither map nor buffers.\<close>

lemma ok_cong:
  assumes "udp_sockets s' = udp_sockets s" "read_session s' = read_session s" "clients s' = clients s"
    and "packets s' = packets s" "next_packet s' = next_packet s" "sends s' = sends s" "read_packet s' = read_packet s"
  shows "map_ok s \<Longrightarrow> map_ok s'" "buffers_ok s \<Longrightarrow> buffers_ok s'"
  using map_ok_cong [OF assms(1-3)] assms by (simp_all add: buffers_ok_def live_packets_def)

lemma closing_keeps [simp]:
  "local_address (close_udp_client x) = local_address x"
  "clients (close_handle h s) = clients s" "udp_sockets (close_handle h s) = udp_sockets s"
  "read_session (close_handle h s) = read_session s" "packets (close_handle h s) = packets s"
  "next_packet (close_handle h s) = next_packet s" "sends (close_handle h s) = sends s"
  "read_packet (close_handle h s) = read_packet s" "sessions (close_handle h s) = sessions s"
  "udp_ended (close_handle h s) = udp_ended s"
  by (simp_all add: close_udp_client_def close_handle_def clients_def)

section \<open>Connecting\<close>

lemma udp_control_keeps:
  assumes "connect_to_socks5_proxy env peer s = (c, s')"
  shows "udp_sockets s' = udp_sockets s" "read_session s' = read_session s" "clients s' = clients s" "packets s' = packets s"
    "next_packet s' = next_packet s" "sends s' = sends s" "read_packet s' = read_packet s" "sessions s' = sessions s"
    "udp_ended s' = udp_ended s"
  using assms by (auto simp: connect_to_socks5_proxy_def split: option.splits if_splits)

definition datagram_session :: "'a udp_server \<Rightarrow> u16 \<Rightarrow> nat \<Rightarrow> bool" where
  "datagram_session s port i \<longleftrightarrow> read_session s = Some i \<and> i < length (sessions s) \<and> snd (clients s ! i) = port"

lemma udp_connect_result:
  assumes c: "udp_connect_to_remote_host family env query now peer r s = Some (connected, r', s')" and ok: "map_ok s"
  shows "map_ok s' \<and> (connected \<longrightarrow> (\<exists>i. datagram_session s' (snd peer) i)) \<and> prefix (clients s) (clients s') \<and>
    packets s' = packets s \<and> next_packet s' = next_packet s \<and> sends s' = sends s \<and> read_packet s' = read_packet s"
proof (cases "udp_sockets s (snd peer)")
  case (Some i)
  with ok have i: "i < length (sessions s)" "snd (local_address (sessions s ! i)) = snd peer"
    by (auto simp: map_ok_def)
  from c Some have "connected" "s' = s\<lparr>read_session := Some i\<rparr>"
    by (auto simp: udp_connect_to_remote_host_def)
  with i ok show ?thesis
    by (auto simp: map_ok_def datagram_session_def clients_def)
next
  case None
  obtain address proxy_port ctx r1 where q: "query (fst peer) (snd peer) r = ((address, proxy_port, ctx), r1)"
    by (metis prod.exhaust)
  obtain control s1 where t: "connect_to_socks5_proxy env (address, proxy_port) s = (control, s1)"
    by fastforce
  note k = udp_control_keeps [OF t]
  have ok1: "map_ok s1"
    by (rule map_ok_cong [OF k(1-3) ok])
  consider (none) "\<not> connected" "s' = s1"
    | (tried) t answer where "open_udp_session env now peer address t answer s1 = (connected, s')"
  proof (cases control)
    case (Some t)
    with c None q t obtain answer where "fst (open_udp_session env now peer address t answer s1) = connected"
      "snd (open_udp_session env now peer address t answer s1) = s'"
      by (auto simp: udp_connect_to_remote_host_def bind_eq_Some_conv case_prod_beta)
    then show thesis
      by (intro that(2) [of t answer] prod_eqI) simp_all
  qed (use c None q t that in \<open>auto simp: udp_connect_to_remote_host_def\<close>)
  note outcome = this
  show ?thesis
  proof (cases connected)
    case False
    with outcome have "s' = s1 \<or> (\<exists>h. s' = close_handle h s1) \<or> (\<exists>h g. s' = close_handle h (close_handle g s1))"
      by cases (auto simp: open_udp_session_def split: option.splits if_splits)
    then have "udp_sockets s' = udp_sockets s1" "read_session s' = read_session s1" "clients s' = clients s1" "packets s' = packets s1"
      "next_packet s' = next_packet s1" "sends s' = sends s1" "read_packet s' = read_packet s1"
      by auto
    with k False map_ok_cong [OF this(1-3) ok1] show ?thesis
      by simp
  next
    case True
    with outcome obtain x where x: "s' = s1\<lparr>udp_sockets := (udp_sockets s1)(snd peer \<mapsto> length (sessions s1)),
        sessions := sessions s1 @ [x], read_session := Some (length (sessions s1))\<rparr>" "local_address x = peer"
      by cases (auto simp: open_udp_session_def Let_def start_udp_session_def new_udp_session_def close_udp_client_def split: option.splits if_splits)
    have "prefix (clients s1) (clients s')"
      using x by (simp add: clients_def)
    moreover have "map_ok s'"
      using ok1 x by (auto simp: map_ok_def nth_append less_SucI)
    moreover have "datagram_session s' (snd peer) (length (sessions s1))"
      using x by (simp add: datagram_session_def clients_def nth_append)
    ultimately show ?thesis
      using k x by auto
  qed
qed

section \<open>The two relays\<close>

text \<open>What a step posts: at most one send, with the bytes that came.\<close>

definition posts :: "bool \<Rightarrow> nat \<Rightarrow> u8 list \<Rightarrow> udp_send list \<Rightarrow> bool" where
  "posts to_local i bytes new \<longleftrightarrow>
     new = [] \<or> (\<exists>k. new = [\<lparr>send_to_local = to_local, send_session = i, send_packet = k\<rparr>] \<and> packet_bytes k = bytes)"

lemma buffers_okI:
  assumes "buffers_ok s" "pool.exclusive (packets s) (mset (map np_id (live_packets s))) (next_packet s) \<Longrightarrow>
      pool.exclusive (packets s') (mset (map np_id (live_packets s'))) (next_packet s')"
  shows "buffers_ok s'"
  using assms by (simp add: buffers_ok_def)

lemma drop_read_packet: "buffers_ok s \<Longrightarrow> buffers_ok (s\<lparr>read_packet := None\<rparr>)"
  unfolding buffers_ok_def live_packets_def
  by (rule pool.exclusive_drop [where lost = "mset (map np_id (case read_packet s of None \<Rightarrow> [] | Some k \<Rightarrow> [k]))"]) simp

lemma relay_to_proxy_result:
  assumes t: "relay_to_proxy env now i s = Some s'" and ok: "map_ok s" "buffers_ok s" and k: "read_packet s = Some k"
  shows "map_ok s' \<and> buffers_ok s' \<and> read_packet s' = None \<and> clients s' = clients s \<and>
    (\<exists>new. sends s' = sends s @ new \<and> posts False i (packet_bytes k) new)"
proof -
  let ?s = "update_session i (\<lambda>x. x\<lparr>session_timestamp := now\<rparr>) s"
  let ?moved = "?s\<lparr>read_packet := None\<rparr>"
  have m: "map_ok ?moved" "clients ?moved = clients s"
    using map_ok_cong [OF _ _ _ ok(1), of ?moved] by (simp_all add: clients_update_session)
  have live: "pool.exclusive (packets s) (add_mset (np_id k) (mset (map np_id (map send_packet (sends s))))) (next_packet s)"
    using ok(2) k by (simp add: buffers_ok_def live_packets_def)
  consider (freed) "s' = ?moved\<lparr>packets := free k (packets s)\<rparr>"
    | (posted) "s' = ?moved\<lparr>sends := sends s @ [\<lparr>send_to_local = False, send_session = i, send_packet = k\<rparr>]\<rparr>"
    | (closed) "s' = update_session i close_udp_client ?moved"
    using t k by (auto simp: relay_to_proxy_def Let_def split: if_splits)
  then show ?thesis
  proof cases
    case freed
    then have "buffers_ok s'"
      using pool.exclusive_give [OF live] by (simp add: buffers_ok_def live_packets_def)
    moreover have "map_ok s'"
      using m(1) freed by (simp add: map_ok_def)
    ultimately show ?thesis
      using freed m(2) by (simp add: posts_def clients_def)
  next
    case posted
    then have "buffers_ok s'"
      using live by (simp add: buffers_ok_def live_packets_def)
    moreover have "map_ok s'"
      using m(1) posted by (simp add: map_ok_def)
    ultimately show ?thesis
      using posted m(2) by (simp add: posts_def clients_def)
  next
    case closed
    have "clients s' = clients s"
      using clients_update_session [of close_udp_client i ?moved] m(2) closed by simp
    moreover have "buffers_ok ?moved"
      using pool.exclusive_drop [of "packets s" _ "{#np_id k#}"] live by (simp add: buffers_ok_def live_packets_def)
    then have "buffers_ok s'"
      using closed by (simp add: buffers_ok_def live_packets_def)
    moreover have "map_ok s'"
      by (rule map_ok_cong [OF _ _ _ m(1)]) (use closed calculation(1) m(2) in simp_all)
    ultimately show ?thesis
      using closed by (simp add: posts_def)
  qed
qed

lemma taken_buffers:
  assumes "allocate memory (next_packet s) n (packets s) = (Some k, pool)" "fill_packet bytes k = Some k'" "buffers_ok s"
  shows "pool.exclusive pool (add_mset (np_id k') (mset (map np_id (live_packets s)))) (Suc (next_packet s))"
  using pool.exclusive_take [OF _ assms(1)] assms(3) fill_packet_result(2) [OF assms(2)] by (simp add: buffers_ok_def)

lemma accept_datagram_result:
  assumes a: "accept_datagram family env query now bytes peer r s = Some (accepted, r', s')"
    and ok: "map_ok s" "buffers_ok s" "read_packet s = None"
  shows "map_ok s' \<and> buffers_ok s' \<and> prefix (clients s) (clients s') \<and> sends s' = sends s \<and>
    (if accepted then \<exists>i k. datagram_session s' (snd peer) i \<and> read_packet s' = Some k \<and> packet_bytes k = bytes
     else read_packet s' = None)"
proof -
  from a obtain connected s1 where c: "udp_connect_to_remote_host family env query now peer r s = Some (connected, r', s1)"
    by (auto simp: accept_datagram_def bind_eq_Some_conv split: if_splits prod.splits option.splits)
  note r = udp_connect_result [OF c ok(1)]
  then have b: "buffers_ok s1"
    using ok(2) by (simp add: buffers_ok_def live_packets_def)
  consider (none) "\<not> accepted" "s' = s1"
    | (full) pool where "\<not> accepted" "allocate (has_memory env) (next_packet s1) (length bytes) (packets s1) = (None, pool)"
        "s' = s1\<lparr>packets := pool, read_packet := None\<rparr>"
    | (taken) k k' pool where "accepted" "connected" "allocate (has_memory env) (next_packet s1) (length bytes) (packets s1) = (Some k, pool)"
        "fill_packet bytes k = Some k'" "s' = s1\<lparr>packets := pool, next_packet := Suc (next_packet s1), read_packet := Some k'\<rparr>"
  proof (cases connected)
    case True
    obtain answer pool where p: "allocate (has_memory env) (next_packet s1) (length bytes) (packets s1) = (answer, pool)"
      by fastforce
    with a c True show thesis
      by (cases answer) (auto simp: accept_datagram_def bind_eq_Some_conv intro: that(2,3))
  next
    case False
    with a c have "\<not> accepted" "s' = s1"
      by (simp_all add: accept_datagram_def)
    then show thesis
      by (rule that(1))
  qed
  then show ?thesis
  proof cases
    case none
    then show ?thesis
      using r b ok(3) by simp
  next
    case full
    then have "s' = s1\<lparr>read_packet := None\<rparr>"
      using pool.take_none by simp
    then show ?thesis
      using r full(1) drop_read_packet [OF b] map_ok_cong [of s' s1] by (simp add: clients_def)
  next
    case taken
    have "read_packet s1 = None"
      using r ok(3) by simp
    then have "buffers_ok s'"
      using taken_buffers [OF taken(3,4) b] taken(5) by (simp add: buffers_ok_def live_packets_def)
    moreover have "map_ok s'"
      using r taken(5) map_ok_cong [of s' s1] by (simp add: clients_def)
    moreover obtain i where "datagram_session s1 (snd peer) i"
      using r taken(2) by blast
    then have "datagram_session s' (snd peer) i"
      using taken(5) by (auto simp: datagram_session_def clients_def)
    ultimately show ?thesis
      using r taken(1,5) fill_packet_result(1) [OF taken(4)] by (auto simp: clients_def)
  qed
qed

lemma handle_datagram_result:
  assumes c: "handle_datagram family env query now ok bytes peer r s = Some (result, r', s')"
    and ok: "map_ok s" "buffers_ok s" "read_packet s = None"
  shows "map_ok s' \<and> buffers_ok s' \<and> read_packet s' = None \<and> prefix (clients s) (clients s') \<and>
    (\<exists>new i. sends s' = sends s @ new \<and>
       (new = [] \<or> ok \<and> posts False i bytes new \<and> i < length (clients s') \<and> snd (clients s' ! i) = snd peer))"
proof (cases "ok \<and> bytes \<noteq> []")
  case True
  from c True obtain s1 where a: "accept_datagram family env query now bytes peer r s = Some (result, r', s1)"
    and s2: "(if result then do { i \<leftarrow> read_session s1; relay_to_proxy env now i s1 } else Some s1) = Some s'"
    by (auto simp: handle_datagram_def bind_eq_Some_conv)
  note a = accept_datagram_result [OF a ok]
  show ?thesis
  proof (cases result)
    case accepted: True
    with a obtain i k where i: "datagram_session s1 (snd peer) i" "read_packet s1 = Some k" "packet_bytes k = bytes"
      by auto
    from s2 accepted i(1) have "relay_to_proxy env now i s1 = Some s'"
      by (simp add: datagram_session_def)
    from relay_to_proxy_result [OF this _ _ i(2)] a i(1,3) True show ?thesis
      by (auto simp: datagram_session_def clients_def)
  next
    case False
    with s2 a show ?thesis
      by auto
  qed
next
  case empty: False
  show ?thesis
  proof (cases ok)
    case True
    with c empty obtain i where "relay_to_proxy env now i s = Some s'"
      by (auto simp: handle_datagram_def bind_eq_Some_conv)
    then have s': "s' = update_session i close_udp_client ((update_session i (\<lambda>x. x\<lparr>session_timestamp := now\<rparr>) s)\<lparr>read_packet := None\<rparr>)"
      using ok(3) by (auto simp: relay_to_proxy_def Let_def split: if_splits)
    then have k: "clients s' = clients s"
      by (simp add: clients_update_session)
    show ?thesis
      using ok_cong [of s' s] ok k s' by simp
  next
    case False
    with c ok show ?thesis
      by (simp add: handle_datagram_def)
  qed
qed

lemma server_read_result:
  assumes c: "server_read_complete family env query now ok bytes peer r s = Some (result, r', s')"
    and ok: "map_ok s" "buffers_ok s" "read_packet s = None"
  shows "map_ok s' \<and> buffers_ok s' \<and> read_packet s' = None \<and> prefix (clients s) (clients s') \<and>
    (\<exists>new i. sends s' = sends s @ new \<and>
       (new = [] \<or> ok \<and> posts False i bytes new \<and> i < length (clients s') \<and> snd (clients s' ! i) = snd peer))"
proof -
  let ?s = "s\<lparr>reading := False, active_iocp_operations := active_iocp_operations s - 1\<rparr>"
  have oks: "map_ok ?s" "buffers_ok ?s" "read_packet ?s = None" "clients ?s = clients s" "sends ?s = sends s"
    using ok by (simp_all add: map_ok_def buffers_ok_def live_packets_def clients_def)
  show ?thesis
  proof (cases "udp_ended s")
    case True
    with c oks show ?thesis
      by (simp add: server_read_complete_def)
  next
    case False
    with c obtain result1 s1 where h: "handle_datagram family env query now ok bytes peer r ?s = Some (result1, r', s1)"
      and "s' = s1 \<or> s' = s1\<lparr>reading := True, active_iocp_operations := active_iocp_operations s1 + 1\<rparr>"
      by (auto simp: server_read_complete_def bind_eq_Some_conv split: if_splits)
    then have "map_ok s' = map_ok s1" "buffers_ok s' = buffers_ok s1" "clients s' = clients s1"
      "sends s' = sends s1" "read_packet s' = read_packet s1"
      by (auto simp: map_ok_def buffers_ok_def live_packets_def clients_def)
    with handle_datagram_result [OF h oks(1-3)] oks(4,5) show ?thesis
      by simp
  qed
qed

lemma post_answer_result:
  assumes c: "post_answer env i bytes s = Some s'" and ok: "map_ok s" "buffers_ok s"
  shows "map_ok s' \<and> buffers_ok s' \<and> read_packet s' = read_packet s \<and> clients s' = clients s \<and>
    (\<exists>new. sends s' = sends s @ new \<and> posts True i bytes new)"
proof -
  obtain answer pool where p: "allocate (has_memory env) (next_packet s) (length bytes) (packets s) = (answer, pool)"
    by fastforce
  with c consider (same) "s' = s" | (none) "answer = None" "s' = s\<lparr>packets := pool\<rparr>"
    | (posted) k k' where "answer = Some k" "fill_packet bytes k = Some k'"
        "s' = s\<lparr>packets := pool, next_packet := Suc (next_packet s),
           sends := sends s @ [\<lparr>send_to_local = True, send_session = i, send_packet = k'\<rparr>]\<rparr>"
    | (closed) k k' where "answer = Some k" "fill_packet bytes k = Some k'"
        "s' = update_session i close_udp_client (s\<lparr>packets := pool, next_packet := Suc (next_packet s)\<rparr>)"
    by (cases answer) (auto simp: post_answer_def Let_def bind_eq_Some_conv split: if_splits)
  then show ?thesis
  proof cases
    case same
    with ok show ?thesis
      by (simp add: posts_def)
  next
    case none
    then have "s' = s"
      using pool.take_none p by simp
    with ok show ?thesis
      by (simp add: posts_def)
  next
    case posted
    have "buffers_ok s'"
      using taken_buffers [OF p [unfolded posted(1)] posted(2) ok(2)] posted(3) by (simp add: buffers_ok_def live_packets_def)
    moreover have "map_ok s'"
      using ok(1) posted(3) by (simp add: map_ok_def)
    ultimately show ?thesis
      using posted(3) fill_packet_result(1) [OF posted(2)] by (simp add: posts_def clients_def)
  next
    case closed
    have "pool.exclusive pool (mset (map np_id (live_packets s))) (Suc (next_packet s))"
      using pool.exclusive_drop [of pool _ "{#np_id k'#}"] taken_buffers [OF p [unfolded closed(1)] closed(2) ok(2)] by simp
    then have "buffers_ok s'"
      using closed(3) by (simp add: buffers_ok_def live_packets_def)
    moreover have "clients s' = clients s"
      unfolding closed(3) by (simp add: clients_update_session)
    moreover from this have "map_ok s'"
      using map_ok_cong [of s' s] ok(1) closed(3) by simp
    ultimately show ?thesis
      using closed(3) by (simp add: posts_def)
  qed
qed

lemma relay_to_client_result:
  assumes c: "relay_to_client env now i bytes s = Some s'" and ok: "map_ok s" "buffers_ok s"
  shows "map_ok s' \<and> buffers_ok s' \<and> read_packet s' = read_packet s \<and> clients s' = clients s \<and>
    (\<exists>new. sends s' = sends s @ new \<and> posts True i bytes new)"
proof -
  let ?s = "update_session i (\<lambda>x. x\<lparr>session_timestamp := now\<rparr>) s"
  from c obtain s1 where p: "post_answer env i bytes ?s = Some s1"
    and s': "s' = update_session i (if recv_accepted env then (\<lambda>x. x\<lparr>receiving := True\<rparr>) else close_udp_client) s1"
    by (auto simp: relay_to_client_def bind_eq_Some_conv)
  have "map_ok ?s" "buffers_ok ?s" "clients ?s = clients s"
    using ok_cong [of ?s s] ok by (simp_all add: clients_update_session)
  note r = post_answer_result [OF p this(1,2)] this(3)
  have "clients s' = clients s1"
    using s' by (simp add: clients_update_session)
  with r ok_cong [of s' s1] s' show ?thesis
    by simp
qed

section \<open>Runs\<close>

text \<open>
  A server with what happened: the datagrams that arrived from each client port and on each session's
  socket, and those posted to the SOCKS5 server and to the client by each session.
\<close>

record 'a udp_run =
  run_server :: "'a udp_server"
  from_client :: "u16 \<Rightarrow> u8 list list"
  to_proxy :: "nat \<Rightarrow> u8 list list"
  from_proxy :: "nat \<Rightarrow> u8 list list"
  to_client :: "nat \<Rightarrow> u8 list list"

definition posted_by :: "bool \<Rightarrow> nat \<Rightarrow> udp_send list \<Rightarrow> u8 list list" where
  "posted_by to_local i xs =
     map (\<lambda>x. packet_bytes (send_packet x)) (filter (\<lambda>x. send_to_local x = to_local \<and> send_session x = i) xs)"

text \<open>The run after a step to the server \<open>s\<close>: the sends it has added are those it posted.\<close>

definition advance :: "'a udp_server \<Rightarrow> 'a udp_run \<Rightarrow> 'a udp_run" where
  "advance s y =
     (let new = drop (length (sends (run_server y))) (sends s) in
      y\<lparr>run_server := s, to_proxy := (\<lambda>i. to_proxy y i @ posted_by False i new),
        to_client := (\<lambda>i. to_client y i @ posted_by True i new)\<rparr>)"

inductive udp_step :: "'a::zero address_family \<Rightarrow> 'a udp_run \<Rightarrow> 'a udp_run \<Rightarrow> bool" for family where
  started: "udp_step family y (y\<lparr>run_server := snd (start_udp_server io_key recv_ok (run_server y))\<rparr>)"
| stopped: "udp_step family y (y\<lparr>run_server := stop_udp_server (run_server y)\<rparr>)"
| cleared: "udp_step family y (y\<lparr>run_server := clear_udp_sessions now (run_server y)\<rparr>)"
| datagram: "reading (run_server y) \<Longrightarrow>
    server_read_complete family env (\<lambda>_ _ r. (answer, r)) now ok bytes peer () (run_server y) = Some (result, r, s) \<Longrightarrow>
    udp_step family y (advance s (y\<lparr>from_client := (from_client y)
      (snd peer := from_client y (snd peer) @ (if ok then [bytes] else []))\<rparr>))"
| answer: "i < length (sessions (run_server y)) \<Longrightarrow> receiving (sessions (run_server y) ! i) \<Longrightarrow>
    session_read_complete env now ok i bytes (run_server y) = Some (result, s) \<Longrightarrow>
    udp_step family y (advance s (y\<lparr>from_proxy := (from_proxy y)(i := from_proxy y i @ (if ok then [bytes] else []))\<rparr>))"
| sent: "n < length (sends (run_server y)) \<Longrightarrow>
    udp_step family y (y\<lparr>run_server := snd (send_complete ok n (run_server y))\<rparr>)"

definition run_start :: "'a udp_server \<Rightarrow> 'a udp_run" where
  "run_start s = \<lparr>run_server = s, from_client = (\<lambda>_. []), to_proxy = (\<lambda>_. []), from_proxy = (\<lambda>_. []), to_client = (\<lambda>_. [])\<rparr>"

definition udp_reachable :: "'a::zero address_family \<Rightarrow> 'a udp_run \<Rightarrow> bool" where
  "udp_reachable family y \<longleftrightarrow>
     (\<exists>new_socket bound name_result port s. new_udp_server new_socket bound name_result port = Some s \<and>
        (udp_step family)\<^sup>*\<^sup>* (run_start s) y)"

definition run_inv :: "'a udp_run \<Rightarrow> bool" where
  "run_inv y \<longleftrightarrow>
     (let s = run_server y in
      map_ok s \<and> buffers_ok s \<and> read_packet s = None \<and>
      (\<forall>i < length (clients s). subseq (to_proxy y i) (from_client y (snd (clients s ! i)))) \<and>
      (\<forall>i \<ge> length (clients s). to_proxy y i = []) \<and>
      (\<forall>i. subseq (to_client y i) (from_proxy y i)))"

lemma run_invD:
  assumes "run_inv y"
  shows "map_ok (run_server y)" "buffers_ok (run_server y)" "read_packet (run_server y) = None"
  using assms by (simp_all add: run_inv_def Let_def)

text \<open>A step that leaves sessions and sends alone.\<close>

lemma run_inv_same:
  assumes "run_inv y" "udp_sockets s = udp_sockets (run_server y) \<or> udp_sockets s = Map.empty"
    and "read_session s = read_session (run_server y)" "sessions s = sessions (run_server y)"
    and "packets s = packets (run_server y)" "next_packet s = next_packet (run_server y)" "sends s = sends (run_server y)"
    and "read_packet s = read_packet (run_server y)"
  shows "run_inv (y\<lparr>run_server := s\<rparr>)"
proof -
  have "map_ok s"
    using assms by (auto simp: run_inv_def map_ok_def Let_def)
  moreover have "clients s = clients (run_server y)"
    using assms by (simp add: clients_def)
  moreover have "buffers_ok (run_server y)"
    using assms(1) by (simp only: run_inv_def Let_def)
  then have "buffers_ok s"
    using assms(5-8) by (simp only: buffers_ok_def live_packets_def)
  ultimately show ?thesis
    using assms by (simp add: run_inv_def Let_def)
qed

lemma posted_by_posts:
  assumes "posts b j bytes new"
  shows "posted_by b j new = [] \<or> posted_by b j new = [bytes]" "b' \<noteq> b \<or> i \<noteq> j \<Longrightarrow> posted_by b' i new = []"
  using assms by (auto simp: posts_def posted_by_def)

lemma posted_by_Nil [simp]: "posted_by b i [] = []"
  by (simp add: posted_by_def)

lemma subseq_log: "subseq xs ys \<Longrightarrow> zs = [] \<or> zs = [b] \<and> ok \<Longrightarrow> subseq (xs @ zs) (ys @ (if ok then [b] else []))"
  by (auto simp: subseq_append intro: subseq_rev_drop_many)

lemma prefix_nth: "prefix xs ys \<Longrightarrow> i < length xs \<Longrightarrow> ys ! i = xs ! i"
  by (auto simp: prefix_def nth_append)

lemma datagram_inv:
  assumes inv: "run_inv y"
    and step: "server_read_complete family env query now ok bytes peer r (run_server y) = Some (result, r', s)"
  shows "run_inv (advance s (y\<lparr>from_client := (from_client y)
      (snd peer := from_client y (snd peer) @ (if ok then [bytes] else []))\<rparr>))" (is "run_inv ?y")
proof -
  from inv have i: "map_ok (run_server y)" "buffers_ok (run_server y)" "read_packet (run_server y) = None"
    "\<And>i. i < length (clients (run_server y)) \<Longrightarrow> subseq (to_proxy y i) (from_client y (snd (clients (run_server y) ! i)))"
    "\<And>i. length (clients (run_server y)) \<le> i \<Longrightarrow> to_proxy y i = []" "\<And>i. subseq (to_client y i) (from_proxy y i)"
    by (auto simp: run_inv_def Let_def)
  note res = server_read_result [OF step i(1-3)]
  then obtain new j where new: "sends s = sends (run_server y) @ new" "prefix (clients (run_server y)) (clients s)"
    "new = [] \<or> ok \<and> posts False j bytes new \<and> j < length (clients s) \<and> snd (clients s ! j) = snd peer"
    by blast
  have tp: "to_proxy ?y k = to_proxy y k @ posted_by False k new" "to_client ?y k = to_client y k" "from_proxy ?y k = from_proxy y k" for k
    using new(1,3) posted_by_posts(2) [of False j bytes new True k] by (auto simp: advance_def Let_def)
  have old: "subseq (to_proxy y k) (from_client y (snd (clients s ! k)))" for k
    using i(4) [of k] i(5) [of k] prefix_nth [OF new(2), of k] by (cases "k < length (clients (run_server y))") auto
  have "subseq (to_proxy ?y k) (from_client ?y (snd (clients s ! k)))" if "k < length (clients s)" for k
  proof (cases "new = [] \<or> k \<noteq> j")
    case True
    then have "posted_by False k new = []"
      using new(3) posted_by_posts(2) [of False j bytes new False k] by auto
    with old [of k] show ?thesis
      unfolding tp by (auto simp: advance_def Let_def intro: subseq_rev_drop_many)
  next
    case False
    with new(3) have "ok" "posts False j bytes new" "snd (clients s ! k) = snd peer" "k = j"
      by auto
    with subseq_log [OF old [of k], of "posted_by False k new" bytes ok] posted_by_posts(1) [of False j bytes new] show ?thesis
      unfolding tp by (auto simp: advance_def Let_def)
  qed
  moreover have "to_proxy ?y k = []" if "length (clients s) \<le> k" for k
    using that new i(5) [of k] prefix_length_le [OF new(2)] posted_by_posts(2) [of False j bytes new False k]
    unfolding tp by auto
  ultimately show ?thesis
    using res i(6) tp by (simp add: run_inv_def Let_def advance_def)
qed

lemma session_read_result:
  assumes step: "session_read_complete env now ok j bytes s = Some (result, s')"
    and i: "map_ok s" "buffers_ok s" "read_packet s = None"
  shows "map_ok s' \<and> buffers_ok s' \<and> read_packet s' = None \<and> clients s' = clients s \<and>
    (\<exists>new. sends s' = sends s @ new \<and> (new = [] \<or> ok \<and> posts True j bytes new))"
proof -
  let ?s = "(update_session j (\<lambda>x. x\<lparr>receiving := False\<rparr>) s)\<lparr>active_iocp_operations := active_iocp_operations s - 1\<rparr>"
  have c: "clients ?s = clients s"
    by (simp add: clients_update_session)
  then have okt: "map_ok ?s" "buffers_ok ?s"
    using ok_cong [of ?s s] i by simp_all
  from step have "s' = ?s \<or> relay_to_client env now j bytes ?s = Some s' \<and> ok"
    by (auto simp: session_read_complete_def Let_def split: if_splits)
  then show ?thesis
  proof
    assume "s' = ?s"
    with okt c i(3) show ?thesis
      by simp
  next
    assume "relay_to_client env now j bytes ?s = Some s' \<and> ok"
    with relay_to_client_result [of env now j bytes ?s s', OF _ okt] c i(3) show ?thesis
      by auto
  qed
qed

lemma answer_inv:
  assumes inv: "run_inv y" and step: "session_read_complete env now ok j bytes (run_server y) = Some (result, s)"
  shows "run_inv (advance s (y\<lparr>from_proxy := (from_proxy y)(j := from_proxy y j @ (if ok then [bytes] else []))\<rparr>))"
    (is "run_inv ?y")
proof -
  from inv have i: "map_ok (run_server y)" "buffers_ok (run_server y)" "read_packet (run_server y) = None"
    "\<And>i. i < length (clients (run_server y)) \<Longrightarrow> subseq (to_proxy y i) (from_client y (snd (clients (run_server y) ! i)))"
    "\<And>i. length (clients (run_server y)) \<le> i \<Longrightarrow> to_proxy y i = []" "\<And>i. subseq (to_client y i) (from_proxy y i)"
    by (auto simp: run_inv_def Let_def)
  from session_read_result [OF step i(1-3)] obtain new
    where res: "map_ok s" "buffers_ok s" "read_packet s = None" "clients s = clients (run_server y)"
      and new: "sends s = sends (run_server y) @ new" "new = [] \<or> ok \<and> posts True j bytes new"
    by blast
  have tp: "to_client ?y k = to_client y k @ posted_by True k new" "to_proxy ?y k = to_proxy y k" "from_client ?y = from_client y" for k
    using new posted_by_posts(2) [of True j bytes new False k] by (auto simp: advance_def Let_def)
  have "subseq (to_client ?y k) (from_proxy ?y k)" for k
  proof (cases "new = [] \<or> k \<noteq> j")
    case True
    then have "posted_by True k new = []"
      using new(2) posted_by_posts(2) [of True j bytes new True k] by auto
    with i(6) [of k] show ?thesis
      unfolding tp by (auto simp: advance_def Let_def intro: subseq_rev_drop_many)
  next
    case False
    with new(2) have "ok" "posts True j bytes new" "k = j"
      by auto
    with subseq_log [OF i(6) [of k], of "posted_by True k new" bytes ok] posted_by_posts(1) [of True j bytes new] show ?thesis
      unfolding tp by (auto simp: advance_def Let_def)
  qed
  with res i(4,5) tp show ?thesis
    by (simp add: run_inv_def Let_def advance_def)
qed

lemma udp_sent_inv:
  assumes inv: "run_inv y" and n: "n < length (sends (run_server y))"
  shows "run_inv (y\<lparr>run_server := snd (send_complete ok n (run_server y))\<rparr>)"
proof -
  let ?s = "run_server y"
  let ?k = "send_packet (sends ?s ! n)" and ?rest = "take n (sends ?s) @ drop (Suc n) (sends ?s)"
  let ?s' = "snd (send_complete ok n ?s)"
  have rest: "mset (sends ?s) = add_mset (sends ?s ! n) (mset ?rest)"
    using arg_cong [OF id_take_nth_drop [OF n], of mset] by simp
  have "read_packet ?s = None" "buffers_ok ?s"
    using inv by (simp_all add: run_inv_def Let_def)
  then have "pool.exclusive (packets ?s) (add_mset (np_id ?k) (mset (map (np_id \<circ> send_packet) ?rest))) (next_packet ?s)"
    by (simp add: buffers_ok_def live_packets_def rest)
  then have "pool.exclusive (free ?k (packets ?s)) (mset (map (np_id \<circ> send_packet) ?rest)) (next_packet ?s)"
    "pool.exclusive (packets ?s) (mset (map (np_id \<circ> send_packet) ?rest)) (next_packet ?s)"
    using pool.exclusive_give pool.exclusive_drop [of _ _ "{#np_id ?k#}"] by simp_all
  moreover have "read_packet ?s = None"
    using inv by (simp add: run_inv_def Let_def)
  ultimately have "buffers_ok ?s'"
    by (simp add: send_complete_def Let_def buffers_ok_def live_packets_def)
  moreover have "clients ?s' = clients ?s" "read_packet ?s' = read_packet ?s"
    by (simp_all add: send_complete_def Let_def)
  moreover have "map_ok ?s'"
    by (rule map_ok_cong [of _ ?s]) (use inv in \<open>simp_all add: send_complete_def Let_def run_inv_def\<close>)
  ultimately show ?thesis
    using inv by (simp add: run_inv_def Let_def)
qed

lemma run_start_inv: "new_udp_server new_socket bound name_result port = Some s \<Longrightarrow> run_inv (run_start s)"
  by (auto simp: new_udp_server_def bind_eq_Some_conv run_inv_def map_ok_def buffers_ok_def live_packets_def clients_def
      pool.exclusive_def pool_defs new_packet_pool_def run_start_def Let_def)

lemma cleared_inv:
  assumes "run_inv y"
  shows "run_inv (y\<lparr>run_server := clear_udp_sessions now (run_server y)\<rparr>)"
proof -
  let ?s = "clear_udp_sessions now (run_server y)"
  have "map_ok ?s" "buffers_ok ?s" "clients ?s = clients (run_server y)" "read_packet ?s = read_packet (run_server y)"
    using assms by (auto simp: run_inv_def map_ok_def buffers_ok_def live_packets_def clients_def clear_udp_sessions_def Let_def
        split: option.splits if_splits)
  with assms show ?thesis
    by (simp add: run_inv_def Let_def)
qed

lemma udp_step_inv: "udp_step family y y' \<Longrightarrow> run_inv y \<Longrightarrow> run_inv y'"
proof (induction rule: udp_step.induct)
  case (started y io_key recv_ok)
  then show ?case
    by (intro run_inv_same) (auto simp: start_udp_server_def close_handle_def Let_def split: option.splits)
next
  case (stopped y)
  then show ?case
    by (intro run_inv_same) (auto simp: stop_udp_server_def close_handle_def Let_def split: option.splits)
qed (blast intro: cleared_inv datagram_inv answer_inv udp_sent_inv)+

lemma udp_reachable_inv:
  assumes "udp_reachable family y"
  shows "run_inv y"
proof -
  from assms obtain s where "run_inv (run_start s)" "(udp_step family)\<^sup>*\<^sup>* (run_start s) y"
    using run_start_inv unfolding udp_reachable_def by blast
  from this(2,1) show ?thesis
    by (induction rule: rtranclp_induct) (blast intro: udp_step_inv)+
qed

section \<open>A session that receives no more\<close>

definition receivers :: "'a udp_server \<Rightarrow> bool list" where
  "receivers s = map receiving (sessions s)"

lemma receivers_update: "(\<And>x. receiving (f x) = receiving x) \<Longrightarrow> receivers (update_session i f s) = receivers s"
  by (rule nth_equalityI) (simp_all add: receivers_def sessions_update_session)

lemma receivers_simps [simp]:
  "receivers (s\<lparr>read_packet := k\<rparr>) = receivers s" "receivers (s\<lparr>packets := pool\<rparr>) = receivers s"
  "receivers (s\<lparr>next_packet := n\<rparr>) = receivers s" "receivers (s\<lparr>sends := xs\<rparr>) = receivers s"
  "receivers (s\<lparr>reading := b\<rparr>) = receivers s" "receivers (s\<lparr>active_iocp_operations := a\<rparr>) = receivers s"
  "receivers (s\<lparr>read_session := j\<rparr>) = receivers s" "receiving (close_udp_client x) = receiving x"
  by (simp_all add: receivers_def close_udp_client_def)

lemma udp_connect_receivers:
  assumes "udp_connect_to_remote_host family env query now peer r s = Some (connected, r', s')"
  shows "prefix (receivers s) (receivers s')"
proof -
  have open_session: "prefix (receivers t) (receivers (snd (open_udp_session env now peer address c answer t)))" for t address c answer
    by (auto simp: open_udp_session_def close_handle_def receivers_def Let_def split: option.splits)
  have "receivers (snd (connect_to_socks5_proxy env p s)) = receivers s" for p
    by (auto simp: connect_to_socks5_proxy_def close_handle_def receivers_def split: option.splits)
  with assms open_session show ?thesis
    by (auto simp: udp_connect_to_remote_host_def bind_eq_Some_conv case_prod_beta Let_def split: option.splits)
      (metis, metis)
qed

lemma relay_to_proxy_receivers: "relay_to_proxy env now i s = Some s' \<Longrightarrow> receivers s' = receivers s"
  by (auto simp: relay_to_proxy_def Let_def receivers_update split: option.splits if_splits)

lemma server_read_receivers:
  assumes "server_read_complete family env query now ok bytes peer r s = Some (result, r', s')"
  shows "prefix (receivers s) (receivers s')"
proof -
  have accept: "prefix (receivers t) (receivers t')"
    if "accept_datagram family env query now bytes peer r t = Some (accepted, r', t')" for t t' accepted r'
  proof -
    from that obtain connected t1 where c: "udp_connect_to_remote_host family env query now peer r t = Some (connected, r', t1)"
      by (auto simp: accept_datagram_def bind_eq_Some_conv split: if_splits prod.splits option.splits)
    obtain answer pool where "allocate (has_memory env) (next_packet t1) (length bytes) (packets t1) = (answer, pool)"
      by fastforce
    with that c have "receivers t' = receivers t1"
      by (cases connected; cases answer) (auto simp: accept_datagram_def bind_eq_Some_conv)
    with udp_connect_receivers [OF c] show ?thesis
      by simp
  qed
  have handle: "prefix (receivers t) (receivers t')"
    if h: "handle_datagram family env query now ok bytes peer r t = Some (result, r', t')" for t t' result r'
  proof -
    from h obtain t1 where "(if ok \<and> bytes \<noteq> [] then accept_datagram family env query now bytes peer r t else Some (True, r, t)) =
        Some (result, r', t1)"
      and "(if ok \<and> result then do { i \<leftarrow> read_session t1; relay_to_proxy env now i t1 } else Some t1) = Some t'"
      unfolding handle_datagram_def by (auto simp: bind_eq_Some_conv)
    with accept [of t result r' t1] show ?thesis
      by (auto simp: bind_eq_Some_conv dest!: relay_to_proxy_receivers split: if_splits)
  qed
  let ?s = "s\<lparr>reading := False, active_iocp_operations := active_iocp_operations s - 1\<rparr>"
  show ?thesis
  proof (cases "udp_ended s")
    case True
    with assms have "receivers s' = receivers s"
      by (auto simp: server_read_complete_def)
    then show ?thesis
      by simp
  next
    case False
    with assms obtain result1 s1 where "handle_datagram family env query now ok bytes peer r ?s = Some (result1, r', s1)"
      "receivers s' = receivers s1"
      by (auto simp: server_read_complete_def bind_eq_Some_conv split: if_splits)
    with handle [of ?s result1 r' s1] show ?thesis
      by simp
  qed
qed

lemma session_read_receivers:
  assumes "session_read_complete env now ok j bytes s = Some (result, s')"
  shows "length (receivers s') = length (receivers s)" "i \<noteq> j \<Longrightarrow> i < length (receivers s) \<Longrightarrow> receivers s' ! i = receivers s ! i"
    "\<not> ok \<Longrightarrow> j < length (receivers s) \<Longrightarrow> \<not> receivers s' ! j"
proof -
  let ?s = "(update_session j (\<lambda>x. x\<lparr>receiving := False\<rparr>) s)\<lparr>active_iocp_operations := active_iocp_operations s - 1\<rparr>"
  have upd: "receivers (update_session j f t) ! i = receivers t ! i" if "i \<noteq> j" "i < length (receivers t)" for f t i
    using that by (simp add: receivers_def sessions_update_session)
  have len: "length (receivers (update_session j f t)) = length (receivers t)" for f t
    by (simp add: receivers_def)
  have post: "receivers t' = receivers t" if "post_answer env j bytes t = Some t'" for t t'
  proof -
    obtain answer pool where "allocate (has_memory env) (next_packet t) (length bytes) (packets t) = (answer, pool)"
      by fastforce
    with that show ?thesis
      by (cases answer) (auto simp: post_answer_def Let_def bind_eq_Some_conv receivers_update split: if_splits)
  qed
  from assms consider "s' = ?s" | t f where "post_answer env j bytes (update_session j (\<lambda>x. x\<lparr>session_timestamp := now\<rparr>) ?s) = Some t"
      "s' = update_session j f t" "ok"
    by (auto simp: session_read_complete_def relay_to_client_def Let_def bind_eq_Some_conv split: if_splits)
  then show "length (receivers s') = length (receivers s)" "i \<noteq> j \<Longrightarrow> i < length (receivers s) \<Longrightarrow> receivers s' ! i = receivers s ! i"
    "\<not> ok \<Longrightarrow> j < length (receivers s) \<Longrightarrow> \<not> receivers s' ! j"
    by (cases; auto simp: upd len dest!: post; simp add: receivers_def sessions_update_session)+
qed

lemma step_deaf:
  assumes "udp_step family y y'" "run_inv y" "i < length (receivers (run_server y))" "\<not> receivers (run_server y) ! i"
  shows "i < length (receivers (run_server y')) \<and> \<not> receivers (run_server y') ! i \<and> to_client y' i = to_client y i"
  using assms
proof (induction rule: udp_step.induct)
  case (started y io_key recv_ok)
  then show ?case
    by (auto simp: start_udp_server_def close_handle_def receivers_def Let_def split: option.splits)
next
  case (stopped y)
  then show ?case
    by (auto simp: stop_udp_server_def close_handle_def receivers_def Let_def split: option.splits)
next
  case (cleared y now)
  then show ?case
    by (simp add: clear_udp_sessions_def receivers_def)
next
  case (datagram y env answer now ok bytes peer result r s)
  from server_read_result [OF datagram(2) run_invD [OF datagram(3)]] obtain new j
    where "sends s = sends (run_server y) @ new" "new = [] \<or> posts False j bytes new"
    by blast
  then have "posted_by True i (drop (length (sends (run_server y))) (sends s)) = []"
    using posted_by_posts(2) [of False j bytes new True i] by auto
  moreover have "prefix (receivers (run_server y)) (receivers s)"
    by (rule server_read_receivers [OF datagram(2)])
  ultimately show ?case
    using datagram(4,5) prefix_nth [of "receivers (run_server y)" "receivers s" i] prefix_length_le [of "receivers (run_server y)" "receivers s"]
    by (auto simp: advance_def Let_def)
next
  case (answer j y env now ok bytes result s)
  note r = session_read_receivers [OF answer(3)]
  have "i \<noteq> j"
    using answer(1,2,5,6) by (auto simp: receivers_def)
  moreover have "posted_by True i (drop (length (sends (run_server y))) (sends s)) = []"
    using session_read_result [OF answer(3) run_invD [OF answer(4)]] posted_by_posts(2) [of True j bytes _ True i] calculation
    by auto
  ultimately show ?case
    using answer r(1) r(2) [of i] by (simp add: advance_def Let_def)
next
  case (sent n y ok)
  then show ?case
    by (simp add: send_complete_def receivers_def Let_def)
qed

end
