(* ===== verification/Udp_Sessions.thy ===== *)
theory Udp_Sessions
  imports Udp_Relay
begin

text \<open>
  What the local UDP server promises and where it fails: datagrams are relayed unaltered from
  buffers of their own; an association follows the protocol, but a silent server passes for one
  that agreed; and empty datagrams or one failed receive take a session or the program down.
\<close>

section \<open>The relay\<close>

text \<open>
  C7: however datagrams arrive, sessions come and go and calls fail, what a session has posted to
  the SOCKS5 server is a subsequence of the datagrams of its client's port, and what it has posted
  to the client a subsequence of the answers on its own socket: each unaltered, in order, none
  invented, none doubled, none of another session.
\<close>

theorem datagrams_relayed_unaltered:
  assumes "udp_reachable family y" "i < length (sessions (run_server y))"
  shows "subseq (to_proxy y i) (from_client y (snd (local_address (sessions (run_server y) ! i)))) \<and>
    subseq (to_client y i) (from_proxy y i)"
  using udp_reachable_inv [OF assms(1)] assms(2) by (simp add: run_inv_def Let_def clients_def)


text \<open>
  A receive on the session's socket that completes with an error, as it does when the SOCKS5
  server answers a datagram with \<open>port unreachable\<close>, is not posted again: whatever follows, the
  session never delivers another answer to its client.
\<close>

theorem failed_receive_deafens_session:
  assumes "udp_reachable family y" "i < length (sessions (run_server y))"
    and "session_read_complete env now False i bytes (run_server y) = Some (result, s)"
    and "(udp_step family)\<^sup>*\<^sup>* (y\<lparr>run_server := s\<rparr>) y'"
  shows "to_client y' i = to_client y i"
proof -
  let ?y = "y\<lparr>run_server := s\<rparr>"
  note inv = udp_reachable_inv [OF assms(1)]
  have "sends s = sends (run_server y)"
    using session_read_result [OF assms(3) run_invD [OF inv]] by auto
  then have "run_inv ?y"
    using answer_inv [OF inv assms(3)] by (simp add: advance_def Let_def)
  moreover have "i < length (receivers s)" "\<not> receivers s ! i"
    using session_read_receivers [OF assms(3)] assms(2) by (simp_all add: receivers_def)
  ultimately have "run_inv ?y \<and> i < length (receivers (run_server ?y)) \<and> \<not> receivers (run_server ?y) ! i"
    by simp
  with assms(4) have "run_inv y' \<and> i < length (receivers (run_server y')) \<and> \<not> receivers (run_server y') ! i \<and>
    to_client y' i = to_client ?y i"
  proof (induction rule: rtranclp_induct)
    case (step a b)
    then show ?case
      using step_deaf [of family a b i] udp_step_inv [of family a b] by simp
  qed simp
  then show ?thesis
    by simp
qed

text \<open>
  Nothing expects a datagram of no bytes, which any host may send to the local server.  As the
  first one it ends the program, for lack of a session; later it closes the session that spoke
  last.  An empty answer of the SOCKS5 server ends the program, too.
\<close>

theorem empty_datagrams_disrupt:
  assumes "udp_reachable family y" "\<not> udp_ended (run_server y)" "context_memory env"
  shows "(read_session (run_server y) = None \<longrightarrow> server_read_complete family env query now True [] peer r (run_server y) = None) \<and>
    (read_session (run_server y) = Some i \<longrightarrow>
      (\<exists>result r' s. server_read_complete family env query now True [] peer r (run_server y) = Some (result, r', s) \<and>
         ready_for_removal (sessions s ! i))) \<and>
    session_read_complete env now True j [] (run_server y) = None"
proof -
  have none: "read_packet (run_server y) = None" and m: "map_ok (run_server y)"
    using run_invD [OF udp_reachable_inv [OF assms(1)]] by simp_all
  have "session_read_complete env now True j [] (run_server y) = None"
    using assms(2,3) by (simp add: session_read_complete_def relay_to_client_def post_answer_def Let_def)
  moreover have "server_read_complete family env query now True [] peer r (run_server y) = None"
    if "read_session (run_server y) = None"
    using assms(2) that by (simp add: server_read_complete_def handle_datagram_def)
  moreover have "\<exists>result r' s. server_read_complete family env query now True [] peer r (run_server y) = Some (result, r', s) \<and>
      ready_for_removal (sessions s ! i)" if "read_session (run_server y) = Some i"
  proof -
    have i: "i < length (sessions (run_server y))"
      using m that by (simp add: map_ok_def)
    show ?thesis
      using assms(2,3) that none i
      by (simp add: server_read_complete_def handle_datagram_def relay_to_proxy_def Let_def)
        (auto simp: update_session_def close_udp_client_def)
  qed
  ultimately show ?thesis
    by blast
qed

section \<open>The association\<close>

text \<open>
  C15: a port is taken for associated only after the greeting, then user name and password only if
  the server chose that method and the context has both, then the request with no address, and
  nothing else was sent.  A complete reply that was accepted starts with 5 and 0, and the port is
  the one in its last two bytes, in host byte order.
\<close>

theorem association_needs_handshake:
  assumes "associate_to_socks5_proxy family io (Some ctx) = Some (sent, Some port)"
  shows "\<exists>message. sent = [greeting ctx] @ message @ [socks5_req family 3 (if is_inet6 family then 4 else 1) 0 0] \<and>
    (message \<noteq> [] \<longrightarrow> (\<exists>bs u p m. snd (io 0) = Some bs \<and> take 2 bs = [5, 2] \<and>
       usable_credentials ctx = Some (u, p) \<and> username_auth_init u p = Some m \<and> message = [m])) \<and>
    (\<forall>bs. snd (io 2) = Some bs \<and> length bs = length (new_socks5_resp family) \<longrightarrow>
       bs ! 0 = 5 \<and> bs ! 1 = 0 \<and> port = ntohs (le16 (bs ! (length bs - 2)) (bs ! (length bs - 1))))"
proof -
  from assms obtain said where l: "login_to_socks5_proxy io ctx = Some (said, True)"
    and a: "sent = said @ [socks5_req family 3 (if is_inet6 family then 4 else 1) 0 0]"
      "(case ask (io 2) (new_socks5_resp family) of None \<Rightarrow> None
        | Some resp \<Rightarrow> if resp ! 0 \<noteq> 5 \<or> resp ! 1 \<noteq> 0 then None
            else let n = length (new_socks5_resp family) in Some (ntohs (le16 (resp ! (n - 2)) (resp ! (n - 1))))) = Some port"
    by (auto simp: associate_to_socks5_proxy_def bind_eq_Some_conv Let_def split: if_splits)
  have greet: "socks5_ident_req (if socks5_username ctx = None then [0] else [0, 2]) = greeting ctx"
    by (simp add: socks5_ident_req_def greeting_def socks5_protocol_version_def)
  from l obtain answer where answer: "ask (io 0) [5, 0] = Some answer" "answer ! 0 = 5"
    "answer ! 1 \<noteq> 2 \<and> said = [greeting ctx] \<or>
     answer ! 1 = 2 \<and> (\<exists>u p m. usable_credentials ctx = Some (u, p) \<and> username_auth_init u p = Some m \<and> said = [greeting ctx, m])"
    unfolding login_to_socks5_proxy_def greet Let_def socks5_protocol_version_def
    by (auto simp: bind_eq_Some_conv split: option.splits if_splits)
  from answer(1) obtain bs where bs: "snd (io 0) = Some bs" "answer = read_into [5, 0] bs"
    by (auto simp: ask_def split: if_splits)
  have two: "take 2 bs = [5, 2]" if "answer ! 1 = 2"
    using that answer(2) bs(2) by (cases bs; cases "tl bs") (auto simp: read_into_def)
  have full: "bs ! 0 = 5 \<and> bs ! 1 = 0 \<and> port = ntohs (le16 (bs ! (length bs - 2)) (bs ! (length bs - 1)))"
    if "snd (io 2) = Some bs" "length bs = length (new_socks5_resp family)" for bs
    using that a(2) by (auto simp: ask_def read_into_def Let_def split: if_splits)
  from answer(3) show ?thesis
  proof
    assume "answer ! 1 \<noteq> 2 \<and> said = [greeting ctx]"
    with a(1) full show ?thesis
      by (intro exI [of _ "[]"]) simp
  next
    assume "answer ! 1 = 2 \<and> (\<exists>u p m. usable_credentials ctx = Some (u, p) \<and> username_auth_init u p = Some m \<and> said = [greeting ctx, m])"
    then obtain u p m where m: "usable_credentials ctx = Some (u, p)" "username_auth_init u p = Some m"
      "said = [greeting ctx, m]" "answer ! 1 = 2"
      by blast
    with a(1) full bs(1) two show ?thesis
      by (intro exI [of _ "[m]"]) auto
  qed
qed

text \<open>
  A server that closes the connection without a word passes for one that agreed to everything:
  the structures keep their initial values, a success without authentication, and datagrams are
  sent to port 0.
\<close>

theorem silent_server_associates:
  "\<exists>sent. associate_to_socks5_proxy family (\<lambda>_. (True, Some [])) (Some ctx) = Some (sent, Some 0)"
  by (simp add: associate_to_socks5_proxy_def login_to_socks5_proxy_def ask_def read_into_def socks5_protocol_version_def
      new_socks5_resp_def ntohs_le16 Let_def) (simp add: le16_def)

section \<open>Witnesses\<close>

definition sample_udp_context :: "ip_address_v4 negotiate_context" where
  "sample_udp_context = \<lparr>remote_address = 0, remote_port = 0, socks5_username = None, socks5_password = None\<rparr>"

definition sample_udp_results :: "ip_address_v4 udp_results" where
  "sample_udp_results = \<lparr>control_socket = Some 2, control_bound = True, control_connected = (\<lambda>_. True),
     questions = (\<lambda>n. (True, Some (if n = 0 then [5, 0] else [5, 0, 0, 1, 0, 0, 0, 0, 16, 0]))),
     udp_socket = Some 3, udp_bound = True, udp_connected = True, has_memory = True, context_memory = True,
     send_accepted = True, recv_accepted = True, server_recv_accepted = True\<rparr>"

definition sample_udp_server :: "ip_address_v4 udp_server" where
  "sample_udp_server = snd (start_udp_server (Some 5) True (the (new_udp_server (Some 1) True (Some 7000) 0)))"

lemma sample_association:
  "associate_to_socks5_proxy inet (questions sample_udp_results) (Some sample_udp_context) =
   Some ([[5, 1, 0], socks5_req inet 3 1 0 0], Some 4096)"
  by (simp add: associate_to_socks5_proxy_def login_to_socks5_proxy_def ask_def read_into_def sample_udp_results_def
      sample_udp_context_def inet_def new_socks5_resp_def socks5_ident_req_def socks5_protocol_version_def ntohs_le16 Let_def)
    (simp add: le16_def)

lemma sample_results_simps [simp]:
  "control_socket sample_udp_results = Some 2" "control_bound sample_udp_results" "control_connected sample_udp_results p"
  "udp_socket sample_udp_results = Some 3" "udp_bound sample_udp_results" "udp_connected sample_udp_results"
  "has_memory sample_udp_results" "context_memory sample_udp_results" "send_accepted sample_udp_results"
  "recv_accepted sample_udp_results" "server_recv_accepted sample_udp_results"
  by (simp_all add: sample_udp_results_def)

text \<open>A server that has relayed two datagrams of one client, the sends not completed yet.\<close>

definition sample_packet :: "nat \<Rightarrow> u8 list \<Rightarrow> net_packet" where
  "sample_packet i bytes = (new_net_packet i 32)\<lparr>np_len := length bytes,
     np_data := (\<lambda>j. if j < length bytes then bytes ! j else 0)\<rparr>"

definition sample_busy :: "u8 list list \<Rightarrow> ip_address_v4 udp_server" where
  "sample_busy ds = sample_udp_server\<lparr>udp_sockets := [5000 \<mapsto> 0],
     sessions := [(new_udp_session 0 2 3 (77, 5000) (9, 4096))\<lparr>receiving := True\<rparr>], next_packet := length ds,
     read_session := Some 0,
     sends := map (\<lambda>i. \<lparr>send_to_local = False, send_session = 0, send_packet = sample_packet i (ds ! i)\<rparr>) [0..<length ds]\<rparr>"

lemma sample_udp_server_simps:
  "sample_udp_server = \<lparr>udp_proxy_port = 7000, server_socket = Some 1, udp_ended = False, udp_completion_key = 5,
     udp_sockets = Map.empty, sessions = [], packets = new_packet_pool 100, next_packet = 0, read_session = None,
     read_packet = None, reading = True, sends = [], active_iocp_operations = 1, closed_handles = []\<rparr>"
  by (simp add: sample_udp_server_def new_udp_server_def create_udp_server_socket_def start_udp_server_def)

lemmas sample_udp_defs = server_read_complete_def handle_datagram_def accept_datagram_def udp_connect_to_remote_host_def
  relay_to_proxy_def connect_to_socks5_proxy_def open_udp_session_def start_udp_session_def new_udp_session_def
  update_session_def allocate_def from_class_def new_packet_pool_def new_net_packet_def fill_packet_def

lemma sample_first:
  "server_read_complete inet sample_udp_results (\<lambda>_ _ r. ((9, 1080, Some sample_udp_context), r)) 0 True [1, 2] (77, 5000) ()
     sample_udp_server = Some (True, (), sample_busy [[1, 2]])"
  by (simp add: sample_udp_defs sample_association sample_udp_server_simps sample_busy_def sample_packet_def)
    (simp add: fun_eq_iff)

lemma sample_second:
  "server_read_complete inet sample_udp_results (\<lambda>_ _ r. ((9, 1080, Some sample_udp_context), r)) 0 True [3] (77, 5000) ()
     (sample_busy [[1, 2]]) = Some (True, (), sample_busy [[1, 2], [3]])"
  by (simp add: sample_udp_defs sample_association sample_udp_server_simps sample_busy_def sample_packet_def)
    (simp add: fun_eq_iff)

definition sample_run_of :: "u8 list list \<Rightarrow> ip_address_v4 udp_run" where
  "sample_run_of ds = (run_start sample_udp_server)\<lparr>run_server := sample_busy ds,
     from_client := (\<lambda>_. [])(5000 := ds), to_proxy := (\<lambda>_. [])(0 := ds)\<rparr>"

definition sample_run :: "ip_address_v4 udp_run" where
  "sample_run = sample_run_of [[1, 2], [3]]"

lemma sample_packet_bytes: "packet_bytes (sample_packet i bytes) = bytes"
  by (rule nth_equalityI) (simp_all add: packet_bytes_def sample_packet_def new_net_packet_def)

lemma sample_busy_sends:
  "sends (sample_busy ds) = map (\<lambda>i. \<lparr>send_to_local = False, send_session = 0, send_packet = sample_packet i (ds ! i)\<rparr>) [0..<length ds]"
  by (simp add: sample_busy_def)

lemma sample_posted: "posted_by b i [\<lparr>send_to_local = False, send_session = 0, send_packet = sample_packet j bytes\<rparr>] =
    (if \<not> b \<and> i = 0 then [bytes] else [])"
  by (simp add: posted_by_def sample_packet_bytes)

lemma sample_advance_1: "advance (sample_busy [[1, 2]]) ((run_start sample_udp_server)\<lparr>from_client := (\<lambda>_. [])(5000 := [[1, 2]])\<rparr>) =
    sample_run_of [[1, 2]]"
  by (simp add: sample_run_of_def advance_def run_start_def sample_busy_sends sample_udp_server_simps sample_posted fun_upd_def Let_def)

lemma sample_advance_2: "advance (sample_busy [[1, 2], [3]]) ((sample_run_of [[1, 2]])\<lparr>from_client := (\<lambda>_. [])(5000 := [[1, 2], [3]])\<rparr>) =
    sample_run"
proof -
  have "to_proxy (sample_run_of ds) = (\<lambda>i. if i = 0 then ds else [])" "to_client (sample_run_of ds) = (\<lambda>_. [])" for ds
    by (simp_all add: sample_run_of_def run_start_def fun_upd_def)
  moreover have "drop (length (sends (sample_busy [[1, 2]]))) (sends (sample_busy [[1, 2], [3]])) =
      [\<lparr>send_to_local = False, send_session = 0, send_packet = sample_packet 1 [3]\<rparr>]"
    by (simp add: sample_busy_sends)
  moreover have "run_server (sample_run_of [[1, 2]]) = sample_busy [[1, 2]]"
    by (simp add: sample_run_of_def)
  ultimately have "advance (sample_busy [[1, 2], [3]]) ((sample_run_of [[1, 2]])\<lparr>from_client := (\<lambda>_. [])(5000 := [[1, 2], [3]])\<rparr>) =
      (sample_run_of [[1, 2]])\<lparr>from_client := (\<lambda>_. [])(5000 := [[1, 2], [3]]), run_server := sample_busy [[1, 2], [3]],
        to_proxy := (\<lambda>i. if i = 0 then [[1, 2], [3]] else []), to_client := (\<lambda>_. [])\<rparr>"
    by (simp add: advance_def sample_posted Let_def if_distrib [of "\<lambda>l. l @ _"] cong: if_cong)
  then show ?thesis
    by (simp add: sample_run_def sample_run_of_def run_start_def fun_upd_def)
qed

lemma sample_run_reachable: "udp_reachable inet sample_run"
proof -
  let ?new = "the (new_udp_server (Some 1) True (Some 7000) 0) :: ip_address_v4 udp_server"
  let ?y0 = "run_start ?new" and ?y1 = "run_start sample_udp_server"
  have 0: "new_udp_server (Some 1) True (Some 7000) 0 = Some ?new"
    by (simp add: new_udp_server_def create_udp_server_socket_def)
  have 1: "udp_step inet ?y0 ?y1"
    using udp_step.started [of inet ?y0 "Some 5" True] by (simp add: run_start_def sample_udp_server_def)
  have "run_server ?y1 = sample_udp_server" "from_client ?y1 = (\<lambda>_. [])" "reading sample_udp_server"
    by (simp_all add: run_start_def sample_udp_server_simps)
  then have 2: "udp_step inet ?y1 (sample_run_of [[1, 2]])"
    using udp_step.datagram [of ?y1 inet sample_udp_results "(9, 1080, Some sample_udp_context)" 0 True "[1, 2]" "(77, 5000)"]
      sample_first sample_advance_1 by simp
  have "run_server (sample_run_of [[1, 2]]) = sample_busy [[1, 2]]" "from_client (sample_run_of [[1, 2]]) = (\<lambda>_. [])(5000 := [[1, 2]])"
    "reading (sample_busy [[1, 2]])"
    by (simp_all add: sample_run_of_def sample_busy_def sample_udp_server_simps)
  then have 3: "udp_step inet (sample_run_of [[1, 2]]) sample_run"
    using udp_step.datagram [of "sample_run_of [[1, 2]]" inet sample_udp_results "(9, 1080, Some sample_udp_context)" 0 True "[3]" "(77, 5000)"]
      sample_second sample_advance_2 by simp
  have "(udp_step inet)\<^sup>*\<^sup>* ?y0 sample_run"
    by (rule converse_rtranclp_into_rtranclp [OF 1 converse_rtranclp_into_rtranclp [OF 2 converse_rtranclp_into_rtranclp
          [OF 3 rtranclp.rtrancl_refl [of "udp_step inet" sample_run]]]])
  with 0 show ?thesis
    unfolding udp_reachable_def by blast
qed

lemma sample_run_simps:
  "run_server sample_run = sample_busy [[1, 2], [3]]" "length (sessions (sample_busy ds)) = 1" "length (sends (sample_busy ds)) = length ds"
  "\<not> udp_ended (sample_busy ds)" "read_session (sample_busy ds) = Some 0"
  by (simp_all add: sample_run_def sample_run_of_def sample_busy_def sample_udp_server_simps)

theorem datagrams_relayed_unaltered_witness: "subseq (to_proxy sample_run 0) [[1, 2], [3]] \<and> to_proxy sample_run 0 \<noteq> []"
  using datagrams_relayed_unaltered [OF sample_run_reachable, of 0] unfolding sample_run_simps
  by (simp add: sample_run_def sample_run_of_def sample_busy_def new_udp_session_def)


theorem failed_receive_deafens_session_witness:
  "to_client (sample_run\<lparr>run_server := snd (the (session_read_complete sample_udp_results 9 False 0 [] (run_server sample_run)))\<rparr>) 0 = []"
proof -
  obtain result s where "session_read_complete sample_udp_results 9 False 0 [] (run_server sample_run) = Some (result, s)"
    by (simp add: session_read_complete_def sample_run_simps)
  with failed_receive_deafens_session [OF sample_run_reachable _ this rtranclp.rtrancl_refl] show ?thesis
    by (simp add: sample_run_simps) (simp add: sample_run_def sample_run_of_def run_start_def)
qed

theorem empty_datagrams_disrupt_witness:
  "\<exists>result r' s. server_read_complete inet sample_udp_results (\<lambda>_ _ r. ((9, 1080, Some sample_udp_context), r)) 1 True [] (5, 6) ()
     (run_server sample_run) = Some (result, r', s) \<and> ready_for_removal (sessions s ! 0)"
  using empty_datagrams_disrupt [OF sample_run_reachable, where env = sample_udp_results and now = 1 and peer = "(5, 6)"
      and query = "\<lambda>_ _ r. ((9, 1080, Some sample_udp_context), r)" and r = "()" and i = 0]
  by (simp add: sample_run_simps)

theorem association_needs_handshake_witness:
  "ntohs (le16 16 0) = 4096 \<and> (\<exists>message. [[5, 1, 0], socks5_req inet 3 1 0 0] =
     [greeting sample_udp_context] @ message @ [socks5_req inet 3 1 0 0])"
  using association_needs_handshake [OF sample_association]
  by (auto simp: sample_udp_results_def inet_def new_socks5_resp_def)

end
