(* ===== verification/Router_Udp.thy ===== *)
theory Router_Udp
  imports Router_Paths Udp_Sessions
begin

text \<open>
  The router and its local UDP server together: the way of a routed datagram to the SOCKS5 server,
  and what becomes of it after a pause of the application.
\<close>

section \<open>Datagrams the router turns to the local server\<close>

definition proxied_udp ::
  "process_times \<Rightarrow> router \<Rightarrow> u16 \<Rightarrow> intermediate_buffer \<Rightarrow> u32 \<Rightarrow> u16 \<Rightarrow> u32 \<Rightarrow> u16 \<Rightarrow> bool" where
  "proxied_udp sys r port p app app_port server server_port \<longleftrightarrow>
     udp_packet p \<and> unicast (m_IBuffer p) \<and> carries (m_IBuffer p) app app_port server server_port \<and>
     ip_th (m_IBuffer p) + seg_len (m_IBuffer p) + socks5_udp_header_size_v4 \<le> MAX_ETHER_FRAME \<and>
     ntohs server_port \<noteq> 53 \<and> \<not> is_udp_proxy_port (ntohs app_port) (config r) \<and> port \<noteq> 0 \<and>
     (case udp_owner r p of
        None \<Rightarrow> False
      | Some ref \<Rightarrow> routed_udp sys r ref port \<and>
          match_destination_direct_rule False (process_of r ref) server (ntohs server_port) (destination_direct_rules (config r)) = None)"

lemma proxied_udp_redirect [simp]:
  "proxied_udp sys (r\<lparr>udp_redirect := u, udp_mapper := mapper\<rparr>) port p app app_port server server_port \<longleftrightarrow>
   proxied_udp sys r port p app app_port server server_port"
  "proxied_udp sys (r\<lparr>udp_redirect := u\<rparr>) port p app app_port server server_port \<longleftrightarrow>
   proxied_udp sys r port p app app_port server server_port"
  "proxied_udp sys (r\<lparr>udp_mapper := mapper\<rparr>) port p app app_port server server_port \<longleftrightarrow>
   proxied_udp sys r port p app app_port server server_port"
  by (simp_all add: proxied_udp_def udp_owner_def routed_udp_def Let_def cong: option.case_cong)

lemma proxied_udp_filtered:
  assumes "proxied_udp sys r port p app app_port server server_port"
  shows "\<exists>p1 u. filter_packet sys now allocated p r = Some (action_type_revert, p1,
      r\<lparr>udp_redirect := u, udp_mapper := (if endpoints (udp_redirect r) app_port = None
        then insert (ntohs app_port) (udp_mapper r) else udp_mapper r)\<rparr>) \<and>
    endpoints u app_port = Some now \<and> carries (m_IBuffer p1) server app_port app (htons port) \<and>
    udp_payload p1 = socks5_udp_header_v4 (m_IBuffer p) @ udp_payload p"
proof -
  let ?m = "m_IBuffer p"
  have a: "udp_packet p" "unicast ?m" "carries ?m app app_port server server_port" "port \<noteq> 0"
    "ip_th ?m + seg_len ?m + socks5_udp_header_size_v4 \<le> MAX_ETHER_FRAME"
    "ntohs server_port \<noteq> 53" "\<not> is_udp_proxy_port (ntohs app_port) (config r)"
    using assms by (simp_all add: proxied_udp_def)
  from assms obtain ref where ref: "udp_owner r p = Some ref" "routed_udp sys r ref port"
    "match_destination_direct_rule False (process_of r ref) server (ntohs server_port) (destination_direct_rules (config r)) = None"
    by (auto simp: proxied_udp_def split: option.splits)
  have fp: "th_sport ?m (ip_th ?m) = app_port" "ip_dst ?m = server" "th_dport ?m (ip_th ?m) = server_port"
    using a(3) by (simp_all add: carries_def)
  obtain is_new u where u: "is_new_endpoint_v4 now (udp_redirect r) p = (is_new, u)"
    by fastforce
  with udp_packetD [OF a(1)] have known: "\<exists>t. endpoints u app_port = Some t" "is_new \<longleftrightarrow> endpoints (udp_redirect r) app_port = None"
    by (auto simp: is_new_endpoint_v4_def note_endpoint_def Let_def fp split: option.splits if_splits)
  then obtain t0 where "endpoints u app_port = Some t0"
    by blast
  from client_datagram_encapsulated [OF a(1,3) this _ a(5), of "htons port" now] a(4) obtain u1 p1
    where p1: "udp_client_to_server_v4 now u (htons port) p = Some (True, u1, p1)" "endpoints u1 app_port = Some now"
      "carries (m_IBuffer p1) server app_port app (htons port)" "udp_payload p1 = socks5_udp_header_v4 ?m @ udp_payload p"
    by auto
  have "decide_packet sys now p r = redirect_udp now port p r"
    using decide_owned_udp [OF a(1,2) ref(1)] routed_udpD(2) [OF ref(2)] a(6,7) ref(3) by (simp add: fp)
  then have "filter_packet sys now allocated p r = Some (action_type_revert, p1,
      r\<lparr>udp_redirect := u1, udp_mapper := (if is_new then insert (ntohs app_port) (udp_mapper r) else udp_mapper r)\<rparr>)"
    by (intro filter_decided) (simp add: redirect_udp_def u p1(1) fp)
  with p1(2-) show ?thesis
    unfolding known(2) by blast
qed

section \<open>The first datagram of a port\<close>

lemma allocate_some:
  assumes "n \<le> 65536" "pool_ok p"
  shows "\<exists>k p'. allocate True i n p = (Some k, p') \<and> n \<le> max_size k"
proof -
  obtain c stack put where "allocate True i n p = from_class True i c stack put" "n \<le> c" "stack_update c stack p put"
    using allocate_class [OF assms(1)] .
  then show ?thesis
    using stack_of_pool(2) [OF _ assms(2)] by (cases stack) (auto simp: from_class_def new_net_packet_def)
qed

text \<open>All calls of the local server succeed, and the SOCKS5 server associates the session.\<close>

definition associating :: "ip_address_v4 udp_results \<Rightarrow> ip_address_v4 \<times> u16 \<Rightarrow> ip_address_v4 negotiate_context \<Rightarrow> u16 \<Rightarrow> bool" where
  "associating env socks ctx relay_port \<longleftrightarrow>
     control_socket env \<noteq> None \<and> control_bound env \<and> control_connected env socks \<and>
     (\<exists>said. associate_to_socks5_proxy inet (questions env) (Some ctx) = Some (said, Some relay_port)) \<and>
     udp_socket env \<noteq> None \<and> udp_bound env \<and> udp_connected env \<and> has_memory env \<and> context_memory env \<and>
     send_accepted env \<and> recv_accepted env \<and> server_recv_accepted env"

lemma new_session_relays:
  assumes "\<not> udp_ended s" "udp_sockets s (snd peer) = None" "pool_ok (packets s)"
    and "query (fst peer) (snd peer) r = ((fst socks, snd socks, Some ctx), r2)" "associating env socks ctx relay_port"
    and "bytes \<noteq> []" "length bytes \<le> 65536"
  shows "\<exists>s' k x. server_read_complete inet env query now True bytes peer r s = Some (True, r2, s') \<and>
    sends s' = sends s @ [\<lparr>send_to_local = False, send_session = length (sessions s), send_packet = k\<rparr>] \<and>
    packet_bytes k = bytes \<and> sessions s' = sessions s @ [x] \<and> local_address x = peer \<and>
    remote_peer x = (fst socks, relay_port) \<and> receiving x \<and> udp_sockets s' (snd peer) = Some (length (sessions s))"
proof -
  let ?s = "s\<lparr>reading := False, active_iocp_operations := active_iocp_operations s - 1\<rparr>"
  obtain t u said where e: "control_socket env = Some t" "udp_socket env = Some u" "control_bound env" "control_connected env socks"
    "associate_to_socks5_proxy inet (questions env) (Some ctx) = Some (said, Some relay_port)"
    "udp_bound env" "udp_connected env" "has_memory env" "context_memory env" "send_accepted env" "recv_accepted env"
    "server_recv_accepted env"
    using assms(5) by (auto simp: associating_def)
  let ?x = "(new_udp_session now t u peer (fst socks, relay_port))\<lparr>receiving := True\<rparr>"
  let ?s1 = "?s\<lparr>udp_sockets := (udp_sockets s)(snd peer \<mapsto> length (sessions s)), sessions := sessions s @ [?x],
      read_session := Some (length (sessions s))\<rparr>"
  have connect: "udp_connect_to_remote_host inet env query now peer r ?s = Some (True, r2, ?s1)"
    using assms(2,4) e by (simp add: udp_connect_to_remote_host_def connect_to_socks5_proxy_def open_udp_session_def start_udp_session_def)
  obtain k pool where k: "allocate True (next_packet s) (length bytes) (packets s) = (Some k, pool)" "length bytes \<le> max_size k"
    using allocate_some [OF assms(7,3)] by blast
  obtain k' where k': "fill_packet bytes k = Some k'"
    using fill_packet_fits [OF k(2)] by blast
  let ?s2 = "?s1\<lparr>packets := pool, next_packet := Suc (next_packet s), read_packet := Some k'\<rparr>"
  have accept: "accept_datagram inet env query now bytes peer r ?s = Some (True, r2, ?s2)"
    using connect k(1) k' e(8) by (simp add: accept_datagram_def)
  show ?thesis
    using assms(1,6) accept e(9,10,12) fill_packet_result(1) [OF k']
    by (simp add: server_read_complete_def handle_datagram_def relay_to_proxy_def update_session_def new_udp_session_def)
qed

lemma proxied_payload:
  assumes "proxied_udp sys r port p app app_port server server_port"
  shows "length (socks5_udp_header_v4 (m_IBuffer p) @ udp_payload p) \<le> 65536" "socks5_udp_header_v4 (m_IBuffer p) @ udp_payload p \<noteq> []"
proof -
  have "ip_th (m_IBuffer p) + seg_len (m_IBuffer p) \<le> 1514"
    using assms by (simp add: proxied_udp_def MAX_ETHER_FRAME_def)
  then have "length (udp_payload p) \<le> 1514"
    by (simp add: udp_payload_def)
  then show "length (socks5_udp_header_v4 (m_IBuffer p) @ udp_payload p) \<le> 65536" "socks5_udp_header_v4 (m_IBuffer p) @ udp_payload p \<noteq> []"
    by (simp_all add: socks5_udp_header_v4_def)
qed

section \<open>Datagrams after a pause\<close>

text \<open>
  Datagrams of the application one after the other: each passes the router and is then read by the
  local server, which asks the router for its peer.
\<close>

fun deliver ::
  "process_times \<Rightarrow> local_proxy \<Rightarrow> (time_point \<times> ip_address_v4 udp_results \<times> intermediate_buffer) list \<Rightarrow>
   router \<Rightarrow> ip_address_v4 udp_server \<Rightarrow> (router \<times> ip_address_v4 udp_server) option" where
  "deliver sys proxy [] r s = Some (r, s)"
| "deliver sys proxy ((now, env, p) # ds) r s = do {
     (_, p1, r) \<leftarrow> filter_packet sys now True p r;
     let m = m_IBuffer p1;
     (_, r, s) \<leftarrow> server_read_complete inet env (\<lambda>_ port r. udp_query_remote_peer proxy port r) now True (udp_payload p1)
       (ip_src m, ntohs (th_sport m (ip_th m))) r s;
     deliver sys proxy ds r s
   }"

text \<open>The redirector knows the port, the mapper and the server do not.\<close>

definition forgotten :: "u16 \<Rightarrow> router \<Rightarrow> ip_address_v4 udp_server \<Rightarrow> bool" where
  "forgotten app_port r s \<longleftrightarrow> endpoints (udp_redirect r) app_port \<noteq> None \<and> ntohs app_port \<notin> udp_mapper r \<and>
     udp_sockets s (ntohs app_port) = None \<and> \<not> udp_ended s"

lemma forgotten_read:
  assumes "forgotten app_port r s" "\<not> control_connected env (0, 0)" "bytes \<noteq> []" "snd peer = ntohs app_port"
  shows "\<exists>result s'. server_read_complete inet env (\<lambda>_ port r. udp_query_remote_peer proxy port r) now True bytes peer r s =
    Some (result, r, s') \<and> forgotten app_port r s' \<and> sends s' = sends s"
proof -
  let ?s = "s\<lparr>reading := False, active_iocp_operations := active_iocp_operations s - 1\<rparr>"
  obtain c s1 where t: "connect_to_socks5_proxy env (0, 0) ?s = (c, s1)"
    by fastforce
  moreover from this have "c = None"
    using assms(2) by (auto simp: connect_to_socks5_proxy_def split: option.splits if_splits)
  ultimately have s1: "connect_to_socks5_proxy env (0, 0) ?s = (None, s1)" "udp_sockets s1 = udp_sockets s" "sends s1 = sends s"
    "udp_ended s1 = udp_ended s"
    using udp_control_keeps [OF t] by simp_all
  have "udp_connect_to_remote_host inet env (\<lambda>_ port r. udp_query_remote_peer proxy port r) now peer r ?s = Some (False, r, s1)"
    using assms(1,4) s1(1) by (simp add: udp_connect_to_remote_host_def udp_query_remote_peer_def forgotten_def)
  then have "handle_datagram inet env (\<lambda>_ port r. udp_query_remote_peer proxy port r) now True bytes peer r ?s = Some (False, r, s1)"
    using assms(3) by (simp add: handle_datagram_def accept_datagram_def)
  then show ?thesis
    using assms(1) s1(2-) by (auto simp: server_read_complete_def forgotten_def)
qed

lemma forgotten_delivered:
  assumes "forgotten app_port r s" "proxied_udp sys r port p app app_port server server_port" "\<not> control_connected env (0, 0)"
  shows "\<exists>u s'. deliver sys proxy ((now, env, p) # ds) r s = deliver sys proxy ds (r\<lparr>udp_redirect := u\<rparr>) s' \<and>
    forgotten app_port (r\<lparr>udp_redirect := u\<rparr>) s' \<and> sends s' = sends s"
proof -
  from proxied_udp_filtered [OF assms(2), of now True] assms(1) obtain p1 u
    where f: "filter_packet sys now True p r = Some (action_type_revert, p1, r\<lparr>udp_redirect := u\<rparr>)"
      and p1: "endpoints u app_port = Some now" "carries (m_IBuffer p1) server app_port app (htons port)"
        "udp_payload p1 = socks5_udp_header_v4 (m_IBuffer p) @ udp_payload p"
    by (auto simp: forgotten_def)
  have "forgotten app_port (r\<lparr>udp_redirect := u\<rparr>) s"
    using assms(1) p1(1) by (simp add: forgotten_def)
  from forgotten_read [OF this assms(3) proxied_payload(2) [OF assms(2)], of "(server, ntohs app_port)" proxy now]
  obtain result s' where "server_read_complete inet env (\<lambda>_ port r. udp_query_remote_peer proxy port r) now True (udp_payload p1)
      (server, ntohs app_port) (r\<lparr>udp_redirect := u\<rparr>) s = Some (result, r\<lparr>udp_redirect := u\<rparr>, s')"
    "forgotten app_port (r\<lparr>udp_redirect := u\<rparr>) s'" "sends s' = sends s"
    unfolding p1(3) by auto
  moreover have "ip_src (m_IBuffer p1) = server" "th_sport (m_IBuffer p1) (ip_th (m_IBuffer p1)) = app_port"
    using p1(2) by (simp_all add: carries_def)
  ultimately show ?thesis
    using f by (intro exI [of _ u] exI [of _ s']) (simp add: Let_def)
qed

lemma forgotten_all:
  assumes "forgotten app_port r s"
    and "\<forall>(now, env, p) \<in> set ds. \<not> control_connected env (0, 0) \<and>
      (\<exists>app server server_port. proxied_udp sys r port p app app_port server server_port)"
  shows "\<exists>r' s'. deliver sys proxy ds r s = Some (r', s') \<and> sends s' = sends s"
  using assms
proof (induction ds arbitrary: r s)
  case (Cons d ds)
  obtain now env p where d: "d = (now, env, p)"
    by (cases d)
  with Cons.prems obtain app server server_port where "proxied_udp sys r port p app app_port server server_port"
    "\<not> control_connected env (0, 0)"
    by auto
  from forgotten_delivered [OF Cons.prems(1) this] obtain u s'
    where u: "deliver sys proxy (d # ds) r s = deliver sys proxy ds (r\<lparr>udp_redirect := u\<rparr>) s'"
      "forgotten app_port (r\<lparr>udp_redirect := u\<rparr>) s'" "sends s' = sends s"
    unfolding d by blast
  have "\<forall>(now, env, p) \<in> set ds. \<not> control_connected env (0, 0) \<and>
      (\<exists>app server server_port. proxied_udp sys (r\<lparr>udp_redirect := u\<rparr>) port p app app_port server server_port)"
    using Cons.prems(2) by auto
  from Cons.IH [OF u(2) this] u(1,3) show ?case
    by simp
qed simp

section \<open>Properties\<close>

text \<open>
  C6: the first datagram of a port reaches the SOCKS5 server.  The router turns it to the local
  server behind its header and enters the port; the server asks for the peer, associates a session
  at the SOCKS5 server of the proxy with its user, and posts exactly header and payload to the
  address of the SOCKS5 server at the port that was associated.
\<close>

theorem first_datagram_reaches_proxy:
  assumes "proxied_udp sys r port p app app_port server server_port" "endpoints (udp_redirect r) app_port = None"
    and "\<not> udp_ended s" "udp_sockets s (ntohs app_port) = None" "pool_ok (packets s)"
    and "associating env (ep_ip (lp_endpoint proxy), ep_port (lp_endpoint proxy))
      \<lparr>remote_address = 0, remote_port = 0, socks5_username = map_option fst (lp_credentials proxy),
        socks5_password = map_option snd (lp_credentials proxy)\<rparr> relay_port"
  shows "\<exists>p1 r1 r2 s' k x. filter_packet sys now allocated p r = Some (action_type_revert, p1, r1) \<and>
    carries (m_IBuffer p1) server app_port app (htons port) \<and>
    server_read_complete inet env (\<lambda>_ port r. udp_query_remote_peer proxy port r) later True (udp_payload p1)
      (server, ntohs app_port) r1 s = Some (True, r2, s') \<and>
    sends s' = sends s @ [\<lparr>send_to_local = False, send_session = length (sessions s), send_packet = k\<rparr>] \<and>
    packet_bytes k = socks5_udp_header_v4 (m_IBuffer p) @ udp_payload p \<and>
    sessions s' = sessions s @ [x] \<and> local_address x = (server, ntohs app_port) \<and>
    remote_peer x = (ep_ip (lp_endpoint proxy), relay_port) \<and> receiving x"
proof -
  let ?q = "\<lambda>_ port r. udp_query_remote_peer proxy port r"
  let ?socks = "(ep_ip (lp_endpoint proxy), ep_port (lp_endpoint proxy))"
  from proxied_udp_filtered [OF assms(1), of now allocated] obtain p1 u
    where f: "filter_packet sys now allocated p r = Some (action_type_revert, p1,
        r\<lparr>udp_redirect := u, udp_mapper := insert (ntohs app_port) (udp_mapper r)\<rparr>)" (is "_ = Some (_, _, ?r1)")
      and p1: "carries (m_IBuffer p1) server app_port app (htons port)" "udp_payload p1 = socks5_udp_header_v4 (m_IBuffer p) @ udp_payload p"
    using assms(2) by auto
  obtain r2 where "?q (fst (server, ntohs app_port)) (snd (server, ntohs app_port)) ?r1 = ((fst ?socks, snd ?socks,
      Some \<lparr>remote_address = 0, remote_port = 0, socks5_username = map_option fst (lp_credentials proxy),
        socks5_password = map_option snd (lp_credentials proxy)\<rparr>), r2)"
    by (simp add: udp_query_remote_peer_def)
  from new_session_relays [where query = ?q and peer = "(server, ntohs app_port)", OF assms(3) _ assms(5) this assms(6) proxied_payload(2) [OF assms(1)] proxied_payload(1) [OF assms(1)], of later]
  obtain s' k x where "server_read_complete inet env ?q later True (socks5_udp_header_v4 (m_IBuffer p) @ udp_payload p)
      (server, ntohs app_port) ?r1 s = Some (True, r2, s')"
    "sends s' = sends s @ [\<lparr>send_to_local = False, send_session = length (sessions s), send_packet = k\<rparr>]"
    "packet_bytes k = socks5_udp_header_v4 (m_IBuffer p) @ udp_payload p"
    "sessions s' = sessions s @ [x]" "local_address x = (server, ntohs app_port)"
    "remote_peer x = (ep_ip (lp_endpoint proxy), relay_port)" "receiving x"
    using assms(4) by auto
  with f p1 show ?thesis
    by (intro exI conjI) (assumption | simp only: p1(2))+
qed

text \<open>
  A pause of more than five minutes cuts a UDP port of the application off.  The server has
  then removed its session, but the redirector, which forgets a port after fifteen minutes only,
  does not take it for new, so the mapper has no entry and the server no peer.  Every datagram is
  dropped and renews the redirector's entry, as many as may follow.
\<close>

theorem idle_session_blackholes_port:
  assumes "endpoints (udp_redirect r) app_port \<noteq> None" "ntohs app_port \<notin> udp_mapper r"
    and "\<not> udp_ended s" "udp_sockets s (ntohs app_port) = Some i" "minutes 5 < paused - session_timestamp (sessions s ! i)"
    and "\<forall>(now, env, p) \<in> set ds. \<not> control_connected env (0, 0) \<and>
      (\<exists>app server server_port. proxied_udp sys r port p app app_port server server_port)"
  shows "\<exists>r' s'. deliver sys proxy ds r (clear_udp_sessions paused s) = Some (r', s') \<and> sends s' = sends s"
proof -
  have "forgotten app_port r (clear_udp_sessions paused s)" "sends (clear_udp_sessions paused s) = sends s"
    using assms(1-5) by (simp_all add: forgotten_def clear_udp_sessions_def udp_ready_for_removal_def)
  with forgotten_all [OF _ assms(6)] show ?thesis
    by metis
qed

section \<open>Witnesses\<close>

lemma sample_proxied:
  "proxied_udp sample_times routed_router 1792 (sample_udp 10 3 20 80 [1, 2]) (le32 10 0 0 0) (le16 3 0) (le32 20 0 0 0) (le16 80 0)"
proof -
  let ?p = "sample_udp 10 3 20 80 [1, 2]"
  have p: "udp_packet ?p" "carries (m_IBuffer ?p) (le32 10 0 0 0) (le16 3 0) (le32 20 0 0 0) (le16 80 0)"
    "ip_th (m_IBuffer ?p) + seg_len (m_IBuffer ?p) + socks5_udp_header_size_v4 \<le> MAX_ETHER_FRAME"
    by (simp_all add: sample_udp_ok sample_udp_th socks5_udp_header_size_v4_def MAX_ETHER_FRAME_def)
  have "udp_owner routed_router ?p = Some 1"
    using p(2) by (simp add: udp_owner_def Let_def carries_def) (simp add: routed_router_def wire_simps)
  moreover have "ntohs (le16 80 0) \<noteq> 53" "\<not> is_udp_proxy_port (ntohs (le16 3 0)) (config routed_router)"
    by (simp_all add: wire_simps sample_ports routed_ports)
  ultimately show ?thesis
    using p sample_udp_unicast routed_router_routes(2) by (simp add: proxied_udp_def routed_router_simps)
qed

lemma sample_associating:
  "associating sample_udp_results (ep_ip (lp_endpoint routed_server), ep_port (lp_endpoint routed_server))
     \<lparr>remote_address = 0, remote_port = 0, socks5_username = map_option fst (lp_credentials routed_server),
       socks5_password = map_option snd (lp_credentials routed_server)\<rparr> 4096"
proof -
  have "\<exists>said. associate_to_socks5_proxy inet (questions sample_udp_results) (Some ctx) = Some (said, Some 4096)" for ctx
    by (simp add: associate_to_socks5_proxy_def login_to_socks5_proxy_def ask_def read_into_def sample_udp_results_def
        inet_def new_socks5_resp_def socks5_protocol_version_def ntohs_le16 Let_def) (simp add: le16_def)
  then show ?thesis
    by (simp add: associating_def)
qed

lemma fresh_udp_server: "\<not> udp_ended sample_udp_server" "udp_sockets sample_udp_server = Map.empty" "pool_ok (packets sample_udp_server)"
  by (simp_all add: sample_udp_server_simps new_packet_pool_def pool_defs)

definition fresh_router :: router where
  "fresh_router = routed_router\<lparr>udp_redirect := (udp_redirect routed_router)\<lparr>endpoints := Map.empty\<rparr>\<rparr>"

theorem first_datagram_reaches_proxy_witness:
  "\<exists>p1 r1 r2 s' k. filter_packet sample_times 0 True (sample_udp 10 3 20 80 [1, 2]) fresh_router = Some (action_type_revert, p1, r1) \<and>
    server_read_complete inet sample_udp_results (\<lambda>_ port r. udp_query_remote_peer routed_server port r) 1 True (udp_payload p1)
      (le32 20 0 0 0, ntohs (le16 3 0)) r1 sample_udp_server = Some (True, r2, s') \<and>
    packet_bytes k = socks5_udp_header_v4 (m_IBuffer (sample_udp 10 3 20 80 [1, 2])) @ [1, 2]"
proof -
  have "proxied_udp sample_times fresh_router 1792 (sample_udp 10 3 20 80 [1, 2]) (le32 10 0 0 0) (le16 3 0) (le32 20 0 0 0) (le16 80 0)"
    unfolding fresh_router_def using sample_proxied by simp
  moreover have "endpoints (udp_redirect fresh_router) (le16 3 0) = None"
    by (simp add: fresh_router_def)
  ultimately show ?thesis
    using first_datagram_reaches_proxy [OF _ _ fresh_udp_server(1) _ fresh_udp_server(3) sample_associating,
        of sample_times fresh_router 1792 "sample_udp 10 3 20 80 [1, 2]" _ _ _ _ 0 True 1]
    by (fastforce simp: fresh_udp_server(2) sample_udp_ok)
qed

definition paused_router :: router where
  "paused_router = routed_router\<lparr>udp_redirect := (udp_redirect routed_router)\<lparr>endpoints := [le16 3 0 \<mapsto> 0]\<rparr>, udp_mapper := {}\<rparr>"

definition paused_server :: "ip_address_v4 udp_server" where
  "paused_server = (sample_busy [])\<lparr>udp_sockets := [ntohs (le16 3 0) \<mapsto> 0]\<rparr>"

theorem idle_session_blackholes_port_witness:
  "\<exists>r' s'. deliver sample_times routed_server (replicate 1000 (minutes 7, sample_udp_results\<lparr>control_connected := (\<lambda>_. False)\<rparr>,
       sample_udp 10 3 20 80 [1, 2])) paused_router (clear_udp_sessions (minutes 6) paused_server) = Some (r', s') \<and> sends s' = []"
proof -
  have r: "endpoints (udp_redirect paused_router) (le16 3 0) \<noteq> None" "ntohs (le16 3 0) \<notin> udp_mapper paused_router"
    by (simp_all add: paused_router_def)
  have s: "\<not> udp_ended paused_server" "udp_sockets paused_server (ntohs (le16 3 0)) = Some 0" "sends paused_server = []"
    "minutes 5 < minutes 6 - session_timestamp (sessions paused_server ! 0)"
    by (simp_all add: paused_server_def sample_busy_def sample_udp_server_simps new_udp_session_def)
  have "proxied_udp sample_times paused_router 1792 (sample_udp 10 3 20 80 [1, 2]) (le32 10 0 0 0) (le16 3 0) (le32 20 0 0 0) (le16 80 0)"
    unfolding paused_router_def using sample_proxied by simp
  then have all: "\<forall>(now, env, p) \<in> set (replicate n (minutes 7, sample_udp_results\<lparr>control_connected := (\<lambda>_. False)\<rparr>, sample_udp 10 3 20 80 [1, 2])).
      \<not> control_connected env (0, 0) \<and>
      (\<exists>app server server_port. proxied_udp sample_times paused_router 1792 p app (le16 3 0) server server_port)" for n
    by auto
  from idle_session_blackholes_port [OF r s(1,2,4) all, of routed_server 1000] s(3) show ?thesis
    by (simp add: clear_udp_sessions_def s(1))
qed

end
