(* ===== verification/Packet_Filter.thy ===== *)
theory Packet_Filter
  imports Router Static_Filters
begin

text \<open>
  \<^verbatim>\<open>queued_multi_interface_packet_filter\<close> (ndisapi/queued_multi_interface_packet_filter.h) and
  \<^verbatim>\<open>network_adapter\<close> (ndisapi/network_adapter.h): blocks of packets go round through four queues, each
  emptied by a thread of its own, that read packets from the driver, ask the handlers for a
  decision and write the packets back.  A thread is a small state machine whose steps are the
  sections of the code between two accesses to shared state; waiting on a condition variable is two
  steps, the test that fails and the blocking, because \<^verbatim>\<open>stop_filter\<close> may come in between.
\<close>

section \<open>Adapters\<close>

datatype ndis_wan_type = ndis_wan_none | ndis_wan_ip | ndis_wan_ipv6 | ndis_wan_bh

record network_adapter =
  ndis_handle :: u64
  hardware_address :: mac_address
  internal_name :: string
  friendly_name :: string
  medium :: u32
  adapter_mtu :: u16
  adapter_wan_type :: ndis_wan_type

text \<open>The first argument tells by the registry which of the three kinds a name belongs to.\<close>

record registry =
  IsNdiswanIp :: "string \<Rightarrow> bool"
  IsNdiswanIpv6 :: "string \<Rightarrow> bool"
  IsNdiswanBh :: "string \<Rightarrow> bool"
  friendly_name_of :: "string \<Rightarrow> string option"

definition new_network_adapter ::
  "registry \<Rightarrow> u64 \<Rightarrow> mac_address \<Rightarrow> string \<Rightarrow> string \<Rightarrow> u32 \<Rightarrow> u16 \<Rightarrow> network_adapter" where
  "new_network_adapter reg h mac name friendly med mtu =
     \<lparr>ndis_handle = h, hardware_address = mac, internal_name = name, friendly_name = friendly,
      medium = med, adapter_mtu = mtu,
      adapter_wan_type =
        (if IsNdiswanIp reg name then ndis_wan_ip
         else if IsNdiswanIpv6 reg name then ndis_wan_ipv6
         else if IsNdiswanBh reg name then ndis_wan_bh else ndis_wan_none)\<rparr>"

section \<open>Blocks of packets\<close>

text \<open>A packet is its adapter and the rest of the buffer.  Pointers into a block are indices.\<close>

type_synonym adapter_packet = "u64 \<times> intermediate_buffer"

record packet_block =
  packets_success :: nat
  packet_buffer :: "adapter_packet list"
  write_adapter_request :: "nat list"
  write_mstcp_request :: "nat list"

definition maximum_packet_block :: nat where
  "maximum_packet_block = 512"

definition maximum_block_num :: nat where
  "maximum_block_num = 16"

text \<open>The contents of a new block are whatever the memory held.\<close>

definition new_block :: "adapter_packet list \<Rightarrow> packet_block" where
  "new_block garbage = \<lparr>packets_success = 0, packet_buffer = garbage, write_adapter_request = [], write_mstcp_request = []\<rparr>"

definition requested :: "packet_block \<Rightarrow> nat list \<Rightarrow> adapter_packet list" where
  "requested b request = map (\<lambda>i. packet_buffer b ! i) request"

section \<open>The filter\<close>

datatype filter_state = state_stopped | state_starting | state_running | state_stopping

datatype stage = Read_stage | Process_stage | Mstcp_stage | Adapter_stage

fun next_stage :: "stage \<Rightarrow> stage" where
  "next_stage Read_stage = Process_stage"
| "next_stage Process_stage = Mstcp_stage"
| "next_stage Mstcp_stage = Adapter_stage"
| "next_stage Adapter_stage = Read_stage"

text \<open>
  Where a thread is: at the head of its loop, before the test under the lock, after a test that
  failed and still with the lock, blocked, notified, at work on a block, about to pass it on, or
  ended.
\<close>

datatype worker = Loop_head | Testing | Deciding | Blocked | Woken | Working packet_block | Passing packet_block | Exited

text \<open>
  \<open>releasing\<close> is the part of \<^verbatim>\<open>release_filter\<close> still to be done: the condition variables to notify.
  The last three fields record what was exchanged with the driver.
\<close>

record 's packet_filter =
  filter_state :: filter_state
  network_interfaces :: "network_adapter list"
  filter_adapters_list :: "string set"
  adapter_modes :: "u64 \<Rightarrow> u32"
  adapter_events :: "u64 \<Rightarrow> bool"
  block_queue :: "stage \<Rightarrow> packet_block list"
  worker_of :: "stage \<Rightarrow> worker"
  packet_index :: nat
  handler_state :: 's
  releasing :: "stage list option"
  packets_read :: "adapter_packet list"
  sent_mstcp :: "adapter_packet list"
  sent_adapter :: "adapter_packet list"

text \<open>
  A handler of packets: its decision, the interface it asks for, and the packet and the state it
  leaves; \<open>None\<close> is undefined behaviour.  What a call learns from the system is its first argument.
\<close>

type_synonym ('t, 's) handler = "'t \<Rightarrow> adapter_packet \<Rightarrow> 's \<Rightarrow> (packet_action \<times> u64 option \<times> adapter_packet \<times> 's) option"

record ('t, 's) handlers =
  filter_outgoing_packet :: "('t, 's) handler option"
  filter_incoming_packet :: "('t, 's) handler option"

definition on_send :: "adapter_packet \<Rightarrow> bool" where
  "on_send x \<longleftrightarrow> m_dwDeviceFlags (snd x) = PACKET_FLAG_ON_SEND"

definition on_receive :: "adapter_packet \<Rightarrow> bool" where
  "on_receive x \<longleftrightarrow> m_dwDeviceFlags (snd x) = PACKET_FLAG_ON_RECEIVE"

section \<open>Choosing the adapters\<close>

definition MSTCP_FLAG_SENT_TUNNEL :: u32 where "MSTCP_FLAG_SENT_TUNNEL = 1"
definition MSTCP_FLAG_RECV_TUNNEL :: u32 where "MSTCP_FLAG_RECV_TUNNEL = 2"

definition tunnel_flags :: "('t, 's) handlers \<Rightarrow> u32" where
  "tunnel_flags hs =
     (if filter_outgoing_packet hs = None then 0 else MSTCP_FLAG_SENT_TUNNEL) OR
     (if filter_incoming_packet hs = None then 0 else MSTCP_FLAG_RECV_TUNNEL)"

text \<open>
  The driver does what it is told for the handles it knows; the results of the calls are ignored.
\<close>

definition set_adapter :: "(u64 \<Rightarrow> bool) \<Rightarrow> u64 \<Rightarrow> bool \<Rightarrow> u32 \<Rightarrow> 's packet_filter \<Rightarrow> 's packet_filter" where
  "set_adapter known h event mode p =
     (if known h then p\<lparr>adapter_modes := (adapter_modes p)(h := mode), adapter_events := (adapter_events p)(h := event)\<rparr> else p)"

definition update_adapter :: "(u64 \<Rightarrow> bool) \<Rightarrow> ('t, 's) handlers \<Rightarrow> network_adapter \<Rightarrow> 's packet_filter \<Rightarrow> 's packet_filter" where
  "update_adapter known hs a p =
     (if filter_state p = state_running \<and> internal_name a \<in> filter_adapters_list p
      then set_adapter known (ndis_handle a) True (tunnel_flags hs) p
      else set_adapter known (ndis_handle a) False 0 p)"

definition update_adapters_filter_state :: "(u64 \<Rightarrow> bool) \<Rightarrow> ('t, 's) handlers \<Rightarrow> 's packet_filter \<Rightarrow> 's packet_filter" where
  "update_adapters_filter_state known hs p = fold (update_adapter known hs) (network_interfaces p) p"

definition filter_network_adapter :: "(u64 \<Rightarrow> bool) \<Rightarrow> ('t, 's) handlers \<Rightarrow> string \<Rightarrow> 's packet_filter \<Rightarrow> 's packet_filter" where
  "filter_network_adapter known hs name p =
     update_adapters_filter_state known hs (p\<lparr>filter_adapters_list := insert name (filter_adapters_list p)\<rparr>)"

definition unfilter_network_adapter :: "(u64 \<Rightarrow> bool) \<Rightarrow> ('t, 's) handlers \<Rightarrow> string \<Rightarrow> 's packet_filter \<Rightarrow> 's packet_filter" where
  "unfilter_network_adapter known hs name p =
     update_adapters_filter_state known hs (p\<lparr>filter_adapters_list := filter_adapters_list p - {name}\<rparr>)"

text \<open>
  The adapters the driver lists: handle, address, name, medium and MTU of each.  All names that users
  see go through one buffer and whether there is one is not looked at: without one an adapter takes
  the name of the one before it.
\<close>

fun name_interfaces ::
  "registry \<Rightarrow> string \<Rightarrow> (u64 \<times> mac_address \<times> string \<times> u32 \<times> u16) list \<Rightarrow> network_adapter list" where
  "name_interfaces reg buffer [] = []"
| "name_interfaces reg buffer ((h, mac, name, med, mtu) # listed) =
     (let buffer = (case friendly_name_of reg name of Some friendly \<Rightarrow> friendly | None \<Rightarrow> buffer)
      in new_network_adapter reg h mac name buffer med mtu # name_interfaces reg buffer listed)"

definition initialize_network_interfaces ::
  "registry \<Rightarrow> (u64 \<times> mac_address \<times> string \<times> u32 \<times> u16) list \<Rightarrow> network_adapter list" where
  "initialize_network_interfaces reg = name_interfaces reg []"

definition on_network_adapter_change ::
  "(u64 \<Rightarrow> bool) \<Rightarrow> ('t, 's) handlers \<Rightarrow> network_adapter list \<Rightarrow> 's packet_filter \<Rightarrow> 's packet_filter" where
  "on_network_adapter_change known hs adapters p =
     update_adapters_filter_state known hs (p\<lparr>network_interfaces := adapters\<rparr>)"

section \<open>Start and stop\<close>

text \<open>A new filter: its handlers' state and the adapters found.\<close>

definition new_packet_filter :: "'s \<Rightarrow> network_adapter list \<Rightarrow> 's packet_filter" where
  "new_packet_filter s adapters =
     \<lparr>filter_state = state_stopped, network_interfaces = adapters, filter_adapters_list = {},
      adapter_modes = (\<lambda>_. 0), adapter_events = (\<lambda>_. False), block_queue = (\<lambda>_. []), worker_of = (\<lambda>_. Exited),
      packet_index = 0, handler_state = s, releasing = None, packets_read = [], sent_mstcp = [], sent_adapter = []\<rparr>"

text \<open>\<open>blocks\<close> are the new blocks, \<open>None\<close> when the memory does not suffice.\<close>

definition init_filter :: "packet_block list option \<Rightarrow> 's packet_filter \<Rightarrow> bool \<times> 's packet_filter" where
  "init_filter blocks p =
     (case blocks of
        Some bs \<Rightarrow> (True, p\<lparr>block_queue := (block_queue p)(Read_stage := block_queue p Read_stage @ bs)\<rparr>)
      | None \<Rightarrow> (False, p\<lparr>block_queue := (block_queue p)(Read_stage := [])\<rparr>))"

definition start_filter ::
  "(u64 \<Rightarrow> bool) \<Rightarrow> ('t, 's) handlers \<Rightarrow> packet_block list option \<Rightarrow> 's packet_filter \<Rightarrow> bool \<times> 's packet_filter" where
  "start_filter known hs blocks p =
     (if filter_state p \<noteq> state_stopped then (False, p)
      else let p = p\<lparr>filter_state := state_starting\<rparr>;
               p = (if filter_adapters_list p = {}
                    then p\<lparr>filter_adapters_list := set (map internal_name (network_interfaces p))\<rparr> else p);
               (ok, p) = init_filter blocks p;
               p = (if ok then p\<lparr>filter_state := state_running, worker_of := (\<lambda>_. Loop_head)\<rparr>
                    else p\<lparr>filter_state := state_stopped\<rparr>)
           in (ok, update_adapters_filter_state known hs p))"

text \<open>
  \<^verbatim>\<open>stop_filter\<close> in steps: it begins, notifies the four condition variables one after the other,
  and ends when all threads have.
\<close>

definition release_adapters :: "(u64 \<Rightarrow> bool) \<Rightarrow> 's packet_filter \<Rightarrow> 's packet_filter" where
  "release_adapters known p = fold (\<lambda>a. set_adapter known (ndis_handle a) False 0) (network_interfaces p) p"

definition stop_begin :: "(u64 \<Rightarrow> bool) \<Rightarrow> 's packet_filter \<Rightarrow> bool \<times> 's packet_filter" where
  "stop_begin known p =
     (if filter_state p \<noteq> state_running then (False, p)
      else (True, (release_adapters known (p\<lparr>filter_state := state_stopping\<rparr>))
             \<lparr>releasing := Some [Read_stage, Process_stage, Mstcp_stage, Adapter_stage]\<rparr>))"

definition notify :: "stage \<Rightarrow> 's packet_filter \<Rightarrow> 's packet_filter" where
  "notify c p = (if worker_of p c = Blocked then p\<lparr>worker_of := (worker_of p)(c := Woken)\<rparr> else p)"

definition stop_notify :: "'s packet_filter \<Rightarrow> 's packet_filter option" where
  "stop_notify p = (case releasing p of Some (c # cs) \<Rightarrow> Some ((notify c p)\<lparr>releasing := Some cs\<rparr>) | _ \<Rightarrow> None)"

definition stop_joined :: "'s packet_filter \<Rightarrow> 's packet_filter option" where
  "stop_joined p =
     (if releasing p = Some [] \<and> (\<forall>c \<in> set [Read_stage, Process_stage, Mstcp_stage, Adapter_stage]. worker_of p c = Exited)
      then Some (p\<lparr>block_queue := (\<lambda>_. []), filter_state := state_stopped, releasing := None\<rparr>) else None)"

section \<open>The threads\<close>

abbreviation set_worker :: "stage \<Rightarrow> worker \<Rightarrow> 's packet_filter \<Rightarrow> 's packet_filter" where
  "set_worker c w p \<equiv> p\<lparr>worker_of := (worker_of p)(c := w)\<rparr>"

definition take_block :: "stage \<Rightarrow> 's packet_filter \<Rightarrow> 's packet_filter" where
  "take_block c p =
     (case block_queue p c of
        [] \<Rightarrow> p
      | b # bs \<Rightarrow> p\<lparr>block_queue := (block_queue p)(c := bs), worker_of := (worker_of p)(c := Working b), packet_index := (if c = Process_stage then 0 else packet_index p)\<rparr>)"

text \<open>
  The common part of the four threads.  Before its first wait the reading thread takes a block
  without looking at the state of the filter; the others test both.
\<close>

definition wait_step :: "stage \<Rightarrow> 's packet_filter \<Rightarrow> 's packet_filter" where
  "wait_step c p =
     (case worker_of p c of
        Loop_head \<Rightarrow> set_worker c (if filter_state p = state_running then Testing else Exited) p
      | Testing \<Rightarrow>
          if c = Read_stage \<and> block_queue p c \<noteq> [] then take_block c p
          else if filter_state p \<noteq> state_running then set_worker c Exited p
          else if block_queue p c = [] then set_worker c Deciding p
          else take_block c p
      | Deciding \<Rightarrow> set_worker c Blocked p
      | Woken \<Rightarrow>
          if filter_state p \<noteq> state_running then set_worker c Exited p
          else if block_queue p c = [] then set_worker c Deciding p
          else take_block c p
      | _ \<Rightarrow> p)"

text \<open>
  Passing the block on needs the lock of the next queue, which a thread that is about to block
  still holds.
\<close>

definition pass_block :: "stage \<Rightarrow> packet_block \<Rightarrow> 's packet_filter \<Rightarrow> 's packet_filter" where
  "pass_block c b p =
     (let n = next_stage c in
      if worker_of p n = Deciding then p
      else notify n (set_worker c Loop_head (p\<lparr>block_queue := (block_queue p)(n := block_queue p n @ [b])\<rparr>)))"

text \<open>
  The reading thread: \<open>ok\<close> is the result of the read and \<open>got\<close> the packets it wrote to the block.
  After a failed read the number of packets is the size of the request.
\<close>

definition read_into :: "bool \<Rightarrow> adapter_packet list \<Rightarrow> packet_block \<Rightarrow> packet_block" where
  "read_into ok got b =
     b\<lparr>packet_buffer := got @ drop (length got) (packet_buffer b),
       packets_success := (if ok then length got else maximum_packet_block)\<rparr>"

definition packet_read_thread :: "bool \<Rightarrow> adapter_packet list \<Rightarrow> 's packet_filter \<Rightarrow> 's packet_filter" where
  "packet_read_thread ok got p =
     (case worker_of p Read_stage of
        Working b \<Rightarrow>
          (if ok then set_worker Read_stage (Passing (read_into ok got b)) (p\<lparr>packets_read := packets_read p @ got\<rparr>)
           else if filter_state p = state_running then set_worker Read_stage (Working (read_into ok got b)) p
           else set_worker Read_stage (Passing (read_into ok got b)) p)
      | Passing b \<Rightarrow> pass_block Read_stage b p
      | _ \<Rightarrow> wait_step Read_stage p)"

text \<open>One packet of the block: the handler's decision, and the request it goes to.\<close>

definition ask_handler :: "('t, 's) handler option \<Rightarrow> ('t, 's) handler" where
  "ask_handler h t x s = (case h of None \<Rightarrow> Some (action_type_pass, None, x, s) | Some f \<Rightarrow> f t x s)"

definition decide :: "('t, 's) handlers \<Rightarrow> 't \<Rightarrow> adapter_packet \<Rightarrow> 's \<Rightarrow> (packet_action \<times> adapter_packet \<times> 's) option" where
  "decide hs t x s = do {
     (verdict, if_handle, y, s) \<leftarrow>
       (if on_send x then ask_handler (filter_outgoing_packet hs) t x s else ask_handler (filter_incoming_packet hs) t x s);
     Some (verdict, (case if_handle of None \<Rightarrow> y | Some h \<Rightarrow> (h, snd y)), s)
   }"

definition to_adapter :: "packet_action \<Rightarrow> adapter_packet \<Rightarrow> bool" where
  "to_adapter verdict y \<longleftrightarrow> (case verdict of action_type_pass \<Rightarrow> on_send y | action_type_revert \<Rightarrow> on_receive y | action_type_drop \<Rightarrow> False)"

definition to_mstcp :: "packet_action \<Rightarrow> adapter_packet \<Rightarrow> bool" where
  "to_mstcp verdict y \<longleftrightarrow> (case verdict of action_type_pass \<Rightarrow> \<not> on_send y | action_type_revert \<Rightarrow> \<not> on_receive y | action_type_drop \<Rightarrow> False)"

definition file_packet :: "nat \<Rightarrow> packet_action \<Rightarrow> adapter_packet \<Rightarrow> packet_block \<Rightarrow> packet_block" where
  "file_packet i verdict y b =
     b\<lparr>packet_buffer := (packet_buffer b)[i := y],
       write_adapter_request := write_adapter_request b @ (if to_adapter verdict y then [i] else []),
       write_mstcp_request := write_mstcp_request b @ (if to_mstcp verdict y then [i] else [])\<rparr>"

definition packet_process_thread :: "('t, 's) handlers \<Rightarrow> 't \<Rightarrow> 's packet_filter \<Rightarrow> 's packet_filter option" where
  "packet_process_thread hs t p =
     (case worker_of p Process_stage of
        Working b \<Rightarrow>
          let i = packet_index p in
          if i < packets_success b
          then if i < length (packet_buffer b)
               then do {
                 (verdict, y, s) \<leftarrow> decide hs t (packet_buffer b ! i) (handler_state p);
                 Some (set_worker Process_stage (Working (file_packet i verdict y b)) (p\<lparr>handler_state := s, packet_index := Suc i\<rparr>))
               }
               else None
          else Some (set_worker Process_stage (Passing b) p)
      | Passing b \<Rightarrow> Some (pass_block Process_stage b p)
      | _ \<Rightarrow> Some (wait_step Process_stage p))"

definition packet_write_mstcp_thread :: "'s packet_filter \<Rightarrow> 's packet_filter" where
  "packet_write_mstcp_thread p =
     (case worker_of p Mstcp_stage of
        Working b \<Rightarrow>
          set_worker Mstcp_stage (Passing (b\<lparr>write_mstcp_request := []\<rparr>))
            (p\<lparr>sent_mstcp := sent_mstcp p @ requested b (write_mstcp_request b)\<rparr>)
      | Passing b \<Rightarrow> pass_block Mstcp_stage b p
      | _ \<Rightarrow> wait_step Mstcp_stage p)"

definition packet_write_adapter_thread :: "'s packet_filter \<Rightarrow> 's packet_filter" where
  "packet_write_adapter_thread p =
     (case worker_of p Adapter_stage of
        Working b \<Rightarrow>
          set_worker Adapter_stage (Passing (b\<lparr>write_adapter_request := []\<rparr>))
            (p\<lparr>sent_adapter := sent_adapter p @ requested b (write_adapter_request b)\<rparr>)
      | Passing b \<Rightarrow> pass_block Adapter_stage b p
      | _ \<Rightarrow> wait_step Adapter_stage p)"

end
