(* ===== verification/Filter_Runs.thy ===== *)
theory Filter_Runs
  imports Packet_Filter "HOL-Library.Sublist"
begin

text \<open>
  The runs of the packet filter: every interleaving of its four threads with the handlers' other
  users, spurious wake-ups, changes of the adapters and a stop.  The blocks travel in a ring; what
  the threads do to the packets is what one thread would do that reads a packet, asks for the
  decision and sends it at once.
\<close>

section \<open>Runs\<close>

definition fresh :: "'s packet_filter \<Rightarrow> bool" where
  "fresh p \<longleftrightarrow> (\<forall>c. block_queue p c = []) \<and> releasing p = None \<and> packets_read p = [] \<and> sent_mstcp p = [] \<and> sent_adapter p = []"

definition fresh_blocks :: "packet_block list \<Rightarrow> bool" where
  "fresh_blocks bs \<longleftrightarrow>
     length bs = maximum_block_num \<and> (\<forall>b \<in> set bs. \<exists>garbage. b = new_block garbage \<and> length garbage = maximum_packet_block)"

inductive filter_step ::
  "(u64 \<Rightarrow> bool) \<Rightarrow> ('t, 's) handlers \<Rightarrow> ('s \<Rightarrow> 's \<Rightarrow> bool) \<Rightarrow> 's packet_filter \<Rightarrow> 's packet_filter \<Rightarrow> bool" for known hs other where
  reads: "length got \<le> maximum_packet_block \<Longrightarrow> filter_step known hs other p (packet_read_thread ok got p)"
| processes: "packet_process_thread hs t p = Some p' \<Longrightarrow> filter_step known hs other p p'"
| writes_mstcp: "filter_step known hs other p (packet_write_mstcp_thread p)"
| writes_adapter: "filter_step known hs other p (packet_write_adapter_thread p)"
| handler_used: "other (handler_state p) s \<Longrightarrow> filter_step known hs other p (p\<lparr>handler_state := s\<rparr>)"
| adapter_filtered: "filter_step known hs other p (filter_network_adapter known hs name p)"
| adapter_unfiltered: "filter_step known hs other p (unfilter_network_adapter known hs name p)"
| adapters_changed: "filter_step known hs other p (on_network_adapter_change known hs adapters p)"
| stop_begun: "stop_begin known p = (True, p') \<Longrightarrow> filter_step known hs other p p'"
| stop_notified: "stop_notify p = Some p' \<Longrightarrow> filter_step known hs other p p'"
| stop_ended: "stop_joined p = Some p' \<Longrightarrow> filter_step known hs other p p'"

inductive filter_run ::
  "(u64 \<Rightarrow> bool) \<Rightarrow> ('t, 's) handlers \<Rightarrow> ('s \<Rightarrow> 's \<Rightarrow> bool) \<Rightarrow> 's \<Rightarrow> 's packet_filter \<Rightarrow> bool" for known hs other s where
  started: "fresh p0 \<Longrightarrow> handler_state p0 = s \<Longrightarrow> fresh_blocks blocks \<Longrightarrow> start_filter known hs (Some blocks) p0 = (True, p) \<Longrightarrow>
    filter_run known hs other s p"
| stepped: "filter_run known hs other s p \<Longrightarrow> filter_step known hs other p p' \<Longrightarrow> filter_run known hs other s p'"
| woken_up: "filter_run known hs other s p \<Longrightarrow> filter_run known hs other s (notify c p)"

section \<open>The reference\<close>

text \<open>One thread that decides and sends each packet before it reads the next.\<close>

inductive sequential_filter ::
  "('t, 's) handlers \<Rightarrow> ('s \<Rightarrow> 's \<Rightarrow> bool) \<Rightarrow> 's \<Rightarrow> adapter_packet list \<Rightarrow> adapter_packet list \<Rightarrow> adapter_packet list \<Rightarrow> 's \<Rightarrow> bool"
  for hs other s0 where
  begin_read: "sequential_filter hs other s0 [] [] [] s0"
| other_used: "sequential_filter hs other s0 ins ups downs s \<Longrightarrow> other s s' \<Longrightarrow> sequential_filter hs other s0 ins ups downs s'"
| packet_read: "sequential_filter hs other s0 ins ups downs s \<Longrightarrow> decide hs t x s = Some (verdict, y, s') \<Longrightarrow>
    sequential_filter hs other s0 (ins @ [x]) (ups @ (if to_mstcp verdict y then [y] else []))
      (downs @ (if to_adapter verdict y then [y] else [])) s'"

section \<open>The ring of blocks\<close>

definition held :: "worker \<Rightarrow> packet_block list" where
  "held w = (case w of Working b \<Rightarrow> [b] | Passing b \<Rightarrow> [b] | _ \<Rightarrow> [])"

definition line :: "stage \<Rightarrow> 's packet_filter \<Rightarrow> packet_block list" where
  "line c p = held (worker_of p c) @ block_queue p c"

definition ring :: "'s packet_filter \<Rightarrow> packet_block list" where
  "ring p = line Adapter_stage p @ line Mstcp_stage p @ line Process_stage p @ line Read_stage p"

definition up_of :: "packet_block \<Rightarrow> adapter_packet list" where
  "up_of b = requested b (write_mstcp_request b)"

definition down_of :: "packet_block \<Rightarrow> adapter_packet list" where
  "down_of b = requested b (write_adapter_request b)"

definition got_of :: "packet_block \<Rightarrow> adapter_packet list" where
  "got_of b = take (packets_success b) (packet_buffer b)"

definition clean :: "packet_block \<Rightarrow> bool" where
  "clean b \<longleftrightarrow> write_mstcp_request b = [] \<and> write_adapter_request b = []"

text \<open>What is in the filter: packets for the two directions, and packets read and not yet decided.\<close>

definition ups_of :: "'s packet_filter \<Rightarrow> adapter_packet list" where
  "ups_of p = sent_mstcp p @ concat (map up_of (ring p))"

definition downs_of :: "'s packet_filter \<Rightarrow> adapter_packet list" where
  "downs_of p = sent_adapter p @ concat (map down_of (ring p))"

definition undecided :: "nat \<Rightarrow> worker \<Rightarrow> adapter_packet list" where
  "undecided i w = (case w of Working b \<Rightarrow> drop i (got_of b) | _ \<Rightarrow> [])"

definition arrived :: "worker \<Rightarrow> adapter_packet list" where
  "arrived w = (case w of Passing b \<Rightarrow> got_of b | _ \<Rightarrow> [])"

definition waiting_of :: "'s packet_filter \<Rightarrow> adapter_packet list" where
  "waiting_of p = concat (map got_of (block_queue p Process_stage)) @ arrived (worker_of p Read_stage)"

lemma held_simps [simp]:
  "held Loop_head = []" "held Testing = []" "held Deciding = []" "held Blocked = []" "held Woken = []" "held Exited = []"
  "held (Working b) = [b]" "held (Passing b) = [b]"
  by (simp_all add: held_def)

lemma undecided_simps [simp]:
  "undecided i Loop_head = []" "undecided i Testing = []" "undecided i Deciding = []" "undecided i Blocked = []"
  "undecided i Woken = []" "undecided i Exited = []" "undecided i (Working b) = drop i (got_of b)" "undecided i (Passing b) = []"
  by (simp_all add: undecided_def)

lemma arrived_simps [simp]:
  "arrived Loop_head = []" "arrived Testing = []" "arrived Deciding = []" "arrived Blocked = []"
  "arrived Woken = []" "arrived Exited = []" "arrived (Working b) = []" "arrived (Passing b) = got_of b"
  by (simp_all add: arrived_def)

section \<open>Invariant\<close>

definition sized :: "packet_block \<Rightarrow> bool" where
  "sized b \<longleftrightarrow> length (packet_buffer b) = maximum_packet_block \<and> packets_success b \<le> maximum_packet_block"

text \<open>The requests of a block are empty where the next thread relies on it.\<close>

definition blocks_ok :: "'s packet_filter \<Rightarrow> bool" where
  "blocks_ok p \<longleftrightarrow>
     (\<forall>b \<in> set (ring p). sized b) \<and>
     (\<forall>b \<in> set (line Read_stage p). clean b) \<and> (\<forall>b \<in> set (block_queue p Process_stage). clean b) \<and>
     (\<forall>b. worker_of p Process_stage = Working b \<longrightarrow>
        (\<forall>i \<in> set (write_mstcp_request b @ write_adapter_request b). i < packet_index p)) \<and>
     (\<forall>b. worker_of p Mstcp_stage = Passing b \<longrightarrow> write_mstcp_request b = []) \<and>
     (\<forall>b \<in> set (line Adapter_stage p). write_mstcp_request b = []) \<and>
     (\<forall>b. worker_of p Adapter_stage = Passing b \<longrightarrow> write_adapter_request b = [])"

text \<open>Nobody sleeps on a queue with a block in it.\<close>

definition awake_ok :: "'s packet_filter \<Rightarrow> bool" where
  "awake_ok p \<longleftrightarrow> (\<forall>c. worker_of p c = Deciding \<or> worker_of p c = Blocked \<longrightarrow> block_queue p c = [])"

definition phase_ok :: "'s packet_filter \<Rightarrow> bool" where
  "phase_ok p \<longleftrightarrow>
     (case filter_state p of
        state_running \<Rightarrow> (\<forall>c. worker_of p c \<noteq> Exited) \<and> releasing p = None
      | state_stopping \<Rightarrow> releasing p \<noteq> None
      | state_stopped \<Rightarrow> (\<forall>c. worker_of p c = Exited \<and> block_queue p c = []) \<and> releasing p = None
      | state_starting \<Rightarrow> False)"

definition refines ::
  "('t, 's) handlers \<Rightarrow> ('s \<Rightarrow> 's \<Rightarrow> bool) \<Rightarrow> 's \<Rightarrow> 's packet_filter \<Rightarrow> bool" where
  "refines hs other s0 p \<longleftrightarrow>
     (\<exists>ins ups downs. sequential_filter hs other s0 ins ups downs (handler_state p) \<and>
        (if filter_state p = state_stopped
         then prefix ins (packets_read p) \<and> prefix (sent_mstcp p) ups \<and> prefix (sent_adapter p) downs
         else ups = ups_of p \<and> downs = downs_of p \<and>
           (let here = ins @ undecided (packet_index p) (worker_of p Process_stage)
            in if filter_state p = state_running then packets_read p = here @ waiting_of p else prefix here (packets_read p))))"

definition run_ok :: "('t, 's) handlers \<Rightarrow> ('s \<Rightarrow> 's \<Rightarrow> bool) \<Rightarrow> 's \<Rightarrow> 's packet_filter \<Rightarrow> bool" where
  "run_ok hs other s0 p \<longleftrightarrow>
     blocks_ok p \<and> awake_ok p \<and> phase_ok p \<and> refines hs other s0 p \<and>
     (filter_state p \<noteq> state_stopped \<longrightarrow> length (ring p) = maximum_block_num)"

section \<open>What leaves the packets alone\<close>

definition same_flow :: "'s packet_filter \<Rightarrow> 's packet_filter \<Rightarrow> bool" where
  "same_flow p q \<longleftrightarrow>
     filter_state q = filter_state p \<and> block_queue q = block_queue p \<and> worker_of q = worker_of p \<and>
     packet_index q = packet_index p \<and> handler_state q = handler_state p \<and> releasing q = releasing p \<and>
     packets_read q = packets_read p \<and> sent_mstcp q = sent_mstcp p \<and> sent_adapter q = sent_adapter p"

lemma same_flow_refl [simp]: "same_flow p p"
  by (simp add: same_flow_def)

lemma same_flow_trans: "same_flow p q \<Longrightarrow> same_flow q r \<Longrightarrow> same_flow p r"
  by (simp add: same_flow_def)

lemma same_flow_set_adapter: "same_flow p (set_adapter known h event mode p)"
  by (simp add: same_flow_def set_adapter_def)

lemma same_flow_fold: "(\<And>a q. same_flow q (f a q)) \<Longrightarrow> same_flow p (fold f as p)"
proof (induction as arbitrary: p)
  case (Cons a as)
  then show ?case
    using same_flow_trans [of p "f a p"] by simp
qed simp

lemma same_flow_update: "same_flow p (update_adapters_filter_state known hs p)"
  unfolding update_adapters_filter_state_def
  by (rule same_flow_fold) (simp add: update_adapter_def same_flow_set_adapter)

lemma same_flow_release: "same_flow p (release_adapters known p)"
  unfolding release_adapters_def by (rule same_flow_fold) (rule same_flow_set_adapter)

lemma same_flow_adapters:
  "same_flow p (filter_network_adapter known hs name p)"
  "same_flow p (unfilter_network_adapter known hs name p)"
  "same_flow p (on_network_adapter_change known hs adapters p)"
  unfolding filter_network_adapter_def unfilter_network_adapter_def on_network_adapter_change_def
  by (rule same_flow_trans [OF _ same_flow_update], simp add: same_flow_def)+

lemma same_flow_line: "same_flow p q \<Longrightarrow> line c q = line c p" "same_flow p q \<Longrightarrow> ring q = ring p"
  by (simp_all add: same_flow_def line_def ring_def)

lemma same_flow_ok: "same_flow p q \<Longrightarrow> run_ok hs other s0 q = run_ok hs other s0 p"
  using same_flow_line [of p q]
  by (simp cong: filter_state.case_cong add: run_ok_def blocks_ok_def awake_ok_def phase_ok_def refines_def ups_of_def downs_of_def waiting_of_def
      same_flow_def)

section \<open>Waiting\<close>

lemma line_notify [simp]: "line d (notify c p) = line d p"
  by (simp add: line_def notify_def)

lemma ring_notify [simp]: "ring (notify c p) = ring p"
  by (simp add: ring_def)

lemma notify_simps [simp]:
  "filter_state (notify c p) = filter_state p" "block_queue (notify c p) = block_queue p"
  "packet_index (notify c p) = packet_index p" "handler_state (notify c p) = handler_state p"
  "releasing (notify c p) = releasing p" "packets_read (notify c p) = packets_read p"
  "sent_mstcp (notify c p) = sent_mstcp p" "sent_adapter (notify c p) = sent_adapter p"
  by (simp_all add: notify_def)

lemma worker_notify:
  "worker_of (notify c p) d = (if d = c \<and> worker_of p c = Blocked then Woken else worker_of p d)"
  by (simp add: notify_def)

lemma notify_pending [simp]:
  "undecided i (worker_of (notify c p) d) = undecided i (worker_of p d)"
  "arrived (worker_of (notify c p) d) = arrived (worker_of p d)"
  by (simp_all add: worker_notify)

lemma notify_flow [simp]: "waiting_of (notify c p) = waiting_of p" "ups_of (notify c p) = ups_of p" "downs_of (notify c p) = downs_of p"
  by (simp_all add: waiting_of_def ups_of_def downs_of_def)

lemma notify_ok: "run_ok hs other s0 p \<Longrightarrow> run_ok hs other s0 (notify c p)"
  unfolding run_ok_def blocks_ok_def awake_ok_def phase_ok_def refines_def
  by (auto simp: worker_notify split: filter_state.splits)

lemma wait_step_simps [simp]:
  "filter_state (wait_step c p) = filter_state p" "handler_state (wait_step c p) = handler_state p"
  "releasing (wait_step c p) = releasing p" "packets_read (wait_step c p) = packets_read p"
  "sent_mstcp (wait_step c p) = sent_mstcp p" "sent_adapter (wait_step c p) = sent_adapter p"
  by (simp_all add: wait_step_def take_block_def split: worker.split list.split)

lemma line_wait_step [simp]: "line d (wait_step c p) = line d p"
  by (simp add: wait_step_def take_block_def line_def split: worker.split list.split)

lemma ring_wait_step [simp]: "ring (wait_step c p) = ring p"
  by (simp add: ring_def)

lemma queue_wait_step: "set (block_queue (wait_step c p) d) \<subseteq> set (block_queue p d)"
  by (auto simp: wait_step_def take_block_def split: worker.split list.split)

lemma wait_step_pending:
  "undecided (packet_index (wait_step c p)) (worker_of (wait_step c p) Process_stage) @ waiting_of (wait_step c p) =
   undecided (packet_index p) (worker_of p Process_stage) @ waiting_of p"
  by (cases c) (simp_all add: wait_step_def take_block_def waiting_of_def split: worker.split list.split)

lemma wait_step_undecided:
  "filter_state p \<noteq> state_running \<Longrightarrow>
   undecided (packet_index (wait_step c p)) (worker_of (wait_step c p) Process_stage) =
   undecided (packet_index p) (worker_of p Process_stage)"
  by (cases c) (simp_all add: wait_step_def take_block_def split: worker.split list.split)

text \<open>A thread that waits comes to hold a block only by taking the first of its queue.\<close>

lemma wait_step_worker:
  "worker_of (wait_step c p) d = Passing b \<Longrightarrow> worker_of p d = Passing b"
  "worker_of (wait_step c p) d = Working b \<Longrightarrow>
    worker_of p d = Working b \<and> packet_index (wait_step c p) = (if d = Process_stage then packet_index p else packet_index (wait_step c p)) \<or>
    b \<in> set (block_queue p d)"
  by (cases "d = c"; auto simp: wait_step_def take_block_def split: worker.splits list.splits if_splits)+

lemma wait_step_blocks_ok:
  assumes "blocks_ok p"
  shows "blocks_ok (wait_step c p)"
proof -
  have "\<forall>i \<in> set (write_mstcp_request b @ write_adapter_request b). i < packet_index (wait_step c p)"
    if w: "worker_of (wait_step c p) Process_stage = Working b" for b
    using wait_step_worker(2) [OF w] assms by (auto simp: blocks_ok_def clean_def)
  moreover have "\<forall>b \<in> set (block_queue (wait_step c p) Process_stage). clean b"
    using assms queue_wait_step [of c p Process_stage] by (auto simp: blocks_ok_def)
  ultimately show ?thesis
    using assms wait_step_worker(1) [of c p] by (auto simp: blocks_ok_def)
qed

lemma wait_step_other:
  "d \<noteq> c \<Longrightarrow> worker_of (wait_step c p) d = worker_of p d \<and> block_queue (wait_step c p) d = block_queue p d"
  by (cases "worker_of p c"; cases "block_queue p c") (auto simp: wait_step_def take_block_def split: list.split)

lemma wait_step_waits:
  "worker_of (wait_step c p) c = Deciding \<or> worker_of (wait_step c p) c = Blocked \<Longrightarrow>
   worker_of p c = Deciding \<or> worker_of p c = Blocked \<or> block_queue p c = []"
  by (cases "worker_of p c"; cases "block_queue p c") (simp_all add: wait_step_def take_block_def split: if_splits)

lemma wait_step_awake_ok:
  assumes "awake_ok p"
  shows "awake_ok (wait_step c p)"
  unfolding awake_ok_def
proof (intro allI impI)
  fix d
  assume w: "worker_of (wait_step c p) d = Deciding \<or> worker_of (wait_step c p) d = Blocked"
  have "block_queue p d = []"
  proof (cases "d = c")
    case True
    with w assms wait_step_waits [of c p] show ?thesis
      unfolding awake_ok_def by blast
  next
    case False
    with w assms wait_step_other [OF False, of p] show ?thesis
      unfolding awake_ok_def by metis
  qed
  then show "block_queue (wait_step c p) d = []"
    using queue_wait_step [of c p d] by simp
qed

lemma wait_step_phase_ok: "phase_ok p \<Longrightarrow> phase_ok (wait_step c p)"
  by (cases "filter_state p")
    (auto simp: phase_ok_def wait_step_def take_block_def split: worker.splits list.splits)

lemma wait_step_ups [simp]: "ups_of (wait_step c p) = ups_of p" "downs_of (wait_step c p) = downs_of p"
  by (simp_all add: ups_of_def downs_of_def)

text \<open>A step that only moves packets about keeps the refinement.\<close>

lemma refines_moved:
  assumes "refines hs other s0 p" "filter_state q = filter_state p" "handler_state q = handler_state p"
    "packets_read q = packets_read p" "ups_of q = ups_of p" "downs_of q = downs_of p"
    "filter_state p = state_stopped \<Longrightarrow> sent_mstcp q = sent_mstcp p \<and> sent_adapter q = sent_adapter p"
    "undecided (packet_index q) (worker_of q Process_stage) @ waiting_of q =
     undecided (packet_index p) (worker_of p Process_stage) @ waiting_of p"
    "filter_state p \<noteq> state_running \<Longrightarrow>
     undecided (packet_index q) (worker_of q Process_stage) = undecided (packet_index p) (worker_of p Process_stage)"
  shows "refines hs other s0 q"
  using assms by (cases "filter_state p") (simp_all add: refines_def Let_def)

lemma wait_step_refines: "refines hs other s0 p \<Longrightarrow> refines hs other s0 (wait_step c p)"
  by (rule refines_moved, assumption) (rule wait_step_pending wait_step_undecided | simp)+

lemma wait_step_ok: "run_ok hs other s0 p \<Longrightarrow> run_ok hs other s0 (wait_step c p)"
  by (simp add: run_ok_def wait_step_blocks_ok wait_step_awake_ok wait_step_phase_ok wait_step_refines)

section \<open>Passing a block on\<close>

definition hand_over :: "stage \<Rightarrow> packet_block \<Rightarrow> 's packet_filter \<Rightarrow> 's packet_filter" where
  "hand_over c b p = set_worker c Loop_head (p\<lparr>block_queue := (block_queue p)(next_stage c := block_queue p (next_stage c) @ [b])\<rparr>)"

lemma pass_block_eq:
  "pass_block c b p = (if worker_of p (next_stage c) = Deciding then p else notify (next_stage c) (hand_over c b p))"
  by (simp add: pass_block_def hand_over_def Let_def)

lemma next_stage_neq [simp]: "next_stage c \<noteq> c" "c \<noteq> next_stage c"
  by (cases c; simp)+

lemma hand_over_simps [simp]:
  "filter_state (hand_over c b p) = filter_state p" "handler_state (hand_over c b p) = handler_state p"
  "releasing (hand_over c b p) = releasing p" "packets_read (hand_over c b p) = packets_read p"
  "sent_mstcp (hand_over c b p) = sent_mstcp p" "sent_adapter (hand_over c b p) = sent_adapter p"
  "packet_index (hand_over c b p) = packet_index p"
  "worker_of (hand_over c b p) d = (if d = c then Loop_head else worker_of p d)"
  "block_queue (hand_over c b p) d = (if d = next_stage c then block_queue p d @ [b] else block_queue p d)"
  by (simp_all add: hand_over_def)

lemma ring_hand_over:
  assumes "worker_of p c = Passing b"
  shows "ring (hand_over c b p) = (if c = Adapter_stage then tl (ring p) @ [b] else ring p)"
    "c = Adapter_stage \<Longrightarrow> ring p = b # tl (ring p)"
  using assms by (cases c; simp add: ring_def line_def)+

text \<open>What a block must be like to be passed on.\<close>

definition passable :: "stage \<Rightarrow> packet_block \<Rightarrow> bool" where
  "passable c b \<longleftrightarrow>
     (case c of Read_stage \<Rightarrow> clean b | Process_stage \<Rightarrow> True | Mstcp_stage \<Rightarrow> write_mstcp_request b = [] | Adapter_stage \<Rightarrow> clean b)"

lemma ring_member: "b \<in> set (line c p) \<Longrightarrow> b \<in> set (ring p)"
  by (cases c) (simp_all add: ring_def)

lemma blocks_okD:
  assumes "blocks_ok p" "worker_of p c = Passing b"
  shows "sized b" "passable c b"
proof -
  have l: "b \<in> set (line c p)"
    using assms(2) by (simp add: line_def)
  with assms(1) show "sized b"
    using ring_member unfolding blocks_ok_def by blast
  show "passable c b"
    using assms l by (cases c) (auto simp: blocks_ok_def passable_def clean_def)
qed

lemma hand_over_blocks_ok:
  assumes "blocks_ok p" "worker_of p c = Passing b"
  shows "blocks_ok (hand_over c b p)"
proof -
  note b = blocks_okD [OF assms]
  have r: "set (ring (hand_over c b p)) \<subseteq> set (ring p)"
    using ring_hand_over [OF assms(2)] by (cases "c = Adapter_stage"; cases "ring p") auto
  have l: "set (line d (hand_over c b p)) \<subseteq> set (line d p) \<union> (if d = next_stage c then {b} else {})" for d
    by (auto simp: line_def)
  have "\<forall>x \<in> set (line Read_stage (hand_over c b p)). clean x"
    using l [of Read_stage] assms(1) b(2) by (cases c) (auto simp: blocks_ok_def passable_def)
  moreover have "\<forall>x \<in> set (block_queue (hand_over c b p) Process_stage). clean x"
    using assms(1) b(2) by (cases c) (auto simp: blocks_ok_def passable_def)
  moreover have "\<forall>x \<in> set (line Adapter_stage (hand_over c b p)). write_mstcp_request x = []"
    using l [of Adapter_stage] assms(1) b(2) by (cases c) (auto simp: blocks_ok_def passable_def)
  ultimately show ?thesis
    using r assms(1) by (auto simp: blocks_ok_def split: if_splits)
qed

lemma clean_empty: "clean b \<Longrightarrow> up_of b = [] \<and> down_of b = []"
  by (simp add: clean_def up_of_def down_of_def requested_def)

lemma hand_over_flow:
  assumes "blocks_ok p" "worker_of p c = Passing b"
  shows "ups_of (hand_over c b p) = ups_of p" "downs_of (hand_over c b p) = downs_of p"
    "undecided (packet_index p) (worker_of (hand_over c b p) Process_stage) = undecided (packet_index p) (worker_of p Process_stage)"
    "waiting_of (hand_over c b p) = waiting_of p"
proof -
  note r = ring_hand_over [OF assms(2)]
  have "up_of b = [] \<and> down_of b = []" if "c = Adapter_stage"
    using blocks_okD(2) [OF assms] that by (simp add: passable_def clean_empty)
  then have "concat (map up_of (ring (hand_over c b p))) = concat (map up_of (ring p)) \<and>
      concat (map down_of (ring (hand_over c b p))) = concat (map down_of (ring p))"
    using r by (cases "c = Adapter_stage"; cases "ring p") auto
  then show "ups_of (hand_over c b p) = ups_of p" "downs_of (hand_over c b p) = downs_of p"
    by (simp_all add: ups_of_def downs_of_def)
  show "undecided (packet_index p) (worker_of (hand_over c b p) Process_stage) = undecided (packet_index p) (worker_of p Process_stage)"
    "waiting_of (hand_over c b p) = waiting_of p"
    using assms(2) by (cases c; simp add: waiting_of_def)+
qed

lemma pass_block_ok:
  assumes "run_ok hs other s0 p" "worker_of p c = Passing b"
  shows "run_ok hs other s0 (pass_block c b p)"
proof (cases "worker_of p (next_stage c) = Deciding")
  case False
  let ?h = "hand_over c b p" let ?q = "notify (next_stage c) ?h"
  have inv: "blocks_ok p" "awake_ok p" "phase_ok p" "refines hs other s0 p"
    "filter_state p \<noteq> state_stopped \<Longrightarrow> length (ring p) = maximum_block_num"
    using assms(1) by (simp_all add: run_ok_def)
  note flow = hand_over_flow [OF inv(1) assms(2)]
  have "block_queue ?q d = []" if "worker_of ?q d = Deciding \<or> worker_of ?q d = Blocked" for d
    using that False inv(2) by (auto simp: worker_notify awake_ok_def split: if_splits)
  then have "awake_ok ?q"
    by (simp only: awake_ok_def) blast
  moreover have "phase_ok ?q"
    using inv(3) assms(2) by (cases "filter_state p") (auto simp: phase_ok_def worker_notify)
  moreover have "blocks_ok ?q"
    using hand_over_blocks_ok [OF inv(1) assms(2)] unfolding blocks_ok_def
    by (auto simp: worker_notify)
  moreover have "refines hs other s0 ?q"
    using flow by (intro refines_moved [OF inv(4)]) simp_all
  moreover have "length (ring ?q) = length (ring p)"
    using ring_hand_over [OF assms(2)] by (cases "c = Adapter_stage"; cases "ring p") auto
  ultimately show ?thesis
    using False inv(5) by (simp add: run_ok_def pass_block_eq)
qed (use assms in \<open>simp add: pass_block_eq\<close>)

section \<open>Working on a block\<close>

text \<open>A step of a thread with its block changes only that block and the thread.\<close>

lemma line_set_worker: "line d (set_worker c w p) = (if d = c then held w @ block_queue p c else line d p)"
  by (simp add: line_def)

lemma refine_reader:
  assumes "refines hs other s0 p" "worker_of p Read_stage = Working b" "filter_state p \<noteq> state_stopped"
    "ups_of q = ups_of p" "downs_of q = downs_of p" "handler_state q = handler_state p" "filter_state q = filter_state p"
    "undecided (packet_index q) (worker_of q Process_stage) = undecided (packet_index p) (worker_of p Process_stage)"
    "packets_read q = packets_read p @ xs" "filter_state p = state_running \<Longrightarrow> waiting_of q = waiting_of p @ xs"
  shows "refines hs other s0 q"
  using assms by (auto simp: refines_def Let_def split: if_splits intro: prefix_order.trans)

lemma read_into_clean [simp]: "clean (read_into ok got b) = clean b"
  by (simp add: clean_def read_into_def)

lemma read_into_sized: "sized b \<Longrightarrow> length got \<le> maximum_packet_block \<Longrightarrow> sized (read_into ok got b)"
  by (simp add: sized_def read_into_def)

lemma got_of_read_into: "got_of (read_into True got b) = got"
  by (simp add: got_of_def read_into_def)

text \<open>A thread with a block goes on with another block in its place.\<close>

lemma worker_keeps:
  assumes "run_ok hs other s0 p" "worker_of p c = Working b" "held w = [b']"
  shows "awake_ok (set_worker c w p)" "phase_ok (set_worker c w p)" "filter_state p \<noteq> state_stopped"
    "length (ring (set_worker c w p)) = maximum_block_num"
proof -
  have w: "w \<noteq> Deciding" "w \<noteq> Blocked" "w \<noteq> Exited"
    using assms(3) by auto
  have inv: "awake_ok p" "phase_ok p" "filter_state p \<noteq> state_stopped \<longrightarrow> length (ring p) = maximum_block_num"
    using assms(1) by (simp_all add: run_ok_def)
  show "filter_state p \<noteq> state_stopped"
    using inv(2) assms(2) by (auto simp: phase_ok_def)
  with inv(3) have "length (ring p) = maximum_block_num"
    by simp
  then show "length (ring (set_worker c w p)) = maximum_block_num"
    using assms(2,3) by (cases c; simp add: ring_def line_def)
  show "awake_ok (set_worker c w p)"
    using inv(1) w by (simp add: awake_ok_def)
  show "phase_ok (set_worker c w p)"
    using inv(2) w assms(2) by (cases "filter_state p") (auto simp: phase_ok_def)
qed

lemma refines_cong:
  assumes "filter_state q = filter_state p" "handler_state q = handler_state p" "packets_read q = packets_read p"
    "sent_mstcp q = sent_mstcp p" "sent_adapter q = sent_adapter p" "block_queue q = block_queue p" "worker_of q = worker_of p"
    "packet_index q = packet_index p"
  shows "refines hs other s0 q = refines hs other s0 p"
  using assms by (simp add: refines_def ups_of_def downs_of_def ring_def line_def waiting_of_def)

lemma reader_ok:
  assumes "run_ok hs other s0 p" "worker_of p Read_stage = Working b" "clean b'" "sized b'"
    and w: "w = Working b' \<and> xs = [] \<or> w = Passing b' \<and> (xs = got_of b' \<or> filter_state p \<noteq> state_running)"
  shows "run_ok hs other s0 (set_worker Read_stage w (p\<lparr>packets_read := packets_read p @ xs\<rparr>))" (is "run_ok _ _ _ ?q")
proof -
  have h: "held w = [b']"
    using w by auto
  note keep = worker_keeps [OF assms(1,2) h]
  have inv: "blocks_ok p" "refines hs other s0 p"
    using assms(1) by (simp_all add: run_ok_def)
  have b: "clean b"
    using inv(1) assms(2) by (simp add: blocks_ok_def line_def)
  have e: "up_of b = []" "down_of b = []" "up_of b' = []" "down_of b' = []"
    using b assms(3) clean_empty by blast+
  have l: "line d ?q = (if d = Read_stage then b' # block_queue p Read_stage else line d p)" for d
    using h by (simp add: line_def)
  have lp: "line Read_stage p = b # block_queue p Read_stage"
    using assms(2) by (simp add: line_def)
  have "blocks_ok ?q"
    using inv(1) assms(3,4) by (auto simp: blocks_ok_def ring_def l [simplified] lp)
  moreover have "refines hs other s0 ?q"
  proof (rule refine_reader [OF inv(2) assms(2) keep(3)])
    show "ups_of ?q = ups_of p" "downs_of ?q = downs_of p"
      using e by (simp_all add: ups_of_def downs_of_def ring_def l [simplified] lp)
    show "waiting_of ?q = waiting_of p @ xs" if "filter_state p = state_running"
      using that w assms(2) by (auto simp: waiting_of_def)
  qed simp_all
  moreover have "awake_ok ?q" "phase_ok ?q" "length (ring ?q) = maximum_block_num"
    using keep by (simp_all add: awake_ok_def phase_ok_def ring_def line_def cong: filter_state.case_cong)
  ultimately show ?thesis
    by (simp add: run_ok_def)
qed

lemma packet_read_thread_ok:
  assumes "run_ok hs other s0 p" "length got \<le> maximum_packet_block"
  shows "run_ok hs other s0 (packet_read_thread ok got p)"
proof (cases "worker_of p Read_stage")
  case (Working b)
  have b: "clean b" "sized b"
    using assms(1) Working ring_member [of b Read_stage p] by (simp_all add: run_ok_def blocks_ok_def line_def)
  note r = reader_ok [OF assms(1) Working _ read_into_sized [OF b(2) assms(2)]]
  show ?thesis
    using r [of ok "Passing (read_into ok got b)" "if ok then got else []"] r [of ok "Working (read_into ok got b)" "[]"] b(1) Working
    by (cases ok) (simp_all add: packet_read_thread_def got_of_read_into)
next
  case (Passing b)
  then show ?thesis
    using pass_block_ok [OF assms(1) Passing] by (simp add: packet_read_thread_def)
qed (use assms(1) in \<open>simp_all add: packet_read_thread_def wait_step_ok\<close>)

lemma file_packet_up:
  assumes "\<forall>j \<in> set (write_mstcp_request b @ write_adapter_request b). j < i" "i < length (packet_buffer b)"
  shows "up_of (file_packet i verdict y b) = up_of b @ (if to_mstcp verdict y then [y] else [])"
    "down_of (file_packet i verdict y b) = down_of b @ (if to_adapter verdict y then [y] else [])"
  using assms by (auto simp: up_of_def down_of_def requested_def file_packet_def nth_list_update)

lemma file_packet_got:
  "i < packets_success b \<Longrightarrow> i < length (packet_buffer b) \<Longrightarrow>
   drop i (got_of b) = packet_buffer b ! i # drop (Suc i) (got_of (file_packet i verdict y b))"
  by (simp add: got_of_def file_packet_def Cons_nth_drop_Suc [symmetric] take_update_swap)

lemma clean_concat: "\<forall>b \<in> set bs. clean b \<Longrightarrow> concat (map up_of bs) = [] \<and> concat (map down_of bs) = []"
  by (simp add: clean_empty)

lemma processor_flow:
  assumes "blocks_ok p" "worker_of p Process_stage = Working b"
  shows "ups_of p = sent_mstcp p @ concat (map up_of (line Adapter_stage p @ line Mstcp_stage p)) @ up_of b"
    "downs_of p = sent_adapter p @ concat (map down_of (line Adapter_stage p @ line Mstcp_stage p)) @ down_of b"
proof -
  have "\<forall>b \<in> set (block_queue p Process_stage @ line Read_stage p). clean b"
    using assms(1) by (auto simp: blocks_ok_def)
  from clean_concat [OF this]
  have c: "concat (map up_of (block_queue p Process_stage)) @ concat (map up_of (line Read_stage p)) = []"
    "concat (map down_of (block_queue p Process_stage)) @ concat (map down_of (line Read_stage p)) = []"
    by simp_all
  show "ups_of p = sent_mstcp p @ concat (map up_of (line Adapter_stage p @ line Mstcp_stage p)) @ up_of b"
    "downs_of p = sent_adapter p @ concat (map down_of (line Adapter_stage p @ line Mstcp_stage p)) @ down_of b"
    using c assms(2) by (simp_all add: ups_of_def downs_of_def ring_def line_def [of Process_stage])
qed

lemma decided_ok:
  assumes ok: "run_ok hs other s0 p" and b: "worker_of p Process_stage = Working b"
    and i: "packet_index p < packets_success b" "packet_index p < length (packet_buffer b)"
    and d: "decide hs t (packet_buffer b ! packet_index p) (handler_state p) = Some (verdict, y, s)"
  shows "run_ok hs other s0 (set_worker Process_stage (Working (file_packet (packet_index p) verdict y b))
    (p\<lparr>handler_state := s, packet_index := Suc (packet_index p)\<rparr>))" (is "run_ok _ _ _ ?q")
proof -
  let ?b = "file_packet (packet_index p) verdict y b"
  note keep = worker_keeps [OF ok b, of "Working ?b" ?b]
  have inv: "blocks_ok p" "refines hs other s0 p"
    using ok by (simp_all add: run_ok_def)
  have req: "\<forall>j \<in> set (write_mstcp_request b @ write_adapter_request b). j < packet_index p"
    using inv(1) b by (simp add: blocks_ok_def)
  have l: "line c ?q = (if c = Process_stage then ?b # block_queue p Process_stage else line c p)" for c
    by (simp add: line_def)
  have "sized b"
    using inv(1) b ring_member [of b Process_stage p] by (simp add: blocks_ok_def line_def)
  then have "sized ?b"
    by (simp add: sized_def file_packet_def)
  moreover have "set (ring ?q) \<subseteq> insert ?b (set (ring p))"
    by (auto simp: ring_def l [simplified] line_def [of Process_stage p])
  moreover have "\<forall>j \<in> set (write_mstcp_request ?b @ write_adapter_request ?b). j < Suc (packet_index p)"
    using req by (auto simp: file_packet_def less_Suc_eq)
  ultimately have ok': "blocks_ok ?q"
    using inv(1) l [simplified] unfolding blocks_ok_def by auto
  have "ups_of ?q = ups_of p @ (if to_mstcp verdict y then [y] else [])"
    "downs_of ?q = downs_of p @ (if to_adapter verdict y then [y] else [])"
    using processor_flow [OF ok', of ?b] processor_flow [OF inv(1) b] file_packet_up [OF req i(2)] l [simplified] by simp_all
  moreover have "undecided (packet_index p) (worker_of p Process_stage) =
      packet_buffer b ! packet_index p # undecided (packet_index ?q) (worker_of ?q Process_stage)"
    using file_packet_got [OF i] b by simp
  moreover have "waiting_of ?q = waiting_of p"
    by (simp add: waiting_of_def)
  ultimately have "refines hs other s0 ?q"
    using inv(2) keep(3) sequential_filter.packet_read [OF _ d] unfolding refines_def Let_def by fastforce
  moreover have "awake_ok ?q" "phase_ok ?q" "length (ring ?q) = maximum_block_num"
    using keep by (simp_all add: awake_ok_def phase_ok_def ring_def line_def cong: filter_state.case_cong)
  ultimately show ?thesis
    using ok' by (simp add: run_ok_def)
qed

lemma refines_passing:
  assumes "refines hs other s0 p" "worker_of p Process_stage = Working b" "packets_success b \<le> packet_index p"
  shows "refines hs other s0 (set_worker Process_stage (Passing b) p)"
proof (rule refines_moved [OF assms(1)])
  let ?q = "set_worker Process_stage (Passing b) p"
  have l: "line c ?q = line c p" for c
    using assms(2) by (simp add: line_def)
  then show "ups_of ?q = ups_of p" "downs_of ?q = downs_of p"
    by (simp_all add: ups_of_def downs_of_def ring_def)
  have "undecided (packet_index p) (worker_of p Process_stage) = []"
    using assms(2,3) by (simp add: got_of_def)
  then show "undecided (packet_index ?q) (worker_of ?q Process_stage) @ waiting_of ?q =
      undecided (packet_index p) (worker_of p Process_stage) @ waiting_of p"
    "undecided (packet_index ?q) (worker_of ?q Process_stage) = undecided (packet_index p) (worker_of p Process_stage)"
    by (simp_all add: waiting_of_def)
qed simp_all

lemma packet_process_thread_ok:
  assumes "run_ok hs other s0 p" "packet_process_thread hs t p = Some q"
  shows "run_ok hs other s0 q"
proof (cases "worker_of p Process_stage")
  case (Working b)
  show ?thesis
  proof (cases "packet_index p < packets_success b")
    case True
    with assms(2) Working obtain verdict y s where i: "packet_index p < length (packet_buffer b)"
      and d: "decide hs t (packet_buffer b ! packet_index p) (handler_state p) = Some (verdict, y, s)"
      and q: "q = set_worker Process_stage (Working (file_packet (packet_index p) verdict y b))
        (p\<lparr>handler_state := s, packet_index := Suc (packet_index p)\<rparr>)"
      by (auto simp: packet_process_thread_def Let_def bind_eq_Some_conv split: if_splits)
    show ?thesis
      unfolding q by (rule decided_ok [OF assms(1) Working True i d])
  next
    case False
    let ?q = "set_worker Process_stage (Passing b) p"
    have q: "q = ?q"
      using assms(2) Working False by (simp add: packet_process_thread_def Let_def)
    have l: "line c ?q = line c p" for c
      using Working by (simp add: line_def)
    have "blocks_ok ?q"
      using assms(1) l unfolding run_ok_def blocks_ok_def ring_def by simp
    moreover have "refines hs other s0 ?q"
      using refines_passing [of hs other s0, OF _ Working] assms(1) False by (simp add: run_ok_def)
    ultimately show ?thesis
      using worker_keeps [OF assms(1) Working, of "Passing b" b] by (simp add: q run_ok_def)
  qed
next
  case (Passing b)
  then show ?thesis
    using pass_block_ok [OF assms(1) Passing] assms(2) by (simp add: packet_process_thread_def)
qed (use assms in \<open>auto simp: packet_process_thread_def wait_step_ok\<close>)

lemma written_mstcp_ok:
  assumes ok: "run_ok hs other s0 p" and b: "worker_of p Mstcp_stage = Working b"
  shows "run_ok hs other s0 (set_worker Mstcp_stage (Passing (b\<lparr>write_mstcp_request := []\<rparr>))
    (p\<lparr>sent_mstcp := sent_mstcp p @ requested b (write_mstcp_request b)\<rparr>))" (is "run_ok _ _ _ ?q")
proof -
  let ?b = "b\<lparr>write_mstcp_request := []\<rparr>"
  note keep = worker_keeps [OF ok b, of "Passing ?b" ?b]
  have inv: "blocks_ok p" "refines hs other s0 p"
    using ok by (simp_all add: run_ok_def)
  have l: "line c ?q = (if c = Mstcp_stage then ?b # block_queue p Mstcp_stage else line c p)"
    "line Mstcp_stage p = b # block_queue p Mstcp_stage" for c
    using b by (simp_all add: line_def)
  have "sized ?b = sized b"
    by (simp add: sized_def)
  then have ok': "blocks_ok ?q"
    using inv(1) by (auto simp: blocks_ok_def ring_def l [simplified])
  have a: "concat (map up_of (line Adapter_stage p)) = []"
    using inv(1) by (auto simp: blocks_ok_def up_of_def requested_def)
  have "up_of b = requested b (write_mstcp_request b)" "up_of ?b = []" "down_of ?b = down_of b"
    by (simp_all add: up_of_def down_of_def requested_def)
  then have f: "ups_of ?q = ups_of p" "downs_of ?q = downs_of p"
    by (simp_all add: ups_of_def downs_of_def ring_def l [simplified] a)
  have "refines hs other s0 ?q"
    using keep(3) f by (intro refines_moved [OF inv(2)]) (simp_all add: waiting_of_def)
  moreover have "awake_ok ?q" "phase_ok ?q" "length (ring ?q) = maximum_block_num"
    using keep by (simp_all add: awake_ok_def phase_ok_def ring_def line_def cong: filter_state.case_cong)
  ultimately show ?thesis
    using ok' by (simp add: run_ok_def)
qed

lemma written_adapter_ok:
  assumes ok: "run_ok hs other s0 p" and b: "worker_of p Adapter_stage = Working b"
  shows "run_ok hs other s0 (set_worker Adapter_stage (Passing (b\<lparr>write_adapter_request := []\<rparr>))
    (p\<lparr>sent_adapter := sent_adapter p @ requested b (write_adapter_request b)\<rparr>))" (is "run_ok _ _ _ ?q")
proof -
  let ?b = "b\<lparr>write_adapter_request := []\<rparr>"
  note keep = worker_keeps [OF ok b, of "Passing ?b" ?b]
  have inv: "blocks_ok p" "refines hs other s0 p"
    using ok by (simp_all add: run_ok_def)
  have l: "line c ?q = (if c = Adapter_stage then ?b # block_queue p Adapter_stage else line c p)"
    "line Adapter_stage p = b # block_queue p Adapter_stage" for c
    using b by (simp_all add: line_def)
  have "sized ?b = sized b"
    by (simp add: sized_def)
  then have ok': "blocks_ok ?q"
    using inv(1) by (auto simp: blocks_ok_def ring_def l [simplified])
  have "up_of ?b = up_of b" "down_of b = requested b (write_adapter_request b)" "down_of ?b = []"
    by (simp_all add: up_of_def down_of_def requested_def)
  then have f: "ups_of ?q = ups_of p" "downs_of ?q = downs_of p"
    by (simp_all add: ups_of_def downs_of_def ring_def l [simplified])
  have "refines hs other s0 ?q"
    using keep(3) f by (intro refines_moved [OF inv(2)]) (simp_all add: waiting_of_def)
  moreover have "awake_ok ?q" "phase_ok ?q" "length (ring ?q) = maximum_block_num"
    using keep by (simp_all add: awake_ok_def phase_ok_def ring_def line_def cong: filter_state.case_cong)
  ultimately show ?thesis
    using ok' by (simp add: run_ok_def)
qed

lemma packet_write_mstcp_thread_ok: "run_ok hs other s0 p \<Longrightarrow> run_ok hs other s0 (packet_write_mstcp_thread p)"
  by (cases "worker_of p Mstcp_stage")
    (use written_mstcp_ok in \<open>auto simp: packet_write_mstcp_thread_def pass_block_ok wait_step_ok\<close>)

lemma packet_write_adapter_thread_ok: "run_ok hs other s0 p \<Longrightarrow> run_ok hs other s0 (packet_write_adapter_thread p)"
  by (cases "worker_of p Adapter_stage")
    (use written_adapter_ok in \<open>auto simp: packet_write_adapter_thread_def pass_block_ok wait_step_ok\<close>)

section \<open>Every step keeps the invariant\<close>

lemma ups_prefix: "prefix (sent_mstcp p) (ups_of p)" "prefix (sent_adapter p) (downs_of p)"
  by (simp_all add: ups_of_def downs_of_def)

lemma handler_used_ok:
  assumes "run_ok hs other s0 p" "other (handler_state p) s"
  shows "run_ok hs other s0 (p\<lparr>handler_state := s\<rparr>)"
proof -
  have l: "ring (p\<lparr>handler_state := s\<rparr>) = ring p" "line c (p\<lparr>handler_state := s\<rparr>) = line c p" for c
    by (simp_all add: ring_def line_def)
  obtain ins ups downs where "sequential_filter hs other s0 ins ups downs (handler_state p)"
    and r: "if filter_state p = state_stopped
      then prefix ins (packets_read p) \<and> prefix (sent_mstcp p) ups \<and> prefix (sent_adapter p) downs
      else ups = ups_of p \<and> downs = downs_of p \<and>
        (let here = ins @ undecided (packet_index p) (worker_of p Process_stage)
         in if filter_state p = state_running then packets_read p = here @ waiting_of p else prefix here (packets_read p))"
    using assms(1) by (auto simp: run_ok_def refines_def)
  then have "sequential_filter hs other s0 ins ups downs s"
    using assms(2) by (blast intro: sequential_filter.other_used)
  with r have "refines hs other s0 (p\<lparr>handler_state := s\<rparr>)"
    unfolding refines_def
    by (rule_tac x = ins in exI, rule_tac x = ups in exI, rule_tac x = downs in exI)
      (simp add: ups_of_def downs_of_def waiting_of_def l Let_def split: if_splits)
  then show ?thesis
    using assms(1) by (simp add: run_ok_def blocks_ok_def awake_ok_def phase_ok_def l cong: filter_state.case_cong)
qed

lemma stop_begin_ok:
  assumes "run_ok hs other s0 p" "stop_begin known p = (True, q)"
  shows "run_ok hs other s0 q"
proof -
  let ?r = "p\<lparr>filter_state := state_stopping, releasing := Some [Read_stage, Process_stage, Mstcp_stage, Adapter_stage]\<rparr>"
  have run: "filter_state p = state_running"
    and q: "q = (release_adapters known (p\<lparr>filter_state := state_stopping\<rparr>))
      \<lparr>releasing := Some [Read_stage, Process_stage, Mstcp_stage, Adapter_stage]\<rparr>"
    using assms(2) by (auto simp: stop_begin_def split: if_splits)
  have "same_flow ?r q"
    using same_flow_release [of "p\<lparr>filter_state := state_stopping\<rparr>" known] by (simp add: q same_flow_def)
  moreover have l: "ring ?r = ring p" "line c ?r = line c p" for c
    by (simp_all add: ring_def line_def)
  moreover have "refines hs other s0 ?r"
    using assms(1) run by (auto simp: run_ok_def refines_def ups_of_def downs_of_def waiting_of_def l Let_def)
  moreover have "phase_ok ?r"
    by (simp add: phase_ok_def)
  ultimately show ?thesis
    using same_flow_ok [of ?r q hs other s0] assms(1) run
    by (simp add: run_ok_def blocks_ok_def awake_ok_def)
qed

lemma releasing_ok:
  "run_ok hs other s0 p \<Longrightarrow> phase_ok (p\<lparr>releasing := r\<rparr>) \<Longrightarrow> run_ok hs other s0 (p\<lparr>releasing := r\<rparr>)"
  using refines_cong [of "p\<lparr>releasing := r\<rparr>" p hs other s0]
  by (simp add: run_ok_def blocks_ok_def awake_ok_def ring_def line_def)

lemma stop_notify_ok:
  assumes "run_ok hs other s0 p" "stop_notify p = Some q"
  shows "run_ok hs other s0 q"
proof -
  obtain c cs where r: "releasing p = Some (c # cs)" "q = (notify c p)\<lparr>releasing := Some cs\<rparr>"
    using assms(2) by (auto simp: stop_notify_def split: option.splits list.splits)
  then have "filter_state p = state_stopping"
    using assms(1) by (auto simp: run_ok_def phase_ok_def split: filter_state.splits)
  then show ?thesis
    unfolding r(2) by (intro releasing_ok notify_ok [OF assms(1)]) (simp add: phase_ok_def)
qed

lemma stop_joined_ok:
  assumes "run_ok hs other s0 p" "stop_joined p = Some q"
  shows "run_ok hs other s0 q"
proof -
  have r: "releasing p = Some []"
    and w: "worker_of p Read_stage = Exited \<and> worker_of p Process_stage = Exited \<and> worker_of p Mstcp_stage = Exited \<and> worker_of p Adapter_stage = Exited"
    and q: "q = p\<lparr>block_queue := (\<lambda>_. []), filter_state := state_stopped, releasing := None\<rparr>"
    using assms(2) by (auto simp: stop_joined_def split: if_splits)
  have e: "worker_of p c = Exited" for c
    using w by (cases c) simp_all
  have "filter_state p = state_stopping"
    using assms(1) r by (auto simp: run_ok_def phase_ok_def split: filter_state.splits)
  with assms(1) have "refines hs other s0 q"
    using ups_prefix [of p] e by (auto simp: q run_ok_def refines_def Let_def)
  then show ?thesis
    using e by (simp add: q run_ok_def blocks_ok_def awake_ok_def phase_ok_def ring_def line_def)
qed

lemma start_filter_ok:
  assumes "fresh p0" "fresh_blocks blocks" "start_filter known hs (Some blocks) p0 = (True, p)"
  shows "run_ok hs other (handler_state p0) p"
proof -
  let ?r = "p0\<lparr>filter_state := state_running, worker_of := (\<lambda>_. Loop_head), block_queue := (block_queue p0)(Read_stage := blocks)\<rparr>"
  let ?s = "p0\<lparr>filter_adapters_list := (if filter_adapters_list p0 = {} then set (map internal_name (network_interfaces p0))
      else filter_adapters_list p0), block_queue := (block_queue p0)(Read_stage := blocks),
      filter_state := state_running, worker_of := (\<lambda>_. Loop_head)\<rparr>"
  have "p = update_adapters_filter_state known hs ?s"
    using assms(1,3) by (cases "filter_adapters_list p0 = {}")
      (auto simp: start_filter_def init_filter_def fresh_def split: if_splits)
  then have "same_flow ?r p"
    using same_flow_trans [OF _ same_flow_update [of ?s known hs], of ?r] by (simp add: same_flow_def)
  moreover have l: "line c ?r = (if c = Read_stage then blocks else [])" "ring ?r = blocks" for c
    using assms(1) by (simp_all add: ring_def line_def fresh_def)
  have n: "length blocks = maximum_block_num" "\<forall>b \<in> set blocks. sized b" "\<forall>b \<in> set blocks. clean b"
    using assms(2) by (auto simp: fresh_blocks_def sized_def clean_def new_block_def)
  have "ups_of ?r = []" "downs_of ?r = []" "waiting_of ?r = []" "packets_read ?r = []"
    using n(3) assms(1) by (auto simp: ups_of_def downs_of_def l waiting_of_def clean_empty fresh_def)
  then have "refines hs other (handler_state p0) ?r"
    by (auto simp: refines_def intro!: sequential_filter.begin_read exI [of _ "[]"])
  moreover have "blocks_ok ?r" "awake_ok ?r" "phase_ok ?r"
    using n assms(1) by (simp_all add: blocks_ok_def l awake_ok_def phase_ok_def fresh_def)
  ultimately show ?thesis
    using same_flow_ok [of ?r p hs other "handler_state p0"] n(1) by (simp add: run_ok_def l)
qed

lemma filter_step_ok:
  assumes "filter_step known hs other p q" "run_ok hs other s0 p"
  shows "run_ok hs other s0 q"
  using assms
proof (induction rule: filter_step.induct)
  case (adapter_filtered p name)
  then show ?case
    by (simp add: same_flow_ok [OF same_flow_adapters(1)])
next
  case (adapter_unfiltered p name)
  then show ?case
    by (simp add: same_flow_ok [OF same_flow_adapters(2)])
next
  case (adapters_changed p adapters)
  then show ?case
    by (simp add: same_flow_ok [OF same_flow_adapters(3)])
qed (blast intro: packet_read_thread_ok packet_process_thread_ok packet_write_mstcp_thread_ok packet_write_adapter_thread_ok
    handler_used_ok stop_begin_ok stop_notify_ok stop_joined_ok)+

lemma filter_run_ok: "filter_run known hs other s0 p \<Longrightarrow> run_ok hs other s0 p"
proof (induction rule: filter_run.induct)
  case (started p0 blocks p)
  then show ?case
    using start_filter_ok by blast
qed (auto intro: filter_step_ok notify_ok)
end
