(* ===== verification/Filter_Properties.thy ===== *)
theory Filter_Properties
  imports Filter_Runs Router_Paths
begin

text \<open>
  Properties of the packet filter (ndisapi/queued_multi_interface_packet_filter.h): the four threads
  refine one, no thread sleeps on work, the packets for the network leave unaltered when the router
  decides, and when stopping ends and when it may not.
\<close>

section \<open>The router as the handler\<close>

text \<open>
  \<^verbatim>\<open>socks_local_router\<close> passes the filter a handler for outgoing packets only (the incoming one is
  a null pointer) and never asks for another interface.  A call learns from the system the time
  and whether a buffer could be allocated.
\<close>

definition router_outgoing :: "process_times \<Rightarrow> (time_point \<times> bool, router) handler" where
  "router_outgoing sys = (\<lambda>(now, allocated) (h, b) r.
     map_option (\<lambda>(verdict, b, r). (verdict, None, (h, b), r)) (filter_packet sys now allocated b r))"

definition router_handlers :: "process_times \<Rightarrow> (time_point \<times> bool, router) handlers" where
  "router_handlers sys = \<lparr>filter_outgoing_packet = Some (router_outgoing sys), filter_incoming_packet = None\<rparr>"

lemma router_to_adapter:
  assumes "decide (router_handlers sys) t x r = Some (verdict, y, r')" "to_adapter verdict y"
  shows "y = x"
proof (cases "on_send x")
  case True
  obtain now allocated h b where t: "t = (now, allocated)" "x = (h, b)"
    by fastforce
  with True assms(1) obtain b' where f: "filter_packet sys now allocated b r = Some (verdict, b', r')" and y: "y = (h, b')"
    by (auto simp: decide_def ask_handler_def router_handlers_def router_outgoing_def bind_eq_Some_conv)
  show ?thesis
  proof (cases verdict)
    case action_type_pass
    then show ?thesis
      using filter_packet_unaltered [OF f] y t by simp
  next
    case action_type_revert
    then have "m_dwDeviceFlags b' = m_dwDeviceFlags b"
      using filter_packet_flags [OF f] by simp
    with action_type_revert assms(2) True y t show ?thesis
      by (simp add: to_adapter_def on_send_def on_receive_def filter_constants)
  qed (use assms(2) in \<open>simp add: to_adapter_def\<close>)
next
  case False
  with assms(1) have "verdict = action_type_pass" "y = x"
    by (auto simp: decide_def ask_handler_def router_handlers_def bind_eq_Some_conv)
  with assms(2) False show ?thesis
    by (simp add: to_adapter_def)
qed

lemma router_downs:
  "sequential_filter (router_handlers sys) other s0 ins ups downs s \<Longrightarrow> subseq downs ins"
proof (induction rule: sequential_filter.induct)
  case (packet_read ins ups downs s t x verdict y s')
  then show ?case
    using router_to_adapter [of sys t x s verdict y s'] by (auto intro: list_emb_append_mono)
qed simp_all

section \<open>Stopping\<close>

text \<open>The steps of the four threads alone, and those that change anything.\<close>

inductive thread_step :: "('t, 's) handlers \<Rightarrow> 's packet_filter \<Rightarrow> 's packet_filter \<Rightarrow> bool" for hs where
  "length got \<le> maximum_packet_block \<Longrightarrow> thread_step hs p (packet_read_thread ok got p)"
| "packet_process_thread hs t p = Some q \<Longrightarrow> thread_step hs p q"
| "thread_step hs p (packet_write_mstcp_thread p)"
| "thread_step hs p (packet_write_adapter_thread p)"

definition thread_moves :: "('t, 's) handlers \<Rightarrow> 's packet_filter \<Rightarrow> 's packet_filter \<Rightarrow> bool" where
  "thread_moves hs p q \<longleftrightarrow> thread_step hs p q \<and> q \<noteq> p"

definition none_sleeps :: "'s packet_filter \<Rightarrow> bool" where
  "none_sleeps p \<longleftrightarrow> (\<forall>c. worker_of p c \<noteq> Deciding \<and> worker_of p c \<noteq> Blocked)"

text \<open>How far a thread is from its end once the filter stops.\<close>

definition rank :: "nat \<Rightarrow> worker \<Rightarrow> nat" where
  "rank left w =
     (case w of Exited \<Rightarrow> 0 | Woken \<Rightarrow> 1 | Loop_head \<Rightarrow> 1 | Blocked \<Rightarrow> 2 | Deciding \<Rightarrow> 3 | Passing b \<Rightarrow> 2
      | Working b \<Rightarrow> 3 + left | Testing \<Rightarrow> 4)"

definition left_of :: "stage \<Rightarrow> nat \<Rightarrow> worker \<Rightarrow> nat" where
  "left_of c i w = (if c = Process_stage then (case w of Working b \<Rightarrow> packets_success b - i | _ \<Rightarrow> 0) else 0)"

definition stage_rank :: "'s packet_filter \<Rightarrow> stage \<Rightarrow> nat" where
  "stage_rank p c = rank (left_of c (packet_index p) (worker_of p c)) (worker_of p c)"

definition stop_rank :: "'s packet_filter \<Rightarrow> nat" where
  "stop_rank p = stage_rank p Read_stage + stage_rank p Process_stage + stage_rank p Mstcp_stage + stage_rank p Adapter_stage"

lemma rank_simps [simp]:
  "rank n Exited = 0" "rank n Woken = 1" "rank n Loop_head = 1" "rank n Blocked = 2" "rank n Deciding = 3"
  "rank n (Passing b) = 2" "rank n (Working b) = 3 + n" "rank n Testing = 4" "left_of c i (Working b) = (if c = Process_stage then packets_success b - i else 0)"
  by (simp_all add: rank_def left_of_def)

lemma stage_rank_cong: "worker_of q d = worker_of p d \<Longrightarrow> packet_index q = packet_index p \<Longrightarrow> stage_rank q d = stage_rank p d"
  by (simp add: stage_rank_def)

text \<open>A step of one thread that makes no other rank larger makes the sum smaller.\<close>

lemma stop_rank_less:
  assumes "stage_rank q c < stage_rank p c" "\<And>d. d \<noteq> c \<Longrightarrow> stage_rank q d \<le> stage_rank p d"
  shows "stop_rank q < stop_rank p"
  using assms(1) assms(2) [of Read_stage] assms(2) [of Process_stage] assms(2) [of Mstcp_stage] assms(2) [of Adapter_stage]
  by (cases c) (simp_all add: stop_rank_def)

lemma take_block_Cons:
  "block_queue p c = b # bs \<Longrightarrow> worker_of (take_block c p) c = Working b"
  "c \<noteq> Process_stage \<Longrightarrow> packet_index (take_block c p) = packet_index p"
  by (simp_all add: take_block_def split: list.split)

lemma wait_step_stopping:
  assumes "filter_state p \<noteq> state_running"
  shows "wait_step c p = p \<or> stop_rank (wait_step c p) < stop_rank p" "none_sleeps p \<Longrightarrow> none_sleeps (wait_step c p)"
proof -
  have i: "packet_index (wait_step c p) = packet_index p"
    using assms by (cases "worker_of p c") (simp_all add: wait_step_def take_block_Cons)
  then have "stage_rank (wait_step c p) d \<le> stage_rank p d" if "d \<noteq> c" for d
    using wait_step_other [OF that, of p] stage_rank_cong [of "wait_step c p" d p] by simp
  moreover have "wait_step c p = p \<or> stage_rank (wait_step c p) c < stage_rank p c"
  proof (cases "worker_of p c = Testing \<and> c = Read_stage \<and> block_queue p c \<noteq> []")
    case True
    then obtain b bs where "block_queue p c = b # bs"
      by (auto simp: neq_Nil_conv)
    then have "worker_of (take_block c p) c = Working b" and w: "worker_of p c = Testing" "wait_step c p = take_block c p"
      using True take_block_Cons(1) [of p c b bs] by (auto simp: wait_step_def)
    then show ?thesis
      using True by (simp add: stage_rank_def)
  next
    case False
    then show ?thesis
      using assms by (cases "worker_of p c") (auto simp: wait_step_def stage_rank_def)
  qed
  ultimately show "wait_step c p = p \<or> stop_rank (wait_step c p) < stop_rank p"
    using stop_rank_less by blast
  have "worker_of (wait_step c p) d \<noteq> Deciding \<and> worker_of (wait_step c p) d \<noteq> Blocked" if "none_sleeps p" for d
  proof (cases "d = c")
    case True
    show ?thesis
      using assms that take_block_Cons(1) [of p c] unfolding True
      by (cases "worker_of p c"; cases "block_queue p c") (auto simp: wait_step_def none_sleeps_def)
  next
    case False
    with that show ?thesis
      using wait_step_other [OF False, of p] by (simp add: none_sleeps_def)
  qed
  then show "none_sleeps p \<Longrightarrow> none_sleeps (wait_step c p)"
    by (simp add: none_sleeps_def)
qed

lemma pass_block_stopping:
  assumes "worker_of p c = Passing b"
  shows "pass_block c b p = p \<or> stop_rank (pass_block c b p) < stop_rank p" "none_sleeps p \<Longrightarrow> none_sleeps (pass_block c b p)"
proof -
  let ?q = "notify (next_stage c) (hand_over c b p)"
  have "stage_rank ?q d \<le> stage_rank p d" if "d \<noteq> c" for d
    using that stage_rank_cong [of ?q d p]
    by (cases "d = next_stage c \<and> worker_of p (next_stage c) = Blocked") (auto simp: worker_notify stage_rank_def left_of_def)
  moreover have "stage_rank ?q c < stage_rank p c"
    using assms by (simp add: stage_rank_def worker_notify)
  ultimately have "stop_rank ?q < stop_rank p"
    using stop_rank_less by blast
  then show "pass_block c b p = p \<or> stop_rank (pass_block c b p) < stop_rank p"
    by (simp add: pass_block_eq)
  show "none_sleeps p \<Longrightarrow> none_sleeps (pass_block c b p)"
    by (auto simp: none_sleeps_def pass_block_eq worker_notify)
qed

text \<open>The same for a thread that goes on with its block.\<close>

lemma set_worker_stopping:
  assumes "worker_of q = (worker_of p)(c := w)" "stage_rank q c < stage_rank p c" "w \<noteq> Deciding" "w \<noteq> Blocked"
    and "c = Process_stage \<or> packet_index q = packet_index p"
  shows "stop_rank q < stop_rank p" "none_sleeps p \<Longrightarrow> none_sleeps q"
proof -
  have "stage_rank q d \<le> stage_rank p d" if "d \<noteq> c" for d
    using that assms(1,5) by (auto simp: stage_rank_def left_of_def split: worker.splits)
  then show "stop_rank q < stop_rank p"
    using stop_rank_less assms(2) by blast
  show "none_sleeps p \<Longrightarrow> none_sleeps q"
    using assms(1,3,4) by (simp add: none_sleeps_def)
qed

lemma thread_step_stopping:
  assumes "thread_step hs p q" "filter_state p \<noteq> state_running"
  shows "(q = p \<or> stop_rank q < stop_rank p) \<and> (none_sleeps p \<longrightarrow> none_sleeps q) \<and>
    filter_state q = filter_state p \<and> releasing q = releasing p"
  using assms
proof (induction rule: thread_step.induct)
  case (1 got p ok)
  let ?q = "packet_read_thread ok got p"
  show ?case
  proof (cases "worker_of p Read_stage")
    case (Working b)
    with 1 have "worker_of ?q = (worker_of p)(Read_stage := Passing (read_into ok got b))" "packet_index ?q = packet_index p"
      "filter_state ?q = filter_state p \<and> releasing ?q = releasing p"
      by (simp_all add: packet_read_thread_def)
    then show ?thesis
      using set_worker_stopping [of ?q p Read_stage] Working by (simp add: stage_rank_def)
  qed (use 1 wait_step_stopping [of p Read_stage] pass_block_stopping [of p Read_stage] in
      \<open>simp_all add: packet_read_thread_def pass_block_eq split: if_splits\<close>)
next
  case (2 t p q)
  show ?case
  proof (cases "worker_of p Process_stage")
    case (Working b)
    then have "\<exists>b'. worker_of q = (worker_of p)(Process_stage := b') \<and> stage_rank q Process_stage < stage_rank p Process_stage \<and>
        b' \<noteq> Deciding \<and> b' \<noteq> Blocked \<and> filter_state q = filter_state p \<and> releasing q = releasing p"
      using 2(1) by (cases "packet_index p < packets_success b")
        (auto simp: packet_process_thread_def Let_def bind_eq_Some_conv stage_rank_def file_packet_def split: if_splits)
    then show ?thesis
      using set_worker_stopping [of q p Process_stage] by blast
  qed (use 2 wait_step_stopping [of p Process_stage] pass_block_stopping [of p Process_stage] in
      \<open>auto simp: packet_process_thread_def pass_block_eq split: if_splits\<close>)
next
  case (3 p)
  let ?q = "packet_write_mstcp_thread p"
  show ?case
  proof (cases "worker_of p Mstcp_stage")
    case (Working b)
    then have "worker_of ?q = (worker_of p)(Mstcp_stage := Passing (b\<lparr>write_mstcp_request := []\<rparr>))" "packet_index ?q = packet_index p"
      "filter_state ?q = filter_state p \<and> releasing ?q = releasing p"
      by (simp_all add: packet_write_mstcp_thread_def)
    then show ?thesis
      using set_worker_stopping [of ?q p Mstcp_stage] Working by (simp add: stage_rank_def)
  qed (use 3 wait_step_stopping [of p Mstcp_stage] pass_block_stopping [of p Mstcp_stage] in
      \<open>simp_all add: packet_write_mstcp_thread_def pass_block_eq split: if_splits\<close>)
next
  case (4 p)
  let ?q = "packet_write_adapter_thread p"
  show ?case
  proof (cases "worker_of p Adapter_stage")
    case (Working b)
    then have "worker_of ?q = (worker_of p)(Adapter_stage := Passing (b\<lparr>write_adapter_request := []\<rparr>))" "packet_index ?q = packet_index p"
      "filter_state ?q = filter_state p \<and> releasing ?q = releasing p"
      by (simp_all add: packet_write_adapter_thread_def)
    then show ?thesis
      using set_worker_stopping [of ?q p Adapter_stage] Working by (simp add: stage_rank_def)
  qed (use 4 wait_step_stopping [of p Adapter_stage] pass_block_stopping [of p Adapter_stage] in
      \<open>simp_all add: packet_write_adapter_thread_def pass_block_eq split: if_splits\<close>)
qed

lemma thread_moves_keep:
  "(thread_moves hs)\<^sup>*\<^sup>* p q \<Longrightarrow> filter_state p \<noteq> state_running \<Longrightarrow>
   filter_state q = filter_state p \<and> releasing q = releasing p \<and> (none_sleeps p \<longrightarrow> none_sleeps q)"
proof (induction rule: rtranclp_induct)
  case (step q r)
  then show ?case
    using thread_step_stopping [of hs q r] unfolding thread_moves_def by metis
qed simp

lemma thread_moves_bounded:
  "(thread_moves hs ^^ n) p q \<Longrightarrow> filter_state p \<noteq> state_running \<Longrightarrow> n + stop_rank q \<le> stop_rank p"
proof (induction n arbitrary: q)
  case (Suc n)
  then obtain r where r: "(thread_moves hs ^^ n) p r" "thread_moves hs r q"
    by auto
  then have "filter_state r \<noteq> state_running"
    using thread_moves_keep [of hs p r] relpowp_imp_rtranclp [OF r(1)] Suc.prems(2) by simp
  with r Suc show ?case
    using thread_step_stopping [of hs r q] Suc.IH [of r] unfolding thread_moves_def by fastforce
qed simp


lemma moves_end: "filter_state p \<noteq> state_running \<Longrightarrow> \<exists>q. (thread_moves hs)\<^sup>*\<^sup>* p q \<and> (\<forall>r. \<not> thread_moves hs q r)"
proof (induction "stop_rank p" arbitrary: p rule: less_induct)
  case less
  show ?case
  proof (cases "\<exists>r. thread_moves hs p r")
    case True
    then obtain r where r: "thread_moves hs p r"
      by blast
    with less.prems have "stop_rank r < stop_rank p" "filter_state r \<noteq> state_running"
      using thread_step_stopping [of hs p r] by (auto simp: thread_moves_def)
    from less.hyps [OF this] r show ?thesis
      by (meson converse_rtranclp_into_rtranclp)
  qed blast
qed

text \<open>A filter whose threads can do nothing any more.\<close>

lemma no_move_exited:
  assumes "run_ok hs other s0 p" "filter_state p = state_stopping" "none_sleeps p" "\<forall>t x s. decide hs t x s \<noteq> None"
    and stuck: "\<And>q. thread_step hs p q \<Longrightarrow> q = p"
  shows "worker_of p c = Exited"
proof -
  have moved: "worker_of q d = worker_of p d" if "thread_step hs p q" for q d
    using stuck [OF that] by simp
  have s1: "worker_of (packet_read_thread True [] p) Read_stage = worker_of p Read_stage"
    by (rule moved [OF thread_step.intros(1)]) simp
  have s3: "worker_of (packet_write_mstcp_thread p) Mstcp_stage = worker_of p Mstcp_stage"
    "worker_of (packet_write_adapter_thread p) Adapter_stage = worker_of p Adapter_stage"
    by (rule moved [OF thread_step.intros(3)], rule moved [OF thread_step.intros(4)])
  have awake: "worker_of p d \<noteq> Deciding" "worker_of p d \<noteq> Blocked" for d
    using assms(3) by (simp_all add: none_sleeps_def)
  have pass: "worker_of (pass_block d b p) d = Loop_head" for d b
    using awake(1) [of "next_stage d"] by (simp add: pass_block_eq worker_notify)
  have wait: "worker_of (wait_step d p) d \<noteq> worker_of p d" if "worker_of p d = Loop_head \<or> worker_of p d = Testing \<or> worker_of p d = Woken" for d
    using that assms(2) take_block_Cons(1) [of p d]
    by (cases "block_queue p d") (auto simp: wait_step_def)
  show ?thesis
  proof (cases c)
    case Read_stage
    with s1 wait [of c] pass [of c] awake [of c] show ?thesis
      by (cases "worker_of p c") (auto simp: packet_read_thread_def)
  next
    case Process_stage
    show ?thesis
    proof (cases "worker_of p c")
      case (Working b)
      have "sized b"
        using assms(1) Working ring_member [of b c p] by (simp add: run_ok_def blocks_ok_def line_def)
      obtain verdict y s where d: "decide hs undefined (packet_buffer b ! packet_index p) (handler_state p) = Some (verdict, y, s)"
        using assms(4) by (metis not_Some_eq prod_cases3)
      have "\<exists>q. packet_process_thread hs undefined p = Some q \<and> (worker_of q c \<noteq> worker_of p c \<or> packet_index q \<noteq> packet_index p)"
        using Working Process_stage \<open>sized b\<close> d
        by (cases "packet_index p < packets_success b") (simp_all add: packet_process_thread_def Let_def sized_def)
      then obtain q where q: "packet_process_thread hs undefined p = Some q"
        "worker_of q c \<noteq> worker_of p c \<or> packet_index q \<noteq> packet_index p"
        by blast
      with stuck [OF thread_step.intros(2) [OF q(1)]] show ?thesis
        by auto
    next
      case (Passing b)
      with Process_stage have "packet_process_thread hs undefined p = Some (pass_block c b p)"
        by (simp add: packet_process_thread_def)
      then show ?thesis
        using moved [OF thread_step.intros(2)] pass [of c b] Passing by fastforce
    qed (use wait [of c] awake [of c] moved [OF thread_step.intros(2), of undefined "wait_step c p" c] Process_stage in
        \<open>auto simp: packet_process_thread_def\<close>)
  next
    case Mstcp_stage
    with s3(1) wait [of c] pass [of c] awake [of c] show ?thesis
      by (cases "worker_of p c") (auto simp: packet_write_mstcp_thread_def)
  next
    case Adapter_stage
    with s3(2) wait [of c] pass [of c] awake [of c] show ?thesis
      by (cases "worker_of p c") (auto simp: packet_write_adapter_thread_def)
  qed
qed

lemma thread_step_is_step: "thread_step hs p q \<Longrightarrow> filter_step known hs other p q"
  by (induction rule: thread_step.induct) (auto intro: filter_step.intros)

lemma thread_moves_run:
  "(thread_moves hs)\<^sup>*\<^sup>* p q \<Longrightarrow> filter_run known hs other s0 p \<Longrightarrow> filter_run known hs other s0 q"
  by (induction rule: rtranclp_induct) (auto simp: thread_moves_def intro: filter_run.stepped thread_step_is_step)

lemma stop_rank_bound:
  assumes "run_ok hs other s0 p" "none_sleeps p"
  shows "stop_rank p \<le> 527"
proof -
  have "stage_rank p c \<le> 4" if "c \<noteq> Process_stage" for c
    using assms(2) that by (cases "worker_of p c") (auto simp: none_sleeps_def stage_rank_def left_of_def)
  from this [of Read_stage] this [of Mstcp_stage] this [of Adapter_stage]
  have "stage_rank p Read_stage \<le> 4" "stage_rank p Mstcp_stage \<le> 4" "stage_rank p Adapter_stage \<le> 4"
    by simp_all
  moreover have "stage_rank p Process_stage \<le> 515"
  proof (cases "worker_of p Process_stage")
    case (Working b)
    then have "sized b"
      using assms(1) ring_member [of b Process_stage p] by (simp add: run_ok_def blocks_ok_def line_def)
    with Working show ?thesis
      by (auto simp: stage_rank_def sized_def maximum_packet_block_def)
  qed (simp_all add: stage_rank_def left_of_def)
  ultimately show ?thesis
    unfolding stop_rank_def by linarith
qed

section \<open>Schedules\<close>

text \<open>Runs given by a list of commands, for the examples.\<close>

datatype command = Read bool "adapter_packet list" | Process | Write_mstcp | Write_adapter | Stop | Notify_next

fun obey :: "('t, 's) handlers \<Rightarrow> 't \<Rightarrow> command \<Rightarrow> 's packet_filter \<Rightarrow> 's packet_filter option" where
  "obey hs t (Read ok got) p = (if length got \<le> maximum_packet_block then Some (packet_read_thread ok got p) else None)"
| "obey hs t Process p = packet_process_thread hs t p"
| "obey hs t Write_mstcp p = Some (packet_write_mstcp_thread p)"
| "obey hs t Write_adapter p = Some (packet_write_adapter_thread p)"
| "obey hs t Stop p = (let (ok, q) = stop_begin (\<lambda>_. True) p in if ok then Some q else None)"
| "obey hs t Notify_next p = stop_notify p"

fun obey_all :: "('t, 's) handlers \<Rightarrow> 't \<Rightarrow> command list \<Rightarrow> 's packet_filter \<Rightarrow> 's packet_filter option" where
  "obey_all hs t [] p = Some p"
| "obey_all hs t (c # cs) p = Option.bind (obey hs t c p) (obey_all hs t cs)"

lemma obey_step: "obey hs t c p = Some q \<Longrightarrow> filter_step (\<lambda>_. True) hs other p q"
  by (cases c) (auto intro: filter_step.intros split: if_splits prod.splits)

lemma obey_all_run:
  "obey_all hs t cs p = Some q \<Longrightarrow> filter_run (\<lambda>_. True) hs other s p \<Longrightarrow> filter_run (\<lambda>_. True) hs other s q"
proof (induction cs arbitrary: p)
  case (Cons c cs)
  then obtain r where r: "obey hs t c p = Some r" "obey_all hs t cs r = Some q"
    by (auto simp: bind_eq_Some_conv)
  from Cons.prems(2) obey_step [OF r(1)] have "filter_run (\<lambda>_. True) hs other s r"
    by (rule filter_run.stepped)
  with Cons.IH r(2) show ?case
    by blast
qed simp

lemma stage_all: "(\<forall>c. P c) \<longleftrightarrow> P Read_stage \<and> P Process_stage \<and> P Mstcp_stage \<and> P Adapter_stage"
  by (metis stage.exhaust)

lemma obey_all_runs:
  "\<exists>q. obey_all hs t cs p = Some q \<and> P q \<Longrightarrow> filter_run (\<lambda>_. True) hs other s p \<Longrightarrow>
   \<exists>q. filter_run (\<lambda>_. True) hs other s q \<and> P q"
  by (elim exE conjE, rule exI, rule conjI [OF obey_all_run])

text \<open>A filter without adapters that has just started.\<close>

definition sample_garbage :: "adapter_packet list" where
  "sample_garbage = replicate 512 (0, \<lparr>m_dwDeviceFlags = 0, m_Length = 0, m_IBuffer = \<lambda>_. 0\<rparr>)"

definition sample_blocks :: "packet_block list" where
  "sample_blocks = new_block sample_garbage # replicate 15 (new_block sample_garbage)"

definition started_filter :: "packet_block list \<Rightarrow> 's \<Rightarrow> 's packet_filter" where
  "started_filter blocks s = (new_packet_filter s [])\<lparr>filter_state := state_running, worker_of := (\<lambda>_. Loop_head),
     block_queue := (\<lambda>_. [])(Read_stage := blocks)\<rparr>"

lemma started_filter_run: "filter_run known hs other s (started_filter sample_blocks s)"
proof (rule filter_run.started)
  show "start_filter known hs (Some sample_blocks) (new_packet_filter s []) = (True, started_filter sample_blocks s)"
    by (simp add: start_filter_def init_filter_def new_packet_filter_def started_filter_def update_adapters_filter_state_def)
  show "fresh_blocks sample_blocks"
    by (auto simp: fresh_blocks_def sample_blocks_def sample_garbage_def maximum_block_num_def maximum_packet_block_def)
qed (simp_all add: fresh_def new_packet_filter_def)

section \<open>A thread that nobody wakes\<close>

definition asleep :: "'s packet_filter \<Rightarrow> bool" where
  "asleep p \<longleftrightarrow> filter_state p = state_stopping \<and> releasing p = Some [] \<and> worker_of p = (\<lambda>_. Exited)(Mstcp_stage := Blocked)"

lemma asleep_same_flow: "same_flow p q \<Longrightarrow> asleep p \<Longrightarrow> asleep q"
  by (simp add: asleep_def same_flow_def)

lemma asleep_stays: "filter_step known hs other p q \<Longrightarrow> asleep p \<Longrightarrow> asleep q"
proof (induction rule: filter_step.induct)
  case (processes t p q)
  then show ?case
    by (simp add: asleep_def packet_process_thread_def wait_step_def)
next
  case (adapter_filtered p name)
  then show ?case
    using asleep_same_flow [OF same_flow_adapters(1)] by blast
next
  case (adapter_unfiltered p name)
  then show ?case
    using asleep_same_flow [OF same_flow_adapters(2)] by blast
next
  case (adapters_changed p adapters)
  then show ?case
    using asleep_same_flow [OF same_flow_adapters(3)] by blast
qed (auto simp: packet_read_thread_def packet_write_mstcp_thread_def packet_write_adapter_thread_def wait_step_def asleep_def
    stop_begin_def stop_notify_def stop_joined_def split: if_splits)

lemma asleep_reached:
  "\<exists>q. filter_run (\<lambda>_. True) hs other s q \<and> asleep q"
proof -
  have "\<exists>q. obey_all hs t [Write_mstcp, Write_mstcp, Stop, Notify_next, Notify_next, Notify_next, Notify_next, Write_mstcp,
      Read True [], Process, Write_adapter] (started_filter sample_blocks s) = Some q \<and> asleep q" for t
    by (simp add: asleep_def started_filter_def new_packet_filter_def packet_read_thread_def packet_write_mstcp_thread_def
        packet_process_thread_def packet_write_adapter_thread_def wait_step_def stop_begin_def stop_notify_def notify_def
        release_adapters_def fun_eq_iff stage_all)
  then show ?thesis
    by (rule obey_all_runs [OF _ started_filter_run])
qed

section \<open>Properties\<close>

lemma refines_prefixes:
  assumes "refines hs other s0 p"
  obtains ins ups downs where "sequential_filter hs other s0 ins ups downs (handler_state p)"
    "prefix ins (packets_read p)" "prefix (sent_mstcp p) ups" "prefix (sent_adapter p) downs"
    "filter_state p = state_running \<longrightarrow> ups = ups_of p \<and> downs = downs_of p \<and>
      packets_read p = ins @ undecided (packet_index p) (worker_of p Process_stage) @ waiting_of p"
proof -
  from assms obtain ins ups downs where s: "sequential_filter hs other s0 ins ups downs (handler_state p)"
    and r: "if filter_state p = state_stopped
     then prefix ins (packets_read p) \<and> prefix (sent_mstcp p) ups \<and> prefix (sent_adapter p) downs
     else ups = ups_of p \<and> downs = downs_of p \<and>
       (let here = ins @ undecided (packet_index p) (worker_of p Process_stage)
        in if filter_state p = state_running then packets_read p = here @ waiting_of p else prefix here (packets_read p))"
    unfolding refines_def by blast
  show thesis
  proof (rule that [OF s])
    show "prefix ins (packets_read p)" "prefix (sent_mstcp p) ups" "prefix (sent_adapter p) downs"
      using r ups_prefix [of p] append_prefixD [of ins] by (auto simp: Let_def split: if_splits)
    show "filter_state p = state_running \<longrightarrow> ups = ups_of p \<and> downs = downs_of p \<and>
        packets_read p = ins @ undecided (packet_index p) (worker_of p Process_stage) @ waiting_of p"
      using r by (simp add: Let_def split: if_splits)
  qed
qed

definition quiet :: "'s packet_filter \<Rightarrow> bool" where
  "quiet p \<longleftrightarrow> filter_state p = state_running \<and> line Process_stage p = [] \<and> line Mstcp_stage p = [] \<and>
     line Adapter_stage p = [] \<and> arrived (worker_of p Read_stage) = []"

text \<open>
  C2: The four threads refine one.  Whatever the interleaving, the packets handed to the network
  stack and to the adapters are, in their order, prefixes of what a single thread hands on that
  decides and sends each packet before it reads the next; when all blocks are back at the reading
  thread the two agree.
\<close>

theorem pipeline_refines_sequential_filter:
  assumes "filter_run known hs other s0 p"
  shows "\<exists>ins ups downs. sequential_filter hs other s0 ins ups downs (handler_state p) \<and>
    prefix ins (packets_read p) \<and> prefix (sent_mstcp p) ups \<and> prefix (sent_adapter p) downs \<and>
    (quiet p \<longrightarrow> ins = packets_read p \<and> ups = sent_mstcp p \<and> downs = sent_adapter p)"
proof -
  have ok: "run_ok hs other s0 p"
    by (rule filter_run_ok [OF assms])
  then have "refines hs other s0 p"
    by (simp add: run_ok_def)
  then obtain ins ups downs where r: "sequential_filter hs other s0 ins ups downs (handler_state p)"
    "prefix ins (packets_read p)" "prefix (sent_mstcp p) ups" "prefix (sent_adapter p) downs"
    "filter_state p = state_running \<longrightarrow> ups = ups_of p \<and> downs = downs_of p \<and>
      packets_read p = ins @ undecided (packet_index p) (worker_of p Process_stage) @ waiting_of p"
    by (rule refines_prefixes)
  have q: "ups_of p = sent_mstcp p" "downs_of p = sent_adapter p" "waiting_of p = []"
    "undecided (packet_index p) (worker_of p Process_stage) = []" if "quiet p"
  proof -
    have "\<forall>b \<in> set (line Read_stage p). clean b"
      using ok by (simp add: run_ok_def blocks_ok_def)
    from clean_concat [OF this] that show "ups_of p = sent_mstcp p" "downs_of p = sent_adapter p"
      by (simp_all add: ups_of_def downs_of_def ring_def quiet_def)
    show "waiting_of p = []" "undecided (packet_index p) (worker_of p Process_stage) = []"
      using that by (cases "worker_of p Process_stage"; simp add: quiet_def waiting_of_def line_def)+
  qed
  with r have "quiet p \<longrightarrow> ins = packets_read p \<and> ups = sent_mstcp p \<and> downs = sent_adapter p"
    by (simp add: quiet_def)
  with r(1-4) show ?thesis
    by blast
qed

text \<open>
  C13: While the filter runs its sixteen blocks stay in the ring, no thread sleeps or is about to
  while its queue holds a block, none has ended, and some thread has a block in hand or one to take.
\<close>

theorem no_thread_sleeps_on_work:
  assumes "filter_run known hs other s0 p" "filter_state p = state_running"
  shows "length (ring p) = 16 \<and> (\<forall>c. worker_of p c \<noteq> Exited) \<and>
    (\<forall>c. block_queue p c = [] \<or> (worker_of p c \<noteq> Deciding \<and> worker_of p c \<noteq> Blocked)) \<and>
    (\<exists>c. held (worker_of p c) \<noteq> [] \<or> block_queue p c \<noteq> [])"
proof -
  have ok: "run_ok hs other s0 p"
    by (rule filter_run_ok [OF assms(1)])
  have n: "length (ring p) = 16"
    using ok assms(2) by (simp add: run_ok_def maximum_block_num_def)
  then have "ring p \<noteq> []"
    by auto
  then have "\<exists>c. line c p \<noteq> []"
    unfolding ring_def by blast
  then have "\<exists>c. held (worker_of p c) \<noteq> [] \<or> block_queue p c \<noteq> []"
    by (auto simp: line_def)
  moreover have "\<forall>c. worker_of p c \<noteq> Exited"
    using ok assms(2) by (simp add: run_ok_def phase_ok_def)
  moreover have "\<forall>c. block_queue p c = [] \<or> (worker_of p c \<noteq> Deciding \<and> worker_of p c \<noteq> Blocked)"
    using ok by (auto simp: run_ok_def awake_ok_def)
  ultimately show ?thesis
    using n by blast
qed

text \<open>
  C8: With the router as its handler the filter hands to the network adapters only packets it
  read, unaltered and in their order: everything the router rewrites goes up to the local network
  stack.
\<close>

theorem network_gets_unaltered_packets:
  assumes "filter_run known (router_handlers sys) other s0 p"
  shows "subseq (sent_adapter p) (packets_read p)"
proof -
  have "refines (router_handlers sys) other s0 p"
    using filter_run_ok [OF assms] by (simp add: run_ok_def)
  then obtain ins ups downs where s: "sequential_filter (router_handlers sys) other s0 ins ups downs (handler_state p)"
    and r: "prefix ins (packets_read p)" "prefix (sent_adapter p) downs"
    by (rule refines_prefixes)
  show ?thesis
    using router_downs [OF s] r prefix_imp_subseq by (meson subseq_order.trans)
qed

text \<open>
  C36: \<^verbatim>\<open>stop_filter\<close> may never return.  It sets the state and notifies without the lock of the
  queue; a thread that has just found its queue empty then blocks, and nobody is left to notify it.
  From such a state every step of the program keeps the thread blocked and the filter stopping.
\<close>

theorem stop_may_hang:
  "\<exists>p. filter_run (\<lambda>_. True) hs other s p \<and> releasing p = Some [] \<and>
    (\<forall>q. (filter_step (\<lambda>_. True) hs other)\<^sup>*\<^sup>* p q \<longrightarrow> filter_state q = state_stopping \<and> worker_of q Mstcp_stage = Blocked)"
proof -
  obtain p where p: "filter_run (\<lambda>_. True) hs other s p" "asleep p"
    using asleep_reached [of hs other s] by blast
  have "asleep q" if "(filter_step (\<lambda>_. True) hs other)\<^sup>*\<^sup>* p q" for q
    using that p(2) by (induction rule: rtranclp_induct) (auto intro: asleep_stays)
  then show ?thesis
    using p by (intro exI [of _ p]) (auto simp: asleep_def)
qed

text \<open>
  C28: When no thread sleeps or is about to once all have been notified, stopping ends: the threads
  make at most 527 more steps that change anything, and when none is possible any more all have
  ended and \<^verbatim>\<open>stop_filter\<close> returns.
\<close>

theorem stop_ends:
  assumes "filter_run known hs other s p" "filter_state p = state_stopping" "releasing p = Some []" "none_sleeps p"
    and "\<forall>t x r. decide hs t x r \<noteq> None"
  shows "(\<forall>n q. (thread_moves hs ^^ n) p q \<longrightarrow> n \<le> 527) \<and>
    (\<forall>q. (thread_moves hs)\<^sup>*\<^sup>* p q \<and> (\<forall>r. \<not> thread_moves hs q r) \<longrightarrow>
      (\<exists>r. stop_joined q = Some r \<and> filter_state r = state_stopped \<and> fresh (r\<lparr>packets_read := [], sent_mstcp := [], sent_adapter := []\<rparr>)))"
proof (intro conjI allI impI)
  fix n q
  assume "(thread_moves hs ^^ n) p q"
  then show "n \<le> 527"
    using thread_moves_bounded [of n hs p q] stop_rank_bound [OF filter_run_ok [OF assms(1)] assms(4)] assms(2) by simp
next
  fix q
  assume q: "(thread_moves hs)\<^sup>*\<^sup>* p q \<and> (\<forall>r. \<not> thread_moves hs q r)"
  then have run: "filter_run known hs other s q"
    by (intro thread_moves_run [OF _ assms(1)]) simp
  have k: "filter_state q = state_stopping" "releasing q = Some []" "none_sleeps q"
    using thread_moves_keep [of hs p q] q assms(2-4) by simp_all
  have "worker_of q c = Exited" for c
    using no_move_exited [OF filter_run_ok [OF run] k(1,3) assms(5)] q by (auto simp: thread_moves_def)
  with k show "\<exists>r. stop_joined q = Some r \<and> filter_state r = state_stopped \<and>
      fresh (r\<lparr>packets_read := [], sent_mstcp := [], sent_adapter := []\<rparr>)"
    by (simp add: stop_joined_def fresh_def)
qed

section \<open>Witnesses\<close>

text \<open>One outgoing packet, not of IPv4, that goes once round the ring.\<close>

definition ring_sample :: adapter_packet where
  "ring_sample = (7, \<lparr>m_dwDeviceFlags = 1, m_Length = 60, m_IBuffer = \<lambda>_. 0\<rparr>)"

definition once_round :: "command list" where
  "once_round = [Read True [], Read True [], Read True [ring_sample], Read True [], Process, Process, Process, Process, Process,
     Write_mstcp, Write_mstcp, Write_mstcp, Write_mstcp, Write_adapter, Write_adapter, Write_adapter, Write_adapter]"

lemma ring_sample_sends: "on_send ring_sample"
  by (simp add: ring_sample_def on_send_def PACKET_FLAG_ON_SEND_def)

lemma once_round_delivers:
  assumes "decide hs t ring_sample s = Some (action_type_pass, ring_sample, s')"
  shows "\<exists>q. obey_all hs t once_round (started_filter sample_blocks s) = Some q \<and> quiet q \<and>
    packets_read q = [ring_sample] \<and> sent_adapter q = [ring_sample] \<and> sent_mstcp q = [] \<and> handler_state q = s'"
  using assms ring_sample_sends
  by (simp add: once_round_def started_filter_def new_packet_filter_def sample_blocks_def packet_read_thread_def wait_step_def
      take_block_def read_into_def pass_block_def notify_def Let_def maximum_packet_block_def packet_process_thread_def
      file_packet_def to_adapter_def to_mstcp_def packet_write_mstcp_thread_def packet_write_adapter_thread_def requested_def
      new_block_def quiet_def line_def)

definition plain_handlers :: "(unit, unit) handlers" where
  "plain_handlers = \<lparr>filter_outgoing_packet = None, filter_incoming_packet = None\<rparr>"

lemma plain_decides: "decide plain_handlers t x s = Some (action_type_pass, x, s)"
  by (simp add: decide_def plain_handlers_def ask_handler_def)

lemma plain_run:
  "\<exists>q. filter_run (\<lambda>_. True) plain_handlers (=) () q \<and> quiet q \<and>
    packets_read q = [ring_sample] \<and> sent_adapter q = [ring_sample] \<and> sent_mstcp q = []"
  using obey_all_runs [OF once_round_delivers [OF plain_decides] started_filter_run, of "(=)" "()"] by blast

theorem pipeline_refines_sequential_filter_witness:
  "\<exists>s. sequential_filter plain_handlers (=) () [ring_sample] [] [ring_sample] s"
proof -
  obtain q where q: "filter_run (\<lambda>_. True) plain_handlers (=) () q" "quiet q" "packets_read q = [ring_sample]"
    "sent_adapter q = [ring_sample]" "sent_mstcp q = []"
    using plain_run by blast
  from pipeline_refines_sequential_filter [OF q(1)] q(2-) show ?thesis
    by auto
qed

theorem no_thread_sleeps_on_work_witness:
  "\<exists>q. packets_read q = [ring_sample] \<and> length (ring q) = 16 \<and> (\<forall>c. worker_of (q :: unit packet_filter) c \<noteq> Exited)"
proof -
  obtain q where q: "filter_run (\<lambda>_. True) plain_handlers (=) () q" "quiet q" "packets_read q = [ring_sample]"
    using plain_run by blast
  then have "filter_state q = state_running"
    by (simp add: quiet_def)
  from no_thread_sleeps_on_work [OF q(1) this] q(3) show ?thesis
    by blast
qed

lemma router_passes_sample:
  "decide (router_handlers sys) (now, allocated) ring_sample r = Some (action_type_pass, ring_sample, r)"
  using ring_sample_sends
  by (simp add: decide_def ask_handler_def router_handlers_def router_outgoing_def)
    (simp add: ring_sample_def filter_packet_def decide_packet_def h_proto_def rd16_def le16_def ntohs_def ETH_P_IP_def Let_def)

theorem network_gets_unaltered_packets_witness:
  "\<exists>q. sent_adapter (q :: router packet_filter) = [ring_sample] \<and> subseq (sent_adapter q) (packets_read q)"
proof -
  obtain q where q: "filter_run (\<lambda>_. True) (router_handlers sample_times) (=) routed_router q" "sent_adapter q = [ring_sample]"
    using obey_all_runs [OF once_round_delivers [OF router_passes_sample] started_filter_run, of sample_times "(=)" routed_router]
    by blast
  from network_gets_unaltered_packets [OF q(1)] q(2) show ?thesis
    by blast
qed

text \<open>A filter that is stopped at once.\<close>

lemma stopping_run:
  "\<exists>q. filter_run (\<lambda>_. True) plain_handlers (=) () q \<and> filter_state q = state_stopping \<and> releasing q = Some [] \<and>
    none_sleeps q \<and> worker_of q = (\<lambda>_. Loop_head)"
proof -
  have "\<exists>q. obey_all plain_handlers () [Stop, Notify_next, Notify_next, Notify_next, Notify_next] (started_filter sample_blocks ()) = Some q \<and>
      filter_state q = state_stopping \<and> releasing q = Some [] \<and> none_sleeps q \<and> worker_of q = (\<lambda>_. Loop_head)"
    by (simp add: started_filter_def new_packet_filter_def stop_begin_def stop_notify_def notify_def release_adapters_def none_sleeps_def)
  then show ?thesis
    by (rule obey_all_runs [OF _ started_filter_run])
qed

theorem stop_may_hang_witness:
  "\<exists>p. filter_run (\<lambda>_. True) plain_handlers (=) () p \<and> releasing p = Some [] \<and> worker_of p Mstcp_stage = Blocked"
  using stop_may_hang [of plain_handlers "(=)" "()"] by blast

theorem stop_ends_witness:
  "\<exists>p q r. filter_state (p :: unit packet_filter) = state_stopping \<and> (thread_moves plain_handlers)\<^sup>*\<^sup>* p q \<and>
    stop_joined q = Some r \<and> filter_state r = state_stopped"
proof -
  obtain p where p: "filter_run (\<lambda>_. True) plain_handlers (=) () p" "filter_state p = state_stopping" "releasing p = Some []"
    "none_sleeps p" "worker_of p = (\<lambda>_. Loop_head)"
    using stopping_run by blast
  have total: "\<forall>t x r. decide plain_handlers t x r \<noteq> None"
    by (simp add: plain_decides)
  obtain q where "(thread_moves plain_handlers)\<^sup>*\<^sup>* p q" "\<forall>r. \<not> thread_moves plain_handlers q r"
    using moves_end [of p plain_handlers] p(2) by auto
  with stop_ends [OF p(1-4) total] p(2) show ?thesis
    by blast
qed

end
