(* ===== verification/Network_Config.thy ===== *)
theory Network_Config
  imports Packet_Filter
begin

text \<open>
  \<^verbatim>\<open>network_adapter_info\<close> and \<^verbatim>\<open>network_config_info\<close> (iphelper/network_adapter_info.h): what the system
  tells of its network interfaces, the queries over it, and the notification of changes; and the
  links of a WAN adapter (ndisapi/network_adapter.h).  The tables of the system are parameters.
\<close>

section \<open>Addresses\<close>

text \<open>
  \<^verbatim>\<open>ip_address_info\<close>, a socket address: its family and the address of the two known families.
  An address of no known family is equal to nothing, itself included.
\<close>

datatype ip_address_info = Info_v4 ip_address_v4 | Info_v6 ip_address_v6 | Info_other u16

fun same_info :: "ip_address_info \<Rightarrow> ip_address_info \<Rightarrow> bool" where
  "same_info (Info_v4 a) (Info_v4 b) \<longleftrightarrow> a = b"
| "same_info (Info_v6 a) (Info_v6 b) \<longleftrightarrow> v6_bytes a = v6_bytes b"
| "same_info _ _ \<longleftrightarrow> False"

record ip_gateway_info =
  gateway_address :: ip_address_info
  hardware_address_of :: "mac_address option"

section \<open>Tables of the system\<close>

text \<open>\<^verbatim>\<open>IP_ADAPTER_ADDRESSES\<close> and \<^verbatim>\<open>MIB_IF_ROW2\<close>, as far as the code reads them.\<close>

record adapter_addresses =
  IfIndex :: u32
  Ipv6IfIndex :: u32
  AdapterName :: string
  Description :: wstring
  FriendlyName :: wstring
  PhysicalAddress :: mac_address
  Mtu :: u32
  TransmitLinkSpeed :: u64
  ReceiveLinkSpeed :: u64
  Luid :: u64
  IfType :: u32
  OperStatusUp :: bool
  Unicast :: "ip_address_info list"
  DnsServers :: "ip_address_info list"
  Gateways :: "ip_address_info list"

record guid =
  Data1 :: u32
  Data2 :: u16
  Data3 :: u16
  Data4 :: "u8 list"

record mib_if_row =
  InterfaceLuid :: u64
  InterfaceGuid :: guid
  MediaType :: nat
  PhysicalMediumType :: nat
  MediaConnected :: bool
  RowAddress :: mac_address
  HardwareInterface :: bool

definition IF_TYPE_SOFTWARE_LOOPBACK :: u32 where "IF_TYPE_SOFTWARE_LOOPBACK = 24"
definition IF_TYPE_PPP :: u32 where "IF_TYPE_PPP = 23"
definition NdisPhysicalMediumUnspecified :: nat where "NdisPhysicalMediumUnspecified = 0"

text \<open>\<^verbatim>\<open>guid_wrapper\<close>: a GUID in capital hexadecimal digits, with leading zeros and in braces.\<close>

definition hex_upper :: "nat \<Rightarrow> char" where
  "hex_upper n = (if n < 10 then char_of (48 + n) else char_of (55 + n))"

fun hex_digits :: "nat \<Rightarrow> nat \<Rightarrow> string" where
  "hex_digits 0 n = []"
| "hex_digits (Suc k) n = hex_digits k (n div 16) @ [hex_upper (n mod 16)]"

definition null_guid :: guid where
  "null_guid = \<lparr>Data1 = 0, Data2 = 0, Data3 = 0, Data4 = replicate 8 0\<rparr>"

definition guid_string :: "guid \<Rightarrow> string" where
  "guid_string g = ''{'' @ hex_digits 8 (unat (Data1 g)) @ ''-'' @ hex_digits 4 (unat (Data2 g)) @ ''-'' @ hex_digits 4 (unat (Data3 g)) @ ''-'' @
     concat (map (\<lambda>i. hex_digits 2 (unat (Data4 g ! i))) [0..<2]) @ ''-'' @ concat (map (\<lambda>i. hex_digits 2 (unat (Data4 g ! i))) [2..<8]) @ ''}''"

section \<open>An interface\<close>

record network_adapter_info =
  if_index :: u32
  ipv6_if_index :: u32
  adapter_name :: string
  true_adapter_name :: guid
  info_description :: wstring
  info_friendly_name :: wstring
  unicast_address_list :: "ip_address_info list"
  dns_server_address_list :: "ip_address_info list"
  gateway_address_list :: "ip_gateway_info list"
  physical_address :: mac_address
  info_mtu :: u16
  transmit_link_speed :: u64
  receive_link_speed :: u64
  info_luid :: u64
  if_type :: u32
  media_type :: nat
  physical_medium_type :: nat
  true_medium_type :: nat

text \<open>
  For an interface of unspecified medium, such as a virtual one, the real interface below it: a
  connected hardware interface with the same Ethernet address; the last one found.
\<close>

definition underlies :: "mib_if_row list \<Rightarrow> nat \<Rightarrow> mac_address \<Rightarrow> nat \<Rightarrow> bool" where
  "underlies table index mac i \<longleftrightarrow>
     i \<noteq> index \<and> MediaConnected (table ! i) \<and> length (RowAddress (table ! i)) = 6 \<and>
     PhysicalMediumType (table ! i) \<noteq> NdisPhysicalMediumUnspecified \<and> RowAddress (table ! i) = mac \<and> HardwareInterface (table ! i)"

definition new_network_adapter_info :: "adapter_addresses \<Rightarrow> mib_if_row list \<Rightarrow> nat \<Rightarrow> network_adapter_info" where
  "new_network_adapter_info a table index =
     (let real = (if PhysicalMediumType (table ! index) = NdisPhysicalMediumUnspecified
                  then filter (underlies table index (PhysicalAddress a)) [0..<length table] else [])
      in \<lparr>if_index = IfIndex a, ipv6_if_index = Ipv6IfIndex a, adapter_name = AdapterName a,
          true_adapter_name = (if real = [] then null_guid else InterfaceGuid (table ! last real)),
          info_description = Description a, info_friendly_name = FriendlyName a,
          unicast_address_list = Unicast a, dns_server_address_list = DnsServers a,
          gateway_address_list = map (\<lambda>g. \<lparr>gateway_address = g, hardware_address_of = None\<rparr>) (Gateways a),
          physical_address = PhysicalAddress a, info_mtu = ucast (Mtu a), transmit_link_speed = TransmitLinkSpeed a,
          receive_link_speed = ReceiveLinkSpeed a, info_luid = Luid a, if_type = IfType a,
          media_type = MediaType (table ! index), physical_medium_type = PhysicalMediumType (table ! index),
          true_medium_type = (if real = [] then NdisPhysicalMediumUnspecified else PhysicalMediumType (table ! last real))\<rparr>)"

definition has_address :: "network_adapter_info \<Rightarrow> ip_address_info \<Rightarrow> bool" where
  "has_address info address \<longleftrightarrow> list_ex (\<lambda>u. same_info u address) (unicast_address_list info)"

definition has_gateway :: "network_adapter_info \<Rightarrow> ip_gateway_info \<Rightarrow> bool" where
  "has_gateway info g \<longleftrightarrow> list_ex (\<lambda>u. same_info (gateway_address u) (gateway_address g)) (gateway_address_list info)"

definition is_same_address_info :: "bool \<Rightarrow> network_adapter_info \<Rightarrow> network_adapter_info \<Rightarrow> bool" where
  "is_same_address_info check_gateway info rhs \<longleftrightarrow>
     length (unicast_address_list info) = length (unicast_address_list rhs) \<and>
     (check_gateway \<longrightarrow> length (gateway_address_list info) = length (gateway_address_list rhs)) \<and>
     list_all (has_address info) (unicast_address_list rhs) \<and>
     (check_gateway \<longrightarrow> list_all (has_gateway info) (gateway_address_list rhs))"

definition get_unicast_address_difference :: "network_adapter_info \<Rightarrow> network_adapter_info \<Rightarrow> ip_address_info list" where
  "get_unicast_address_difference info rhs = filter (\<lambda>u. \<not> has_address rhs u) (unicast_address_list info)"

text \<open>
  The hardware addresses of the gateways: from the cache of neighbours when it holds a complete and
  nonzero one, else by resolution.
\<close>

record neighbour =
  unreachable :: bool
  incomplete :: bool
  neighbour_address :: mac_address

definition resolve_gateway ::
  "(ip_address_info \<Rightarrow> neighbour option) \<Rightarrow> (ip_address_info \<Rightarrow> mac_address option) \<Rightarrow> ip_gateway_info \<Rightarrow> ip_gateway_info" where
  "resolve_gateway cached resolve g =
     (if hardware_address_of g \<noteq> None then g
      else case gateway_address g of
        Info_other _ \<Rightarrow> g
      | _ \<Rightarrow>
          let slow = (case resolve (gateway_address g) of None \<Rightarrow> g | Some mac \<Rightarrow> g\<lparr>hardware_address_of := Some mac\<rparr>) in
          case cached (gateway_address g) of
            None \<Rightarrow> slow
          | Some n \<Rightarrow>
              if \<not> unreachable n \<and> \<not> incomplete n \<and> length (neighbour_address n) = 6 \<and> neighbour_address n \<noteq> replicate 6 0
              then g\<lparr>hardware_address_of := Some (neighbour_address n)\<rparr> else slow)"

definition initialize_gateway_hw_address_list ::
  "(ip_address_info \<Rightarrow> neighbour option) \<Rightarrow> (ip_address_info \<Rightarrow> mac_address option) \<Rightarrow> network_adapter_info \<Rightarrow> network_adapter_info" where
  "initialize_gateway_hw_address_list cached resolve info =
     info\<lparr>gateway_address_list := map (resolve_gateway cached resolve) (gateway_address_list info)\<rparr>"

section \<open>Queries\<close>

text \<open>
  \<^verbatim>\<open>GetAdaptersAddresses\<close> is asked for the size of its answer and then for the answer, again as
  long as the buffer turns out too small.  Question \<open>i\<close> finds memory or not and gets an answer; the
  loop may not end.
\<close>

datatype adapters_answer = Adapters "adapter_addresses list" | Buffer_overflow | Query_failed

record ip_helper =
  if_table :: "mib_if_row list option"
  size_answer :: "nat + bool"
  enough_memory :: "nat \<Rightarrow> bool"
  adapters_answer :: "nat \<Rightarrow> adapters_answer"

partial_function (option) ask_adapters :: "(nat \<Rightarrow> bool) \<Rightarrow> (nat \<Rightarrow> adapters_answer) \<Rightarrow> nat \<Rightarrow> adapter_addresses list option" where
  "ask_adapters memory answers i =
     (if \<not> memory i then Some []
      else case answers i of
        Adapters as \<Rightarrow> Some as
      | Query_failed \<Rightarrow> Some []
      | Buffer_overflow \<Rightarrow> ask_adapters memory answers (Suc i))"

text \<open>
  The frame of the four queries: both tables, or nothing when one of them is not to be had.
  \<open>size_answer\<close> is the size asked for, or whether the question failed in another way.
\<close>

definition query_tables :: "ip_helper \<Rightarrow> (mib_if_row list \<times> adapter_addresses list) option" where
  "query_tables sys =
     (case if_table sys of
        None \<Rightarrow> Some ([], [])
      | Some table \<Rightarrow>
          (case size_answer sys of
             Inl needed \<Rightarrow> if needed = 0 then Some (table, []) else map_option (Pair table) (ask_adapters (enough_memory sys) (adapters_answer sys) 0)
           | Inr _ \<Rightarrow> Some (table, [])))"

text \<open>The interface of an adapter: the first row with its LUID.\<close>

definition adapter_info :: "mib_if_row list \<Rightarrow> adapter_addresses \<Rightarrow> network_adapter_info option" where
  "adapter_info table a =
     (case find (\<lambda>i. InterfaceLuid (table ! i) = Luid a) [0..<length table] of
        None \<Rightarrow> None | Some i \<Rightarrow> Some (new_network_adapter_info a table i))"

definition is_external :: "adapter_addresses \<Rightarrow> bool" where
  "is_external a \<longleftrightarrow> Unicast a \<noteq> [] \<and> OperStatusUp a \<and> IfType a \<noteq> IF_TYPE_SOFTWARE_LOOPBACK"

definition get_external_network_connections :: "ip_helper \<Rightarrow> network_adapter_info list option" where
  "get_external_network_connections sys =
     map_option (\<lambda>(table, adapters). List.map_filter (adapter_info table) (filter is_external adapters)) (query_tables sys)"

text \<open>The other three stop at the first adapter that suits and has a row.\<close>

fun first_info :: "(adapter_addresses \<Rightarrow> bool) \<Rightarrow> mib_if_row list \<Rightarrow> adapter_addresses list \<Rightarrow> network_adapter_info option" where
  "first_info suits table [] = None"
| "first_info suits table (a # as) =
     (if suits a then (case adapter_info table a of Some info \<Rightarrow> Some info | None \<Rightarrow> first_info suits table as)
      else first_info suits table as)"

definition find_connection :: "(adapter_addresses \<Rightarrow> bool) \<Rightarrow> ip_helper \<Rightarrow> network_adapter_info option option" where
  "find_connection suits sys = map_option (\<lambda>(table, adapters). first_info suits table adapters) (query_tables sys)"

definition get_connection_by_luid :: "u64 \<Rightarrow> ip_helper \<Rightarrow> network_adapter_info option option" where
  "get_connection_by_luid l = find_connection (\<lambda>a. Luid a = l)"

definition get_connection_by_hw_address :: "mac_address \<Rightarrow> ip_helper \<Rightarrow> network_adapter_info option option" where
  "get_connection_by_hw_address mac = find_connection (\<lambda>a. PhysicalAddress a = mac)"

definition toupper :: "char \<Rightarrow> char" where
  "toupper c = (let n = of_char c :: nat in if 97 \<le> n \<and> n \<le> 122 then char_of (n - 32) else c)"

definition get_connection_by_guid :: "string \<Rightarrow> ip_helper \<Rightarrow> network_adapter_info option option" where
  "get_connection_by_guid guid = find_connection (\<lambda>a. contains (map toupper (AdapterName a)) guid)"

text \<open>\<open>best\<close> and \<open>route_exists\<close> are the answers of the system for the address in question.\<close>

definition get_best_interface :: "u32 option \<Rightarrow> ip_helper \<Rightarrow> network_adapter_info option option" where
  "get_best_interface best sys =
     map_option (\<lambda>adapters. case best of None \<Rightarrow> None | Some i \<Rightarrow> find (\<lambda>info. if_index info = i) adapters)
       (get_external_network_connections sys)"

definition get_routable_interfaces :: "(u32 \<Rightarrow> bool) \<Rightarrow> ip_helper \<Rightarrow> network_adapter_info list option" where
  "get_routable_interfaces route_exists sys =
     map_option (filter (\<lambda>info. route_exists (if_index info))) (get_external_network_connections sys)"

section \<open>Notification of changes\<close>

text \<open>The handle of the subscription and the number of callbacks that run.\<close>

record change_notification =
  notify_handle :: "nat option"
  notify_ref :: u32

definition set_notify_ip_interface_change :: "nat option \<Rightarrow> change_notification \<Rightarrow> bool \<times> change_notification" where
  "set_notify_ip_interface_change handle n =
     (case handle of Some h \<Rightarrow> (True, n\<lparr>notify_handle := Some h\<rparr>) | None \<Rightarrow> (False, n))"

definition cancel_notify_ip_interface_change :: "bool \<Rightarrow> change_notification \<Rightarrow> bool \<times> change_notification" where
  "cancel_notify_ip_interface_change cancelled n =
     (if notify_handle n = None then (True, n) else (cancelled, n\<lparr>notify_handle := None\<rparr>))"

definition callback_enters :: "change_notification \<Rightarrow> change_notification" where
  "callback_enters n = n\<lparr>notify_ref := notify_ref n + 1\<rparr>"

definition callback_leaves :: "change_notification \<Rightarrow> change_notification" where
  "callback_leaves n = n\<lparr>notify_ref := notify_ref n - 1\<rparr>"

definition notify_ip_interface_can_unload :: "change_notification \<Rightarrow> bool" where
  "notify_ip_interface_can_unload n \<longleftrightarrow> notify_ref n = 0"

section \<open>Links of a WAN adapter\<close>

record ras_link =
  LinkSpeed :: u32
  MaximumTotalSize :: u32
  RemoteAddress :: mac_address
  LocalAddress :: mac_address
  ProtocolBuffer :: "nat \<Rightarrow> u8"

record ndis_wan_link_info =
  link_speed :: u32
  link_mtu :: u16
  remote_hw_address :: mac_address
  local_hw_address :: mac_address
  link_address :: ip_address_info

text \<open>The last eight bytes of an IPv6 address, the first eight are zero.\<close>

definition v6_low_half :: "u8 list \<Rightarrow> ip_address_v6" where
  "v6_low_half bs = (\<Sum>i \<leftarrow> [0..<8]. push_bit (64 + 8 * i) (ucast (bs ! i)))"

definition new_wan_link_info :: "ndis_wan_type \<Rightarrow> ras_link \<Rightarrow> ndis_wan_link_info" where
  "new_wan_link_info kind l =
     \<lparr>link_speed = LinkSpeed l, link_mtu = ucast (MaximumTotalSize l),
      remote_hw_address = RemoteAddress l, local_hw_address = LocalAddress l,
      link_address =
        (case kind of
           ndis_wan_ip \<Rightarrow> Info_v4 (le32 (ProtocolBuffer l 584) (ProtocolBuffer l 585) (ProtocolBuffer l 586) (ProtocolBuffer l 587))
         | ndis_wan_ipv6 \<Rightarrow> Info_v6 (v6_low_half (map (ProtocolBuffer l) [588..<596]))
         | _ \<Rightarrow> Info_other 0)\<rparr>"

definition get_ras_links :: "(u64 \<Rightarrow> ras_link list option) \<Rightarrow> network_adapter \<Rightarrow> ndis_wan_link_info list option" where
  "get_ras_links ras_links a =
     (if adapter_wan_type a = ndis_wan_none then None
      else let result = (case ras_links (ndis_handle a) of
                           None \<Rightarrow> []
                         | Some links \<Rightarrow>
                             if adapter_wan_type a = ndis_wan_ip \<or> adapter_wan_type a = ndis_wan_ipv6
                             then map (new_wan_link_info (adapter_wan_type a)) links else [])
           in if result = [] then None else Some result)"

end
