(* ===== verification/Router_Lifecycle.thy ===== *)
theory Router_Lifecycle
  imports Network_Config Tcp_Server Udp_Server
begin

text \<open>
  The life of \<^verbatim>\<open>socks_local_router\<close> (proxy/socks_local_router.h): construction, adding proxies and the
  filters that let their traffic pass, the bypass of local networks, start and stop, and the choice
  of the network adapters when the configuration of the network changes.
\<close>

unbundle bit_operations_syntax

section \<open>State\<close>

type_synonym server_pair = "ip_address_v4 tcp_proxy_server option \<times> ip_address_v4 udp_server option"

text \<open>
  The state of packets and routes is the handler's state of the packet filter.  \<open>local_servers\<close> are
  the servers of \<^verbatim>\<open>proxy_servers_\<close>, of which the routes know port, endpoint and credentials.
\<close>

record 'd local_router =
  is_active :: bool
  router_filter :: "router packet_filter"
  filter_ready :: bool
  local_servers :: "server_pair list"
  static_filters :: "'d filter_table"
  adapters_to_filter :: "string set"
  resolver_should_exit :: bool
  resolver_running :: bool
  thread_pool_running :: bool
  notification :: change_notification

abbreviation routing_of :: "'d local_router \<Rightarrow> router" where
  "routing_of l \<equiv> handler_state (router_filter l)"

definition update_routing :: "(router \<Rightarrow> router) \<Rightarrow> 'd local_router \<Rightarrow> 'd local_router" where
  "update_routing f l = l\<lparr>router_filter := (router_filter l)\<lparr>handler_state := f (routing_of l)\<rparr>\<rparr>"

text \<open>The table of the driver is taken as it is and gets a filter that lets ICMP pass.\<close>

definition icmp_filter :: "ip_address_v4 filter" where
  "icmp_filter = default_filter\<lparr>action := action_pass, direction := direction_both, protocol := Some 1\<rparr>"

definition new_local_router ::
  "'d driver \<Rightarrow> 'd \<Rightarrow> ip_address_v4 process_lookup \<Rightarrow> network_adapter list \<Rightarrow> 'd local_router" where
  "new_local_router drv d lookup adapters =
     (let routing = \<lparr>config = empty_config, lookup_v4 = lookup, tcp_mapper = Map.empty, udp_mapper = {},
            observed_direct_udp_ports = {}, tcp_redirect = new_tcp_local_redirect 0, udp_redirect = new_udp_local_redirect 0,
            resolve_queue = [], dropped_packets = 0, alloc_failures = 0\<rparr>;
          (_, table) = add_filter_back drv (F_v4 icmp_filter) ([], d)
      in \<lparr>is_active = False, router_filter = new_packet_filter routing adapters, filter_ready = True,
          local_servers = [], static_filters = table, adapters_to_filter = {}, resolver_should_exit = False,
          resolver_running = False, thread_pool_running = False, notification = \<lparr>notify_handle = None, notify_ref = 0\<rparr>\<rparr>)"

section \<open>Bypass of local networks\<close>

definition local_ranges :: "(ip_address_v4 \<times> ip_address_v4) list" where
  "local_ranges =
     [(le32 10 0 0 0, le32 255 0 0 0), (le32 172 16 0 0, le32 255 240 0 0), (le32 192 168 0 0, le32 255 255 0 0),
      (le32 224 0 0 0, le32 240 0 0 0), (le32 169 254 0 0, le32 255 255 0 0)]"

definition lan_in_filter :: "ip_address_v4 \<times> ip_address_v4 \<Rightarrow> ip_address_v4 filter" where
  "lan_in_filter = (\<lambda>(address, mask). default_filter\<lparr>direction := direction_in, action := action_pass,
     source_address := Some \<lparr>subnet_address = address, subnet_mask = mask\<rparr>\<rparr>)"

definition lan_out_filter :: "ip_address_v4 \<times> ip_address_v4 \<Rightarrow> ip_address_v4 filter" where
  "lan_out_filter = (\<lambda>(address, mask). default_filter\<lparr>direction := direction_out, action := action_pass,
     dest_address := Some \<lparr>subnet_address = address, subnet_mask = mask\<rparr>\<rparr>)"

definition add_lan_range :: "'d driver \<Rightarrow> ip_address_v4 \<times> ip_address_v4 \<Rightarrow> 'd filter_table \<Rightarrow> 'd filter_table" where
  "add_lan_range drv rng table =
     snd (add_filter_front drv (F_v4 (lan_out_filter rng)) (snd (add_filter_front drv (F_v4 (lan_in_filter rng)) table)))"

definition set_bypass_lan :: "'d driver \<Rightarrow> 'd local_router \<Rightarrow> 'd local_router" where
  "set_bypass_lan drv l = l\<lparr>static_filters := fold (add_lan_range drv) local_ranges (static_filters l)\<rparr>"

section \<open>Adding a proxy\<close>

datatype supported_protocols = tcp_only | udp_only | both_protocols

definition proxy_filter :: "u8 \<Rightarrow> direction_t \<Rightarrow> ip_address_v4 ip_endpoint \<Rightarrow> ip_address_v4 filter" where
  "proxy_filter proto dir ep =
     default_filter\<lparr>protocol := Some proto, direction := dir, action := action_pass,
       dest_address := Some \<lparr>subnet_address = ep_ip ep, subnet_mask = 0xFFFFFFFF\<rparr>, dest_port := Some (ep_port ep, ep_port ep)\<rparr>"

definition proxy_filters :: "supported_protocols \<Rightarrow> ip_address_v4 ip_endpoint \<Rightarrow> ip_address_v4 filter list" where
  "proxy_filters protocols ep =
     (let tcp = [proxy_filter IPPROTO_TCP direction_out ep, proxy_filter IPPROTO_TCP direction_in ep];
          udp = [proxy_filter IPPROTO_UDP direction_out ep, proxy_filter IPPROTO_UDP direction_in ep]
      in if protocols = tcp_only then tcp else tcp @ udp)"

text \<open>
  The results of Winsock for the two servers: their construction, which throws when there is no
  socket, and their start.
\<close>

record server_results =
  tcp_listen :: listen_results
  tcp_start :: "nat option \<times> nat option"
  udp_listen :: "nat option \<times> bool \<times> u16 option"
  udp_start :: "nat option \<times> bool"

definition start_tcp :: "server_results \<Rightarrow> ip_address_v4 tcp_proxy_server \<Rightarrow> bool \<times> ip_address_v4 tcp_proxy_server" where
  "start_tcp w s = start_server (fst (tcp_start w)) (snd (tcp_start w)) s"

definition start_udp :: "server_results \<Rightarrow> ip_address_v4 udp_server \<Rightarrow> bool \<times> ip_address_v4 udp_server" where
  "start_udp w s = start_udp_server (fst (udp_start w)) (snd (udp_start w)) s"

text \<open>\<open>None\<close>: the constructor threw.\<close>

definition make_servers :: "supported_protocols \<Rightarrow> server_results \<Rightarrow> server_pair option" where
  "make_servers protocols w = do {
     tcp \<leftarrow> (if protocols = udp_only then Some None else map_option Some (new_tcp_proxy_server (tcp_listen w) 0));
     udp \<leftarrow> (if protocols = tcp_only then Some None
             else (case udp_listen w of (socket, bound, name) \<Rightarrow> map_option Some (new_udp_server socket bound name 0)));
     Some (tcp, udp)
   }"

text \<open>The optional start; \<open>None\<close> when one of them fails, which gives both up.\<close>

definition start_new :: "server_results \<Rightarrow> server_pair \<Rightarrow> server_pair option" where
  "start_new w = (\<lambda>(tcp, udp). do {
     tcp \<leftarrow> (case tcp of None \<Rightarrow> Some None | Some s \<Rightarrow> (case start_tcp w s of (True, s) \<Rightarrow> Some (Some s) | (False, _) \<Rightarrow> None));
     udp \<leftarrow> (case udp of None \<Rightarrow> Some None | Some s \<Rightarrow> (case start_udp w s of (True, s) \<Rightarrow> Some (Some s) | (False, _) \<Rightarrow> None));
     Some (tcp, udp)
   })"

definition known_proxy :: "u16 \<Rightarrow> ip_address_v4 ip_endpoint \<Rightarrow> (string \<times> string) option \<Rightarrow> local_proxy" where
  "known_proxy port ep cred = \<lparr>lp_port = port, lp_endpoint = ep, lp_credentials = cred\<rparr>"

definition known_pair :: "ip_address_v4 ip_endpoint \<Rightarrow> (string \<times> string) option \<Rightarrow> server_pair \<Rightarrow> proxy_pair" where
  "known_pair ep cred = (\<lambda>(tcp, udp). (map_option (\<lambda>s. known_proxy (server_port s) ep cred) tcp,
     map_option (\<lambda>s. known_proxy (udp_proxy_port s) ep cred) udp))"

text \<open>\<open>ep\<close> is the result of \<^verbatim>\<open>parse_endpoint\<close>.\<close>

definition add_socks5_proxy ::
  "'d driver \<Rightarrow> server_results \<Rightarrow> ip_address_v4 ip_endpoint option \<Rightarrow> supported_protocols \<Rightarrow> (string \<times> string) option \<Rightarrow> bool \<Rightarrow>
   'd local_router \<Rightarrow> nat option \<times> 'd local_router" where
  "add_socks5_proxy drv w ep protocols cred begin_now l =
     (case ep of
        None \<Rightarrow> (None, l)
      | Some ep \<Rightarrow>
          let l = l\<lparr>static_filters := fold (\<lambda>f table. snd (add_filter_back drv (F_v4 f) table)) (proxy_filters protocols ep) (static_filters l)\<rparr> in
          (case Option.bind (make_servers protocols w) (if begin_now then start_new w else Some) of
             None \<Rightarrow> (None, l)
           | Some pair \<Rightarrow>
               let (idx, cfg) = append_proxy (known_pair ep cred pair) (config (routing_of l))
               in (Some idx, update_routing (\<lambda>r. r\<lparr>config := cfg\<rparr>) (l\<lparr>local_servers := local_servers l @ [pair]\<rparr>))))"

section \<open>Choosing the adapters\<close>

text \<open>What a query finds: the answers of the system and the links of the WAN adapters.\<close>

record network_answers =
  helper :: ip_helper
  ras_links_of :: "u64 \<Rightarrow> ras_link list option"
  known_handle :: "u64 \<Rightarrow> bool"

definition is_adapter_of :: "network_answers \<Rightarrow> network_adapter_info \<Rightarrow> network_adapter \<Rightarrow> bool" where
  "is_adapter_of net info a \<longleftrightarrow>
     (if if_type info \<noteq> IF_TYPE_PPP then contains (internal_name a) (adapter_name info)
      else case get_ras_links (ras_links_of net) a of
        None \<Rightarrow> False
      | Some links \<Rightarrow> list_ex (\<lambda>k. has_address info (link_address k)) links)"

definition adapters_wanted :: "network_answers \<Rightarrow> network_adapter list \<Rightarrow> network_adapter_info list \<Rightarrow> string set" where
  "adapters_wanted net adapters infos =
     set (map internal_name (List.map_filter (\<lambda>info. find (is_adapter_of net info) adapters) infos))"

definition choose_adapter ::
  "(u64 \<Rightarrow> bool) \<Rightarrow> ('t, router) handlers \<Rightarrow> string set \<Rightarrow> network_adapter \<Rightarrow> router packet_filter \<Rightarrow> router packet_filter" where
  "choose_adapter known hs wanted a p =
     (if internal_name a \<in> wanted then filter_network_adapter known hs (internal_name a) p
      else unfilter_network_adapter known hs (internal_name a) p)"

text \<open>\<open>None\<close>: the query of the adapters never returns.\<close>

definition update_network_configuration ::
  "('t, router) handlers \<Rightarrow> network_answers \<Rightarrow> 'd local_router \<Rightarrow> 'd local_router option" where
  "update_network_configuration hs net l =
     (case get_external_network_connections (helper net) of
        None \<Rightarrow> None
      | Some infos \<Rightarrow>
          let adapters = network_interfaces (router_filter l); wanted = adapters_wanted net adapters infos in
          if adapters_to_filter l = wanted then Some l
          else Some (l\<lparr>router_filter := fold (choose_adapter (known_handle net) hs wanted) adapters (router_filter l),
                       adapters_to_filter := wanted\<rparr>))"

section \<open>Start and stop\<close>

definition start_pair :: "server_results \<Rightarrow> server_pair \<Rightarrow> server_pair" where
  "start_pair w = (\<lambda>(tcp, udp). (map_option (\<lambda>s. snd (start_tcp w s)) tcp, map_option (\<lambda>s. snd (start_udp w s)) udp))"

definition stop_pair :: "server_pair \<Rightarrow> server_pair" where
  "stop_pair = (\<lambda>(tcp, udp). (map_option stop_server tcp, map_option stop_udp_server udp))"

record start_answers =
  notify_answer :: "nat option"
  cancel_answer :: bool
  server_answers :: "nat \<Rightarrow> server_results"
  network :: network_answers
  new_blocks :: "packet_block list option"

definition start_router :: "('t, router) handlers \<Rightarrow> start_answers \<Rightarrow> 'd local_router \<Rightarrow> (bool \<times> 'd local_router) option" where
  "start_router hs env l =
     (if is_active l then Some (False, l)
      else let l = update_routing (\<lambda>r. r\<lparr>dropped_packets := 0, alloc_failures := 0\<rparr>) (l\<lparr>is_active := True, resolver_should_exit := False\<rparr>) in
        if \<not> filter_ready l then Some (False, l\<lparr>is_active := False\<rparr>)
        else let l = l\<lparr>notification := snd (set_notify_ip_interface_change (notify_answer env) (notification l)),
                       thread_pool_running := True,
                       local_servers := map (\<lambda>i. start_pair (server_answers env i) (local_servers l ! i)) [0..<length (local_servers l)],
                       resolver_running := True\<rparr>
          in do {
            l \<leftarrow> update_network_configuration hs (network env) l;
            let (started, p) = start_filter (known_handle (network env)) hs (new_blocks env) (router_filter l);
            let l = l\<lparr>router_filter := p\<rparr>;
            if started then Some (True, l)
            else Some (False, l\<lparr>notification := snd (cancel_notify_ip_interface_change (cancel_answer env) (notification l)),
                                local_servers := map stop_pair (local_servers l), thread_pool_running := False,
                                is_active := False, resolver_should_exit := True, resolver_running := False\<rparr>)
          })"

text \<open>
  \<open>p\<close> is the packet filter when its \<^verbatim>\<open>stop_filter\<close> has returned, with the state of the packets
  left by the threads that ended.  The wait for running callbacks ends after five seconds whether
  or not they have.
\<close>

definition stop_router :: "bool \<Rightarrow> router packet_filter \<Rightarrow> 'd local_router \<Rightarrow> bool \<times> 'd local_router" where
  "stop_router cancelled p l =
     (if \<not> is_active l then (False, l)
      else (True, update_routing (\<lambda>r. r\<lparr>tcp_redirect := stop_redirect (tcp_redirect r), udp_redirect := stop_udp_redirect (udp_redirect r)\<rparr>)
        (l\<lparr>is_active := False, router_filter := p, resolver_should_exit := True, resolver_running := False,
           local_servers := map stop_pair (local_servers l), thread_pool_running := False,
           notification := snd (cancel_notify_ip_interface_change cancelled (notification l))\<rparr>)))"

end
