(* ===== verification/Lifecycle_Properties.thy ===== *)
theory Lifecycle_Properties
  imports Router_Lifecycle Filter_Runs
begin

text \<open>
  Properties of the life of the router (proxy/socks_local_router.h): its parts start and stop
  together and the ports it redirects to are those of its servers, what a restart leaves out, what
  the bypass of local networks lets pass, and how a change of the network chooses adapters.
\<close>

unbundle bit_operations_syntax

section \<open>Reachable routers\<close>

definition server_ports :: "server_pair \<Rightarrow> u16 option \<times> u16 option" where
  "server_ports = (\<lambda>(tcp, udp). (map_option server_port tcp, map_option udp_proxy_port udp))"

definition known_ports :: "proxy_pair \<Rightarrow> u16 option \<times> u16 option" where
  "known_ports = (\<lambda>(tcp, udp). (map_option lp_port tcp, map_option lp_port udp))"

text \<open>
  Besides the operations of the class: the filter's threads and the resolver work on the packets,
  and the servers on their connections, without touching what is asked of them here.
\<close>

inductive lifecycle_reachable :: "'d driver \<Rightarrow> ('t, router) handlers \<Rightarrow> 'd local_router \<Rightarrow> bool" for drv hs where
  built: "lifecycle_reachable drv hs (new_local_router drv d lookup adapters)"
| proxy_added: "lifecycle_reachable drv hs l \<Longrightarrow> add_socks5_proxy drv w ep protocols cred begin_now l = (idx, l') \<Longrightarrow>
    lifecycle_reachable drv hs l'"
| lan_bypassed: "lifecycle_reachable drv hs l \<Longrightarrow> lifecycle_reachable drv hs (set_bypass_lan drv l)"
| router_started: "lifecycle_reachable drv hs l \<Longrightarrow> start_router hs env l = Some (ok, l') \<Longrightarrow> lifecycle_reachable drv hs l'"
| router_stopped: "lifecycle_reachable drv hs l \<Longrightarrow> filter_state p = state_stopped \<Longrightarrow>
    config (handler_state p) = config (routing_of l) \<Longrightarrow> stop_router cancelled p l = (ok, l') \<Longrightarrow> lifecycle_reachable drv hs l'"
| network_changed: "lifecycle_reachable drv hs l \<Longrightarrow> update_network_configuration hs net l = Some l' \<Longrightarrow> lifecycle_reachable drv hs l'"
| packets_handled: "lifecycle_reachable drv hs l \<Longrightarrow> filter_state p = filter_state (router_filter l) \<Longrightarrow>
    config (handler_state p) = config (routing_of l) \<Longrightarrow> lifecycle_reachable drv hs (l\<lparr>router_filter := p\<rparr>)"
| routes_changed: "lifecycle_reachable drv hs l \<Longrightarrow> proxy_servers cfg = proxy_servers (config (routing_of l)) \<Longrightarrow>
    lifecycle_reachable drv hs (update_routing (\<lambda>r. r\<lparr>config := cfg\<rparr>) l)"
| servers_used: "lifecycle_reachable drv hs l \<Longrightarrow> map server_ports pairs = map server_ports (local_servers l) \<Longrightarrow>
    lifecycle_reachable drv hs (l\<lparr>local_servers := pairs\<rparr>)"

definition lifecycle_ok :: "'d local_router \<Rightarrow> bool" where
  "lifecycle_ok l \<longleftrightarrow>
     filter_state (router_filter l) = (if is_active l then state_running else state_stopped) \<and>
     resolver_running l = is_active l \<and> thread_pool_running l = is_active l \<and>
     map server_ports (local_servers l) = map known_ports (proxy_servers (config (routing_of l)))"

section \<open>What the operations keep\<close>

lemma update_routing_simps [simp]:
  "is_active (update_routing f l) = is_active l" "filter_ready (update_routing f l) = filter_ready l"
  "local_servers (update_routing f l) = local_servers l" "static_filters (update_routing f l) = static_filters l"
  "adapters_to_filter (update_routing f l) = adapters_to_filter l" "resolver_running (update_routing f l) = resolver_running l"
  "thread_pool_running (update_routing f l) = thread_pool_running l" "notification (update_routing f l) = notification l"
  "routing_of (update_routing f l) = f (routing_of l)" "filter_state (router_filter (update_routing f l)) = filter_state (router_filter l)"
  "network_interfaces (router_filter (update_routing f l)) = network_interfaces (router_filter l)"
  by (simp_all add: update_routing_def)

lemma server_ports_start [simp]: "server_ports (start_pair w pair) = server_ports pair"
proof -
  have "server_port (snd (start_tcp w s)) = server_port s" "udp_proxy_port (snd (start_udp w u)) = udp_proxy_port u" for s u
    by (auto simp: start_tcp_def start_server_def start_udp_def start_udp_server_def close_handle_def Let_def split: option.split)
  then show ?thesis
    by (cases pair) (simp add: start_pair_def server_ports_def option.map_comp comp_def)
qed

lemma server_ports_stop [simp]: "server_ports (stop_pair pair) = server_ports pair"
proof -
  have "server_port (stop_server s) = server_port s" "udp_proxy_port (stop_udp_server u) = udp_proxy_port u" for s :: "ip_address_v4 tcp_proxy_server" and u :: "ip_address_v4 udp_server"
    by (auto simp: stop_server_def stop_udp_server_def close_handle_def Let_def split: option.split)
  then show ?thesis
    by (cases pair) (simp add: stop_pair_def server_ports_def option.map_comp comp_def)
qed

lemma start_new_ports: "start_new w pair = Some pair' \<Longrightarrow> server_ports pair' = server_ports pair"
proof -
  have t: "start_tcp w s = (ok, s') \<Longrightarrow> server_port s' = server_port s" for s ok s'
    by (auto simp: start_tcp_def start_server_def Let_def split: if_splits option.splits)
  have u: "start_udp w s = (ok, s') \<Longrightarrow> udp_proxy_port s' = udp_proxy_port s" for s ok s'
    by (auto simp: start_udp_def start_udp_server_def close_handle_def Let_def split: if_splits option.splits)
  show "start_new w pair = Some pair' \<Longrightarrow> server_ports pair' = server_ports pair"
    by (cases pair) (auto simp: start_new_def server_ports_def bind_eq_Some_conv split: option.splits prod.splits bool.splits dest: t u)
qed

lemma known_ports_pair [simp]: "known_ports (known_pair ep cred pair) = server_ports pair"
  by (cases pair) (simp add: known_pair_def known_ports_def server_ports_def known_proxy_def option.map_comp comp_def)

text \<open>The choice of the adapters leaves the packets alone.\<close>

lemma choose_adapter_flow: "same_flow p (choose_adapter known hs wanted a p)"
  by (simp add: choose_adapter_def same_flow_adapters)

lemma update_network_cases:
  assumes "update_network_configuration hs net l = Some l'"
  obtains p wanted where "same_flow (router_filter l) p" "l' = l\<lparr>router_filter := p, adapters_to_filter := wanted\<rparr>"
proof -
  have f: "same_flow p (fold (choose_adapter (known_handle net) hs wanted) as p)" for wanted as p
    by (rule same_flow_fold) (rule choose_adapter_flow)
  obtain infos where infos: "get_external_network_connections (helper net) = Some infos"
    using assms by (simp add: update_network_configuration_def split: option.splits)
  show ?thesis
  proof (cases "adapters_to_filter l = adapters_wanted net (network_interfaces (router_filter l)) infos")
    case True
    then have "l' = l\<lparr>router_filter := router_filter l, adapters_to_filter := adapters_to_filter l\<rparr>"
      using assms infos by (simp add: update_network_configuration_def)
    moreover have "same_flow (router_filter l) (router_filter l)" by (simp add: same_flow_def)
    ultimately show ?thesis by (rule that [rotated])
  next
    case False
    then have "l' = l\<lparr>router_filter := fold (choose_adapter (known_handle net) hs
        (adapters_wanted net (network_interfaces (router_filter l)) infos)) (network_interfaces (router_filter l)) (router_filter l),
      adapters_to_filter := adapters_wanted net (network_interfaces (router_filter l)) infos\<rparr>"
      using assms infos by (simp add: update_network_configuration_def Let_def)
    then show ?thesis using f by (rule that [rotated])
  qed
qed

lemma update_network_keeps:
  assumes "update_network_configuration hs net l = Some l'"
  shows "filter_state (router_filter l') = filter_state (router_filter l)" "routing_of l' = routing_of l"
    "is_active l' = is_active l" "local_servers l' = local_servers l" "resolver_running l' = resolver_running l"
    "thread_pool_running l' = thread_pool_running l" "notification l' = notification l" "static_filters l' = static_filters l"
  by (rule update_network_cases [OF assms], simp add: same_flow_def)+

lemma start_filter_result:
  assumes "start_filter known hs blocks p = (ok, p')" "filter_state p = state_stopped"
  shows "filter_state p' = (if ok then state_running else state_stopped)" "handler_state p' = handler_state p"
    "ok \<longleftrightarrow> blocks \<noteq> None"
proof -
  have u: "filter_state (update_adapters_filter_state known hs q) = filter_state q"
    "handler_state (update_adapters_filter_state known hs q) = handler_state q" for q
    using same_flow_update [of q known hs] by (simp_all add: same_flow_def)
  show "filter_state p' = (if ok then state_running else state_stopped)" "handler_state p' = handler_state p" "ok \<longleftrightarrow> blocks \<noteq> None"
    using assms by (cases blocks; auto simp: start_filter_def init_filter_def Let_def u split: if_splits)+
qed

text \<open>
  The first half of a start, up to the choice of the adapters, and its two ends.
\<close>

definition servers_begun :: "start_answers \<Rightarrow> server_pair list \<Rightarrow> server_pair list" where
  "servers_begun env pairs = map (\<lambda>i. start_pair (server_answers env i) (pairs ! i)) [0..<length pairs]"

lemma servers_begun_ports [simp]: "map server_ports (servers_begun env pairs) = map server_ports pairs"
  by (rule nth_equalityI) (simp_all add: servers_begun_def)

lemma start_router_cases:
  assumes "start_router hs env l = Some (ok, l')" "\<not> is_active l" "filter_ready l"
  obtains lu p where
    "is_active lu" "filter_state (router_filter lu) = filter_state (router_filter l)" "resolver_running lu" "thread_pool_running lu"
    "routing_of lu = (routing_of l)\<lparr>dropped_packets := 0, alloc_failures := 0\<rparr>" "local_servers lu = servers_begun env (local_servers l)"
    "start_filter (known_handle (network env)) hs (new_blocks env) (router_filter lu) = (ok, p)"
    "ok \<Longrightarrow> l' = lu\<lparr>router_filter := p\<rparr>"
    "\<not> ok \<Longrightarrow> l' = lu\<lparr>router_filter := p, notification := snd (cancel_notify_ip_interface_change (cancel_answer env) (notification lu)),
        local_servers := map stop_pair (local_servers lu), thread_pool_running := False,
        is_active := False, resolver_should_exit := True, resolver_running := False\<rparr>"
proof -
  define lb where "lb = (update_routing (\<lambda>r. r\<lparr>dropped_packets := 0, alloc_failures := 0\<rparr>) (l\<lparr>is_active := True, resolver_should_exit := False\<rparr>))
      \<lparr>notification := snd (set_notify_ip_interface_change (notify_answer env) (notification l)), thread_pool_running := True,
       local_servers := servers_begun env (local_servers l), resolver_running := True\<rparr>"
  obtain lu where lu: "update_network_configuration hs (network env) lb = Some lu"
    using assms by (auto simp: start_router_def lb_def servers_begun_def update_routing_def Let_def bind_eq_Some_conv)
  obtain started p where p: "start_filter (known_handle (network env)) hs (new_blocks env) (router_filter lu) = (started, p)"
    by fastforce
  have "start_router hs env l = Some (if started then (True, lu\<lparr>router_filter := p\<rparr>)
      else (False, lu\<lparr>router_filter := p, notification := snd (cancel_notify_ip_interface_change (cancel_answer env) (notification lu)),
        local_servers := map stop_pair (local_servers lu), thread_pool_running := False,
        is_active := False, resolver_should_exit := True, resolver_running := False\<rparr>))"
    using assms(2,3) lu p by (simp add: start_router_def lb_def servers_begun_def update_routing_def)
  then have r: "(ok, l') = (if started then (True, lu\<lparr>router_filter := p\<rparr>)
      else (False, lu\<lparr>router_filter := p, notification := snd (cancel_notify_ip_interface_change (cancel_answer env) (notification lu)),
        local_servers := map stop_pair (local_servers lu), thread_pool_running := False,
        is_active := False, resolver_should_exit := True, resolver_running := False\<rparr>))"
    using assms(1) by simp
  then have "started = ok" by (auto split: if_splits)
  show ?thesis
  proof (rule that)
    show "start_filter (known_handle (network env)) hs (new_blocks env) (router_filter lu) = (ok, p)"
      using p \<open>started = ok\<close> by simp
    show "ok \<Longrightarrow> l' = lu\<lparr>router_filter := p\<rparr>"
      using r \<open>started = ok\<close> by simp
    show "\<not> ok \<Longrightarrow> l' = lu\<lparr>router_filter := p, notification := snd (cancel_notify_ip_interface_change (cancel_answer env) (notification lu)),
        local_servers := map stop_pair (local_servers lu), thread_pool_running := False,
        is_active := False, resolver_should_exit := True, resolver_running := False\<rparr>"
      using r \<open>started = ok\<close> by simp
  qed (simp_all add: update_network_keeps [OF lu], simp_all add: lb_def)
qed

section \<open>The parts run together\<close>

lemma lifecycle_okI:
  "filter_state (router_filter l) = (if is_active l then state_running else state_stopped) \<Longrightarrow>
   resolver_running l = is_active l \<Longrightarrow> thread_pool_running l = is_active l \<Longrightarrow>
   map server_ports (local_servers l) = map known_ports (proxy_servers (config (routing_of l))) \<Longrightarrow> lifecycle_ok l"
  by (simp add: lifecycle_ok_def)

lemma lifecycle_ok_start:
  assumes "start_router hs env l = Some (ok, l')" "lifecycle_ok l"
  shows "lifecycle_ok l'"
proof (cases "is_active l \<or> \<not> filter_ready l")
  case True
  then show ?thesis
    using assms by (auto simp: start_router_def lifecycle_ok_def update_routing_def)
next
  case False
  then obtain lu p where s: "is_active lu" "filter_state (router_filter lu) = filter_state (router_filter l)" "resolver_running lu"
    "thread_pool_running lu" "routing_of lu = (routing_of l)\<lparr>dropped_packets := 0, alloc_failures := 0\<rparr>"
    "local_servers lu = servers_begun env (local_servers l)"
    "start_filter (known_handle (network env)) hs (new_blocks env) (router_filter lu) = (ok, p)"
    "ok \<Longrightarrow> l' = lu\<lparr>router_filter := p\<rparr>"
    "\<not> ok \<Longrightarrow> l' = lu\<lparr>router_filter := p, notification := snd (cancel_notify_ip_interface_change (cancel_answer env) (notification lu)),
        local_servers := map stop_pair (local_servers lu), thread_pool_running := False,
        is_active := False, resolver_should_exit := True, resolver_running := False\<rparr>"
    using start_router_cases [OF assms(1)] by blast
  moreover have "filter_state (router_filter lu) = state_stopped"
    using s(2) assms(2) False by (simp add: lifecycle_ok_def)
  ultimately show ?thesis
    using start_filter_result(1,2) [OF s(7)] assms(2)
    by (cases ok) (simp_all add: lifecycle_ok_def comp_def)
qed

lemma lifecycle_ok_add:
  assumes "add_socks5_proxy drv w ep protocols cred begin_now l = (idx, l')" "lifecycle_ok l"
  shows "lifecycle_ok l'"
  using assms
  by (auto simp: add_socks5_proxy_def lifecycle_ok_def append_proxy_def Let_def split: option.splits)

lemma lifecycle_ok_stop:
  assumes "stop_router cancelled p l = (ok, l')" "lifecycle_ok l" "filter_state p = state_stopped"
    "config (handler_state p) = config (routing_of l)"
  shows "lifecycle_ok l'"
  using assms by (auto simp: stop_router_def lifecycle_ok_def comp_def split: if_splits)

lemma lifecycle_reachable_ok: "lifecycle_reachable drv hs l \<Longrightarrow> lifecycle_ok l"
proof (induction rule: lifecycle_reachable.induct)
  case (built d lookup adapters)
  then show ?case
    by (simp add: new_local_router_def lifecycle_ok_def new_packet_filter_def empty_config_def Let_def split: prod.split)
next
  case (network_changed l net l')
  then show ?case
    by (simp add: lifecycle_ok_def update_network_keeps)
next
  case (packets_handled l p)
  then show ?case by (simp add: lifecycle_ok_def)
next
  case (routes_changed l cfg)
  then show ?case by (simp add: lifecycle_ok_def)
next
  case (servers_used l pairs)
  then show ?case by (simp add: lifecycle_ok_def)
next
  case (lan_bypassed l)
  then show ?case by (simp add: lifecycle_ok_def set_bypass_lan_def)
qed (erule lifecycle_ok_add lifecycle_ok_start lifecycle_ok_stop; assumption)+

text \<open>
  C12: in every state the router can get to, whatever was started, stopped, added or failed before: the
  packet filter, the resolver thread and the thread pool run exactly while the router is active, and
  the ports the routes name are, one for one, the ports of the local servers.
\<close>

theorem lifecycle_consistent:
  assumes "lifecycle_reachable drv hs l"
  shows "filter_state (router_filter l) = (if is_active l then state_running else state_stopped) \<and>
    resolver_running l = is_active l \<and> thread_pool_running l = is_active l \<and>
    map server_ports (local_servers l) = map known_ports (proxy_servers (config (routing_of l)))"
  using lifecycle_reachable_ok [OF assms] by (simp add: lifecycle_ok_def)

section \<open>Restart\<close>

definition pair_started :: "server_pair \<Rightarrow> bool" where
  "pair_started = (\<lambda>(tcp, udp). (case tcp of None \<Rightarrow> True | Some s \<Rightarrow> \<not> end_server s) \<and> (case udp of None \<Rightarrow> True | Some u \<Rightarrow> \<not> udp_ended u))"

definition pair_deaf :: "server_pair \<Rightarrow> bool" where
  "pair_deaf = (\<lambda>(tcp, udp). (case tcp of None \<Rightarrow> True | Some s \<Rightarrow> \<not> listening s) \<and> (case udp of None \<Rightarrow> True | Some u \<Rightarrow> server_socket u = None))"

lemma restarted_pair_deaf:
  assumes "pair_started pair"
  shows "pair_deaf (start_pair w (stop_pair pair))"
proof -
  have "\<not> listening (snd (start_tcp w (stop_server s)))" if "\<not> end_server s" for s :: "ip_address_v4 tcp_proxy_server"
    using that by (simp add: start_tcp_def start_server_def stop_server_def Let_def split: option.split)
  moreover have "server_socket (snd (start_udp w (stop_udp_server u))) = None" if "\<not> udp_ended u" for u :: "ip_address_v4 udp_server"
    using that by (simp add: start_udp_def start_udp_server_def stop_udp_server_def close_handle_def Let_def split: option.split)
  ultimately show ?thesis
    using assms by (auto simp: pair_deaf_def pair_started_def start_pair_def stop_pair_def split: prod.splits option.splits)
qed

lemma stop_router_cases:
  assumes "stop_router cancelled p l = (ok, l')" "is_active l"
  shows "\<not> is_active l'" "filter_ready l' = filter_ready l" "local_servers l' = map stop_pair (local_servers l)"
    "config (routing_of l') = config (handler_state p)" "terminated (tcp_redirect (routing_of l'))" "udp_terminated (udp_redirect (routing_of l'))"
    "filter_state (router_filter l') = filter_state p"
  using assms by (auto simp: stop_router_def stop_redirect_def stop_udp_redirect_def)

text \<open>
  C40: a router that is stopped and started again reports success, redirects to the same ports and
  filters packets, but the servers at these ports have no sockets: \<^verbatim>\<open>stop\<close> closes them and \<^verbatim>\<open>start\<close>
  does not make new ones.  The threads that forget old redirections do not run again either.
\<close>

theorem restarted_router_serves_nobody:
  assumes "is_active l" "filter_ready l" "list_all pair_started (local_servers l)"
    and "filter_state p = state_stopped" "stop_router cancelled p l = (stopped, l1)" "start_router hs env l1 = Some (True, l2)"
  shows "stopped \<and> is_active l2 \<and> filter_state (router_filter l2) = state_running \<and>
    proxy_servers (config (routing_of l2)) = proxy_servers (config (handler_state p)) \<and>
    map server_ports (local_servers l2) = map server_ports (local_servers l) \<and> list_all pair_deaf (local_servers l2) \<and>
    terminated (tcp_redirect (routing_of l2)) \<and> udp_terminated (udp_redirect (routing_of l2))"
proof -
  note stopped = stop_router_cases [OF assms(5) assms(1)]
  obtain lu q where s: "is_active lu" "filter_state (router_filter lu) = filter_state (router_filter l1)" "resolver_running lu"
    "thread_pool_running lu" "routing_of lu = (routing_of l1)\<lparr>dropped_packets := 0, alloc_failures := 0\<rparr>"
    "local_servers lu = servers_begun env (local_servers l1)"
    "start_filter (known_handle (network env)) hs (new_blocks env) (router_filter lu) = (True, q)" "l2 = lu\<lparr>router_filter := q\<rparr>"
    by (rule start_router_cases [OF assms(6) stopped(1)]) (use stopped(2) assms(2) in auto)
  note started = start_filter_result(1,2) [OF s(7)]
  have "list_all pair_deaf (local_servers l2)"
    using assms(3) restarted_pair_deaf by (auto simp: s(6,8) stopped(3) servers_begun_def list_all_length)
  moreover have "map server_ports (local_servers l2) = map server_ports (local_servers l)"
    by (simp add: s(6,8) stopped(3) comp_def)
  moreover have "stopped"
    using assms(1,5) by (simp add: stop_router_def)
  ultimately show ?thesis
    using s stopped started assms(4) by simp
qed

section \<open>Bypass of local networks\<close>

definition is_local :: "u8 \<Rightarrow> u8 \<Rightarrow> bool" where
  "is_local a b \<longleftrightarrow> a = 10 \<or> a = 172 \<and> 16 \<le> b \<and> b \<le> 31 \<or> a = 192 \<and> b = 168 \<or> 224 \<le> a \<and> a \<le> 239 \<or> a = 169 \<and> b = 254"

definition lan_filters :: "ip_address_v4 filter list" where
  "lan_filters = concat (map (\<lambda>rng. [lan_out_filter rng, lan_in_filter rng]) (rev local_ranges))"

text \<open>The filters that decide on a direction and an address at the other side.\<close>

definition passes_remote :: "direction_t \<Rightarrow> ip_address_v4 \<Rightarrow> ip_address_v4 filter \<Rightarrow> bool" where
  "passes_remote dir remote f \<longleftrightarrow> action f = action_pass \<and> direction f = dir \<and> protocol f = None \<and> source_port f = None \<and> dest_port f = None \<and>
     (case if dir = direction_out then dest_address f else source_address f of None \<Rightarrow> False | Some s \<Rightarrow> address_in_subnet_v4 s remote) \<and>
     (if dir = direction_out then source_address f else dest_address f) = None"

lemma le32_and: "le32 a b c d AND le32 a' b' c' d' = le32 (a AND a') (b AND b') (c AND c') (d AND d')"
proof -
  let ?x = "le32 a b c d" and ?y = "le32 a' b' c' d'"
  have "ucast (?x AND ?y) = (ucast ?x AND ucast ?y :: u8)" "ucast (drop_bit n (?x AND ?y)) = (ucast (drop_bit n ?x) AND ucast (drop_bit n ?y) :: u8)" for n
    by (rule bit_word_eqI; simp add: bit_simps; blast)+
  then show ?thesis
    using le32_eta [of "?x AND ?y"] by (simp add: le32_bytes)
qed

lemma high_nibble: "unat (x AND 240) = 16 * (unat x div 16)" for x :: u8
proof -
  have "x AND 240 = push_bit 4 (drop_bit 4 x)"
  proof (rule bit_word_eqI)
    fix n
    assume "n < LENGTH(8)"
    then have "n \<in> {0, 1, 2, 3, 4, 5, 6, 7}" by auto
    then show "bit (x AND 240) n = bit (push_bit 4 (drop_bit 4 x)) n"
      by (elim insertE emptyE) (simp_all add: bit_simps)
  qed
  moreover have "unat (drop_bit 4 x) = unat x div 16"
    using unat_drop_bit_eq [of 4 x] drop_bit_eq_div [of 4 "unat x"] by simp
  moreover have "16 * (unat x div 16) < 256"
  proof -
    have "unat x < 256"
      using unsigned_less [where 'a = nat and w = x] by simp
    then show ?thesis by presburger
  qed
  ultimately show ?thesis
    by (simp add: push_bit_eq_mult unat_word_ariths mult.commute)
qed

lemma in_ranges:
  "(\<exists>rng \<in> set local_ranges. address_in_subnet_v4 \<lparr>subnet_address = fst rng, subnet_mask = snd rng\<rparr> (le32 a b c d)) \<longleftrightarrow> is_local a b"
proof -
  have n: "x AND 240 = y AND 240 \<longleftrightarrow> unat x div 16 = unat y div 16" for x y :: u8
    by (simp add: word_unat_eq_iff high_nibble)
  have "b AND 240 = 16 \<longleftrightarrow> 16 \<le> b \<and> b \<le> 31" "a AND 240 = 224 \<longleftrightarrow> 224 \<le> a \<and> a \<le> 239"
    using n [of b 16] n [of a 224] by (simp_all add: word_le_nat_alt) linarith+
  moreover have "x AND 255 = x" for x :: u8
  proof -
    have "(255 :: u8) = - 1" by simp
    then show ?thesis by (simp only: and.right_neutral)
  qed
  ultimately show ?thesis
    by (auto simp: local_ranges_def address_in_subnet_v4_def le32_and is_local_def)
qed

lemma passes_lan_filters:
  "(\<exists>f \<in> set lan_filters. passes_remote dir (le32 a b c d) f) \<longleftrightarrow> dir \<noteq> direction_both \<and> is_local a b"
proof -
  have o: "passes_remote dir remote (lan_out_filter rng) \<longleftrightarrow>
      dir = direction_out \<and> address_in_subnet_v4 \<lparr>subnet_address = fst rng, subnet_mask = snd rng\<rparr> remote" for dir remote rng
    by (cases rng) (auto simp: passes_remote_def lan_out_filter_def default_filter_def)
  have i: "passes_remote dir remote (lan_in_filter rng) \<longleftrightarrow>
      dir = direction_in \<and> address_in_subnet_v4 \<lparr>subnet_address = fst rng, subnet_mask = snd rng\<rparr> remote" for dir remote rng
    by (cases rng) (auto simp: passes_remote_def lan_in_filter_def default_filter_def)
  have "(\<exists>f \<in> set lan_filters. passes_remote dir (le32 a b c d) f) \<longleftrightarrow> dir \<noteq> direction_both \<and>
      (\<exists>rng \<in> set local_ranges. address_in_subnet_v4 \<lparr>subnet_address = fst rng, subnet_mask = snd rng\<rparr> (le32 a b c d))"
    by (cases dir) (auto simp: lan_filters_def o i)
  then show ?thesis
    by (simp add: in_ranges)
qed

lemma add_lan_ranges:
  assumes "driver_contract drv table" "\<And>sf d. fst (AddStaticFilterFront drv sf d)"
  shows "fst (fold (add_lan_range drv) rs (fs, d)) = map F_v4 (concat (map (\<lambda>rng. [lan_out_filter rng, lan_in_filter rng]) (rev rs))) @ fs \<and>
    table (snd (fold (add_lan_range drv) rs (fs, d))) =
      map (to_static_filter \<circ> F_v4) (concat (map (\<lambda>rng. [lan_out_filter rng, lan_in_filter rng]) (rev rs))) @ table d"
proof (induction rs arbitrary: fs d)
  case (Cons rng rs)
  have f: "add_filter_front drv f (fs, d) = (True, f # fs, snd (AddStaticFilterFront drv (to_static_filter f) d))"
    "table (snd (AddStaticFilterFront drv (to_static_filter f) d)) = to_static_filter f # table d" for f fs d
    using assms(2) [of "to_static_filter f" d] driver_contractD(1) [OF assms(1), of "to_static_filter f" d]
    by (cases "AddStaticFilterFront drv (to_static_filter f) d"; simp add: add_filter_front_def)+
  obtain d' where d': "add_lan_range drv rng (fs, d) = (F_v4 (lan_out_filter rng) # F_v4 (lan_in_filter rng) # fs, d')"
    "table d' = map (to_static_filter \<circ> F_v4) [lan_out_filter rng, lan_in_filter rng] @ table d"
    using f(2) [of "F_v4 (lan_out_filter rng)"] f(2) [of "F_v4 (lan_in_filter rng)"]
    by (simp add: add_lan_range_def f(1))
  then show ?case
    by (simp add: Cons.IH)
qed simp

text \<open>
  C22: with a driver that takes filters, the bypass puts ten of them in front of all others, in the
  list and in the driver, which let pass, in each direction, exactly what is exchanged with
  10.0.0.0/8, 172.16.0.0/12, 192.168.0.0/16, 169.254.0.0/16 and all of 224.0.0.0/4.
\<close>

theorem lan_bypass_exact:
  assumes "driver_contract drv table" "\<And>sf d. fst (AddStaticFilterFront drv sf d)"
  shows "\<exists>front. length front = 10 \<and>
    fst (static_filters (set_bypass_lan drv l)) = map F_v4 front @ fst (static_filters l) \<and>
    table (snd (static_filters (set_bypass_lan drv l))) = map (to_static_filter \<circ> F_v4) front @ table (snd (static_filters l)) \<and>
    (\<forall>dir a b c d. (\<exists>f \<in> set front. passes_remote dir (le32 a b c d) f) \<longleftrightarrow> dir \<noteq> direction_both \<and> is_local a b)"
  using add_lan_ranges [OF assms, of local_ranges "fst (static_filters l)" "snd (static_filters l)"] passes_lan_filters
  by (intro exI [of _ lan_filters]) (simp add: set_bypass_lan_def lan_filters_def, simp add: local_ranges_def)

section \<open>The adapters follow the network\<close>

definition tunnelled :: "('t, router) handlers \<Rightarrow> router packet_filter \<Rightarrow> network_adapter \<Rightarrow> bool \<Rightarrow> bool" where
  "tunnelled hs p a wanted \<longleftrightarrow>
     adapter_modes p (ndis_handle a) = (if wanted then tunnel_flags hs else 0) \<and> adapter_events p (ndis_handle a) = wanted"

lemma update_adapters_modes:
  assumes "distinct (map ndis_handle as)" "\<And>a. a \<in> set as \<Longrightarrow> known (ndis_handle a)" "a \<in> set as"
  shows "tunnelled hs (fold (update_adapter known hs) as p) a (filter_state p = state_running \<and> internal_name a \<in> filter_adapters_list p)"
  using assms
proof (induction as arbitrary: p)
  case (Cons b as)
  have keep: "filter_state (update_adapter known hs b p) = filter_state p" "filter_adapters_list (update_adapter known hs b p) = filter_adapters_list p"
    by (simp_all add: update_adapter_def set_adapter_def)
  have other: "tunnelled hs (fold (update_adapter known hs) as q) b w \<longleftrightarrow> tunnelled hs q b w"
    if "ndis_handle b \<notin> ndis_handle ` set as" for q w
    using that by (induction as arbitrary: q) (auto simp: tunnelled_def update_adapter_def set_adapter_def)
  show ?case
  proof (cases "a = b")
    case True
    then show ?thesis
      using Cons.prems(1,2) by (simp add: other) (simp add: tunnelled_def update_adapter_def set_adapter_def)
  next
    case False
    then show ?thesis
      using Cons.prems Cons.IH [of "update_adapter known hs b p"] by (simp add: keep)
  qed
qed simp

lemma update_adapters_keeps [simp]:
  "network_interfaces (update_adapters_filter_state known hs p) = network_interfaces p"
  "filter_adapters_list (update_adapters_filter_state known hs p) = filter_adapters_list p"
  "filter_state (update_adapters_filter_state known hs p) = filter_state p"
proof -
  have "network_interfaces (fold (update_adapter known hs) as p) = network_interfaces p \<and>
    filter_adapters_list (fold (update_adapter known hs) as p) = filter_adapters_list p \<and>
    filter_state (fold (update_adapter known hs) as p) = filter_state p" for as
    by (induction as arbitrary: p) (simp_all add: update_adapter_def set_adapter_def)
  then show "network_interfaces (update_adapters_filter_state known hs p) = network_interfaces p"
    "filter_adapters_list (update_adapters_filter_state known hs p) = filter_adapters_list p"
    "filter_state (update_adapters_filter_state known hs p) = filter_state p"
    by (simp_all add: update_adapters_filter_state_def)
qed

lemma choose_adapter_keeps:
  "network_interfaces (choose_adapter known hs wanted a p) = network_interfaces p"
  "filter_state (choose_adapter known hs wanted a p) = filter_state p"
  "filter_adapters_list (choose_adapter known hs wanted a p) =
    (if internal_name a \<in> wanted then insert (internal_name a) (filter_adapters_list p) else filter_adapters_list p - {internal_name a})"
  by (simp_all add: choose_adapter_def filter_network_adapter_def unfilter_network_adapter_def)

lemma choose_adapters_list:
  "network_interfaces (fold (choose_adapter known hs wanted) as p) = network_interfaces p"
  "filter_state (fold (choose_adapter known hs wanted) as p) = filter_state p"
  "n \<in> filter_adapters_list (fold (choose_adapter known hs wanted) as p) \<longleftrightarrow>
    (if n \<in> internal_name ` set as then n \<in> wanted else n \<in> filter_adapters_list p)"
  by (induction as arbitrary: p) (auto simp: choose_adapter_keeps)

text \<open>Each choice tells the driver about all adapters, the last one with the final list.\<close>

lemma choose_adapters_modes:
  assumes "distinct (map ndis_handle (network_interfaces p))" "\<And>a. a \<in> set (network_interfaces p) \<Longrightarrow> known (ndis_handle a)"
    and "filter_state p = state_running" "a \<in> set (network_interfaces p)"
  shows "tunnelled hs (fold (choose_adapter known hs wanted) (network_interfaces p) p) a (internal_name a \<in> wanted)"
proof -
  let ?as = "network_interfaces p"
  define q where "q = fold (choose_adapter known hs wanted) (butlast ?as) p"
  have q: "network_interfaces q = ?as" "filter_state q = state_running"
    by (simp_all add: q_def choose_adapters_list assms(3))
  define r where "r = fold (choose_adapter known hs wanted) ?as p"
  have "?as = butlast ?as @ [last ?as]"
    using assms(4) by (metis append_butlast_last_id empty_iff empty_set)
  then have "r = choose_adapter known hs wanted (last ?as) q"
    by (metis (no_types) comp_apply fold_append fold_simps q_def r_def)
  then obtain q' where q': "r = update_adapters_filter_state known hs q'" "network_interfaces q' = ?as" "filter_state q' = state_running"
    using q by (auto simp: choose_adapter_def filter_network_adapter_def unfilter_network_adapter_def split: if_splits)
  have "internal_name a \<in> filter_adapters_list r \<longleftrightarrow> internal_name a \<in> wanted"
    using assms(4) by (simp add: r_def choose_adapters_list)
  then have "internal_name a \<in> filter_adapters_list q' \<longleftrightarrow> internal_name a \<in> wanted"
    using q'(1) by simp
  then show ?thesis
    using update_adapters_modes [where as = ?as and known = known and a = a and hs = hs and p = q'] assms(1,2,4) q' r_def by (simp add: update_adapters_filter_state_def)
qed

text \<open>
  C21: while the router runs, a change of the network it has not seen yet makes the driver tunnel
  exactly the adapters that carry an external connection, and leave all others alone.
\<close>

theorem adapters_follow_network:
  assumes "update_network_configuration hs net l = Some l'" "get_external_network_connections (helper net) = Some infos"
    and "filter_state (router_filter l) = state_running" "distinct (map ndis_handle (network_interfaces (router_filter l)))"
    and "\<And>a. a \<in> set (network_interfaces (router_filter l)) \<Longrightarrow> known_handle net (ndis_handle a)"
    and "adapters_wanted net (network_interfaces (router_filter l)) infos \<noteq> adapters_to_filter l"
    and "a \<in> set (network_interfaces (router_filter l))"
  shows "tunnelled hs (router_filter l') a (\<exists>info \<in> set infos. \<exists>b. find (is_adapter_of net info) (network_interfaces (router_filter l)) = Some b \<and>
      internal_name b = internal_name a)"
proof -
  let ?as = "network_interfaces (router_filter l)" and ?wanted = "adapters_wanted net (network_interfaces (router_filter l)) infos"
  have "router_filter l' = fold (choose_adapter (known_handle net) hs ?wanted) ?as (router_filter l)"
    using assms(1,2,6) by (auto simp: update_network_configuration_def Let_def)
  moreover have "internal_name a \<in> ?wanted \<longleftrightarrow>
      (\<exists>info \<in> set infos. \<exists>b. find (is_adapter_of net info) ?as = Some b \<and> internal_name b = internal_name a)"
    by (auto simp: adapters_wanted_def List.map_filter_def image_iff) metis+
  moreover have "tunnelled hs (fold (choose_adapter (known_handle net) hs ?wanted) ?as (router_filter l)) a (internal_name a \<in> ?wanted)"
    using assms(3,4,5,7) by (intro choose_adapters_modes) simp_all
  ultimately show ?thesis
    by simp
qed

text \<open>
  The query of the adapters returns as soon as one question finds no memory or is answered by
  anything but a demand for a bigger buffer.
\<close>

lemma ask_adapters_returns:
  "i \<le> k \<Longrightarrow> \<not> memory k \<or> answers k \<noteq> Buffer_overflow \<Longrightarrow> ask_adapters memory answers i \<noteq> None"
proof (induction i rule: inc_induct)
  case base
  then show ?case
    by (subst ask_adapters.simps) (auto split: adapters_answer.split)
next
  case (step n)
  then show ?case
    by (subst ask_adapters.simps) (auto split: adapters_answer.split)
qed

definition query_fails :: "ip_helper \<Rightarrow> bool" where
  "query_fails sys \<longleftrightarrow> if_table sys = None \<or>
     (case size_answer sys of Inr _ \<Rightarrow> True | Inl needed \<Rightarrow> needed = 0 \<or> \<not> enough_memory sys 0 \<or> adapters_answer sys 0 = Query_failed)"

lemma failed_query: "query_fails sys \<Longrightarrow> get_external_network_connections sys = Some []"
  by (auto simp: query_fails_def get_external_network_connections_def query_tables_def ask_adapters.simps List.map_filter_def
      split: sum.splits option.split)

text \<open>
  C37: \<^verbatim>\<open>update_network_configuration\<close> cannot tell a failed query from a computer without network.
  When the table of the interfaces or of the adapters is not to be had, the router stays active and
  takes the driver's mode off every adapter: all traffic goes out directly.
\<close>

theorem failed_query_unfilters_all:
  assumes "query_fails (helper net)" "adapters_to_filter l \<noteq> {}" "filter_state (router_filter l) = state_running"
    and "distinct (map ndis_handle (network_interfaces (router_filter l)))"
    and "\<And>a. a \<in> set (network_interfaces (router_filter l)) \<Longrightarrow> known_handle net (ndis_handle a)"
  shows "\<exists>l'. update_network_configuration hs net l = Some l' \<and> is_active l' = is_active l \<and> adapters_to_filter l' = {} \<and>
    (\<forall>a \<in> set (network_interfaces (router_filter l)). tunnelled hs (router_filter l') a False)"
proof -
  let ?as = "network_interfaces (router_filter l)"
  have "adapters_wanted net ?as [] = {}"
    by (simp add: adapters_wanted_def List.map_filter_def)
  then have "update_network_configuration hs net l =
      Some (l\<lparr>router_filter := fold (choose_adapter (known_handle net) hs {}) ?as (router_filter l), adapters_to_filter := {}\<rparr>)"
    using failed_query [OF assms(1)] assms(2) by (simp add: update_network_configuration_def)
  moreover have "tunnelled hs (fold (choose_adapter (known_handle net) hs {}) ?as (router_filter l)) a False" if "a \<in> set ?as" for a
    using choose_adapters_modes [where p = "router_filter l" and known = "known_handle net" and wanted = "{}" and hs = hs and a = a]
      assms(3-5) that by simp
  ultimately show ?thesis
    by simp
qed

text \<open>
  At the start of a new router the same failure has the opposite outcome: no adapter was ever
  chosen, and the filter takes them all.
\<close>

lemma failed_query_filters_all_at_start:
  assumes "query_fails (helper (network env))" "\<not> is_active l" "filter_ready l" "adapters_to_filter l = {}"
    and "filter_adapters_list (router_filter l) = {}" "filter_state (router_filter l) = state_stopped" "new_blocks env = Some blocks"
    and "distinct (map ndis_handle (network_interfaces (router_filter l)))"
    and "\<And>a. a \<in> set (network_interfaces (router_filter l)) \<Longrightarrow> known_handle (network env) (ndis_handle a)"
    and "start_router hs env l = Some (ok, l')" "a \<in> set (network_interfaces (router_filter l))"
  shows "tunnelled hs (router_filter l') a True"
proof -
  let ?p = "router_filter l" and ?s = "(routing_of l)\<lparr>dropped_packets := 0, alloc_failures := 0\<rparr>"
  let ?q = "?p\<lparr>handler_state := ?s, filter_adapters_list := set (map internal_name (network_interfaces ?p)),
      block_queue := (block_queue ?p)(Read_stage := block_queue ?p Read_stage @ blocks), filter_state := state_running, worker_of := (\<lambda>_. Loop_head)\<rparr>"
  have "adapters_wanted net as [] = {}" for net as
    by (simp add: adapters_wanted_def List.map_filter_def)
  then have "router_filter l' = update_adapters_filter_state (known_handle (network env)) hs ?q"
    using assms failed_query [OF assms(1)]
    by (auto simp: start_router_def update_network_configuration_def update_routing_def start_filter_def init_filter_def)
  then show ?thesis
    using update_adapters_modes [where as = "network_interfaces ?q" and a = a and known = "known_handle (network env)" and hs = hs and p = ?q] assms(8,9,11)
    by (simp add: update_adapters_filter_state_def)
qed

section \<open>Witnesses\<close>

definition sample_adapter :: network_adapter where
  "sample_adapter = \<lparr>ndis_handle = 1, hardware_address = [2, 0, 0, 0, 0, 1], internal_name = ''DEVICE {A}'', friendly_name = ''Ethernet'',
     medium = 0, adapter_mtu = 1500, adapter_wan_type = ndis_wan_none\<rparr>"

definition sample_router :: "static_filter list local_router" where
  "sample_router = new_local_router list_driver [] sample_lookup [sample_adapter]"

text \<open>A driver that takes every filter.\<close>

definition roomy_driver :: "static_filter list driver" where
  "roomy_driver = list_driver\<lparr>AddStaticFilterFront := (\<lambda>sf d. (True, sf # d))\<rparr>"

lemma roomy_driver_contract: "driver_contract roomy_driver (\<lambda>d. d)"
  using list_driver_contract by (simp add: driver_contract_def roomy_driver_def)

definition sample_handlers :: "(unit, router) handlers" where
  "sample_handlers = \<lparr>filter_outgoing_packet = Some (\<lambda>_ x r. Some (action_type_pass, None, x, r)), filter_incoming_packet = None\<rparr>"

text \<open>A network without an answer, and one with the adapter up.\<close>

definition no_network :: network_answers where
  "no_network = \<lparr>helper = \<lparr>if_table = None, size_answer = Inl 0, enough_memory = \<lambda>_. True, adapters_answer = \<lambda>_. Query_failed\<rparr>,
     ras_links_of = \<lambda>_. None, known_handle = \<lambda>_. True\<rparr>"

definition one_network :: network_answers where
  "one_network = no_network\<lparr>helper := \<lparr>
     if_table = Some [\<lparr>InterfaceLuid = 9, InterfaceGuid = \<lparr>Data1 = 10, Data2 = 0, Data3 = 0, Data4 = replicate 8 0\<rparr>, MediaType = 0, PhysicalMediumType = 14, MediaConnected = True,
       RowAddress = [2, 0, 0, 0, 0, 1], HardwareInterface = True\<rparr>],
     size_answer = Inl 400, enough_memory = \<lambda>_. True,
     adapters_answer = \<lambda>i. if i = 0 then Buffer_overflow else
       Adapters [\<lparr>IfIndex = 4, Ipv6IfIndex = 4, AdapterName = ''{A}'', Description = [], FriendlyName = [], PhysicalAddress = [2, 0, 0, 0, 0, 1],
         Mtu = 1500, TransmitLinkSpeed = 100, ReceiveLinkSpeed = 100, Luid = 9, IfType = 6, OperStatusUp = True,
         Unicast = [Info_v4 77], DnsServers = [], Gateways = []\<rparr>]\<rparr>\<rparr>"

definition sample_answers :: start_answers where
  "sample_answers = \<lparr>notify_answer = None, cancel_answer = True,
     server_answers = \<lambda>_. \<lparr>tcp_listen = \<lparr>socket_ok = True, bind_ok = True, name_result = Some 7000, listen_ok = True\<rparr>,
       tcp_start = (Some 1, Some 5), udp_listen = (Some 2, True, Some 7001), udp_start = (Some 6, True)\<rparr>,
     network = no_network, new_blocks = Some []\<rparr>"

lemma one_network_infos:
  obtains info where "get_external_network_connections (helper one_network) = Some [info]"
    "if_type info = 6" "adapter_name info = ''{A}''"
  by (simp add: one_network_def no_network_def get_external_network_connections_def query_tables_def ask_adapters.simps
      List.map_filter_def is_external_def adapter_info_def new_network_adapter_info_def IF_TYPE_SOFTWARE_LOOPBACK_def Let_def
      NdisPhysicalMediumUnspecified_def)

lemma sample_router_start:
  assumes "\<not> is_active l" "filter_ready l" "adapters_to_filter l = {}" "filter_state (router_filter l) = state_stopped"
  shows "\<exists>l'. start_router sample_handlers sample_answers l = Some (True, l')"
  using assms failed_query [of "helper no_network"]
  by (simp add: start_router_def sample_answers_def update_network_configuration_def query_fails_def no_network_def update_routing_def
      adapters_wanted_def List.map_filter_def start_filter_def init_filter_def Let_def)

lemma sample_router_parts:
  "\<not> is_active sample_router" "filter_ready sample_router" "adapters_to_filter sample_router = {}"
  "filter_state (router_filter sample_router) = state_stopped" "network_interfaces (router_filter sample_router) = [sample_adapter]"
  by (simp_all add: sample_router_def new_local_router_def new_packet_filter_def Let_def split: prod.split)

theorem lifecycle_consistent_witness:
  "\<exists>l. start_router sample_handlers sample_answers sample_router = Some (True, l) \<and> is_active l \<and>
    filter_state (router_filter l) = state_running \<and> resolver_running l"
proof -
  have "lifecycle_reachable list_driver sample_handlers sample_router"
    unfolding sample_router_def by (rule lifecycle_reachable.built)
  moreover obtain l where l: "start_router sample_handlers sample_answers sample_router = Some (True, l)"
    using sample_router_start [of sample_router] by (auto simp: sample_router_parts)
  ultimately have r: "lifecycle_reachable list_driver sample_handlers l"
    by (rule lifecycle_reachable.router_started)
  have "is_active l"
    by (rule start_router_cases [OF l sample_router_parts(1,2)]) simp
  then show ?thesis
    using lifecycle_consistent [OF r] l by simp
qed

theorem restarted_router_serves_nobody_witness:
  "\<exists>l1 l2. stop_router True (new_packet_filter (routing_of sample_router) []) (sample_router\<lparr>is_active := True, local_servers := [(Some sample_server, None)]\<rparr>) = (True, l1) \<and>
    start_router sample_handlers sample_answers l1 = Some (True, l2) \<and> \<not> listening (the (fst (hd (local_servers l2))))"
proof -
  let ?l = "sample_router\<lparr>is_active := True, local_servers := [(Some sample_server, None)]\<rparr>"
    and ?p = "new_packet_filter (routing_of sample_router) []"
  obtain l1 where l1: "stop_router True ?p ?l = (True, l1)" "\<not> is_active l1" "filter_ready l1" "adapters_to_filter l1 = {}"
    "filter_state (router_filter l1) = state_stopped"
    by (simp add: stop_router_def sample_router_parts new_packet_filter_def)
  obtain l2 where l2: "start_router sample_handlers sample_answers l1 = Some (True, l2)"
    using sample_router_start [of l1] l1 by auto
  have "list_all pair_started (local_servers ?l)"
    by (simp add: pair_started_def sample_server_def)
  then have r: "list_all pair_deaf (local_servers l2) \<and> map server_ports (local_servers l2) = map server_ports (local_servers ?l)"
    using restarted_router_serves_nobody [OF _ _ _ _ l1(1) l2] by (simp add: sample_router_parts new_packet_filter_def)
  obtain pair where "local_servers l2 = [pair]" "pair_deaf pair" "server_ports pair = server_ports (Some sample_server, None)"
    using r by (auto simp: map_eq_Cons_conv)
  then have "\<not> listening (the (fst (hd (local_servers l2))))"
    by (cases pair) (auto simp: pair_deaf_def server_ports_def)
  then show ?thesis
    using l1(1) l2 by blast
qed

theorem lan_bypass_exact_witness:
  "\<exists>front. fst (static_filters (set_bypass_lan roomy_driver sample_router)) = map F_v4 front @ [F_v4 icmp_filter] \<and>
    (\<exists>f \<in> set front. passes_remote direction_out (le32 172 31 0 1) f)"
proof -
  have "fst (AddStaticFilterFront roomy_driver sf d)" for sf d
    by (simp add: roomy_driver_def)
  from lan_bypass_exact [OF roomy_driver_contract this, of sample_router]
  obtain front where front: "fst (static_filters (set_bypass_lan roomy_driver sample_router)) = map F_v4 front @ fst (static_filters sample_router)"
    "\<And>dir a b c d. (\<exists>f \<in> set front. passes_remote dir (le32 a b c d) f) \<longleftrightarrow> dir \<noteq> direction_both \<and> is_local a b"
    by auto
  have "is_local 172 31"
    by (simp add: is_local_def)
  moreover have "fst (static_filters sample_router) = [F_v4 icmp_filter]"
    by (simp add: sample_router_def new_local_router_def add_filter_back_def list_driver_def Let_def)
  ultimately show ?thesis
    using front(1) front(2) [of direction_out 172 31 0 1] by (intro exI [of _ front]) simp
qed

definition running_router :: "string set \<Rightarrow> static_filter list local_router" where
  "running_router chosen = sample_router\<lparr>adapters_to_filter := chosen, router_filter := (router_filter sample_router)\<lparr>filter_state := state_running\<rparr>\<rparr>"

theorem adapters_follow_network_witness:
  "\<exists>l'. update_network_configuration sample_handlers one_network (running_router {}) = Some l' \<and> adapter_modes (router_filter l') 1 = MSTCP_FLAG_SENT_TUNNEL"
proof -
  obtain info where i: "get_external_network_connections (helper one_network) = Some [info]" "if_type info = 6" "adapter_name info = ''{A}''"
    by (rule one_network_infos)
  have a: "is_adapter_of one_network info sample_adapter"
    by (simp add: is_adapter_of_def i IF_TYPE_PPP_def sample_adapter_def contains_def)
  then have w: "adapters_wanted one_network [sample_adapter] [info] = {internal_name sample_adapter}"
    by (simp add: adapters_wanted_def List.map_filter_def)
  obtain l' where l': "update_network_configuration sample_handlers one_network (running_router {}) = Some l'"
    using i(1) by (cases "update_network_configuration sample_handlers one_network (running_router {})")
      (simp_all add: update_network_configuration_def Let_def split: if_splits)
  have "tunnelled sample_handlers (router_filter l') sample_adapter (\<exists>info' \<in> set [info]. \<exists>b. find (is_adapter_of one_network info') [sample_adapter] = Some b \<and>
      internal_name b = internal_name sample_adapter)"
    using adapters_follow_network [OF l' i(1), of sample_adapter] w
    by (simp add: running_router_def sample_router_parts one_network_def no_network_def)
  then show ?thesis
    using a l' by (simp add: tunnelled_def sample_adapter_def tunnel_flags_def sample_handlers_def)
qed

theorem failed_query_unfilters_all_witness:
  "\<exists>l'. update_network_configuration sample_handlers no_network (running_router {''DEVICE {A}''}) = Some l' \<and> adapter_modes (router_filter l') 1 = 0"
proof -
  have "query_fails (helper no_network)"
    by (simp add: query_fails_def no_network_def)
  from failed_query_unfilters_all [where net = no_network and l = "running_router {''DEVICE {A}''}" and hs = sample_handlers, OF this]
  show ?thesis
    by (auto simp: running_router_def sample_router_parts no_network_def tunnelled_def sample_adapter_def)
qed

end
