(* ===== verification/Completion_Port.thy ===== *)
theory Completion_Port
  imports Prelude
begin

text \<open>
  \<^verbatim>\<open>io_completion_port\<close> and its \<^verbatim>\<open>thread_pool\<close> (winsys/io_completion_port.h): the table of the handlers by
  completion key, the association of devices, and the pool of threads that wait for completions and
  call the handlers.  Each thread is a state machine, so that its accesses to the flag of the pool and
  to the table interleave with everything else.  What the port of the system reports is a parameter.
\<close>

section \<open>State\<close>

text \<open>A result of \<^verbatim>\<open>GetQueuedCompletionStatus\<close>; without \<open>overlapped\<close> and not \<open>completed\<close> it is a time-out or an error of the port.\<close>

record completion =
  completed :: bool
  num_bytes :: u32
  completion_key :: u64
  overlapped :: "nat option"

datatype 'h pool_thread =
  Head
| Queue_wait
| Woken completion
| Looking completion
| Calling 'h completion
| Ended

record 'h completion_port =
  port_handlers :: "u64 \<rightharpoonup> 'h"
  next_key :: u64
  pool_active :: bool
  concurrent_threads :: nat
  pool_threads :: "'h pool_thread list"
  wake_ups :: nat
  calls :: "('h \<times> completion) list"

definition new_completion_port :: "nat \<Rightarrow> nat \<Rightarrow> 'h completion_port" where
  "new_completion_port hardware_concurrency threads =
     \<lparr>port_handlers = Map.empty, next_key = 1, pool_active = False,
      concurrent_threads = (if threads = 0 then hardware_concurrency else threads), pool_threads = [], wake_ups = 0, calls = []\<rparr>"

section \<open>Handlers\<close>

text \<open>The next free key, by at most as many attempts as given, and the generator afterwards.\<close>

fun free_key :: "nat \<Rightarrow> (u64 \<rightharpoonup> 'h) \<Rightarrow> u64 \<Rightarrow> u64 option \<times> u64" where
  "free_key 0 handlers k = (None, k)"
| "free_key (Suc n) handlers k =
     (if k = 0 \<or> handlers k \<noteq> None then free_key n handlers (k + 1) else (Some k, k + 1))"

definition max_attempts :: nat where "max_attempts = 1000"

text \<open>
  \<open>file_ok\<close> is whether the handle is one, \<open>associated\<close> the answer of the system.  \<open>None\<close>: no key was
  found and the function throws.
\<close>

definition associate_device :: "bool \<Rightarrow> bool \<Rightarrow> 'h option \<Rightarrow> 'h completion_port \<Rightarrow> (bool \<times> u64) option \<times> 'h completion_port" where
  "associate_device file_ok associated handler p =
     (case handler of
        None \<Rightarrow> (Some (False, 0), p)
      | Some h \<Rightarrow>
          if \<not> file_ok then (Some (False, 0), p)
          else (case free_key max_attempts (port_handlers p) (next_key p) of
             (None, k) \<Rightarrow> (None, p\<lparr>next_key := k\<rparr>)
           | (Some key, k) \<Rightarrow>
               let p = p\<lparr>next_key := k, port_handlers := (port_handlers p)(key \<mapsto> h)\<rparr> in
               if associated then (Some (True, key), p)
               else (Some (False, 0), p\<lparr>port_handlers := (port_handlers p)(key := None)\<rparr>)))"

definition associate_with_key :: "bool \<Rightarrow> u64 \<Rightarrow> 'h completion_port \<Rightarrow> bool" where
  "associate_with_key associated key p \<longleftrightarrow> port_handlers p key \<noteq> None \<and> associated"

definition unregister_handler :: "u64 \<Rightarrow> 'h completion_port \<Rightarrow> bool \<times> 'h completion_port" where
  "unregister_handler key p =
     (if port_handlers p key = None then (False, p) else (True, p\<lparr>port_handlers := (port_handlers p)(key := None)\<rparr>))"

definition is_handler_registered :: "u64 \<Rightarrow> 'h completion_port \<Rightarrow> bool" where
  "is_handler_registered key p \<longleftrightarrow> port_handlers p key \<noteq> None"

section \<open>The threads\<close>

definition set_thread :: "nat \<Rightarrow> 'h pool_thread \<Rightarrow> 'h completion_port \<Rightarrow> 'h completion_port" where
  "set_thread i t p = p\<lparr>pool_threads := (pool_threads p)[i := t]\<rparr>"

text \<open>
  One step of thread \<open>i\<close>, with \<open>r\<close> what its wait reports: the test of the loop, the wait, the second
  test and what is not dispatched, the copy of the handler under the lock, and the call.
\<close>

definition start_thread :: "completion \<Rightarrow> nat \<Rightarrow> 'h completion_port \<Rightarrow> 'h completion_port" where
  "start_thread r i p =
     (case pool_threads p ! i of
        Head \<Rightarrow> set_thread i (if pool_active p then Queue_wait else Ended) p
      | Queue_wait \<Rightarrow> set_thread i (Woken r) p
      | Woken c \<Rightarrow>
          set_thread i
            (if \<not> pool_active p then Ended
             else if \<not> completed c \<and> overlapped c = None then Head
             else if completion_key c = 0 then Head
             else Looking c) p
      | Looking c \<Rightarrow> set_thread i (case port_handlers p (completion_key c) of None \<Rightarrow> Head | Some h \<Rightarrow> Calling h c) p
      | Calling h c \<Rightarrow> set_thread i Head (p\<lparr>calls := calls p @ [(h, c)]\<rparr>)
      | Ended \<Rightarrow> p)"

text \<open>
  Starting the pool is a transition of its flag and then one creation after the other; a creation
  that fails makes the flag false again and wakes the threads created so far.  Both end of the pool
  and rollback then join all threads.
\<close>

definition start_pool :: "'h completion_port \<Rightarrow> bool \<times> 'h completion_port" where
  "start_pool p = (if pool_active p then (False, p) else (True, p\<lparr>pool_active := True\<rparr>))"

definition stop_pool :: "'h completion_port \<Rightarrow> bool \<times> 'h completion_port" where
  "stop_pool p =
     (if \<not> pool_active p then (False, p)
      else (True, p\<lparr>pool_active := False, wake_ups := wake_ups p + length (pool_threads p)\<rparr>))"

definition create_thread :: "bool \<Rightarrow> 'h completion_port \<Rightarrow> 'h completion_port" where
  "create_thread ok p =
     (if pool_active p \<and> length (pool_threads p) < 2 * concurrent_threads p
      then if ok then p\<lparr>pool_threads := pool_threads p @ [Head]\<rparr> else snd (stop_pool p)
      else p)"

definition join_threads :: "'h completion_port \<Rightarrow> 'h completion_port option" where
  "join_threads p = (if list_all (\<lambda>t. t = Ended) (pool_threads p) then Some (p\<lparr>pool_threads := []\<rparr>) else None)"

section \<open>Runs\<close>

datatype 'h port_event =
  Thread nat completion
| Associate bool bool "'h option"
| Unregister u64
| Start_pool
| Create_thread bool
| Stop_pool
| Join

fun port_step :: "'h port_event \<Rightarrow> 'h completion_port \<Rightarrow> 'h completion_port" where
  "port_step (Thread i r) p = (if i < length (pool_threads p) then start_thread r i p else p)"
| "port_step (Associate file_ok associated h) p = snd (associate_device file_ok associated h p)"
| "port_step (Unregister k) p = snd (unregister_handler k p)"
| "port_step Start_pool p = snd (start_pool p)"
| "port_step (Create_thread ok) p = create_thread ok p"
| "port_step Stop_pool p = snd (stop_pool p)"
| "port_step Join p = (case join_threads p of None \<Rightarrow> p | Some q \<Rightarrow> q)"

definition port_run :: "'h port_event list \<Rightarrow> 'h completion_port \<Rightarrow> 'h completion_port" where
  "port_run es p = fold port_step es p"

section \<open>Keys\<close>

lemma free_key_found:
  "free_key n handlers k = (Some key, k') \<Longrightarrow> key \<noteq> 0 \<and> handlers key = None"
  by (induction n arbitrary: k) (auto split: if_splits)

text \<open>As long as the generator does not wrap around, a key it gives is above all earlier ones.\<close>

lemma free_key_above:
  assumes "free_key n handlers k = (r, k')" "unat k + n < 2 ^ 64"
  shows "unat k \<le> unat k' \<and> unat k' \<le> unat k + n \<and> (\<forall>key. r = Some key \<longrightarrow> unat k \<le> unat key)"
  using assms
proof (induction n arbitrary: k)
  case (Suc n)
  have k1: "unat (k + 1) = unat k + 1"
    using Suc.prems(2) by (simp add: unat_word_ariths)
  show ?case
  proof (cases "k = 0 \<or> handlers k \<noteq> None")
    case True
    then show ?thesis
      using Suc.IH [of "k + 1"] Suc.prems k1 by auto
  next
    case False
    then show ?thesis
      using Suc.prems(1) k1 by auto
  qed
qed simp

text \<open>
  Association: a fresh key that is not zero, under which the handler is found; a failure leaves the
  table as it was, and it throws only when a thousand successive keys are in use.
\<close>

lemma associate_device_result:
  assumes "associate_device file_ok associated (Some h) p = (r, p')" "file_ok"
  shows "r = Some (True, key) \<Longrightarrow> key \<noteq> 0 \<and> port_handlers p key = None \<and> port_handlers p' = (port_handlers p)(key \<mapsto> h)"
    and "r = Some (False, key) \<Longrightarrow> port_handlers p' = port_handlers p"
    and "r = None \<Longrightarrow> port_handlers p' = port_handlers p"
proof -
  obtain f k where f: "free_key max_attempts (port_handlers p) (next_key p) = (f, k)"
    by fastforce
  show "r = Some (True, key) \<Longrightarrow> key \<noteq> 0 \<and> port_handlers p key = None \<and> port_handlers p' = (port_handlers p)(key \<mapsto> h)"
    using assms f
    by (auto simp: associate_device_def Let_def split: option.splits if_splits dest: free_key_found)
  show "r = Some (False, key) \<Longrightarrow> port_handlers p' = port_handlers p" "r = None \<Longrightarrow> port_handlers p' = port_handlers p"
    using assms f by (auto simp: associate_device_def Let_def fun_upd_idem split: option.splits if_splits dest: free_key_found)
qed

section \<open>Calls\<close>

text \<open>How often the handler of a key was called, and how many threads are about to.\<close>

definition called :: "u64 \<Rightarrow> 'h completion_port \<Rightarrow> nat" where
  "called k p = length (filter (\<lambda>(h, c). completion_key c = k) (calls p))"

fun about_to_call :: "u64 \<Rightarrow> 'h pool_thread \<Rightarrow> bool" where
  "about_to_call k (Calling h c) \<longleftrightarrow> completion_key c = k"
| "about_to_call k t \<longleftrightarrow> False"

definition in_flight :: "u64 \<Rightarrow> 'h completion_port \<Rightarrow> nat" where
  "in_flight k p = length (filter (about_to_call k) (pool_threads p))"

lemma filter_list_update:
  assumes "i < length xs"
  shows "length (filter Q (xs[i := x])) + (if Q (xs ! i) then 1 else 0) = length (filter Q xs) + (if Q x then 1 else 0)"
  using assms
proof (induction xs arbitrary: i)
  case (Cons y xs)
  then show ?case
    by (cases i) auto
qed simp

text \<open>A key the generator has left behind and that has no handler.\<close>

definition retired :: "u64 \<Rightarrow> 'h completion_port \<Rightarrow> bool" where
  "retired k p \<longleftrightarrow> port_handlers p k = None \<and> unat k < unat (next_key p)"

lemma start_thread_retired:
  assumes "i < length (pool_threads p)" "retired k p"
  shows "called k (start_thread r i p) + in_flight k (start_thread r i p) = called k p + in_flight k p"
proof -
  have u: "length (filter (about_to_call k) ((pool_threads p)[i := t])) + (if about_to_call k (pool_threads p ! i) then 1 else 0) =
      length (filter (about_to_call k) (pool_threads p)) + (if about_to_call k t then 1 else 0)" for t
    using assms(1) by (rule filter_list_update)
  show ?thesis
    using u assms(2)
    by (cases "pool_threads p ! i")
      (auto simp: start_thread_def set_thread_def called_def in_flight_def retired_def split: option.splits if_splits)
qed

lemma associate_retired:
  assumes "retired k p" "unat (next_key p) + max_attempts < 2 ^ 64" "snd (associate_device file_ok associated h p) = q"
  shows "retired k q \<and> called k q = called k p \<and> in_flight k q = in_flight k p \<and> unat (next_key q) \<le> unat (next_key p) + max_attempts"
proof -
  obtain r k' where f: "free_key max_attempts (port_handlers p) (next_key p) = (r, k')"
    by fastforce
  have above: "unat (next_key p) \<le> unat k'" "unat k' \<le> unat (next_key p) + max_attempts"
    "\<And>key. r = Some key \<Longrightarrow> unat (next_key p) \<le> unat key"
    using free_key_above [OF f assms(2)] by auto
  then show ?thesis
    using assms(1,3) f above
    by (cases h; cases r; auto simp: associate_device_def retired_def called_def in_flight_def Let_def split: if_splits)
qed

lemma port_step_retired:
  assumes "retired k p" "unat (next_key p) + max_attempts < 2 ^ 64"
  shows "retired k (port_step e p) \<and> called k (port_step e p) + in_flight k (port_step e p) = called k p + in_flight k p \<and>
    unat (next_key (port_step e p)) \<le> unat (next_key p) + max_attempts"
proof (cases e)
  case (Thread i r)
  have keep: "port_handlers (start_thread r i p) = port_handlers p" "next_key (start_thread r i p) = next_key p"
    by (simp_all add: start_thread_def set_thread_def split: pool_thread.split)
  then show ?thesis
    using start_thread_retired [of i p k r] assms(1) by (simp add: Thread retired_def)
next
  case (Associate file_ok associated h)
  then show ?thesis
    using associate_retired [OF assms] by simp
next
  case Join
  have "in_flight k p = 0" if "list_all (\<lambda>t. t = Ended) (pool_threads p)"
    using that by (auto simp: in_flight_def list_all_iff filter_empty_conv)
  then show ?thesis
    using assms(1) by (simp add: Join join_threads_def retired_def called_def in_flight_def)
qed (use assms(1) in \<open>auto simp: retired_def called_def in_flight_def unregister_handler_def start_pool_def stop_pool_def create_thread_def\<close>)

text \<open>
  C29: once a handler is unregistered, it is called exactly once by each thread that had already copied
  it, and never again: whatever completions arrive, devices are associated and however the pool is
  stopped and started, its calls and the threads about to make one keep their sum.  The bound says
  that the generator of the keys has not gone through all of them.
\<close>

theorem unregistered_handler_not_called:
  assumes "port_handlers p key \<noteq> None" "unat key < unat (next_key p)" "unat (next_key p) + max_attempts * length es < 2 ^ 64"
    and "unregister_handler key p = (removed, q)"
  shows "removed \<and> port_handlers (port_run es q) key = None \<and>
    called key (port_run es q) + in_flight key (port_run es q) = called key p + in_flight key p"
proof -
  have run: "retired key p \<Longrightarrow> unat (next_key p) + max_attempts * length es < 2 ^ 64 \<Longrightarrow>
      retired key (port_run es p) \<and> called key (port_run es p) + in_flight key (port_run es p) = called key p + in_flight key p" for p :: "'a completion_port"
  proof (induction es arbitrary: p)
    case (Cons e es)
    have "unat (next_key p) + max_attempts < 2 ^ 64"
      using Cons.prems(2) by simp
    note step = port_step_retired [OF Cons.prems(1) this, of e]
    then have "unat (next_key (port_step e p)) + max_attempts * length es < 2 ^ 64"
      using Cons.prems(2) by simp
    then show ?case
      using Cons.IH [of "port_step e p"] step by (simp add: port_run_def)
  qed (simp add: port_run_def)
  have q: "removed" "retired key q" "called key q = called key p" "in_flight key q = in_flight key p" "next_key q = next_key p"
    using assms(1,2,4) by (auto simp: unregister_handler_def retired_def called_def in_flight_def split: if_splits)
  then show ?thesis
    using run [of q] assms(3) by (simp add: retired_def)
qed

section \<open>The end of the pool\<close>

fun steps_left :: "'h pool_thread \<Rightarrow> nat" where
  "steps_left Head = 1"
| "steps_left Queue_wait = 2"
| "steps_left (Woken c) = 1"
| "steps_left (Looking c) = 3"
| "steps_left (Calling h c) = 2"
| "steps_left Ended = 0"

definition pool_work :: "'h completion_port \<Rightarrow> nat" where
  "pool_work p = sum_list (map steps_left (pool_threads p))"

lemma sum_list_list_update:
  "i < length xs \<Longrightarrow> sum_list (map f (xs[i := x])) + f (xs ! i) = sum_list (map f xs) + (f x :: nat)"
proof (induction xs arbitrary: i)
  case (Cons y xs)
  then show ?case
    by (cases i) auto
qed simp

lemma stopped_thread_step:
  assumes "\<not> pool_active p" "i < length (pool_threads p)"
  shows "\<not> pool_active (start_thread r i p) \<and> length (pool_threads (start_thread r i p)) = length (pool_threads p) \<and>
    (pool_threads p ! i = Ended \<and> start_thread r i p = p \<or> pool_threads p ! i \<noteq> Ended \<and> pool_work (start_thread r i p) < pool_work p)"
proof -
  have u: "sum_list (map steps_left ((pool_threads p)[i := t])) + steps_left (pool_threads p ! i) =
      sum_list (map steps_left (pool_threads p)) + steps_left t" for t
    using assms(2) by (rule sum_list_list_update)
  show ?thesis
  proof (cases "pool_threads p ! i = Ended")
    case True
    then show ?thesis
      using assms(1) by (simp add: start_thread_def)
  next
    case False
    then obtain t cs where t: "start_thread r i p = set_thread i t (p\<lparr>calls := cs\<rparr>)" "steps_left t < steps_left (pool_threads p ! i)"
      using assms(1) that [of _ "calls p"]
      by (cases "pool_threads p ! i") (auto simp: start_thread_def set_thread_def split: option.splits)
    then show ?thesis
      using u [of t] assms(1) False by (simp add: set_thread_def pool_work_def)
  qed
qed

text \<open>Threads by themselves: \<open>busy\<close> counts the steps of threads that had not ended.\<close>

fun busy :: "(nat \<times> completion) list \<Rightarrow> 'h completion_port \<Rightarrow> nat" where
  "busy [] p = 0"
| "busy ((i, r) # es) p =
     (if i < length (pool_threads p) \<and> pool_threads p ! i \<noteq> Ended then 1 else 0) + busy es (port_step (Thread i r) p)"

lemma pool_work_bound: "pool_work p \<le> 3 * length (pool_threads p)"
proof -
  have "steps_left t \<le> 3" for t :: "'h pool_thread"
    by (cases t) simp_all
  then have "sum_list (map steps_left ts) \<le> 3 * length ts" for ts :: "'h pool_thread list"
    by (induction ts) (auto intro: add_mono)
  then show ?thesis
    by (simp add: pool_work_def)
qed

text \<open>
  C30: after \<^verbatim>\<open>stop_thread_pool\<close> has begun, whatever the waits report, its threads make at most three
  steps each, and when none has one left to make all have ended and the join returns.
\<close>

theorem pool_stops:
  assumes "stop_pool p = (True, q)"
  shows "busy es q \<le> 3 * length (pool_threads p) \<and>
    (let q' = port_run (map (\<lambda>(i, r). Thread i r) es) q
     in (\<forall>i r. busy [(i, r)] q' = 0) \<longrightarrow> (\<exists>q''. join_threads q' = Some q'' \<and> pool_threads q'' = [] \<and> \<not> pool_active q''))"
proof -
  have q: "\<not> pool_active q" "pool_threads q = pool_threads p"
    using assms by (auto simp: stop_pool_def split: if_splits)
  have run: "\<not> pool_active q \<Longrightarrow> busy es q \<le> pool_work q \<and> \<not> pool_active (port_run (map (\<lambda>(i, r). Thread i r) es) q)" for q :: "'a completion_port"
  proof (induction es arbitrary: q)
    case (Cons e es)
    obtain i r where e: "e = (i, r)" by fastforce
    show ?case
    proof (cases "i < length (pool_threads q)")
      case True
      note step = stopped_thread_step [OF Cons.prems True, of r]
      show ?thesis
        using Cons.IH [of "start_thread r i q"] step True by (auto simp: e port_run_def)
    next
      case False
      then show ?thesis
        using Cons.IH [OF Cons.prems] by (simp add: e port_run_def)
    qed
  qed (simp add: port_run_def)
  let ?q' = "port_run (map (\<lambda>(i, r). Thread i r) es) q"
  have "\<exists>q''. join_threads ?q' = Some q'' \<and> pool_threads q'' = [] \<and> \<not> pool_active q''" if "\<forall>i r. busy [(i, r)] ?q' = 0"
  proof -
    have "list_all (\<lambda>t. t = Ended) (pool_threads ?q')"
      unfolding list_all_length
    proof (intro allI impI)
      fix i
      assume "i < length (pool_threads ?q')"
      then show "pool_threads ?q' ! i = Ended"
        using that [rule_format, of i undefined] by (auto split: if_splits)
    qed
    then show ?thesis
      using run [OF q(1)] by (simp add: join_threads_def)
  qed
  then show ?thesis
    using run [OF q(1)] pool_work_bound [of q] q(2) by (simp add: Let_def)
qed

section \<open>Witnesses\<close>

definition sample_completion :: completion where
  "sample_completion = \<lparr>completed = True, num_bytes = 40, completion_key = 1, overlapped = Some 9\<rparr>"

text \<open>One thread has copied the handler of key 1, another is about to look for it.\<close>

definition sample_port :: "string completion_port" where
  "sample_port = (snd (associate_device True True (Some ''relay'') (new_completion_port 4 1)))
     \<lparr>pool_active := True, pool_threads := [Calling ''relay'' sample_completion, Looking sample_completion]\<rparr>"

lemma sample_port_simps:
  "port_handlers sample_port = [1 \<mapsto> ''relay'']" "next_key sample_port = 2" "pool_active sample_port" "calls sample_port = []"
  "pool_threads sample_port = [Calling ''relay'' sample_completion, Looking sample_completion]"
proof -
  have "free_key max_attempts (Map.empty :: u64 \<rightharpoonup> string) 1 = (Some 1, 2)"
    using free_key.simps(2) [of 999 "Map.empty :: u64 \<rightharpoonup> string" 1] by (simp add: max_attempts_def)
  then show "port_handlers sample_port = [1 \<mapsto> ''relay'']" "next_key sample_port = 2" "pool_active sample_port" "calls sample_port = []"
    "pool_threads sample_port = [Calling ''relay'' sample_completion, Looking sample_completion]"
    by (simp_all add: sample_port_def associate_device_def new_completion_port_def)
qed

theorem unregistered_handler_not_called_witness:
  "called 1 (port_run [Thread 0 sample_completion, Thread 1 sample_completion] (snd (unregister_handler 1 sample_port))) = 1"
proof -
  let ?es = "[Thread 0 sample_completion, Thread 1 sample_completion] :: string port_event list"
  obtain q where q: "unregister_handler 1 sample_port = (True, q)" "pool_threads q = pool_threads sample_port" "port_handlers q = Map.empty"
    by (simp add: unregister_handler_def sample_port_simps)
  have "called 1 (port_run ?es q) + in_flight 1 (port_run ?es q) = 1"
    using unregistered_handler_not_called [OF _ _ _ q(1), of ?es]
    by (simp add: sample_port_simps max_attempts_def called_def in_flight_def sample_completion_def)
  moreover have "in_flight 1 (port_run ?es q) = 0"
    by (simp add: port_run_def start_thread_def set_thread_def q sample_port_simps sample_completion_def in_flight_def)
  ultimately show ?thesis
    using q(1) by simp
qed

theorem pool_stops_witness: "busy [(0, sample_completion), (0, sample_completion), (1, sample_completion)] (snd (stop_pool sample_port)) \<le> 6"
proof -
  obtain q where q: "stop_pool sample_port = (True, q)"
    by (simp add: stop_pool_def sample_port_simps)
  then show ?thesis
    using pool_stops [OF q, of "[(0, sample_completion), (0, sample_completion), (1, sample_completion)]"] by (simp add: sample_port_simps)
qed

end
