(* ===== verification/Driver_Api.thy ===== *)
theory Driver_Api
  imports Static_Filters
begin

text \<open>
  \<^verbatim>\<open>CNdisApi\<close> (ndisapi/ndisapi.cpp): the requests to the driver.  A 32-bit process on 64-bit Windows
  (WOW64) has adapter handles of 32 bits for the driver's of 64 and copies structures and packets; the
  model has both ways of every call and the table of the handles.  The driver is a parameter.
\<close>

section \<open>Handles of a 32-bit process\<close>

text \<open>\<open>m_Handle32to64\<close>: entry 0 tells whether the table was filled, entry \<open>i\<close> is the handle behind \<open>i\<close>.\<close>

type_synonym handle_table = "u64 list"

definition ADAPTER_LIST_SIZE :: nat where "ADAPTER_LIST_SIZE = 32"

definition new_handle_table :: handle_table where
  "new_handle_table = replicate (ADAPTER_LIST_SIZE + 1) 0"

text \<open>The index is not checked: \<open>None\<close> is a read outside the table.\<close>

definition From32to64Handle :: "handle_table \<Rightarrow> u32 \<Rightarrow> u64 option" where
  "From32to64Handle table h = (if unat h < ADAPTER_LIST_SIZE + 1 then Some (table ! unat h) else None)"

definition From64to32Handle :: "handle_table \<Rightarrow> u64 \<Rightarrow> u32" where
  "From64to32Handle table h =
     (case find (\<lambda>i. table ! i = h) [1..<ADAPTER_LIST_SIZE + 1] of None \<Rightarrow> 0 | Some i \<Rightarrow> of_nat i)"

text \<open>
  The inner loop of \<^verbatim>\<open>Update\<close> for entry \<open>j\<close> with value \<open>v\<close> runs through the listed handles; it ends
  when one is \<open>v\<close> or a position is known, and takes \<open>j\<close> for the position at the last of them.
\<close>

fun scan_listed :: "u64 \<Rightarrow> nat \<Rightarrow> u64 list \<Rightarrow> nat \<Rightarrow> nat" where
  "scan_listed v j [] pos = pos"
| "scan_listed v j (h # hs) pos =
     (if v = h then pos
      else let pos = (if hs = [] then j else pos) in if pos \<noteq> 0 then pos else scan_listed v j hs pos)"

definition replaced_position :: "u64 list \<Rightarrow> handle_table \<Rightarrow> nat" where
  "replaced_position listed table = fold (\<lambda>j. scan_listed (table ! j) j listed) [1..<ADAPTER_LIST_SIZE + 1] 0"

definition update_handle :: "u64 list \<Rightarrow> u64 \<Rightarrow> handle_table \<Rightarrow> handle_table" where
  "update_handle listed h table =
     (if list_ex (\<lambda>j. table ! j = h) [1..<ADAPTER_LIST_SIZE + 1] then table
      else let pos = replaced_position listed table in if pos \<noteq> 0 then table[pos := h] else table)"

definition Update :: "u64 list \<Rightarrow> handle_table \<Rightarrow> handle_table" where
  "Update listed table =
     (if table ! 0 = 0 then fold (\<lambda>i t. t[i + 1 := listed ! i]) [0..<length listed] (table[0 := - 1])
      else fold (update_handle listed) listed table)"

section \<open>Calls\<close>

text \<open>A packet with all that is copied between the two layouts; \<open>m_hAdapter\<close> is not.\<close>

record driver_buffer = intermediate_buffer +
  m_Flags :: u32
  m_8021q :: u32
  m_FilterID :: u32
  m_Reserved :: "u32 list"

text \<open>The calls that name an adapter, in the handles of the process or in those of the driver.\<close>

datatype 'h api_call =
  Send_packet bool 'h driver_buffer
| Read_packet 'h
| Send_packets bool 'h "driver_buffer list"
| Read_packets 'h nat
| Set_mode 'h u32
| Get_mode 'h
| Flush_queue 'h
| Queue_size 'h
| Set_event bool 'h u64
| Get_ras_links 'h
| Oid_request bool 'h u32 "u8 list"

datatype answer =
  Failed
| Done
| Number u32
| Buffers "driver_buffer list"
| Octets "u8 list"

text \<open>
  \<open>open\<close> is whether the device was opened; the driver answers requests in its own handles.  For a
  request of an OID it tells whether it completes at once or later.
\<close>

record 'd ndisapi =
  is_wow64 :: bool
  handles :: handle_table
  opened :: bool
  ioctl :: "u64 api_call \<Rightarrow> 'd \<Rightarrow> answer \<times> 'd"
  completes_later :: "u64 api_call \<Rightarrow> 'd \<Rightarrow> bool"

definition DeviceIoControl :: "'d ndisapi \<Rightarrow> u64 api_call \<Rightarrow> 'd \<Rightarrow> answer \<times> 'd" where
  "DeviceIoControl api c d = (if opened api then ioctl api c d else (Failed, d))"

text \<open>
  The handle for the driver.  Under WOW64 a handle of the process has 32 bits.
\<close>

definition driver_handle :: "'d ndisapi \<Rightarrow> u64 \<Rightarrow> u64 option" where
  "driver_handle api h = (if is_wow64 api then From32to64Handle (handles api) (ucast h) else Some h)"

text \<open>
  The copies: only as many bytes of the frame as the packet is long are copied, over a buffer \<open>old\<close>.
  \<open>None\<close>: the length exceeds the array.
\<close>

definition copy_packet :: "frame \<Rightarrow> driver_buffer \<Rightarrow> driver_buffer option" where
  "copy_packet old b =
     (if unat (m_Length b) \<le> MAX_ETHER_FRAME
      then Some (b\<lparr>m_IBuffer := (\<lambda>i. if i < unat (m_Length b) then m_IBuffer b i else old i)\<rparr>) else None)"

fun copy_packets :: "frame list \<Rightarrow> driver_buffer list \<Rightarrow> driver_buffer list option" where
  "copy_packets olds [] = Some []"
| "copy_packets [] (b # bs) = None"
| "copy_packets (old # olds) (b # bs) = do { b \<leftarrow> copy_packet old b; bs \<leftarrow> copy_packets olds bs; Some (b # bs) }"

definition zero_frame :: frame where "zero_frame = (\<lambda>_. 0)"

text \<open>
  \<open>junk\<close> is what memory holds that is not initialised, \<open>memory\<close> whether the allocations succeed.
  Reading: the buffers of the process, overwritten by what the driver delivers.
\<close>

definition send_packet :: "bool \<Rightarrow> frame \<Rightarrow> 'd ndisapi \<Rightarrow> u64 \<Rightarrow> driver_buffer \<Rightarrow> 'd \<Rightarrow> (answer \<times> 'd) option" where
  "send_packet to_adapter junk api h b d = do {
     k \<leftarrow> driver_handle api h;
     b \<leftarrow> (if is_wow64 api then copy_packet junk b else Some b);
     Some (DeviceIoControl api (Send_packet to_adapter k b) d)
   }"

definition SendPacketToMstcp :: "frame \<Rightarrow> 'd ndisapi \<Rightarrow> u64 \<Rightarrow> driver_buffer \<Rightarrow> 'd \<Rightarrow> (answer \<times> 'd) option" where
  "SendPacketToMstcp = send_packet False"

definition SendPacketToAdapter :: "frame \<Rightarrow> 'd ndisapi \<Rightarrow> u64 \<Rightarrow> driver_buffer \<Rightarrow> 'd \<Rightarrow> (answer \<times> 'd) option" where
  "SendPacketToAdapter = send_packet True"

definition ReadPacket :: "'d ndisapi \<Rightarrow> u64 \<Rightarrow> driver_buffer \<Rightarrow> 'd \<Rightarrow> (answer \<times> 'd) option" where
  "ReadPacket api h b d = do {
     k \<leftarrow> driver_handle api h;
     let (r, d) = DeviceIoControl api (Read_packet k) d;
     (case r of
        Buffers [c] \<Rightarrow> if is_wow64 api then map_option (\<lambda>c. (Buffers [c], d)) (copy_packet (m_IBuffer b) c) else Some (Buffers [c], d)
      | _ \<Rightarrow> Some (r, d))
   }"

definition send_packets :: "bool \<Rightarrow> bool \<Rightarrow> 'd ndisapi \<Rightarrow> u64 \<Rightarrow> driver_buffer list \<Rightarrow> 'd \<Rightarrow> (answer \<times> 'd) option" where
  "send_packets to_adapter memory api h bs d =
     (if is_wow64 api \<and> \<not> memory then Some (Failed, d)
      else do {
        k \<leftarrow> driver_handle api h;
        bs \<leftarrow> (if is_wow64 api then copy_packets (map (\<lambda>_. zero_frame) bs) bs else Some bs);
        Some (DeviceIoControl api (Send_packets to_adapter k bs) d)
      })"

definition SendPacketsToMstcp :: "bool \<Rightarrow> 'd ndisapi \<Rightarrow> u64 \<Rightarrow> driver_buffer list \<Rightarrow> 'd \<Rightarrow> (answer \<times> 'd) option" where
  "SendPacketsToMstcp = send_packets False"

definition SendPacketsToAdapter :: "bool \<Rightarrow> 'd ndisapi \<Rightarrow> u64 \<Rightarrow> driver_buffer list \<Rightarrow> 'd \<Rightarrow> (answer \<times> 'd) option" where
  "SendPacketsToAdapter = send_packets True"

definition ReadPackets :: "bool \<Rightarrow> 'd ndisapi \<Rightarrow> u64 \<Rightarrow> driver_buffer list \<Rightarrow> 'd \<Rightarrow> (answer \<times> 'd) option" where
  "ReadPackets memory api h bs d =
     (if is_wow64 api \<and> \<not> memory then Some (Failed, d)
      else do {
        k \<leftarrow> driver_handle api h;
        let (r, d) = DeviceIoControl api (Read_packets k (length bs)) d;
        (case r of
           Buffers cs \<Rightarrow> if is_wow64 api then map_option (\<lambda>cs. (Buffers cs, d)) (copy_packets (map m_IBuffer bs) cs) else Some (Buffers cs, d)
         | _ \<Rightarrow> Some (r, d))
      })"

text \<open>The calls that pass the handle and plain values.\<close>

definition plain_call :: "(u64 \<Rightarrow> u64 api_call) \<Rightarrow> 'd ndisapi \<Rightarrow> u64 \<Rightarrow> 'd \<Rightarrow> (answer \<times> 'd) option" where
  "plain_call c api h d = map_option (\<lambda>k. DeviceIoControl api (c k) d) (driver_handle api h)"

definition SetAdapterMode :: "'d ndisapi \<Rightarrow> u64 \<Rightarrow> u32 \<Rightarrow> 'd \<Rightarrow> (answer \<times> 'd) option" where
  "SetAdapterMode api h mode = plain_call (\<lambda>k. Set_mode k mode) api h"

definition GetAdapterMode :: "'d ndisapi \<Rightarrow> u64 \<Rightarrow> 'd \<Rightarrow> (answer \<times> 'd) option" where
  "GetAdapterMode = plain_call Get_mode"

definition FlushAdapterPacketQueue :: "'d ndisapi \<Rightarrow> u64 \<Rightarrow> 'd \<Rightarrow> (answer \<times> 'd) option" where
  "FlushAdapterPacketQueue = plain_call Flush_queue"

definition GetAdapterPacketQueueSize :: "'d ndisapi \<Rightarrow> u64 \<Rightarrow> 'd \<Rightarrow> (answer \<times> 'd) option" where
  "GetAdapterPacketQueueSize = plain_call Queue_size"

definition SetPacketEvent :: "'d ndisapi \<Rightarrow> u64 \<Rightarrow> u64 \<Rightarrow> 'd \<Rightarrow> (answer \<times> 'd) option" where
  "SetPacketEvent api h event = plain_call (\<lambda>k. Set_event False k event) api h"

definition SetHwPacketFilterEvent :: "'d ndisapi \<Rightarrow> u64 \<Rightarrow> u64 \<Rightarrow> 'd \<Rightarrow> (answer \<times> 'd) option" where
  "SetHwPacketFilterEvent api h event = plain_call (\<lambda>k. Set_event True k event) api h"

definition GetRasLinks :: "'d ndisapi \<Rightarrow> u64 \<Rightarrow> 'd \<Rightarrow> (answer \<times> 'd) option" where
  "GetRasLinks = plain_call Get_ras_links"

text \<open>
  A request of an object identifier.  \<open>data\<close> is what the structure holds before and \<open>junk\<close> the
  memory of the copy; the result is the outcome and the structure afterwards.  Under WOW64 the answer
  is copied back only when the request did not complete at once, and a failed allocation goes on as
  if all was well.
\<close>

definition NdisrdRequest ::
  "bool \<Rightarrow> bool \<Rightarrow> u8 list \<Rightarrow> 'd ndisapi \<Rightarrow> bool \<Rightarrow> u64 \<Rightarrow> u32 \<Rightarrow> u8 list \<Rightarrow> 'd \<Rightarrow> ((bool \<times> u8 list) \<times> 'd) option" where
  "NdisrdRequest event_ok memory junk api is_set h oid data d =
     (if \<not> event_ok then Some ((False, data), d)
      else if is_wow64 api \<and> \<not> memory then Some ((True, data), d)
      else do {
        k \<leftarrow> driver_handle api h;
        let c = Oid_request is_set k oid (if is_wow64 api \<and> \<not> is_set then junk else data);
        let later = completes_later api c d;
        let (r, d) = DeviceIoControl api c d;
        (if r = Failed \<and> \<not> later then Some ((False, data), d)
         else
           let sent = (if is_wow64 api \<and> \<not> is_set then junk else data);
               answered = (case r of Octets bs \<Rightarrow> bs | _ \<Rightarrow> sent);
               after = (if is_set then data else if is_wow64 api \<and> \<not> later then data else answered)
           in Some ((length after = length data, after), d))
      })"

definition OID_GEN_CURRENT_PACKET_FILTER :: u32 where "OID_GEN_CURRENT_PACKET_FILTER = 0x0001010E"

text \<open>\<open>allocated\<close>: the request itself could be allocated.\<close>

definition SetHwPacketFilter ::
  "bool \<Rightarrow> bool \<Rightarrow> bool \<Rightarrow> u8 list \<Rightarrow> 'd ndisapi \<Rightarrow> u64 \<Rightarrow> u32 \<Rightarrow> 'd \<Rightarrow> (bool \<times> 'd) option" where
  "SetHwPacketFilter allocated event_ok memory junk api h filt d =
     (if allocated
      then map_option (\<lambda>((ok, _), d). (ok, d)) (NdisrdRequest event_ok memory junk api True h OID_GEN_CURRENT_PACKET_FILTER (dword_bytes filt) d)
      else Some (False, d))"

text \<open>\<open>fresh\<close> is the memory of the new request; the result is the value found, or none.\<close>

definition GetHwPacketFilter ::
  "bool \<Rightarrow> bool \<Rightarrow> bool \<Rightarrow> u8 list \<Rightarrow> u8 list \<Rightarrow> 'd ndisapi \<Rightarrow> u64 \<Rightarrow> 'd \<Rightarrow> (u8 list option \<times> 'd) option" where
  "GetHwPacketFilter allocated event_ok memory junk fresh api h d =
     (if allocated
      then map_option (\<lambda>((ok, data), d). (if ok then Some data else None, d))
        (NdisrdRequest event_ok memory junk api False h OID_GEN_CURRENT_PACKET_FILTER fresh d)
      else Some (None, d))"

text \<open>
  The calls that are not sorted by adapter, over what the driver does with the packets and with the
  number of them.  Under WOW64 they are refused and the number that is asked for stays as it was.
\<close>

definition unsorted_call :: "(u32 \<Rightarrow> 'd \<Rightarrow> (bool \<times> u32) \<times> 'd) \<Rightarrow> 'd ndisapi \<Rightarrow> u32 \<Rightarrow> u32 \<Rightarrow> 'd \<Rightarrow> (bool \<times> u32) \<times> 'd" where
  "unsorted_call io api packets_num success d =
     (if is_wow64 api then ((False, success), d)
      else if opened api then io packets_num d else ((False, packets_num), d))"

section \<open>Adapters and filters\<close>

text \<open>
  The list of the adapters: the handles the driver lists become those of the process, and the table
  is updated.
\<close>

definition GetTcpipBoundAdaptersInfo :: "u64 list option \<Rightarrow> 'd ndisapi \<Rightarrow> u64 list option \<times> 'd ndisapi" where
  "GetTcpipBoundAdaptersInfo listed api =
     (case listed of
        None \<Rightarrow> (None, api)
      | Some hs \<Rightarrow>
          if \<not> is_wow64 api then (Some hs, api)
          else let table = Update hs (handles api)
               in (Some (map (\<lambda>h. ucast (From64to32Handle table h)) hs), api\<lparr>handles := table\<rparr>))"

text \<open>Filters: a handle that is not zero is translated, in the structure of the caller.\<close>

definition filter_to_driver :: "'d ndisapi \<Rightarrow> static_filter \<Rightarrow> static_filter option" where
  "filter_to_driver api f =
     (if is_wow64 api \<and> m_Adapter f \<noteq> 0
      then map_option (\<lambda>h. f\<lparr>m_Adapter := h\<rparr>) (From32to64Handle (handles api) (ucast (m_Adapter f))) else Some f)"

definition filter_from_driver :: "'d ndisapi \<Rightarrow> static_filter \<Rightarrow> static_filter" where
  "filter_from_driver api f = (if is_wow64 api then f\<lparr>m_Adapter := ucast (From64to32Handle (handles api) (m_Adapter f))\<rparr> else f)"

text \<open>The three calls that add a filter, over those of the driver: the result and the caller's structure.\<close>

definition add_filter_call ::
  "(static_filter \<Rightarrow> 's \<Rightarrow> bool \<times> 's) \<Rightarrow> 'd ndisapi \<Rightarrow> static_filter \<Rightarrow> 's \<Rightarrow> (bool \<times> static_filter \<times> 's) option" where
  "add_filter_call add api f d =
     map_option (\<lambda>f. if opened api then (case add f d of (ok, d) \<Rightarrow> (ok, f, d)) else (False, f, d)) (filter_to_driver api f)"

section \<open>The table of handles\<close>

text \<open>A table: untouched, or marked and without a handle twice.\<close>

definition table_ok :: "handle_table \<Rightarrow> bool" where
  "table_ok t \<longleftrightarrow> length t = ADAPTER_LIST_SIZE + 1 \<and> (t ! 0 = 0 \<longrightarrow> t = new_handle_table) \<and>
     (\<forall>i j. 1 \<le> i \<and> i < j \<and> j < ADAPTER_LIST_SIZE + 1 \<and> t ! i = t ! j \<longrightarrow> t ! i = 0)"

text \<open>What the driver lists: at most as many adapters as the structure has room for, each once.\<close>

definition listing :: "u64 list \<Rightarrow> bool" where
  "listing hs \<longleftrightarrow> length hs \<le> ADAPTER_LIST_SIZE \<and> distinct hs \<and> 0 \<notin> set hs"

lemma scan_listed_result:
  "scan_listed v j hs pos = pos \<or> scan_listed v j hs pos = j \<and> v \<notin> set hs"
proof (induction hs arbitrary: pos)
  case (Cons h hs)
  then show ?case
    by (cases hs) (auto simp: Let_def)
qed simp

lemma scan_listed_found: "hs \<noteq> [] \<Longrightarrow> v \<notin> set hs \<Longrightarrow> j \<noteq> 0 \<Longrightarrow> scan_listed v j hs 0 \<noteq> 0"
proof (induction hs)
  case (Cons h hs)
  then show ?case
    by (cases hs) (auto simp: Let_def)
qed simp

lemma scan_listed_keeps: "pos \<noteq> 0 \<Longrightarrow> j \<noteq> 0 \<Longrightarrow> scan_listed v j hs pos \<noteq> 0"
  using scan_listed_result [of v j hs pos] by auto

lemma fold_scan:
  assumes "listed \<noteq> []" "\<forall>j \<in> set js. j \<noteq> 0"
  shows "(let r = fold (\<lambda>j. scan_listed (t ! j) j listed) js pos in
     (r = pos \<or> r \<in> set js \<and> t ! r \<notin> set listed) \<and> (pos \<noteq> 0 \<or> (\<exists>j \<in> set js. t ! j \<notin> set listed) \<longrightarrow> r \<noteq> 0))"
  using assms(2)
proof (induction js arbitrary: pos)
  case (Cons j js)
  let ?p = "scan_listed (t ! j) j listed pos"
  have p: "?p = pos \<or> ?p = j \<and> t ! j \<notin> set listed"
    by (rule scan_listed_result)
  moreover have "?p \<noteq> 0" if "pos \<noteq> 0 \<or> t ! j \<notin> set listed"
    using that scan_listed_keeps scan_listed_found [OF assms(1)] Cons.prems by (cases "pos = 0") auto
  ultimately show ?case
    using Cons.IH [of ?p] Cons.prems by (auto simp: Let_def)
qed (simp add: Let_def)

lemma replaced_position:
  assumes "listed \<noteq> []" "\<exists>j. 1 \<le> j \<and> j < ADAPTER_LIST_SIZE + 1 \<and> t ! j \<notin> set listed"
  shows "1 \<le> replaced_position listed t \<and> replaced_position listed t < ADAPTER_LIST_SIZE + 1 \<and> t ! replaced_position listed t \<notin> set listed"
proof -
  have "\<exists>j \<in> set [1..<ADAPTER_LIST_SIZE + 1]. t ! j \<notin> set listed"
    using assms(2) by auto
  then show ?thesis
    using fold_scan [OF assms(1), of "[1..<ADAPTER_LIST_SIZE + 1]" t 0] by (auto simp: Let_def replaced_position_def)
qed

text \<open>There is always room: 32 entries cannot all hold listed handles when one of them is missing.\<close>

lemma room_for_handle:
  assumes "table_ok t" "listing listed" "h \<in> set listed" "\<forall>j. 1 \<le> j \<and> j < ADAPTER_LIST_SIZE + 1 \<longrightarrow> t ! j \<noteq> h"
  shows "\<exists>j. 1 \<le> j \<and> j < ADAPTER_LIST_SIZE + 1 \<and> t ! j \<notin> set listed"
proof (rule ccontr)
  assume "\<not> ?thesis"
  then have "(\<lambda>j. t ! j) ` {1..<ADAPTER_LIST_SIZE + 1} \<subseteq> set listed - {h}" (is "?f ` ?J \<subseteq> _")
    using assms(4) by force
  moreover have "inj_on ?f ?J"
  proof (rule linorder_inj_onI)
    fix i j
    assume "i < j" "i \<in> ?J" "j \<in> ?J"
    moreover from \<open>i \<in> ?J\<close> have "t ! i \<in> set listed"
      using \<open>?f ` ?J \<subseteq> set listed - {h}\<close> by blast
    then have "t ! i \<noteq> 0"
      using assms(2) by (auto simp: listing_def)
    ultimately show "t ! i \<noteq> t ! j"
      using assms(1) unfolding table_ok_def by auto
  qed auto
  ultimately have "card ?J \<le> card (set listed - {h})"
    by (intro card_inj_on_le) simp_all
  moreover have "card (set listed - {h}) < length listed"
    using assms(3) card_Diff1_less [of "set listed" h] card_length [of listed] by auto
  ultimately show False
    using assms(2) by (simp add: listing_def)
qed

lemma update_handle_ok:
  assumes "table_ok t" "listing listed" "h \<in> set listed" "t ! 0 \<noteq> 0"
  shows "table_ok (update_handle listed h t) \<and> update_handle listed h t ! 0 = t ! 0 \<and>
    (\<exists>j. 1 \<le> j \<and> j < ADAPTER_LIST_SIZE + 1 \<and> update_handle listed h t ! j = h) \<and>
    (\<forall>j. 1 \<le> j \<and> j < ADAPTER_LIST_SIZE + 1 \<and> t ! j \<in> set listed \<longrightarrow> update_handle listed h t ! j = t ! j)"
proof (cases "\<exists>j. 1 \<le> j \<and> j < ADAPTER_LIST_SIZE + 1 \<and> t ! j = h")
  case True
  then have "update_handle listed h t = t"
    by (auto simp: update_handle_def list_ex_iff)
  then show ?thesis
    using assms True by auto
next
  case False
  let ?r = "replaced_position listed t"
  have r: "1 \<le> ?r" "?r < ADAPTER_LIST_SIZE + 1" "t ! ?r \<notin> set listed"
  proof -
    have "listed \<noteq> []" "\<forall>j. 1 \<le> j \<and> j < ADAPTER_LIST_SIZE + 1 \<longrightarrow> t ! j \<noteq> h"
      using assms(3) False by auto
    then show "1 \<le> ?r" "?r < ADAPTER_LIST_SIZE + 1" "t ! ?r \<notin> set listed"
      using replaced_position [of listed t] room_for_handle [OF assms(1-3)] by blast+
  qed
  have "\<not> list_ex (\<lambda>j. t ! j = h) [1..<ADAPTER_LIST_SIZE + 1]"
    using False unfolding list_ex_iff by (metis atLeastLessThan_iff set_upt)
  then have u: "update_handle listed h t = t[?r := h]"
    using r(1) by (simp add: update_handle_def)
  have l: "length t = ADAPTER_LIST_SIZE + 1"
    using assms(1) by (simp add: table_ok_def)
  have miss: "t ! j \<noteq> h" if "1 \<le> j" "j < ADAPTER_LIST_SIZE + 1" for j
    using False that by blast
  have "t[?r := h] ! i = 0" if "1 \<le> i" "i < j" "j < ADAPTER_LIST_SIZE + 1" "t[?r := h] ! i = t[?r := h] ! j" for i j
  proof -
    have "i \<noteq> ?r" "j \<noteq> ?r"
      using that miss [of i] miss [of j] r l by (auto simp: nth_list_update split: if_splits)
    then show ?thesis
      using that assms(1) unfolding table_ok_def by (metis nth_list_update_neq)
  qed
  moreover have "length (t[?r := h]) = ADAPTER_LIST_SIZE + 1" "t[?r := h] ! 0 \<noteq> 0"
    using l r(1) assms(4) by simp_all
  ultimately have "table_ok (t[?r := h])"
    unfolding table_ok_def by blast
  then show ?thesis
    unfolding u using l r assms(4) by (auto simp: nth_list_update)
qed

text \<open>All that one update does: to the listed handles, and to those that were there before.\<close>

lemma fold_update_handle:
  assumes "table_ok t" "listing listed" "set hs \<subseteq> set listed" "t ! 0 \<noteq> 0"
  shows "(let t' = fold (update_handle listed) hs t in table_ok t' \<and> t' ! 0 = t ! 0 \<and>
    (\<forall>h \<in> set hs. \<exists>j. 1 \<le> j \<and> j < ADAPTER_LIST_SIZE + 1 \<and> t' ! j = h) \<and>
    (\<forall>j. 1 \<le> j \<and> j < ADAPTER_LIST_SIZE + 1 \<and> t ! j \<in> set listed \<longrightarrow> t' ! j = t ! j))"
  using assms(1,3,4)
proof (induction hs arbitrary: t)
  case (Cons h hs)
  have h: "h \<in> set listed"
    using Cons.prems(2) by simp
  note one = update_handle_ok [OF Cons.prems(1) assms(2) h Cons.prems(3)]
  let ?u = "update_handle listed h t" and ?t = "fold (update_handle listed) hs (update_handle listed h t)"
  have rest: "table_ok ?t" "?t ! 0 = ?u ! 0" "\<forall>h \<in> set hs. \<exists>j. 1 \<le> j \<and> j < ADAPTER_LIST_SIZE + 1 \<and> ?t ! j = h"
    "\<And>j. 1 \<le> j \<Longrightarrow> j < ADAPTER_LIST_SIZE + 1 \<Longrightarrow> ?u ! j \<in> set listed \<Longrightarrow> ?t ! j = ?u ! j"
    using Cons.IH [of ?u] one Cons.prems(2,3) by (simp_all add: Let_def)
  obtain j where "1 \<le> j" "j < ADAPTER_LIST_SIZE + 1" "?u ! j = h"
    using one by blast
  then have "\<exists>j. 1 \<le> j \<and> j < ADAPTER_LIST_SIZE + 1 \<and> ?t ! j = h"
    using rest(4) [of j] h by auto
  then show ?case
    using rest one by (simp add: Let_def)
qed (simp add: Let_def)

lemma first_update_at:
  "k \<le> length listed \<Longrightarrow> length listed + 1 \<le> length t \<Longrightarrow>
   length (fold (\<lambda>i t. t[i + 1 := listed ! i]) [0..<k] t) = length t \<and>
   (\<forall>j < length t. fold (\<lambda>i t. t[i + 1 := listed ! i]) [0..<k] t ! j = (if 1 \<le> j \<and> j \<le> k then listed ! (j - 1) else t ! j))"
proof (induction k)
  case (Suc k)
  then show ?case
    by (auto simp: nth_list_update)
qed simp

lemma Update_ok:
  assumes "table_ok t" "listing listed"
  shows "table_ok (Update listed t) \<and>
    (\<forall>h \<in> set listed. \<exists>j. 1 \<le> j \<and> j < ADAPTER_LIST_SIZE + 1 \<and> Update listed t ! j = h) \<and>
    (\<forall>j. 1 \<le> j \<and> j < ADAPTER_LIST_SIZE + 1 \<and> t ! j \<in> set listed \<longrightarrow> Update listed t ! j = t ! j)"
proof (cases "t ! 0 = 0")
  case False
  then show ?thesis
    using fold_update_handle [OF assms, of listed] by (simp add: Update_def Let_def)
next
  case True
  then have t: "t = new_handle_table"
    using assms(1) by (simp add: table_ok_def)
  have n: "length listed \<le> ADAPTER_LIST_SIZE" "distinct listed" "0 \<notin> set listed"
    using assms(2) by (simp_all add: listing_def)
  let ?u = "Update listed t"
  have u: "length ?u = ADAPTER_LIST_SIZE + 1"
    "\<And>j. j < ADAPTER_LIST_SIZE + 1 \<Longrightarrow> ?u ! j = (if j = 0 then - 1 else if j \<le> length listed then listed ! (j - 1) else 0)"
    using first_update_at [of "length listed" listed "t[0 := - 1]"] n(1) True
    by (auto simp: Update_def t new_handle_table_def nth_Cons split: nat.split)
  have "?u ! i = 0" if "1 \<le> i" "i < j" "j < ADAPTER_LIST_SIZE + 1" "?u ! i = ?u ! j" for i j
    using that u(2) [of i] u(2) [of j] n by (auto simp: nth_eq_iff_index_eq split: if_splits)
  moreover have "?u ! 0 \<noteq> 0"
    using u(2) [of 0] by simp
  ultimately have "table_ok ?u"
    using u(1) unfolding table_ok_def by blast
  moreover have "\<exists>j. 1 \<le> j \<and> j < ADAPTER_LIST_SIZE + 1 \<and> ?u ! j = h" if "h \<in> set listed" for h
  proof -
    obtain i where "i < length listed" "listed ! i = h"
      using \<open>h \<in> set listed\<close> by (auto simp: in_set_conv_nth)
    then show ?thesis
      using u(2) [of "i + 1"] n(1) by (intro exI [of _ "i + 1"]) simp
  qed
  moreover have "t ! j \<notin> set listed" if "1 \<le> j" "j < ADAPTER_LIST_SIZE + 1" for j
    using that n(3) by (simp add: t new_handle_table_def)
  ultimately show ?thesis
    by blast
qed

lemma table_okD: "table_ok t \<Longrightarrow> 1 \<le> i \<Longrightarrow> i < j \<Longrightarrow> j < ADAPTER_LIST_SIZE + 1 \<Longrightarrow> t ! i = t ! j \<Longrightarrow> t ! i = 0"
  unfolding table_ok_def by blast

lemma From64to32_at:
  assumes "table_ok t" "1 \<le> j" "j < ADAPTER_LIST_SIZE + 1" "t ! j = h" "h \<noteq> 0"
  shows "From64to32Handle t h = of_nat j"
proof -
  have "find (\<lambda>i. t ! i = h) [1..<ADAPTER_LIST_SIZE + 1] = Some j"
    unfolding find_Some_iff
  proof (intro exI [of _ "j - 1"] conjI allI impI)
    fix i
    assume "i < j - 1"
    then have i: "1 \<le> i + 1" "i + 1 < j"
      by simp_all
    have "[1..<ADAPTER_LIST_SIZE + 1] ! i = i + 1"
      using i assms(3) by (simp add: nth_upt del: upt_Suc)
    moreover have "t ! (i + 1) \<noteq> t ! j"
      using table_okD [OF assms(1) i assms(3)] assms(4,5) by auto
    ultimately show "t ! ([1..<ADAPTER_LIST_SIZE + 1] ! i) \<noteq> h"
      using assms(4) by simp
  qed (use assms in \<open>simp_all add: nth_upt del: upt_Suc\<close>)
  then show ?thesis
    by (simp add: From64to32Handle_def)
qed

text \<open>
  C27: after every update of a 32-bit process each listed adapter has a handle that is not zero and
  stands for it, and an adapter that was known before and is still listed keeps its handle.
\<close>

theorem listed_adapters_translate:
  assumes "\<forall>hs \<in> set (earlier @ [listed]). listing hs" "h \<in> set listed" "t = fold Update earlier new_handle_table"
  shows "From64to32Handle (Update listed t) h \<noteq> 0 \<and> From32to64Handle (Update listed t) (From64to32Handle (Update listed t) h) = Some h \<and>
    (From64to32Handle t h \<noteq> 0 \<longrightarrow> From64to32Handle (Update listed t) h = From64to32Handle t h)"
proof -
  have "table_ok new_handle_table"
    by (auto simp: table_ok_def new_handle_table_def)
  then have "table_ok (fold Update es new_handle_table)" if "\<forall>hs \<in> set es. listing hs" for es
    using that by (induction es rule: rev_induct) (simp_all add: Update_ok)
  then have t: "table_ok t"
    using assms(1,3) by simp
  have l: "listing listed" "h \<noteq> 0"
    using assms(1,2) by (auto simp: listing_def)
  note u = Update_ok [OF t l(1)]
  obtain j where j: "1 \<le> j" "j < ADAPTER_LIST_SIZE + 1" "Update listed t ! j = h"
    using u assms(2) by blast
  have j32: "From64to32Handle (Update listed t) h = of_nat j"
    using From64to32_at u j l(2) by blast
  have small: "unat (of_nat j :: u32) = j"
    using j(2) by (simp add: ADAPTER_LIST_SIZE_def unat_of_nat)
  have "of_nat j \<noteq> (0 :: u32)"
    using small j(1) by (metis not_one_le_zero unat_0)
  moreover have "From32to64Handle (Update listed t) (of_nat j) = Some h"
    using small j by (simp add: From32to64Handle_def)
  moreover have "From64to32Handle (Update listed t) h = From64to32Handle t h" if known: "From64to32Handle t h \<noteq> 0"
  proof -
    obtain i where i: "find (\<lambda>i. t ! i = h) [1..<ADAPTER_LIST_SIZE + 1] = Some i"
      using known by (auto simp: From64to32Handle_def split: option.splits)
    then have i': "1 \<le> i" "i < ADAPTER_LIST_SIZE + 1" "t ! i = h"
      by (auto simp: find_Some_iff nth_upt simp del: upt_Suc)
    then have "Update listed t ! i = h"
      using u assms(2) by simp
    then show ?thesis
      using From64to32_at i' u l(2) t by metis
  qed
  ultimately show ?thesis
    using j32 by simp
qed

section \<open>A 32-bit process talks to the driver as a 64-bit one does\<close>

text \<open>What of a packet matters: everything but the bytes behind its length.\<close>

definition trim_buffer :: "driver_buffer \<Rightarrow> driver_buffer" where
  "trim_buffer b = b\<lparr>m_IBuffer := (\<lambda>i. if i < unat (m_Length b) then m_IBuffer b i else 0)\<rparr>"

fun trim_call :: "'h api_call \<Rightarrow> 'h api_call" where
  "trim_call (Send_packet to_adapter h b) = Send_packet to_adapter h (trim_buffer b)"
| "trim_call (Send_packets to_adapter h bs) = Send_packets to_adapter h (map trim_buffer bs)"
| "trim_call c = c"

fun trim_answer :: "answer \<Rightarrow> answer" where
  "trim_answer (Buffers bs) = Buffers (map trim_buffer bs)"
| "trim_answer r = r"

definition fits_frame :: "driver_buffer \<Rightarrow> bool" where
  "fits_frame b \<longleftrightarrow> unat (m_Length b) \<le> MAX_ETHER_FRAME"

fun packets_fit :: "'h api_call \<Rightarrow> bool" where
  "packets_fit (Send_packet to_adapter h b) = fits_frame b"
| "packets_fit (Send_packets to_adapter h bs) = list_all fits_frame bs"
| "packets_fit (Oid_request is_set h oid data) = is_set"
| "packets_fit c = True"

text \<open>
  The driver looks only at the packets it is given, and delivers packets that fit, one or at most as
  many as there is room for.
\<close>

definition driver_keeps_to_packets :: "(u64 api_call \<Rightarrow> 'd \<Rightarrow> answer \<times> 'd) \<Rightarrow> bool" where
  "driver_keeps_to_packets drv \<longleftrightarrow>
     (\<forall>c d. drv c d = drv (trim_call c) d) \<and>
     (\<forall>h d bs d'. drv (Read_packet h) d = (Buffers bs, d') \<longrightarrow> length bs = 1 \<and> list_all fits_frame bs) \<and>
     (\<forall>h n d bs d'. drv (Read_packets h n) d = (Buffers bs, d') \<longrightarrow> length bs \<le> n \<and> list_all fits_frame bs)"

text \<open>All calls, with memory enough; \<open>old\<close> is what the buffers for reading hold before.\<close>

fun perform :: "frame \<Rightarrow> u8 list \<Rightarrow> driver_buffer \<Rightarrow> 'd ndisapi \<Rightarrow> u64 api_call \<Rightarrow> 'd \<Rightarrow> (answer \<times> 'd) option" where
  "perform junk junk_data old api (Send_packet to_adapter h b) d =
     (if to_adapter then SendPacketToAdapter junk api h b d else SendPacketToMstcp junk api h b d)"
| "perform junk junk_data old api (Read_packet h) d = ReadPacket api h old d"
| "perform junk junk_data old api (Send_packets to_adapter h bs) d =
     (if to_adapter then SendPacketsToAdapter True api h bs d else SendPacketsToMstcp True api h bs d)"
| "perform junk junk_data old api (Read_packets h n) d = ReadPackets True api h (replicate n old) d"
| "perform junk junk_data old api (Set_mode h mode) d = SetAdapterMode api h mode d"
| "perform junk junk_data old api (Get_mode h) d = GetAdapterMode api h d"
| "perform junk junk_data old api (Flush_queue h) d = FlushAdapterPacketQueue api h d"
| "perform junk junk_data old api (Queue_size h) d = GetAdapterPacketQueueSize api h d"
| "perform junk junk_data old api (Set_event hw h event) d =
     (if hw then SetHwPacketFilterEvent api h event d else SetPacketEvent api h event d)"
| "perform junk junk_data old api (Get_ras_links h) d = GetRasLinks api h d"
| "perform junk junk_data old api (Oid_request is_set h oid data) d =
     map_option (\<lambda>((ok, after), d). (if ok then Octets after else Failed, d)) (NdisrdRequest True True junk_data api is_set h oid data d)"

lemma driver_keeps_to_packetsD:
  assumes "driver_keeps_to_packets (ioctl api)"
  shows "DeviceIoControl api (Read_packet h) d = (Buffers bs, d') \<Longrightarrow> length bs = 1 \<and> list_all fits_frame bs"
    and "DeviceIoControl api (Read_packets h n) d = (Buffers bs, d') \<Longrightarrow> length bs \<le> n \<and> list_all fits_frame bs"
    and "trim_call x = trim_call y \<Longrightarrow> DeviceIoControl api x d = DeviceIoControl api y d"
  using assms unfolding driver_keeps_to_packets_def DeviceIoControl_def by (metis answer.distinct(8) prod.inject answer.simps)+

lemma trim_copy: "copy_packet old b = Some c \<Longrightarrow> trim_buffer c = trim_buffer b"
  by (auto simp: copy_packet_def trim_buffer_def split: if_splits cong: if_cong)

lemma copy_fits: "fits_frame b \<Longrightarrow> \<exists>c. copy_packet old b = Some c"
  by (simp add: copy_packet_def fits_frame_def)

lemma copy_packets_trim:
  "list_all fits_frame bs \<Longrightarrow> length bs \<le> length olds \<Longrightarrow>
   \<exists>cs. copy_packets olds bs = Some cs \<and> map trim_buffer cs = map trim_buffer bs"
proof (induction olds bs rule: copy_packets.induct)
  case (3 old olds b bs)
  then show ?case
    using copy_fits [of b old] trim_copy [of old b] by fastforce
qed simp_all


text \<open>
  The exception: when the driver completes the request at once, a 32-bit process is told that it has
  the hardware filter of the adapter and gets what the memory of its request held before.
\<close>

lemma wow64_hw_filter_not_read:
  assumes "is_wow64 api" "opened api" "From32to64Handle (handles api) (ucast h) = Some k"
    and "\<And>c. \<not> completes_later api c d" "\<And>c. ioctl api c d = (Octets bs, d')"
  shows "GetHwPacketFilter True True True junk fresh api h d = Some (Some fresh, d')"
  using assms by (simp add: GetHwPacketFilter_def NdisrdRequest_def driver_handle_def DeviceIoControl_def Let_def)

text \<open>
  So a 32-bit process on 64-bit Windows sets the mode of its adapters with success and then neither
  reads nor sends a packet.
\<close>

lemma wow64_tunnels_but_reads_nothing:
  assumes "is_wow64 api" "opened api" "From32to64Handle (handles api) (ucast h) = Some k"
    and "ioctl api (Set_mode k mode) d = (Done, d')"
  shows "SetAdapterMode api h mode d = Some (Done, d')"
    and "unsorted_call io api n success d' = ((False, success), d')"
  using assms by (simp_all add: SetAdapterMode_def plain_call_def driver_handle_def DeviceIoControl_def unsorted_call_def)

section \<open>Witnesses\<close>

text \<open>A driver that keeps the packets sent and returns one of them, and takes every other call.\<close>

fun sample_ioctl :: "u64 api_call \<Rightarrow> driver_buffer list \<Rightarrow> answer \<times> driver_buffer list" where
  "sample_ioctl (Send_packet to_adapter h b) d = (if fits_frame b then (Done, trim_buffer b # d) else (Failed, d))"
| "sample_ioctl (Read_packet h) d = (case d of [] \<Rightarrow> (Failed, []) | b # d \<Rightarrow> if fits_frame b then (Buffers [b], d) else (Failed, d))"
| "sample_ioctl c d = (Done, d)"

lemma trim_trim [simp]: "trim_buffer (trim_buffer b) = trim_buffer b" "fits_frame (trim_buffer b) = fits_frame b"
  by (simp_all add: trim_buffer_def fits_frame_def cong: if_cong)

lemma sample_ioctl_ok: "driver_keeps_to_packets sample_ioctl"
proof -
  have "sample_ioctl c d = sample_ioctl (trim_call c) d" for c d
    by (cases c) simp_all
  moreover have "length bs = 1 \<and> list_all fits_frame bs" if "sample_ioctl (Read_packet h) d = (Buffers bs, d')" for h d bs d'
    using that by (auto split: list.splits if_splits)
  ultimately show ?thesis
    unfolding driver_keeps_to_packets_def by (metis answer.distinct(12) sample_ioctl.simps(4) prod.inject)
qed

definition sample_api :: "driver_buffer list ndisapi" where
  "sample_api = \<lparr>is_wow64 = False, handles = new_handle_table, opened = True, ioctl = sample_ioctl, completes_later = \<lambda>_ _. False\<rparr>"

definition sample_handle :: u64 where "sample_handle = 0xFFFF800012345678"

definition sample_buffer :: driver_buffer where
  "sample_buffer = \<lparr>m_dwDeviceFlags = 1, m_Length = 60, m_IBuffer = \<lambda>i. of_nat i, m_Flags = 0, m_8021q = 0, m_FilterID = 0, m_Reserved = [0, 0, 0, 0]\<rparr>"

theorem listed_adapters_translate_witness:
  "From32to64Handle (Update [sample_handle, 5] (Update [7, sample_handle] new_handle_table))
     (From64to32Handle (Update [7, sample_handle] new_handle_table) sample_handle) = Some sample_handle"
proof -
  let ?t = "Update [7, sample_handle] new_handle_table"
  have hs: "listing [7, sample_handle]" "listing [sample_handle, 5]"
    by (simp_all add: listing_def sample_handle_def ADAPTER_LIST_SIZE_def)
  have "From64to32Handle ?t sample_handle \<noteq> 0"
    using Update_ok [of new_handle_table "[7, sample_handle]"] hs(1)
    by (auto simp: Update_def new_handle_table_def ADAPTER_LIST_SIZE_def From64to32Handle_def sample_handle_def upt_rec nth_list_update split: option.split)
  then show ?thesis
    using listed_adapters_translate [of "[[7, sample_handle]]" "[sample_handle, 5]" sample_handle ?t] hs by auto
qed


end
