(* ===== verification/Owner_Module.thy ===== *)
theory Owner_Module
  imports Process_Lookup
begin

text \<open>
  \<^verbatim>\<open>owner_module_resolver\<close> (iphelper/owner_module_resolver.h): the name of a process or service by
  process identifier and service tag, with a cache of five minutes over the calls of Windows, and
  the privilege that is switched on for them.  What Windows answers is a parameter.
\<close>

section \<open>Identity of a process\<close>

text \<open>A process identifier is used again; with the time of creation it is not.\<close>

datatype process_identity =
  Process_identity (identity_pid: u32) (creation_low: u32) (creation_high: u32)

instantiation process_identity :: linorder
begin

definition less_process_identity :: "process_identity \<Rightarrow> process_identity \<Rightarrow> bool" where
  "less_process_identity a b \<longleftrightarrow>
     (if identity_pid a \<noteq> identity_pid b then identity_pid a < identity_pid b
      else if creation_high a \<noteq> creation_high b then creation_high a < creation_high b
      else creation_low a < creation_low b)"

definition less_eq_process_identity :: "process_identity \<Rightarrow> process_identity \<Rightarrow> bool" where
  "less_eq_process_identity a b \<longleftrightarrow> a < b \<or> a = b"

instance
proof
  fix a b c :: process_identity
  show "a \<le> a"
    by (simp add: less_eq_process_identity_def)
  show "a < b \<longleftrightarrow> a \<le> b \<and> \<not> b \<le> a"
    by (cases a; cases b) (auto simp: less_eq_process_identity_def less_process_identity_def)
  show "a \<le> b \<Longrightarrow> b \<le> c \<Longrightarrow> a \<le> c"
    by (cases a; cases b; cases c) (auto simp: less_eq_process_identity_def less_process_identity_def split: if_splits)
  show "a \<le> b \<Longrightarrow> b \<le> a \<Longrightarrow> a = b"
    by (cases a; cases b) (auto simp: less_eq_process_identity_def less_process_identity_def split: if_splits)
  show "a \<le> b \<or> b \<le> a"
    by (cases a; cases b) (auto simp: less_eq_process_identity_def less_process_identity_def)
qed

end

section \<open>What Windows is asked\<close>

datatype process_access = Full_access | Limited_access

text \<open>
  A buffer of \<open>n\<close> characters for \<^verbatim>\<open>GetModuleFileNameExW\<close> comes back with the number of characters
  and its contents; for \<^verbatim>\<open>QueryFullProcessImageNameW\<close> it holds the name, or is too small (\<open>True\<close>), or
  the call fails otherwise (\<open>False\<close>).  \<open>win_tag_query\<close> is \<^verbatim>\<open>I_QueryTagInformation\<close>, which may be missing.
\<close>

record windows =
  win_open :: "process_access \<Rightarrow> u32 \<Rightarrow> nat option"
  win_times :: "nat \<Rightarrow> (u32 \<times> u32) option"
  win_module_name :: "nat \<Rightarrow> nat \<Rightarrow> nat \<times> wstring"
  win_image_name :: "nat \<Rightarrow> nat \<Rightarrow> wstring + bool"
  win_tag_query :: "(u32 \<Rightarrow> u32 \<Rightarrow> wstring option) option"

definition get_process_identity :: "windows \<Rightarrow> u32 \<Rightarrow> process_identity option" where
  "get_process_identity w pid = do {
     h \<leftarrow> win_open w Limited_access pid;
     (low, high) \<leftarrow> win_times w h;
     Some (Process_identity pid low high)
   }"

section \<open>The path of a process\<close>

definition max_path_buffer_size :: nat where "max_path_buffer_size = 32768"

text \<open>The size of the buffer after it was doubled \<open>i\<close> times.\<close>

definition path_buffer :: "nat \<Rightarrow> nat" where "path_buffer i = 520 * 2 ^ i"

lemma path_buffer_grows:
  "\<not> max_path_buffer_size \<le> path_buffer i \<Longrightarrow>
   max_path_buffer_size - path_buffer (Suc i) < max_path_buffer_size - path_buffer i"
  by (rule diff_less_mono2) (simp_all add: path_buffer_def)

function query_image_name :: "(nat \<Rightarrow> wstring + bool) \<Rightarrow> nat \<Rightarrow> wstring option" where
  "query_image_name ask i =
     (if max_path_buffer_size \<le> path_buffer i then None
      else case ask (path_buffer i) of
        Inl name \<Rightarrow> Some name
      | Inr too_small \<Rightarrow> if too_small then query_image_name ask (Suc i) else None)"
  by pat_completeness auto

termination
  by (relation "measure (\<lambda>(_, i). max_path_buffer_size - path_buffer i)") (simp_all add: path_buffer_grows)

text \<open>\<open>got\<close> characters were written; as many as the buffer has room for: the name may be longer.\<close>

function module_path :: "(nat \<Rightarrow> nat \<times> wstring) \<Rightarrow> (nat \<Rightarrow> wstring + bool) \<Rightarrow> nat \<Rightarrow> wstring option" where
  "module_path module_name ask i =
     (let (got, buf) = module_name (path_buffer i) in
      if got = 0 then query_image_name ask i
      else if got < path_buffer i then Some (take got buf)
      else if max_path_buffer_size \<le> path_buffer i then None
      else module_path module_name ask (Suc i))"
  by pat_completeness auto

termination
  by (relation "measure (\<lambda>(_, _, i). max_path_buffer_size - path_buffer i)") (simp_all add: path_buffer_grows)

declare query_image_name.simps [simp del] module_path.simps [simp del]

definition is_separator :: "u16 \<Rightarrow> bool" where
  "is_separator c \<longleftrightarrow> c = 0x5C \<or> c = 0x2F"

definition basename_from_path :: "wstring \<Rightarrow> wstring" where
  "basename_from_path path = rev (takeWhile (\<lambda>c. \<not> is_separator c) (rev path))"

text \<open>Results are the name and the path; what the output holds after a failure is never looked at.\<close>

definition resolve_by_process_image :: "windows \<Rightarrow> u32 \<Rightarrow> (wstring \<times> wstring) option" where
  "resolve_by_process_image w pid = do {
     h \<leftarrow> (case win_open w Full_access pid of Some h \<Rightarrow> Some h | None \<Rightarrow> win_open w Limited_access pid);
     path \<leftarrow> module_path (win_module_name w h) (win_image_name w h) 0;
     (if basename_from_path path \<noteq> [] then Some (basename_from_path path, path) else None)
   }"

definition resolve_by_service_tag :: "windows \<Rightarrow> u32 \<Rightarrow> u32 \<Rightarrow> (wstring \<times> wstring) option" where
  "resolve_by_service_tag w pid tag = do {
     query \<leftarrow> win_tag_query w;
     svc \<leftarrow> query pid tag;
     (if svc \<noteq> [] then Some (svc, svc) else None)
   }"

definition resolve_from_pid_and_tag_uncached :: "windows \<Rightarrow> u32 \<Rightarrow> u32 \<Rightarrow> (wstring \<times> wstring) option" where
  "resolve_from_pid_and_tag_uncached w pid tag =
     (if tag = 0 then resolve_by_process_image w pid else resolve_by_service_tag w pid tag)"

section \<open>The cache\<close>

type_synonym cache_key = "process_identity \<times> u32"

record cache_entry =
  entry_data :: "wstring \<times> wstring"
  entry_timestamp :: time_point

text \<open>
  The entries in the order of iteration, each key once.  The time of the last cleanup is a static
  variable, set by the clock when it is first looked at.
\<close>

record module_cache =
  cache_entries :: "(cache_key \<times> cache_entry) list"
  last_cleanup :: "time_point option"

definition new_module_cache :: module_cache where
  "new_module_cache = \<lparr>cache_entries = [], last_cleanup = None\<rparr>"

definition max_cache_entries :: nat where "max_cache_entries = 10000"
definition cache_duration :: time_point where "cache_duration = minutes 5"
definition cleanup_interval :: time_point where "cleanup_interval = minutes 10"

definition cleanup_cache_if_needed :: "time_point \<Rightarrow> time_point \<Rightarrow> module_cache \<Rightarrow> module_cache" where
  "cleanup_cache_if_needed clock now c =
     (let last = (case last_cleanup c of None \<Rightarrow> clock | Some t \<Rightarrow> t) in
      if now - last < cleanup_interval then c\<lparr>last_cleanup := Some last\<rparr>
      else c\<lparr>last_cleanup := Some now,
             cache_entries := erase_if (\<lambda>(_, e). cache_duration \<le> now - entry_timestamp e) (cache_entries c)\<rparr>)"

definition erase_oldest :: "module_cache \<Rightarrow> module_cache" where
  "erase_oldest c =
     (if cache_entries c = [] then c
      else let oldest = fst (arg_min_list (\<lambda>(_, e). entry_timestamp e) (cache_entries c))
           in c\<lparr>cache_entries := erase_if (\<lambda>(k, _). k = oldest) (cache_entries c)\<rparr>)"

definition make_room :: "time_point \<Rightarrow> time_point \<Rightarrow> module_cache \<Rightarrow> module_cache" where
  "make_room clock now c =
     (if max_cache_entries \<le> length (cache_entries c)
      then let c = cleanup_cache_if_needed clock now c
           in if max_cache_entries \<le> length (cache_entries c) then erase_oldest c else c
      else c)"

definition remember :: "time_point \<Rightarrow> time_point \<Rightarrow> cache_key \<Rightarrow> wstring \<times> wstring \<Rightarrow> module_cache \<Rightarrow> module_cache" where
  "remember clock now key data c =
     (let c = make_room clock now c;
          entry = \<lparr>entry_data = data, entry_timestamp = now\<rparr>
      in cleanup_cache_if_needed clock now
           (c\<lparr>cache_entries := (key, entry) # erase_if (\<lambda>(k, _). k = key) (cache_entries c)\<rparr>))"

definition cached_answer :: "time_point \<Rightarrow> cache_key \<Rightarrow> module_cache \<Rightarrow> (wstring \<times> wstring) option" where
  "cached_answer now key c =
     (case map_of (cache_entries c) key of
        None \<Rightarrow> None
      | Some e \<Rightarrow> if now - entry_timestamp e < cache_duration then Some (entry_data e) else None)"

definition resolve_from_pid_and_tag_cached ::
  "windows \<Rightarrow> time_point \<Rightarrow> time_point \<Rightarrow> u32 \<Rightarrow> u32 \<Rightarrow> module_cache \<Rightarrow> (wstring \<times> wstring) option \<times> module_cache" where
  "resolve_from_pid_and_tag_cached w now clock pid tag c =
     (case get_process_identity w pid of
        None \<Rightarrow> (resolve_from_pid_and_tag_uncached w pid tag, c)
      | Some p \<Rightarrow>
          (case cached_answer now (p, tag) c of
             Some data \<Rightarrow> (if fst data \<noteq> [] then Some data else None, c)
           | None \<Rightarrow>
               (case resolve_from_pid_and_tag_uncached w pid tag of
                  None \<Rightarrow> (None, c)
                | Some data \<Rightarrow> (Some data, remember clock now (p, tag) data c))))"

definition clear_cache :: "module_cache \<Rightarrow> module_cache" where
  "clear_cache c = c\<lparr>cache_entries := []\<rparr>"

definition get_cache_stats :: "time_point \<Rightarrow> module_cache \<Rightarrow> nat \<times> nat" where
  "get_cache_stats now c =
     (length (filter (\<lambda>(_, e). now - entry_timestamp e < cache_duration) (cache_entries c)), length (cache_entries c))"

definition is_valid_service_tag :: "u32 \<Rightarrow> bool" where
  "is_valid_service_tag tag \<longleftrightarrow> 0 < tag \<and> tag \<noteq> 0xFFFFFFFF"

definition get_process_name_only ::
  "windows \<Rightarrow> time_point \<Rightarrow> time_point \<Rightarrow> u32 \<Rightarrow> module_cache \<Rightarrow> wstring \<times> module_cache" where
  "get_process_name_only w now clock pid c =
     (case resolve_from_pid_and_tag_cached w now clock pid 0 c of
        (Some data, c) \<Rightarrow> (fst data, c)
      | (None, c) \<Rightarrow> ([], c))"

section \<open>What the cache guarantees\<close>

definition cache_ok :: "module_cache \<Rightarrow> bool" where
  "cache_ok c \<longleftrightarrow> distinct (map fst (cache_entries c)) \<and> length (cache_entries c) \<le> max_cache_entries"

lemma distinct_keys_erase_if: "distinct (map fst xs) \<Longrightarrow> distinct (map fst (erase_if p xs))"
  by (auto simp: erase_if_filter intro: distinct_map_filter)

lemma length_erase_if: "length (erase_if p xs) \<le> length xs"
  by (simp add: erase_if_filter)

lemma length_erase_if_member: "x \<in> set xs \<Longrightarrow> p x \<Longrightarrow> length (erase_if p xs) < length xs"
  unfolding erase_if_filter by (rule length_filter_less) auto

lemma cleanup_ok: "cache_ok c \<Longrightarrow> cache_ok (cleanup_cache_if_needed clock now c)"
  using length_erase_if [of "\<lambda>(_, e). cache_duration \<le> now - entry_timestamp e" "cache_entries c"]
  by (simp add: cache_ok_def cleanup_cache_if_needed_def Let_def distinct_keys_erase_if)

lemma cleanup_entries: "set (cache_entries (cleanup_cache_if_needed clock now c)) \<subseteq> set (cache_entries c)"
  by (auto simp: cleanup_cache_if_needed_def Let_def erase_if_filter)

lemma erase_oldest_ok:
  assumes "cache_ok c"
  shows "distinct (map fst (cache_entries (erase_oldest c))) \<and> length (cache_entries (erase_oldest c)) < max_cache_entries"
proof (cases "cache_entries c = []")
  case True
  then show ?thesis
    by (simp add: erase_oldest_def max_cache_entries_def)
next
  case False
  let ?o = "arg_min_list (\<lambda>(_, e). entry_timestamp e) (cache_entries c)"
  have "length (erase_if (\<lambda>(k, _). k = fst ?o) (cache_entries c)) < length (cache_entries c)"
    using arg_min_list_in [OF False, of "\<lambda>(_, e). entry_timestamp e"]
    by (rule length_erase_if_member) (simp add: case_prod_unfold)
  then show ?thesis
    using assms False by (simp add: cache_ok_def erase_oldest_def Let_def distinct_keys_erase_if)
qed

lemma make_room_ok:
  assumes "cache_ok c"
  shows "distinct (map fst (cache_entries (make_room clock now c))) \<and> length (cache_entries (make_room clock now c)) < max_cache_entries"
  using assms erase_oldest_ok [OF cleanup_ok [OF assms]] cleanup_ok [OF assms]
  by (simp add: make_room_def Let_def cache_ok_def not_le)

lemma make_room_entries: "set (cache_entries (make_room clock now c)) \<subseteq> set (cache_entries c)"
  using cleanup_entries [of clock now c] by (auto simp: make_room_def erase_oldest_def Let_def erase_if_filter)

lemma remember_ok:
  assumes "cache_ok c"
  shows "cache_ok (remember clock now key data c)"
proof -
  let ?es = "erase_if (\<lambda>(k, _). k = key) (cache_entries (make_room clock now c))"
  have "distinct (map fst ?es)" "length ?es < max_cache_entries"
    using make_room_ok [OF assms, of clock now] length_erase_if [of "\<lambda>(k, _). k = key" "cache_entries (make_room clock now c)"]
    by (simp_all add: distinct_keys_erase_if)
  moreover have "key \<notin> fst ` set ?es"
    by (auto simp: erase_if_filter)
  ultimately show ?thesis
    unfolding remember_def Let_def by (intro cleanup_ok) (simp add: cache_ok_def)
qed

lemma remember_entries:
  "set (cache_entries (remember clock now key data c)) \<subseteq>
     insert (key, \<lparr>entry_data = data, entry_timestamp = now\<rparr>) (set (cache_entries c))"
proof -
  let ?e = "(key, \<lparr>entry_data = data, entry_timestamp = now\<rparr>)"
  let ?c = "make_room clock now c\<lparr>cache_entries := ?e # erase_if (\<lambda>(k, _). k = key) (cache_entries (make_room clock now c))\<rparr>"
  have "set (cache_entries ?c) \<subseteq> insert ?e (set (cache_entries c))"
    using make_room_entries [of clock now c] by (auto simp: erase_if_filter)
  then show ?thesis
    using cleanup_entries [of clock now ?c] unfolding remember_def Let_def by blast
qed

text \<open>A use of the resolver: what Windows answers, the clocks, and the question.\<close>

record request =
  req_windows :: windows
  req_now :: time_point
  req_clock :: time_point
  req_pid :: u32
  req_tag :: u32

definition asked_identity :: "request \<Rightarrow> process_identity option" where
  "asked_identity r = get_process_identity (req_windows r) (req_pid r)"

definition fresh_answer :: "request \<Rightarrow> (wstring \<times> wstring) option" where
  "fresh_answer r = resolve_from_pid_and_tag_uncached (req_windows r) (req_pid r) (req_tag r)"

definition serve_one :: "request \<Rightarrow> module_cache \<Rightarrow> (wstring \<times> wstring) option \<times> module_cache" where
  "serve_one r = resolve_from_pid_and_tag_cached (req_windows r) (req_now r) (req_clock r) (req_pid r) (req_tag r)"

fun serve :: "request list \<Rightarrow> module_cache \<Rightarrow> (wstring \<times> wstring) option list \<times> module_cache" where
  "serve [] c = ([], c)"
| "serve (r # rs) c = (let (a, c) = serve_one r c; (as, c) = serve rs c in (a # as, c))"

text \<open>Every entry was found by an earlier request, for the process and tag of its key.\<close>

definition entry_found :: "request list \<Rightarrow> cache_key \<times> cache_entry \<Rightarrow> bool" where
  "entry_found past ke \<longleftrightarrow>
     (\<exists>q \<in> set past. asked_identity q = Some (fst (fst ke)) \<and> req_tag q = snd (fst ke) \<and>
        req_now q = entry_timestamp (snd ke) \<and> fresh_answer q = Some (entry_data (snd ke)))"

definition cache_found :: "request list \<Rightarrow> module_cache \<Rightarrow> bool" where
  "cache_found past c \<longleftrightarrow> list_all (entry_found past) (cache_entries c)"

definition answer_ok :: "request list \<Rightarrow> request \<Rightarrow> (wstring \<times> wstring) option \<Rightarrow> bool" where
  "answer_ok past r a \<longleftrightarrow>
     (case a of
        None \<Rightarrow> fresh_answer r = None
      | Some data \<Rightarrow>
          fresh_answer r = Some data \<or>
          (\<exists>q \<in> set past. fresh_answer q = Some data \<and> req_tag q = req_tag r \<and> asked_identity q = asked_identity r \<and>
             asked_identity r \<noteq> None \<and> req_now r - req_now q < cache_duration))"

lemma fresh_answer_named: "fresh_answer r = Some data \<Longrightarrow> fst data \<noteq> []"
  by (auto simp: fresh_answer_def resolve_from_pid_and_tag_uncached_def resolve_by_process_image_def resolve_by_service_tag_def
      bind_eq_Some_conv split: if_splits)

lemma entry_found_mono: "entry_found past ke \<Longrightarrow> entry_found (past @ rs) ke"
  by (auto simp: entry_found_def)

lemma serve_one_ok:
  assumes "cache_ok c" "cache_found past c" "serve_one r c = (a, c')"
  shows "cache_ok c' \<and> cache_found (past @ [r]) c' \<and> answer_ok past r a"
proof -
  have old: "cache_found (past @ [r]) c"
    using assms(2) entry_found_mono by (auto simp: cache_found_def list_all_iff)
  note s = assms(3) [unfolded serve_one_def resolve_from_pid_and_tag_cached_def, folded asked_identity_def fresh_answer_def]
  show ?thesis
  proof (cases "asked_identity r")
    case None
    then show ?thesis
      using assms(1) s old by (simp add: answer_ok_def split: option.splits)
  next
    case (Some p)
    show ?thesis
    proof (cases "cached_answer (req_now r) (p, req_tag r) c")
      case (Some data)
      then obtain e where e: "((p, req_tag r), e) \<in> set (cache_entries c)" "req_now r - entry_timestamp e < cache_duration" "data = entry_data e"
        by (auto simp: cached_answer_def dest: map_of_SomeD split: option.splits if_splits)
      then have "entry_found past ((p, req_tag r), e)"
        using assms(2) by (auto simp: cache_found_def list_all_iff)
      then obtain q where q: "q \<in> set past" "asked_identity q = Some p" "req_tag q = req_tag r" "req_now q = entry_timestamp e"
        "fresh_answer q = Some data"
        using e(3) by (auto simp: entry_found_def)
      then have "a = Some data" "c' = c"
        using s Some \<open>asked_identity r = Some p\<close> fresh_answer_named [OF q(5)] by simp_all
      then show ?thesis
        using assms(1) old q e \<open>asked_identity r = Some p\<close> unfolding answer_ok_def by fastforce
    next
      case None
      show ?thesis
      proof (cases "fresh_answer r")
        case (Some data)
        let ?c = "remember (req_clock r) (req_now r) (p, req_tag r) data c"
        have a: "a = Some data" "c' = ?c"
          using s None Some \<open>asked_identity r = Some p\<close> by simp_all
        have "entry_found (past @ [r]) ((p, req_tag r), \<lparr>entry_data = data, entry_timestamp = req_now r\<rparr>)"
          using Some \<open>asked_identity r = Some p\<close> by (simp add: entry_found_def)
        then have "cache_found (past @ [r]) ?c"
          using remember_entries [of "req_clock r" "req_now r" "(p, req_tag r)" data c] old
          by (auto simp: cache_found_def list_all_iff)
        then show ?thesis
          using a Some remember_ok [OF assms(1)] by (simp add: answer_ok_def)
      qed (use s None assms(1) old \<open>asked_identity r = Some p\<close> in \<open>simp add: answer_ok_def\<close>)
    qed
  qed
qed

lemma serve_ok:
  "cache_ok c \<Longrightarrow> cache_found past c \<Longrightarrow> serve rs c = (as, c') \<Longrightarrow>
   cache_ok c' \<and> length as = length rs \<and> (\<forall>i < length rs. answer_ok (past @ take i rs) (rs ! i) (as ! i))"
proof (induction rs arbitrary: c past as c')
  case (Cons r rs)
  obtain a d where one: "serve_one r c = (a, d)" by fastforce
  obtain bs e where rest: "serve rs d = (bs, e)" by fastforce
  note ok = serve_one_ok [OF Cons.prems(1,2) one]
  have all: "as = a # bs" "c' = e"
    using Cons.prems(3) one rest by simp_all
  have "cache_ok e \<and> length bs = length rs \<and> (\<forall>i < length rs. answer_ok ((past @ [r]) @ take i rs) (rs ! i) (bs ! i))"
    using Cons.IH [of d "past @ [r]"] ok rest by blast
  then show ?case
    using ok all by (auto simp: nth_Cons' take_Cons' less_Suc_eq_0_disj)
qed simp

text \<open>
  C25: whatever Windows answers from one request to the next, the cache never holds more than 10000
  entries, and a name it gives was found less than five minutes ago for the same process (identifier
  and time of creation) and service tag, or is what Windows says now; nothing is given only if
  nothing is found now.
\<close>

theorem cached_owner_recent:
  assumes "serve requests new_module_cache = (answers, c)" "i < length requests"
  shows "length (cache_entries c) \<le> 10000 \<and>
    (case answers ! i of
       None \<Rightarrow> fresh_answer (requests ! i) = None
     | Some data \<Rightarrow>
         fresh_answer (requests ! i) = Some data \<or>
         (\<exists>q \<in> set (take i requests). fresh_answer q = Some data \<and> req_tag q = req_tag (requests ! i) \<and>
            asked_identity q = asked_identity (requests ! i) \<and> asked_identity (requests ! i) \<noteq> None \<and>
            req_now (requests ! i) - req_now q < minutes 5))"
proof -
  have "cache_ok new_module_cache" "cache_found [] new_module_cache"
    by (simp_all add: cache_ok_def cache_found_def new_module_cache_def)
  from serve_ok [OF this assms(1)] have "cache_ok c" "answer_ok (take i requests) (requests ! i) (answers ! i)"
    using assms(2) by simp_all
  then show ?thesis
    unfolding cache_ok_def answer_ok_def max_cache_entries_def cache_duration_def by blast
qed

section \<open>Paths\<close>

text \<open>
  Windows as documented, for a process whose path is \<open>path\<close>: a buffer that is too small is filled,
  and is as long as the number returned.
\<close>

definition names_module :: "(nat \<Rightarrow> nat \<times> wstring) \<Rightarrow> wstring \<Rightarrow> bool" where
  "names_module ask path \<longleftrightarrow>
     (\<forall>n. if length path < n then fst (ask n) = length path \<and> take (length path) (snd (ask n)) = path else fst (ask n) = n)"

definition names_image :: "(nat \<Rightarrow> wstring + bool) \<Rightarrow> wstring \<Rightarrow> bool" where
  "names_image ask path \<longleftrightarrow> (\<forall>n. ask n = (if length path < n then Inl path else Inr True))"

lemma path_buffer_mono: "i \<le> j \<Longrightarrow> path_buffer i \<le> path_buffer j"
  by (simp add: path_buffer_def power_increasing)

lemma path_buffer_5: "i \<le> 5 \<Longrightarrow> \<not> max_path_buffer_size \<le> path_buffer i"
  using path_buffer_mono [of i 5] by (simp add: path_buffer_def max_path_buffer_size_def)

lemma query_image_name_step:
  assumes "names_image ask path" "\<not> max_path_buffer_size \<le> path_buffer i"
  shows "query_image_name ask i = (if length path < path_buffer i then Some path else query_image_name ask (Suc i))"
proof -
  have "ask (path_buffer i) = (if length path < path_buffer i then Inl path else Inr True)"
    using assms(1) unfolding names_image_def by blast
  then show ?thesis
    using assms(2) by (subst query_image_name.simps) simp
qed

lemma query_image_name_exact:
  assumes "names_image ask path" "i \<le> 5"
  shows "query_image_name ask i = (if length path < path_buffer 5 then Some path else None)"
  using assms(2)
proof (induction i rule: inc_induct)
  case base
  have "query_image_name ask 6 = None"
    by (subst query_image_name.simps) (simp add: max_path_buffer_size_def path_buffer_def)
  then show ?case
    using query_image_name_step [OF assms(1) path_buffer_5, of 5] by simp
next
  case (step i)
  then show ?case
    using query_image_name_step [OF assms(1) path_buffer_5, of i] path_buffer_mono [of i 5] by simp
qed

lemma module_path_step:
  assumes "names_module ask path" "path \<noteq> []" "path_buffer i \<noteq> 0"
  shows "module_path ask img i =
    (if length path < path_buffer i then Some path
     else if max_path_buffer_size \<le> path_buffer i then None else module_path ask img (Suc i))"
proof -
  obtain got buf where ask: "ask (path_buffer i) = (got, buf)" by fastforce
  have "if length path < path_buffer i
        then fst (ask (path_buffer i)) = length path \<and> take (length path) (snd (ask (path_buffer i))) = path
        else fst (ask (path_buffer i)) = path_buffer i"
    using assms(1) unfolding names_module_def by blast
  then show ?thesis
    using assms(2,3) ask by (subst module_path.simps) (auto split: if_splits)
qed

lemma module_path_exact:
  assumes "names_module ask path" "path \<noteq> []" "i \<le> 6"
  shows "module_path ask img i = (if length path < path_buffer 6 then Some path else None)"
  using assms(3)
proof (induction i rule: inc_induct)
  case base
  then show ?case
    using module_path_step [OF assms(1,2), of 6 img] by (simp add: max_path_buffer_size_def path_buffer_def)
next
  case (step i)
  then show ?case
    using module_path_step [OF assms(1,2), of i img] path_buffer_mono [of i 6] path_buffer_5 [of i] by (simp add: path_buffer_def)
qed

text \<open>
  For a Windows that names processes as documented, the path of a process that may be read is
  found exactly up to 33279 characters, and of one that may not up to 16639, half of what the comment
  of the limit says; its name is what follows the last separator.
\<close>

theorem process_image_exact:
  assumes "win_open w Full_access pid = Some h \<or> win_open w Full_access pid = None \<and> win_open w Limited_access pid = Some h"
    and "(if readable then names_module (win_module_name w h) path else (\<forall>n. fst (win_module_name w h n) = 0))"
    and "names_image (win_image_name w h) path" "path = folder @ separator # name" "is_separator separator"
    and "list_all (\<lambda>c. \<not> is_separator c) name" "name \<noteq> []"
  shows "resolve_from_pid_and_tag_uncached w pid 0 =
    (if length path < (if readable then 33280 else 16640) then Some (name, path) else None)"
proof -
  have "basename_from_path path = name"
  proof -
    have "takeWhile (\<lambda>c. \<not> is_separator c) (rev name @ separator # rev folder) = rev name"
      using assms(5,6) by (subst takeWhile_append2) (auto simp: list_all_iff)
    then show ?thesis
      by (simp add: basename_from_path_def assms(4))
  qed
  moreover have "module_path (win_module_name w h) (win_image_name w h) 0 =
      (if length path < (if readable then 33280 else 16640) then Some path else None)"
  proof (cases readable)
    case True
    then show ?thesis
      using module_path_exact [of "win_module_name w h" path 0 "win_image_name w h"] assms(2,4) by (simp add: path_buffer_def)
  next
    case False
    then have "fst (win_module_name w h (path_buffer 0)) = 0"
      using assms(2) by simp
    then have "module_path (win_module_name w h) (win_image_name w h) 0 = query_image_name (win_image_name w h) 0"
      by (subst module_path.simps) (simp add: case_prod_unfold Let_def)
    then show ?thesis
      using query_image_name_exact [OF assms(3), of 0] False by (simp add: path_buffer_def)
  qed
  ultimately show ?thesis
    using assms(1,7) by (auto simp: resolve_from_pid_and_tag_uncached_def resolve_by_process_image_def split: option.splits)
qed

section \<open>The privilege\<close>

text \<open>
  \<^verbatim>\<open>debug_privilege_toggle\<close>: the constructor looks whether the debug privilege is on and then switches
  it on; the destructor switches it off when the constructor found it off.  The privilege belongs to the
  whole program; each thread that resolves a process has an object of its own.
\<close>

datatype toggle_phase = Not_built | Looked bool | Built bool | Destroyed

inductive toggle_step :: "bool \<times> (nat \<Rightarrow> toggle_phase) \<Rightarrow> bool \<times> (nat \<Rightarrow> toggle_phase) \<Rightarrow> bool" where
  no_token: "ts t = Not_built \<Longrightarrow> toggle_step (on, ts) (on, ts(t := Built False))"
| look: "ts t = Not_built \<Longrightarrow> toggle_step (on, ts) (on, ts(t := Looked on))"
| switched_on: "ts t = Looked was_enabled \<Longrightarrow> toggle_step (on, ts) (True, ts(t := Built (\<not> was_enabled)))"
| not_assigned: "ts t = Looked was_enabled \<Longrightarrow> toggle_step (on, ts) (on, ts(t := Built False))"
| destroyed: "ts t = Built need_revert \<Longrightarrow> toggle_step (on, ts) (on \<and> \<not> need_revert, ts(t := Destroyed))"
| stays_on: "ts t = Built True \<Longrightarrow> toggle_step (on, ts) (on, ts(t := Destroyed))"

inductive_simps toggle_step_simps: "toggle_step (on, ts) (on', ts')"

text \<open>
  Two threads that resolve processes at the same time can leave the debug privilege of the
  program switched on, although it was off and both have put it back as they found it.
\<close>

theorem debug_privilege_leaks:
  assumes "ts t = Not_built" "ts u = Not_built" "t \<noteq> u"
  shows "\<exists>ts'. toggle_step\<^sup>*\<^sup>* (False, ts) (True, ts') \<and> ts' t = Destroyed \<and> ts' u = Destroyed \<and>
    (\<forall>v. v \<noteq> t \<and> v \<noteq> u \<longrightarrow> ts' v = ts v)"
proof -
  let ?ts = "\<lambda>p q. ts(t := p, u := q)"
  have ts: "ts = ?ts Not_built Not_built"
    using assms by (intro ext) simp
  have "toggle_step (False, ?ts Not_built Not_built) (False, ?ts (Looked False) Not_built)"
    using toggle_step.look [of "?ts Not_built Not_built" t False] assms(3) by (simp add: fun_upd_twist)
  moreover have "toggle_step (False, ?ts (Looked False) Not_built) (True, ?ts (Built True) Not_built)"
    using toggle_step.switched_on [of "?ts (Looked False) Not_built" t False False] assms(3) by (simp add: fun_upd_twist)
  moreover have "toggle_step (True, ?ts (Built True) Not_built) (True, ?ts (Built True) (Looked True))"
    using toggle_step.look [of "?ts (Built True) Not_built" u True] by simp
  moreover have "toggle_step (True, ?ts (Built True) (Looked True)) (False, ?ts Destroyed (Looked True))"
    using toggle_step.destroyed [of "?ts (Built True) (Looked True)" t True True] assms(3) by (simp add: fun_upd_twist)
  moreover have "toggle_step (False, ?ts Destroyed (Looked True)) (True, ?ts Destroyed (Built False))"
    using toggle_step.switched_on [of "?ts Destroyed (Looked True)" u True False] by simp
  moreover have "toggle_step (True, ?ts Destroyed (Built False)) (True, ?ts Destroyed Destroyed)"
    using toggle_step.destroyed [of "?ts Destroyed (Built False)" u False True] by simp
  ultimately have "toggle_step\<^sup>*\<^sup>* (False, ?ts Not_built Not_built) (True, ?ts Destroyed Destroyed)"
    by (meson converse_rtranclp_into_rtranclp rtranclp.rtrancl_refl)
  then show ?thesis
    using ts assms(3) by (intro exI [of _ "?ts Destroyed Destroyed"]) simp
qed

section \<open>Witnesses\<close>

text \<open>One process with one service, whose name changes; and a path for everything that may be read.\<close>

definition sample_windows :: "wstring \<Rightarrow> windows" where
  "sample_windows svc =
     \<lparr>win_open = \<lambda>_ pid. Some (unat pid), win_times = \<lambda>_. Some (7, 9),
      win_module_name = \<lambda>_ n. if 8 < n then (8, wide ''C:/a.exe'') else (n, take n (wide ''C:/a.exe'')),
      win_image_name = \<lambda>_ n. if 8 < n then Inl (wide ''C:/a.exe'') else Inr True,
      win_tag_query = Some (\<lambda>_ _. Some svc)\<rparr>"

definition sample_requests :: "request list" where
  "sample_requests =
     [\<lparr>req_windows = sample_windows (wide ''one''), req_now = 0, req_clock = 0, req_pid = 40, req_tag = 3\<rparr>,
      \<lparr>req_windows = sample_windows (wide ''two''), req_now = minutes 4, req_clock = minutes 4, req_pid = 40, req_tag = 3\<rparr>]"

theorem cached_owner_recent_witness:
  "length (cache_entries (snd (serve sample_requests new_module_cache))) \<le> 10000 \<and>
   (case fst (serve sample_requests new_module_cache) ! 1 of
      None \<Rightarrow> fresh_answer (sample_requests ! 1) = None
    | Some data \<Rightarrow>
        fresh_answer (sample_requests ! 1) = Some data \<or>
        (\<exists>q \<in> set (take 1 sample_requests). fresh_answer q = Some data \<and> req_tag q = req_tag (sample_requests ! 1) \<and>
           asked_identity q = asked_identity (sample_requests ! 1) \<and> asked_identity (sample_requests ! 1) \<noteq> None \<and>
           req_now (sample_requests ! 1) - req_now q < minutes 5))"
  by (rule cached_owner_recent [OF prod.collapse [symmetric]]) (simp add: sample_requests_def)

theorem process_image_exact_witness:
  "resolve_from_pid_and_tag_uncached (sample_windows []) 40 0 = Some (wide ''a.exe'', wide ''C:/a.exe'')"
proof -
  have "win_open (sample_windows []) Full_access 40 = Some 40"
    "names_module (win_module_name (sample_windows []) 40) (wide ''C:/a.exe'')"
    "names_image (win_image_name (sample_windows []) 40) (wide ''C:/a.exe'')"
    "wide ''C:/a.exe'' = wide ''C:'' @ 0x2F # wide ''a.exe''" "is_separator 0x2F"
    "list_all (\<lambda>c. \<not> is_separator c) (wide ''a.exe'')" "wide ''a.exe'' \<noteq> []"
    by (simp_all add: sample_windows_def names_module_def names_image_def wide_def is_separator_def)
  then show ?thesis
    using process_image_exact [of "sample_windows []" 40 40 True "wide ''C:/a.exe''" "wide ''C:''" "0x2F" "wide ''a.exe''"]
    by (simp add: wide_def)
qed

theorem debug_privilege_leaks_witness:
  "\<exists>ts'. toggle_step\<^sup>*\<^sup>* (False, \<lambda>_. Not_built) (True, ts') \<and> ts' 0 = Destroyed \<and> ts' 1 = Destroyed"
  using debug_privilege_leaks [of "\<lambda>_. Not_built" 0 1] by auto

end
