(* ===== verification/Network_Rows.thy ===== *)
theory Network_Rows
  imports Network_Config
begin

text \<open>
  The operations of \<^verbatim>\<open>network_adapter_info\<close> (iphelper/network_adapter_info.h) that change the tables of
  the system: addresses, routes and neighbours of an interface.  The tables are Windows', behind the
  calls in \<open>ip_stack\<close>; what these do is stated as a hypothesis where a property needs it.
\<close>

section \<open>Rows\<close>

text \<open>\<^verbatim>\<open>SOCKADDR_INET\<close> is a union; the addresses of the two families lie in different bytes of it.\<close>

record sockaddr_inet =
  si_family :: u16
  sin_addr :: ip_address_v4
  sin6_addr :: ip_address_v6

definition AF_UNSPEC :: u16 where "AF_UNSPEC = 0"
definition AF_INET :: u16 where "AF_INET = 2"
definition AF_INET6 :: u16 where "AF_INET6 = 23"

record unicast_row =
  unicast_address :: sockaddr_inet
  unicast_index :: u32
  unicast_luid :: u64
  prefix_origin :: nat
  suffix_origin :: nat
  on_link_prefix_length :: u8
  dad_state :: nat

record forward_row =
  forward_index :: u32
  forward_luid :: u64
  destination :: sockaddr_inet
  destination_length :: u8
  next_hop :: sockaddr_inet
  site_prefix_length :: u8
  route_metric :: u32
  route_protocol :: nat
  route_origin :: nat

record net_row =
  net_address :: sockaddr_inet
  net_index :: u32
  net_luid :: u64
  net_physical :: mac_address
  net_state :: nat
  net_is_router :: bool
  net_is_unreachable :: bool

definition IpOriginManual :: nat where "IpOriginManual = 1"
definition IpDadStatePreferred :: nat where "IpDadStatePreferred = 4"
definition MIB_IPPROTO_NT_STATIC :: nat where "MIB_IPPROTO_NT_STATIC = 10006"
definition NlroManual :: nat where "NlroManual = 0"
definition NlnsPermanent :: nat where "NlnsPermanent = 6"

definition NO_ERROR :: u32 where "NO_ERROR = 0"
definition ERROR_OBJECT_ALREADY_EXISTS :: u32 where "ERROR_OBJECT_ALREADY_EXISTS = 5010"

text \<open>A row to delete comes by a pointer that may be null; \<open>'s\<close> is the state of the system.\<close>

record 's ip_stack =
  initial_unicast :: unicast_row
  initial_forward :: forward_row
  create_unicast :: "unicast_row \<Rightarrow> 's \<Rightarrow> u32 \<times> 's"
  delete_unicast :: "unicast_row option \<Rightarrow> 's \<Rightarrow> u32 \<times> 's"
  unicast_table :: "u16 \<Rightarrow> 's \<Rightarrow> u32 + unicast_row list"
  create_forward :: "forward_row \<Rightarrow> 's \<Rightarrow> u32 \<times> 's"
  delete_forward :: "forward_row option \<Rightarrow> 's \<Rightarrow> u32 \<times> 's"
  forward_table :: "'s \<Rightarrow> u32 + forward_row list"
  create_net :: "net_row \<Rightarrow> 's \<Rightarrow> u32 \<times> 's"
  delete_net :: "net_row option \<Rightarrow> 's \<Rightarrow> u32 \<times> 's"

definition created :: "u32 \<Rightarrow> bool" where
  "created e \<longleftrightarrow> e = NO_ERROR \<or> e = ERROR_OBJECT_ALREADY_EXISTS"

text \<open>The row that was made, or that was there already.\<close>

definition row_if_created :: "('r \<Rightarrow> 's \<Rightarrow> u32 \<times> 's) \<Rightarrow> 'r \<Rightarrow> 's \<Rightarrow> 'r option \<times> 's" where
  "row_if_created create row s = (case create row s of (e, s) \<Rightarrow> (if created e then Some row else None, s))"

definition deleted :: "('r option \<Rightarrow> 's \<Rightarrow> u32 \<times> 's) \<Rightarrow> 'r option \<Rightarrow> 's \<Rightarrow> bool \<times> 's" where
  "deleted delete row s = (case delete row s of (e, s) \<Rightarrow> (e = NO_ERROR, s))"

section \<open>Addresses\<close>

definition manual_address :: "'s ip_stack \<Rightarrow> network_adapter_info \<Rightarrow> u8 \<Rightarrow> unicast_row" where
  "manual_address sys info n =
     (initial_unicast sys)\<lparr>unicast_luid := info_luid info, prefix_origin := IpOriginManual, suffix_origin := IpOriginManual,
       on_link_prefix_length := n, dad_state := IpDadStatePreferred\<rparr>"

definition add_unicast_address_v4 ::
  "'s ip_stack \<Rightarrow> network_adapter_info \<Rightarrow> ip_address_v4 \<Rightarrow> u8 \<Rightarrow> 's \<Rightarrow> unicast_row option \<times> 's" where
  "add_unicast_address_v4 sys info a n =
     row_if_created (create_unicast sys)
       ((manual_address sys info n)
          \<lparr>unicast_index := if_index info, unicast_address := (unicast_address (initial_unicast sys))\<lparr>si_family := AF_INET, sin_addr := a\<rparr>\<rparr>)"

definition add_unicast_address_v6 ::
  "'s ip_stack \<Rightarrow> network_adapter_info \<Rightarrow> ip_address_v6 \<Rightarrow> u8 \<Rightarrow> 's \<Rightarrow> unicast_row option \<times> 's" where
  "add_unicast_address_v6 sys info a n =
     row_if_created (create_unicast sys)
       ((manual_address sys info n)
          \<lparr>unicast_index := ipv6_if_index info, unicast_address := (unicast_address (initial_unicast sys))\<lparr>si_family := AF_INET6, sin6_addr := a\<rparr>\<rparr>)"

definition delete_unicast_row :: "'s ip_stack \<Rightarrow> unicast_row option \<Rightarrow> 's \<Rightarrow> bool \<times> 's" where
  "delete_unicast_row sys = deleted (delete_unicast sys)"

text \<open>The three loops over a table: what is selected is deleted, and whether that fails is not looked at.\<close>

fun delete_selected :: "('r option \<Rightarrow> 's \<Rightarrow> u32 \<times> 's) \<Rightarrow> ('r \<Rightarrow> bool) \<Rightarrow> 'r list \<Rightarrow> 's \<Rightarrow> 's" where
  "delete_selected delete selected [] s = s"
| "delete_selected delete selected (row # rows) s =
     delete_selected delete selected rows (if selected row then snd (delete (Some row) s) else s)"

definition delete_unicast_where :: "'s ip_stack \<Rightarrow> u16 \<Rightarrow> (unicast_row \<Rightarrow> bool) \<Rightarrow> 's \<Rightarrow> bool \<times> 's" where
  "delete_unicast_where sys family selected s =
     (case unicast_table sys family s of
        Inl e \<Rightarrow> (False, s)
      | Inr rows \<Rightarrow> (True, delete_selected (delete_unicast sys) selected rows s))"

definition reset_unicast_addresses :: "'s ip_stack \<Rightarrow> network_adapter_info \<Rightarrow> 's \<Rightarrow> bool \<times> 's" where
  "reset_unicast_addresses sys info = delete_unicast_where sys AF_UNSPEC (\<lambda>r. unicast_luid r = info_luid info)"

definition delete_unicast_address_v4 :: "'s ip_stack \<Rightarrow> network_adapter_info \<Rightarrow> ip_address_v4 \<Rightarrow> 's \<Rightarrow> bool \<times> 's" where
  "delete_unicast_address_v4 sys info a =
     delete_unicast_where sys AF_INET (\<lambda>r. unicast_luid r = info_luid info \<and> sin_addr (unicast_address r) = a)"

definition delete_unicast_address_v6 :: "'s ip_stack \<Rightarrow> network_adapter_info \<Rightarrow> ip_address_v6 \<Rightarrow> 's \<Rightarrow> bool \<times> 's" where
  "delete_unicast_address_v6 sys info a =
     delete_unicast_where sys AF_INET6 (\<lambda>r. unicast_luid r = info_luid info \<and> sin6_addr (unicast_address r) = a)"

section \<open>Routes\<close>

text \<open>A route of the interface; the destination of a default route stays as the system initialised it.\<close>

definition manual_route :: "'s ip_stack \<Rightarrow> network_adapter_info \<Rightarrow> u16 \<Rightarrow> u32 \<Rightarrow> u32 \<Rightarrow> forward_row" where
  "manual_route sys info family index metric =
     (initial_forward sys)\<lparr>forward_index := index, forward_luid := info_luid info,
       destination := (destination (initial_forward sys))\<lparr>si_family := family\<rparr>,
       next_hop := (next_hop (initial_forward sys))\<lparr>si_family := family\<rparr>, site_prefix_length := 0,
       route_metric := metric, route_protocol := MIB_IPPROTO_NT_STATIC, route_origin := NlroManual\<rparr>"

definition route_v4 :: "'s ip_stack \<Rightarrow> network_adapter_info \<Rightarrow> ip_address_v4 \<Rightarrow> u32 \<Rightarrow> forward_row" where
  "route_v4 sys info hop metric =
     (let row = manual_route sys info AF_INET (if_index info) metric in row\<lparr>next_hop := (next_hop row)\<lparr>sin_addr := hop\<rparr>\<rparr>)"

definition route_v6 :: "'s ip_stack \<Rightarrow> network_adapter_info \<Rightarrow> ip_address_v6 \<Rightarrow> u32 \<Rightarrow> forward_row" where
  "route_v6 sys info hop metric =
     (let row = manual_route sys info AF_INET6 (ipv6_if_index info) metric in row\<lparr>next_hop := (next_hop row)\<lparr>sin6_addr := hop\<rparr>\<rparr>)"

definition add_default_gateway_v4 :: "'s ip_stack \<Rightarrow> network_adapter_info \<Rightarrow> ip_address_v4 \<Rightarrow> 's \<Rightarrow> forward_row option \<times> 's" where
  "add_default_gateway_v4 sys info a = row_if_created (create_forward sys) (route_v4 sys info a 1)"

definition add_default_gateway_v6 :: "'s ip_stack \<Rightarrow> network_adapter_info \<Rightarrow> ip_address_v6 \<Rightarrow> 's \<Rightarrow> forward_row option \<times> 's" where
  "add_default_gateway_v6 sys info a = row_if_created (create_forward sys) (route_v6 sys info a 1)"

definition assign_default_gateway_v4 :: "'s ip_stack \<Rightarrow> network_adapter_info \<Rightarrow> u32 \<Rightarrow> 's \<Rightarrow> forward_row option \<times> 's" where
  "assign_default_gateway_v4 sys info metric = row_if_created (create_forward sys) (route_v4 sys info 0 metric)"

definition assign_default_gateway_v6 :: "'s ip_stack \<Rightarrow> network_adapter_info \<Rightarrow> u32 \<Rightarrow> 's \<Rightarrow> forward_row option \<times> 's" where
  "assign_default_gateway_v6 sys info metric = row_if_created (create_forward sys) (route_v6 sys info 0 metric)"

definition allowed_route_v4 :: "'s ip_stack \<Rightarrow> network_adapter_info \<Rightarrow> ip_address_v4 ip_subnet \<Rightarrow> forward_row" where
  "allowed_route_v4 sys info subnet =
     (let row = route_v4 sys info 0 0
      in row\<lparr>destination := (destination row)\<lparr>sin_addr := subnet_address subnet\<rparr>, destination_length := get_prefix_v4 subnet\<rparr>)"

definition allowed_route_v6 :: "'s ip_stack \<Rightarrow> network_adapter_info \<Rightarrow> ip_address_v6 ip_subnet \<Rightarrow> forward_row" where
  "allowed_route_v6 sys info subnet =
     (let row = route_v6 sys info 0 0
      in row\<lparr>destination := (destination row)\<lparr>sin6_addr := subnet_address subnet\<rparr>, destination_length := get_prefix_v6 subnet\<rparr>)"

type_synonym allowed_ip = "ip_address_v4 ip_subnet + ip_address_v6 ip_subnet"

text \<open>\<open>route\<close> is the row for a subnet of the family in question.\<close>

fun configure_allowed_ips :: "(forward_row \<Rightarrow> 's \<Rightarrow> u32 \<times> 's) \<Rightarrow> (allowed_ip \<Rightarrow> forward_row option) \<Rightarrow> allowed_ip list \<Rightarrow> 's \<Rightarrow> forward_row list \<times> 's" where
  "configure_allowed_ips create route [] s = ([], s)"
| "configure_allowed_ips create route (ip # ips) s =
     (case route ip of
        None \<Rightarrow> configure_allowed_ips create route ips s
      | Some row \<Rightarrow>
          (let (made, s) = row_if_created create row s; (rows, s) = configure_allowed_ips create route ips s
           in (case made of Some row \<Rightarrow> row # rows | None \<Rightarrow> rows, s)))"

definition configure_allowed_ips_v4 :: "'s ip_stack \<Rightarrow> network_adapter_info \<Rightarrow> allowed_ip list \<Rightarrow> 's \<Rightarrow> forward_row list \<times> 's" where
  "configure_allowed_ips_v4 sys info =
     configure_allowed_ips (create_forward sys) (\<lambda>ip. case ip of Inl subnet \<Rightarrow> Some (allowed_route_v4 sys info subnet) | Inr _ \<Rightarrow> None)"

definition configure_allowed_ips_v6 :: "'s ip_stack \<Rightarrow> network_adapter_info \<Rightarrow> allowed_ip list \<Rightarrow> 's \<Rightarrow> forward_row list \<times> 's" where
  "configure_allowed_ips_v6 sys info =
     configure_allowed_ips (create_forward sys) (\<lambda>ip. case ip of Inr subnet \<Rightarrow> Some (allowed_route_v6 sys info subnet) | Inl _ \<Rightarrow> None)"

definition delete_route :: "'s ip_stack \<Rightarrow> forward_row option \<Rightarrow> 's \<Rightarrow> bool \<times> 's" where
  "delete_route sys = deleted (delete_forward sys)"

fun delete_routes :: "'s ip_stack \<Rightarrow> forward_row option list \<Rightarrow> 's \<Rightarrow> bool \<times> 's" where
  "delete_routes sys [] s = (True, s)"
| "delete_routes sys (row # rows) s =
     (let (e, s) = delete_forward sys row s; (status, s) = delete_routes sys rows s in (e = NO_ERROR \<and> status, s))"

definition reset_adapter_routes :: "'s ip_stack \<Rightarrow> network_adapter_info \<Rightarrow> 's \<Rightarrow> bool \<times> 's" where
  "reset_adapter_routes sys info s =
     (case forward_table sys s of
        Inl e \<Rightarrow> (False, s)
      | Inr rows \<Rightarrow> (True, delete_selected (delete_forward sys) (\<lambda>r. forward_luid r = info_luid info) rows s))"

definition reset_adapter :: "'s ip_stack \<Rightarrow> network_adapter_info \<Rightarrow> 's \<Rightarrow> bool \<times> 's" where
  "reset_adapter sys info s =
     (let (ok, s) = reset_unicast_addresses sys info s in if ok then reset_adapter_routes sys info s else (False, s))"

section \<open>Neighbours and names\<close>

text \<open>The row is zeroed first.\<close>

definition permanent_neighbour :: "network_adapter_info \<Rightarrow> u32 \<Rightarrow> sockaddr_inet \<Rightarrow> mac_address \<Rightarrow> net_row" where
  "permanent_neighbour info index a mac =
     \<lparr>net_address = a, net_index = index, net_luid = info_luid info, net_physical = mac, net_state = NlnsPermanent,
      net_is_router = True, net_is_unreachable = True\<rparr>"

definition add_ndp_entry_v4 ::
  "'s ip_stack \<Rightarrow> network_adapter_info \<Rightarrow> ip_address_v4 \<Rightarrow> mac_address \<Rightarrow> 's \<Rightarrow> net_row option \<times> 's" where
  "add_ndp_entry_v4 sys info a mac =
     row_if_created (create_net sys) (permanent_neighbour info (if_index info) \<lparr>si_family = AF_INET, sin_addr = a, sin6_addr = 0\<rparr> mac)"

definition add_ndp_entry_v6 ::
  "'s ip_stack \<Rightarrow> network_adapter_info \<Rightarrow> ip_address_v6 \<Rightarrow> mac_address \<Rightarrow> 's \<Rightarrow> net_row option \<times> 's" where
  "add_ndp_entry_v6 sys info a mac =
     row_if_created (create_net sys) (permanent_neighbour info (ipv6_if_index info) \<lparr>si_family = AF_INET6, sin_addr = 0, sin6_addr = a\<rparr> mac)"

definition delete_ndp_entry :: "'s ip_stack \<Rightarrow> net_row option \<Rightarrow> 's \<Rightarrow> bool \<times> 's" where
  "delete_ndp_entry sys = deleted (delete_net sys)"

text \<open>\<open>write\<close>: the value \<^verbatim>\<open>Name\<close> of a key of the registry; \<open>False\<close> when it cannot be opened or written.\<close>

definition adapter_connection_name :: string where
  "adapter_connection_name =
     ''SYSTEM'' @ CHR 0x5C # ''CurrentControlSet'' @ CHR 0x5C # ''Control'' @ CHR 0x5C # ''Network'' @
     CHR 0x5C # ''{4D36E972-E325-11CE-BFC1-08002BE10318}'' @ [CHR 0x5C]"

definition set_friendly_name :: "(string \<Rightarrow> string \<Rightarrow> bool) \<Rightarrow> string \<Rightarrow> network_adapter_info \<Rightarrow> bool \<times> network_adapter_info" where
  "set_friendly_name write name info =
     (if write (adapter_connection_name @ adapter_name info @ CHR 0x5C # ''Connection'') name
      then (True, info\<lparr>info_friendly_name := map (\<lambda>c. scast (of_char c :: u8)) name\<rparr>) else (False, info))"

definition IF_TYPE_ETHERNET_CSMACD :: u32 where "IF_TYPE_ETHERNET_CSMACD = 6"
definition IF_TYPE_IEEE80211 :: u32 where "IF_TYPE_IEEE80211 = 71"

definition get_gateway_address_list ::
  "(ip_address_info \<Rightarrow> neighbour option) \<Rightarrow> (ip_address_info \<Rightarrow> mac_address option) \<Rightarrow> network_adapter_info \<Rightarrow> network_adapter_info" where
  "get_gateway_address_list cached resolve info =
     (if (if_type info = IF_TYPE_ETHERNET_CSMACD \<or> if_type info = IF_TYPE_IEEE80211) \<and>
         list_ex (\<lambda>g. hardware_address_of g = None) (gateway_address_list info)
      then initialize_gateway_hw_address_list cached resolve info else info)"

section \<open>What the system does with the rows\<close>

text \<open>
  Rows are told apart by interface, prefix and next hop, and by interface and address.  \<open>routes\<close> and
  \<open>addresses\<close> are what a state of the system holds; deleting an address may take routes of its
  interface with it, and nothing else.
\<close>

definition route_key :: "forward_row \<Rightarrow> u64 \<times> sockaddr_inet \<times> u8 \<times> sockaddr_inet" where
  "route_key r = (forward_luid r, destination r, destination_length r, next_hop r)"

definition address_key :: "unicast_row \<Rightarrow> u64 \<times> sockaddr_inet" where
  "address_key r = (unicast_luid r, unicast_address r)"

type_synonym 's route_view = "'s \<Rightarrow> (u64 \<times> sockaddr_inet \<times> u8 \<times> sockaddr_inet) set"
type_synonym 's address_view = "'s \<Rightarrow> (u64 \<times> sockaddr_inet) set"

definition keeps_routes :: "'s ip_stack \<Rightarrow> 's route_view \<Rightarrow> 's address_view \<Rightarrow> bool" where
  "keeps_routes sys routes addresses \<longleftrightarrow>
     (\<forall>r s e s'. create_forward sys r s = (e, s') \<longrightarrow> addresses s' = addresses s \<and>
        (if e = NO_ERROR then route_key r \<notin> routes s \<and> routes s' = insert (route_key r) (routes s)
         else routes s' = routes s \<and> (e = ERROR_OBJECT_ALREADY_EXISTS \<longrightarrow> route_key r \<in> routes s))) \<and>
     (\<forall>r s e s'. delete_forward sys (Some r) s = (e, s') \<longrightarrow> addresses s' = addresses s \<and>
        routes s' = (if e = NO_ERROR then routes s - {route_key r} else routes s)) \<and>
     (\<forall>s rows. forward_table sys s = Inr rows \<longrightarrow> route_key ` set rows = routes s)"

definition keeps_addresses :: "'s ip_stack \<Rightarrow> 's route_view \<Rightarrow> 's address_view \<Rightarrow> bool" where
  "keeps_addresses sys routes addresses \<longleftrightarrow>
     (\<forall>r s e s'. delete_unicast sys (Some r) s = (e, s') \<longrightarrow>
        addresses s' = (if e = NO_ERROR then addresses s - {address_key r} else addresses s) \<and>
        routes s' \<subseteq> routes s \<and> routes s - routes s' \<subseteq> {k. fst k = unicast_luid r}) \<and>
     (\<forall>s rows. unicast_table sys AF_UNSPEC s = Inr rows \<longrightarrow> address_key ` set rows = addresses s)"

definition deletions_succeed :: "'s ip_stack \<Rightarrow> 's route_view \<Rightarrow> 's address_view \<Rightarrow> bool" where
  "deletions_succeed sys routes addresses \<longleftrightarrow>
     (\<forall>r s. route_key r \<in> routes s \<longrightarrow> fst (delete_forward sys (Some r) s) = NO_ERROR) \<and>
     (\<forall>r s. address_key r \<in> addresses s \<longrightarrow> fst (delete_unicast sys (Some r) s) = NO_ERROR)"

lemma keeps_routesD:
  assumes "keeps_routes sys routes addresses"
  shows "create_forward sys r s = (e, s') \<Longrightarrow> addresses s' = addresses s"
    and "create_forward sys r s = (e, s') \<Longrightarrow> e = NO_ERROR \<Longrightarrow> routes s' = insert (route_key r) (routes s)"
    and "create_forward sys r s = (e, s') \<Longrightarrow> e \<noteq> NO_ERROR \<Longrightarrow> routes s' = routes s"
    and "create_forward sys r s = (e, s') \<Longrightarrow> e = ERROR_OBJECT_ALREADY_EXISTS \<Longrightarrow> route_key r \<in> routes s"
    and "addresses (snd (delete_forward sys (Some r) s)) = addresses s"
    and "routes (snd (delete_forward sys (Some r) s)) =
      (if fst (delete_forward sys (Some r) s) = NO_ERROR then routes s - {route_key r} else routes s)"
    and "forward_table sys s = Inr rows \<Longrightarrow> route_key ` set rows = routes s"
proof -
  have c: "create_forward sys r s = (e, s') \<Longrightarrow> addresses s' = addresses s \<and>
        (if e = NO_ERROR then route_key r \<notin> routes s \<and> routes s' = insert (route_key r) (routes s)
         else routes s' = routes s \<and> (e = ERROR_OBJECT_ALREADY_EXISTS \<longrightarrow> route_key r \<in> routes s))" for r s e s'
    using assms unfolding keeps_routes_def by blast
  have d: "delete_forward sys (Some r) s = (e, s') \<Longrightarrow> addresses s' = addresses s \<and>
        routes s' = (if e = NO_ERROR then routes s - {route_key r} else routes s)" for r s e s'
    using assms unfolding keeps_routes_def by blast
  show "create_forward sys r s = (e, s') \<Longrightarrow> addresses s' = addresses s"
    and "create_forward sys r s = (e, s') \<Longrightarrow> e = NO_ERROR \<Longrightarrow> routes s' = insert (route_key r) (routes s)"
    and "create_forward sys r s = (e, s') \<Longrightarrow> e \<noteq> NO_ERROR \<Longrightarrow> routes s' = routes s"
    using c [of r s e s'] by simp_all
  show "create_forward sys r s = (e, s') \<Longrightarrow> e = ERROR_OBJECT_ALREADY_EXISTS \<Longrightarrow> route_key r \<in> routes s"
    using c [of r s e s'] by (simp add: NO_ERROR_def ERROR_OBJECT_ALREADY_EXISTS_def)
  show "addresses (snd (delete_forward sys (Some r) s)) = addresses s"
    "routes (snd (delete_forward sys (Some r) s)) =
      (if fst (delete_forward sys (Some r) s) = NO_ERROR then routes s - {route_key r} else routes s)"
    using d [OF prod.collapse [symmetric]] by auto
  show "forward_table sys s = Inr rows \<Longrightarrow> route_key ` set rows = routes s"
    using assms unfolding keeps_routes_def by blast
qed

lemma keeps_addressesD:
  assumes "keeps_addresses sys routes addresses"
  shows "addresses (snd (delete_unicast sys (Some r) s)) =
      (if fst (delete_unicast sys (Some r) s) = NO_ERROR then addresses s - {address_key r} else addresses s)"
    and "routes (snd (delete_unicast sys (Some r) s)) \<subseteq> routes s"
    and "routes s - routes (snd (delete_unicast sys (Some r) s)) \<subseteq> {k. fst k = unicast_luid r}"
    and "unicast_table sys AF_UNSPEC s = Inr rows \<Longrightarrow> address_key ` set rows = addresses s"
proof -
  note k = assms [unfolded keeps_addresses_def]
  show "addresses (snd (delete_unicast sys (Some r) s)) =
      (if fst (delete_unicast sys (Some r) s) = NO_ERROR then addresses s - {address_key r} else addresses s)"
    and "routes (snd (delete_unicast sys (Some r) s)) \<subseteq> routes s"
    and "routes s - routes (snd (delete_unicast sys (Some r) s)) \<subseteq> {k. fst k = unicast_luid r}"
    using k [THEN conjunct1, rule_format, OF prod.collapse [symmetric], of r s] by blast+
  show "unicast_table sys AF_UNSPEC s = Inr rows \<Longrightarrow> address_key ` set rows = addresses s"
    using k by blast
qed

section \<open>Reset of an interface\<close>

lemma delete_selected_routes:
  assumes "keeps_routes sys routes addresses" "deletions_succeed sys routes addresses"
  shows "routes (delete_selected (delete_forward sys) selected rows s) = routes s - route_key ` {r \<in> set rows. selected r} \<and>
    addresses (delete_selected (delete_forward sys) selected rows s) = addresses s"
proof (induction rows arbitrary: s)
  case (Cons r rows)
  have "routes (snd (delete_forward sys (Some r) s)) = routes s - {route_key r}"
    using keeps_routesD(6) [OF assms(1), of r s] assms(2) by (auto simp: deletions_succeed_def)
  then show ?case
    using Cons.IH keeps_routesD(5) [OF assms(1)] by auto
qed simp

lemma delete_selected_addresses:
  assumes "keeps_addresses sys routes addresses" "deletions_succeed sys routes addresses" "\<forall>r. selected r \<longrightarrow> unicast_luid (r :: unicast_row) = l"
  shows "(let s' = delete_selected (delete_unicast sys) selected rows s in
    addresses s' = addresses s - address_key ` {r \<in> set rows. selected r} \<and> routes s' \<subseteq> routes s \<and> routes s - routes s' \<subseteq> {k. fst k = l})"
proof (induction rows arbitrary: s)
  case (Cons r rows)
  let ?s = "snd (delete_unicast sys (Some r) s)"
  have "addresses ?s = addresses s - {address_key r}"
    using keeps_addressesD(1) [OF assms(1), of r s] assms(2) by (auto simp: deletions_succeed_def)
  moreover have "routes ?s \<subseteq> routes s" "selected r \<Longrightarrow> routes s - routes ?s \<subseteq> {k. fst k = l}"
    using keeps_addressesD(2,3) [OF assms(1), where r = r and s = s] assms(3) by auto
  ultimately show ?case
    using Cons.IH [of s] Cons.IH [of ?s] by (cases "selected r") (auto simp: Let_def)
qed (simp add: Let_def)

lemma image_selected: "(\<And>r. p r \<longleftrightarrow> q (f r)) \<Longrightarrow> f ` {r \<in> S. p r} = {k \<in> f ` S. q k}"
  by auto

text \<open>
  C31: when nothing that exists refuses to be deleted and both tables can be read, the reset of an
  interface removes exactly its addresses and its routes.
\<close>

theorem reset_adapter_exact:
  assumes "keeps_routes sys routes addresses" "keeps_addresses sys routes addresses" "deletions_succeed sys routes addresses"
    and "reset_adapter sys info s = (True, s')"
  shows "addresses s' = {k \<in> addresses s. fst k \<noteq> info_luid info} \<and> routes s' = {k \<in> routes s. fst k \<noteq> info_luid info}"
proof -
  let ?own = "\<lambda>r. unicast_luid r = info_luid info" and ?l = "info_luid info"
  obtain rows where rows: "unicast_table sys AF_UNSPEC s = Inr rows"
    using assms(4) by (auto simp: reset_adapter_def reset_unicast_addresses_def delete_unicast_where_def split: sum.splits prod.splits)
  define t where "t = delete_selected (delete_unicast sys) ?own rows s"
  obtain table where table: "forward_table sys t = Inr table"
    using assms(4) rows
    by (auto simp: reset_adapter_def reset_unicast_addresses_def delete_unicast_where_def reset_adapter_routes_def t_def split: sum.splits)
  have s': "s' = delete_selected (delete_forward sys) (\<lambda>r. forward_luid r = ?l) table t"
    using assms(4) rows table
    by (simp add: reset_adapter_def reset_unicast_addresses_def delete_unicast_where_def reset_adapter_routes_def t_def)
  have t: "addresses t = addresses s - address_key ` {r \<in> set rows. ?own r}" "routes t \<subseteq> routes s" "routes s - routes t \<subseteq> {k. fst k = ?l}"
    using delete_selected_addresses [OF assms(2,3), of ?own ?l rows s] unfolding t_def Let_def by auto
  have r: "addresses s' = addresses t" "routes s' = routes t - route_key ` {r \<in> set table. forward_luid r = ?l}"
    unfolding s' using delete_selected_routes [OF assms(1,3), of "\<lambda>r. forward_luid r = ?l" table t] by simp_all
  have "route_key ` {r \<in> set table. forward_luid r = ?l} = {k \<in> routes t. fst k = ?l}"
    unfolding keeps_routesD(7) [OF assms(1) table, symmetric] by (rule image_selected) (simp add: route_key_def)
  then have "routes s' = {k \<in> routes s. fst k \<noteq> ?l}"
    using r(2) t(2,3) by (intro subset_antisym subsetI) auto
  moreover have "address_key ` {r \<in> set rows. ?own r} = {k \<in> addresses s. fst k = ?l}"
    unfolding keeps_addressesD(4) [OF assms(2) rows, symmetric] by (rule image_selected) (simp add: address_key_def)
  then have "addresses s' = {k \<in> addresses s. fst k \<noteq> ?l}"
    using r(1) t(1) by (intro subset_antisym subsetI) simp_all
  ultimately show ?thesis
    by blast
qed

text \<open>A reset that can read both tables reports success even when every single deletion is refused.\<close>

lemma reset_adapter_reports_success:
  assumes "unicast_table sys AF_UNSPEC s = Inr rows" "forward_table sys s = Inr table"
    and "\<And>r. delete_unicast sys r s = (e, s)" "\<And>r. delete_forward sys r s = (e, s)"
  shows "reset_adapter sys info s = (True, s)"
proof -
  have "delete_selected (delete_unicast sys) p rs s = s" for p rs
    using assms(3) by (induction rs) simp_all
  moreover have "delete_selected (delete_forward sys) p rs s = s" for p rs
    using assms(4) by (induction rs) simp_all
  ultimately show ?thesis
    using assms(1,2)
    by (simp add: reset_adapter_def reset_unicast_addresses_def delete_unicast_where_def reset_adapter_routes_def)
qed

section \<open>Routes for a list of subnets\<close>

lemma configure_allowed_ips_rows:
  assumes "keeps_routes sys routes addresses" "configure_allowed_ips (create_forward sys) route ips s = (rows, s')"
    and "distinct (map route_key (List.map_filter route ips))"
    and "route_key ` set (List.map_filter route ips) \<inter> routes s = {}"
  shows "routes s' = routes s \<union> route_key ` set rows \<and> addresses s' = addresses s \<and> distinct (map route_key rows) \<and>
    set rows \<subseteq> set (List.map_filter route ips)"
  using assms(2-)
proof (induction ips arbitrary: s rows s')
  case (Cons ip ips)
  show ?case
  proof (cases "route ip")
    case None
    then show ?thesis
      using Cons by (simp add: List.map_filter_simps)
  next
    case (Some r)
    obtain e t where one: "create_forward sys r s = (e, t)" by fastforce
    obtain rest u where rest: "configure_allowed_ips (create_forward sys) route ips t = (rest, u)" by fastforce
    have u: "s' = u" "rows = (if created e then r # rest else rest)"
      using Cons.prems(1) Some one rest by (auto simp: row_if_created_def)
    have new: "route_key r \<notin> routes s" "route_key r \<notin> route_key ` set (List.map_filter route ips)"
      using Cons.prems(2,3) Some by (auto simp: List.map_filter_simps)
    then have made: "created e \<longleftrightarrow> e = NO_ERROR"
      using keeps_routesD(4) [OF assms(1) one] by (auto simp: created_def)
    have t: "routes t = (if created e then insert (route_key r) (routes s) else routes s)" "addresses t = addresses s"
      using keeps_routesD(1-3) [OF assms(1) one] made by auto
    have IH: "routes u = routes t \<union> route_key ` set rest \<and> addresses u = addresses t \<and> distinct (map route_key rest) \<and>
        set rest \<subseteq> set (List.map_filter route ips)"
      using Cons.IH [OF rest] Cons.prems(2,3) Some t new by (auto simp: List.map_filter_simps)
    then show ?thesis
      using u t new Some by (auto simp: List.map_filter_simps)
  qed
qed (simp add: List.map_filter_simps)

lemma delete_routes_all:
  assumes "keeps_routes sys routes addresses" "deletions_succeed sys routes addresses"
    and "distinct (map route_key rows)" "route_key ` set rows \<subseteq> routes s"
  shows "\<exists>s'. delete_routes sys (map Some rows) s = (True, s') \<and> routes s' = routes s - route_key ` set rows \<and> addresses s' = addresses s"
  using assms(3,4)
proof (induction rows arbitrary: s)
  case (Cons r rows)
  obtain e t where one: "delete_forward sys (Some r) s = (e, t)" by fastforce
  have "fst (delete_forward sys (Some r) s) = NO_ERROR"
    using assms(2) Cons.prems(2) unfolding deletions_succeed_def by simp
  then have t: "e = NO_ERROR" "routes t = routes s - {route_key r}" "addresses t = addresses s"
    using keeps_routesD(5,6) [OF assms(1), of r s] one by simp_all
  then have "route_key ` set rows \<subseteq> routes t"
    using Cons.prems by auto
  then obtain s' where s': "delete_routes sys (map Some rows) t = (True, s')" "routes s' = routes t - route_key ` set rows"
    "addresses s' = addresses t"
    using Cons.IH [of t] Cons.prems(1) by auto
  show ?case
    by (rule exI [of _ s']) (use one t s' in auto)
qed simp

text \<open>
  The routes that were made for a list of subnets, all new and different, are removed again by
  deleting the rows that were returned, which leaves the tables as they were.
\<close>

theorem configure_then_delete:
  assumes "keeps_routes sys routes addresses" "deletions_succeed sys routes addresses"
    and "configure \<in> {configure_allowed_ips_v4 sys info, configure_allowed_ips_v6 sys info}"
    and "configure ips s = (rows, t)"
    and "distinct (map route_key (map (allowed_route_v4 sys info) [n. Inl n \<leftarrow> ips] @ map (allowed_route_v6 sys info) [n. Inr n \<leftarrow> ips]))"
    and "\<forall>ip \<in> set ips. route_key (case ip of Inl n \<Rightarrow> allowed_route_v4 sys info n | Inr n \<Rightarrow> allowed_route_v6 sys info n) \<notin> routes s"
  shows "\<exists>s'. delete_routes sys (map Some rows) t = (True, s') \<and> routes s' = routes s \<and> addresses s' = addresses s"
proof -
  let ?v4 = "\<lambda>ip. case ip of Inl n \<Rightarrow> Some (allowed_route_v4 sys info n) | Inr _ \<Rightarrow> None"
  let ?v6 = "\<lambda>ip. case ip of Inr n \<Rightarrow> Some (allowed_route_v6 sys info n) | Inl _ \<Rightarrow> None"
  have lists: "List.map_filter ?v4 ips = map (allowed_route_v4 sys info) [n. Inl n \<leftarrow> ips]"
    "List.map_filter ?v6 ips = map (allowed_route_v6 sys info) [n. Inr n \<leftarrow> ips]"
    by (induction ips) (auto simp: List.map_filter_simps split: sum.splits)
  have "\<exists>route. configure_allowed_ips (create_forward sys) route ips s = (rows, t) \<and>
      distinct (map route_key (List.map_filter route ips)) \<and> route_key ` set (List.map_filter route ips) \<inter> routes s = {}"
  proof (cases "configure = configure_allowed_ips_v4 sys info")
    case True
    have "route_key ` set (List.map_filter ?v4 ips) \<inter> routes s = {}"
      using assms(6) by (fastforce simp: lists split: sum.splits)
    then show ?thesis
      using assms(4,5) True by (intro exI [of _ ?v4]) (simp add: configure_allowed_ips_v4_def lists)
  next
    case False
    then have "configure = configure_allowed_ips_v6 sys info"
      using assms(3) by blast
    moreover have "route_key ` set (List.map_filter ?v6 ips) \<inter> routes s = {}"
      using assms(6) by (fastforce simp: lists split: sum.splits)
    ultimately show ?thesis
      using assms(4,5) by (intro exI [of _ ?v6]) (simp add: configure_allowed_ips_v6_def lists)
  qed
  then obtain route where route: "configure_allowed_ips (create_forward sys) route ips s = (rows, t)"
    "distinct (map route_key (List.map_filter route ips))" "route_key ` set (List.map_filter route ips) \<inter> routes s = {}"
    by blast
  note made = configure_allowed_ips_rows [OF assms(1) route]
  have "route_key ` set rows \<inter> routes s = {}"
    using made route(3) by blast
  then have "routes t - route_key ` set rows = routes s" "route_key ` set rows \<subseteq> routes t" "addresses t = addresses s"
    using made by blast+
  then show ?thesis
    using delete_routes_all [OF assms(1,2), of rows t] made by metis
qed

text \<open>A route that was there before is returned with the rows and goes with them.\<close>

lemma configure_then_delete_takes_old_route:
  assumes "keeps_routes sys routes addresses" "deletions_succeed sys routes addresses"
    and "create_forward sys (allowed_route_v4 sys info n) s = (ERROR_OBJECT_ALREADY_EXISTS, s)"
    and "configure_allowed_ips_v4 sys info [Inl n] s = (rows, t)"
  shows "route_key (allowed_route_v4 sys info n) \<in> routes s \<and>
    (\<exists>s'. delete_routes sys (map Some rows) t = (True, s') \<and> routes s' = routes s - {route_key (allowed_route_v4 sys info n)})"
proof -
  have r: "rows = [allowed_route_v4 sys info n]" "t = s"
    using assms(3,4) by (auto simp: configure_allowed_ips_v4_def row_if_created_def created_def)
  have old: "route_key (allowed_route_v4 sys info n) \<in> routes s"
    using keeps_routesD(4) [OF assms(1,3)] by simp
  then show ?thesis
    using delete_routes_all [OF assms(1,2), of rows s] r by auto
qed

section \<open>Witnesses\<close>

text \<open>A system that keeps lists of routes and addresses.\<close>

definition sample_destination :: sockaddr_inet where
  "sample_destination = \<lparr>si_family = 0, sin_addr = 0, sin6_addr = 0\<rparr>"

definition sample_route :: "u64 \<Rightarrow> forward_row" where
  "sample_route l =
     \<lparr>forward_index = 0, forward_luid = l, destination = sample_destination, destination_length = 0, next_hop = sample_destination,
      site_prefix_length = 0, route_metric = 0, route_protocol = 0, route_origin = 0\<rparr>"

definition sample_address :: "u64 \<Rightarrow> unicast_row" where
  "sample_address l =
     \<lparr>unicast_address = sample_destination, unicast_index = 0, unicast_luid = l, prefix_origin = 0, suffix_origin = 0,
      on_link_prefix_length = 0, dad_state = 0\<rparr>"

type_synonym sample_tables = "forward_row list \<times> unicast_row list"

definition sample_stack :: "sample_tables ip_stack" where
  "sample_stack =
     \<lparr>initial_unicast = sample_address 0, initial_forward = sample_route 0,
      create_unicast = \<lambda>r s. (NO_ERROR, s),
      delete_unicast = \<lambda>r s. (NO_ERROR, case r of None \<Rightarrow> s | Some r \<Rightarrow> (fst s, filter (\<lambda>x. address_key x \<noteq> address_key r) (snd s))),
      unicast_table = \<lambda>_ s. Inr (snd s),
      create_forward = \<lambda>r s. if route_key r \<in> route_key ` set (fst s) then (ERROR_OBJECT_ALREADY_EXISTS, s) else (NO_ERROR, (r # fst s, snd s)),
      delete_forward = \<lambda>r s. (NO_ERROR, case r of None \<Rightarrow> s | Some r \<Rightarrow> (filter (\<lambda>x. route_key x \<noteq> route_key r) (fst s), snd s)),
      forward_table = \<lambda>s. Inr (fst s),
      create_net = \<lambda>r s. (NO_ERROR, s), delete_net = \<lambda>r s. (NO_ERROR, s)\<rparr>"

definition sample_routes :: "sample_tables route_view" where "sample_routes s = route_key ` set (fst s)"
definition sample_addresses :: "sample_tables address_view" where "sample_addresses s = address_key ` set (snd s)"

definition sample_info :: network_adapter_info where
  "sample_info =
     \<lparr>if_index = 3, ipv6_if_index = 4, adapter_name = ''a'', true_adapter_name = null_guid, info_description = [], info_friendly_name = [],
      unicast_address_list = [], dns_server_address_list = [], gateway_address_list = [], physical_address = replicate 6 0, info_mtu = 1500,
      transmit_link_speed = 0, receive_link_speed = 0, info_luid = 5, if_type = 6, media_type = 0, physical_medium_type = 0, true_medium_type = 0\<rparr>"

lemma sample_stack_ok:
  "keeps_routes sample_stack sample_routes sample_addresses" "keeps_addresses sample_stack sample_routes sample_addresses"
  "deletions_succeed sample_stack sample_routes sample_addresses"
proof -
  have f: "f ` {x \<in> S. f x \<noteq> k} = f ` S - {k}" for f :: "'x \<Rightarrow> 'y" and S k
    by auto
  show "keeps_routes sample_stack sample_routes sample_addresses"
    unfolding keeps_routes_def sample_routes_def sample_addresses_def
    by (intro conjI allI impI; clarsimp simp: sample_stack_def f NO_ERROR_def ERROR_OBJECT_ALREADY_EXISTS_def split: if_splits)
  show "keeps_addresses sample_stack sample_routes sample_addresses"
    unfolding keeps_addresses_def sample_routes_def sample_addresses_def
    by (intro conjI allI impI; clarsimp simp: sample_stack_def f NO_ERROR_def)
  show "deletions_succeed sample_stack sample_routes sample_addresses"
    by (simp add: deletions_succeed_def sample_stack_def)
qed

theorem reset_adapter_exact_witness:
  "let s' = snd (reset_adapter sample_stack sample_info ([sample_route 5, sample_route 6], [sample_address 5]))
   in sample_addresses s' = {} \<and> sample_routes s' = {route_key (sample_route 6)}"
proof -
  let ?s = "([sample_route 5, sample_route 6], [sample_address 5])"
  have "fst (reset_adapter sample_stack sample_info ?s) = True"
    by (simp add: reset_adapter_def reset_unicast_addresses_def delete_unicast_where_def reset_adapter_routes_def sample_stack_def)
  then have "reset_adapter sample_stack sample_info ?s = (True, snd (reset_adapter sample_stack sample_info ?s))"
    by (metis prod.collapse)
  note reset = reset_adapter_exact [OF sample_stack_ok this]
  have "{k \<in> sample_addresses ?s. fst k \<noteq> info_luid sample_info} = {}"
    "{k \<in> sample_routes ?s. fst k \<noteq> info_luid sample_info} = {route_key (sample_route 6)}"
    by (auto simp: sample_addresses_def sample_routes_def sample_info_def sample_route_def sample_address_def route_key_def address_key_def)
  then show ?thesis
    using reset unfolding Let_def by simp
qed

theorem configure_then_delete_witness:
  "\<exists>s'. delete_routes sample_stack
     (map Some (fst (configure_allowed_ips_v4 sample_stack sample_info [Inl (host_subnet_v4 7)] ([sample_route 6], []))))
     (snd (configure_allowed_ips_v4 sample_stack sample_info [Inl (host_subnet_v4 7)] ([sample_route 6], []))) = (True, s') \<and>
   sample_routes s' = {route_key (sample_route 6)} \<and> sample_addresses s' = {}"
proof -
  have "forward_luid (allowed_route_v4 sample_stack sample_info n) = 5" for n
    by (simp add: allowed_route_v4_def route_v4_def manual_route_def sample_info_def Let_def)
  then have "route_key (allowed_route_v4 sample_stack sample_info (host_subnet_v4 7)) \<notin> sample_routes ([sample_route 6], [])"
    by (simp add: sample_routes_def route_key_def sample_route_def)
  then show ?thesis
    using configure_then_delete [OF sample_stack_ok(1,3), of "configure_allowed_ips_v4 sample_stack sample_info" sample_info
        "[Inl (host_subnet_v4 7)]" "([sample_route 6], [])", OF _ prod.collapse [symmetric]]
    by (simp add: sample_routes_def sample_addresses_def)
qed

end
