(* ===== verification/Adapter_Names.thy ===== *)
theory Adapter_Names
  imports Packet_Filter Router_Config Driver_Api
begin

text \<open>
  What \<^verbatim>\<open>CNdisApi\<close> (ndisapi/ndisapi.cpp) reads and writes in the registry: which adapters are the WAN
  adapters of Windows, the names of adapters for users, and the parameters of the driver.  The
  registry is a parameter; strings of the registry are taken up to their first zero.
\<close>

section \<open>WAN adapters\<close>

definition stricmp_equal :: "string \<Rightarrow> string \<Rightarrow> bool" where
  "stricmp_equal a b \<longleftrightarrow> map tolower a = map tolower b"

abbreviation backslash :: char where "backslash \<equiv> CHR 0x5C"

definition device_prefix :: string where "device_prefix = backslash # ''Device'' @ [backslash]"

definition DEVICE_NDISWANIP :: string where "DEVICE_NDISWANIP = backslash # ''DEVICE'' @ backslash # ''NDISWANIP''"
definition DEVICE_NDISWANBH :: string where "DEVICE_NDISWANBH = backslash # ''DEVICE'' @ backslash # ''NDISWANBH''"
definition DEVICE_NDISWANIPV6 :: string where "DEVICE_NDISWANIPV6 = backslash # ''DEVICE'' @ backslash # ''NDISWANIPV6''"
definition USER_NDISWANIP :: string where "USER_NDISWANIP = ''WAN Network Interface (IP)''"
definition USER_NDISWANBH :: string where "USER_NDISWANBH = ''WAN Network Interface (BH)''"
definition USER_NDISWANIPV6 :: string where "USER_NDISWANIPV6 = ''WAN Network Interface (IPv6)''"
definition REGSTR_COMPONENTID_NDISWANIP :: string where "REGSTR_COMPONENTID_NDISWANIP = ''ms_ndiswanip''"
definition REGSTR_COMPONENTID_NDISWANIPV6 :: string where "REGSTR_COMPONENTID_NDISWANIPV6 = ''ms_ndiswanipv6''"
definition REGSTR_COMPONENTID_NDISWANBH :: string where "REGSTR_COMPONENTID_NDISWANBH = ''ms_ndiswanbh''"

text \<open>
  A key of the network class: its component, and the export string of its linkage, where these can be
  read.  Asked for key \<open>i\<close> the registry gives a name, or that there are no more, or fails.
\<close>

record class_key =
  component_id :: "string option"
  linkage_export :: "string option"

datatype enum_answer = Enumerated string | No_more_items | Enum_failed

record class_keys =
  enumerate :: "nat \<Rightarrow> enum_answer"
  open_key :: "string \<Rightarrow> class_key option"

definition exports :: "class_keys \<Rightarrow> string \<Rightarrow> string \<Rightarrow> string \<Rightarrow> bool" where
  "exports keys adapter component name \<longleftrightarrow>
     (case open_key keys name of
        None \<Rightarrow> False
      | Some k \<Rightarrow>
          (case component_id k of None \<Rightarrow> False | Some c \<Rightarrow> stricmp_equal c component) \<and>
          (case linkage_export k of None \<Rightarrow> False | Some e \<Rightarrow> stricmp_equal e adapter))"

text \<open>
  Only \<^verbatim>\<open>ERROR_NO_MORE_ITEMS\<close> ends the loop; after another failure the name before is looked at again.
  The loop may not end.
\<close>

partial_function (option) find_ndiswan :: "class_keys \<Rightarrow> string \<Rightarrow> string \<Rightarrow> nat \<Rightarrow> string \<Rightarrow> bool option" where
  "find_ndiswan keys adapter component i buffer =
     (case enumerate keys i of
        No_more_items \<Rightarrow> Some False
      | answer \<Rightarrow>
          (let buffer = (case answer of Enumerated name \<Rightarrow> name | _ \<Rightarrow> buffer) in
           if exports keys adapter component buffer then Some True
           else find_ndiswan keys adapter component (Suc i) buffer))"

definition is_ndiswan_interface :: "class_keys option \<Rightarrow> string \<Rightarrow> string \<Rightarrow> bool option" where
  "is_ndiswan_interface target adapter component =
     (case target of None \<Rightarrow> Some False | Some keys \<Rightarrow> find_ndiswan keys adapter component 0 [])"

definition is_ndiswan_ip :: "bool \<Rightarrow> class_keys option \<Rightarrow> string \<Rightarrow> bool option" where
  "is_ndiswan_ip windows10 target adapter =
     (if \<not> windows10 \<and> stricmp_equal adapter DEVICE_NDISWANIP then Some True
      else is_ndiswan_interface target adapter REGSTR_COMPONENTID_NDISWANIP)"

definition is_ndiswan_ipv6 :: "bool \<Rightarrow> class_keys option \<Rightarrow> string \<Rightarrow> bool option" where
  "is_ndiswan_ipv6 windows10 target adapter =
     (if \<not> windows10 \<and> stricmp_equal adapter DEVICE_NDISWANIPV6 then Some True
      else is_ndiswan_interface target adapter REGSTR_COMPONENTID_NDISWANIPV6)"

definition is_ndiswan_bh :: "bool \<Rightarrow> class_keys option \<Rightarrow> string \<Rightarrow> bool option" where
  "is_ndiswan_bh windows10 target adapter =
     (if \<not> windows10 \<and> stricmp_equal adapter DEVICE_NDISWANBH then Some True
      else is_ndiswan_interface target adapter REGSTR_COMPONENTID_NDISWANBH)"

section \<open>Names for users\<close>

definition MAX_PATH :: nat where "MAX_PATH = 260"

definition REGSTR_NETWORK_CONTROL_KEY :: string where
  "REGSTR_NETWORK_CONTROL_KEY =
     ''SYSTEM'' @ backslash # ''CurrentControlSet'' @ backslash # ''Control'' @ backslash # ''Network'' @
     backslash # ''{4D36E972-E325-11CE-BFC1-08002BE10318}'' @ [backslash]"

definition REGSTR_VAL_CONNECTION :: string where "REGSTR_VAL_CONNECTION = backslash # ''Connection''"

definition REGSTR_MSTCP_CLASS_NET :: string where
  "REGSTR_MSTCP_CLASS_NET =
     ''SYSTEM'' @ backslash # ''CurrentControlSet'' @ backslash # ''Services'' @ backslash # ''Class'' @ backslash # ''Net'' @ [backslash]"

text \<open>
  \<^verbatim>\<open>strcpy_s\<close> behind what a buffer of \<open>room\<close> holds already; when it does not fit the program is aborted.
  A name without its device prefix is read beyond its end.
\<close>

datatype conversion = Converted string | Not_converted | Aborted | Beyond_name

definition strcpy_s :: "nat \<Rightarrow> string \<Rightarrow> string \<Rightarrow> string option" where
  "strcpy_s room held src = (if length held + length src < room then Some (held @ src) else None)"

definition copied_name :: "string option \<Rightarrow> conversion" where
  "copied_name s = (case s of Some name \<Rightarrow> Converted name | None \<Rightarrow> Aborted)"

text \<open>\<open>query key value room\<close> is a string of the registry, when the key opens and the string fits.\<close>

definition connection_name :: "(string \<Rightarrow> string \<Rightarrow> nat \<Rightarrow> string option) \<Rightarrow> string \<Rightarrow> nat \<Rightarrow> conversion" where
  "connection_name query adapter room =
     (case strcpy_s (MAX_PATH * 2) [] REGSTR_NETWORK_CONTROL_KEY of
        None \<Rightarrow> Aborted
      | Some key \<Rightarrow>
          if length adapter < length device_prefix then Beyond_name
          else case strcpy_s (MAX_PATH * 2) key (drop (length device_prefix) adapter) of
            None \<Rightarrow> Aborted
          | Some key \<Rightarrow>
              (case strcpy_s (MAX_PATH * 2) key REGSTR_VAL_CONNECTION of
                 None \<Rightarrow> Aborted
               | Some key \<Rightarrow> (case query key ''Name'' room of Some name \<Rightarrow> Converted name | None \<Rightarrow> Not_converted)))"

definition ConvertWindows2000AdapterName ::
  "bool \<Rightarrow> class_keys option \<Rightarrow> (string \<Rightarrow> string \<Rightarrow> nat \<Rightarrow> string option) \<Rightarrow> string \<Rightarrow> nat \<Rightarrow> conversion option" where
  "ConvertWindows2000AdapterName windows10 target query adapter room = do {
     ip \<leftarrow> is_ndiswan_ip windows10 target adapter;
     if ip then Some (copied_name (strcpy_s room [] USER_NDISWANIP)) else do {
       bh \<leftarrow> is_ndiswan_bh windows10 target adapter;
       if bh then Some (copied_name (strcpy_s room [] USER_NDISWANBH)) else do {
         ipv6 \<leftarrow> is_ndiswan_ipv6 windows10 target adapter;
         if ipv6 then Some (copied_name (strcpy_s room [] USER_NDISWANIPV6)) else Some (connection_name query adapter room)
       }
     }
   }"

text \<open>
  Windows NT 4: the cards, in order; a key that does not open is \<open>None\<close>.  The result is what is
  returned and what the buffer for the name gets, if anything.
\<close>

record network_card =
  service_name :: "string option"
  title :: "nat \<Rightarrow> string option"

fun find_card :: "network_card option list \<Rightarrow> string \<Rightarrow> nat \<Rightarrow> bool \<Rightarrow> bool \<times> string option" where
  "find_card [] service room ret = (ret, None)"
| "find_card (None # cards) service room ret = find_card cards service room False"
| "find_card (Some c # cards) service room ret =
     (case service_name c of
        None \<Rightarrow> find_card cards service room False
      | Some s \<Rightarrow>
          if stricmp_equal s service then (case title c room of Some t \<Rightarrow> (True, Some t) | None \<Rightarrow> (False, None))
          else find_card cards service room ret)"

definition ConvertWindowsNTAdapterName :: "network_card option list option \<Rightarrow> string \<Rightarrow> nat \<Rightarrow> bool \<times> string option" where
  "ConvertWindowsNTAdapterName cards adapter room =
     (case cards of None \<Rightarrow> (False, None) | Some cards \<Rightarrow> find_card cards (drop (length device_prefix) adapter) room True)"

definition ConvertWindows9xAdapterName :: "(string \<Rightarrow> string \<Rightarrow> nat \<Rightarrow> string option) \<Rightarrow> string \<Rightarrow> nat \<Rightarrow> conversion" where
  "ConvertWindows9xAdapterName query adapter room =
     (case strcpy_s (MAX_PATH * 2) [] REGSTR_MSTCP_CLASS_NET of
        None \<Rightarrow> Aborted
      | Some key \<Rightarrow>
          (case strcpy_s (MAX_PATH * 2) key adapter of
             None \<Rightarrow> Aborted
           | Some key \<Rightarrow> (case query key ''DriverDesc'' room of Some name \<Rightarrow> Converted name | None \<Rightarrow> Not_converted)))"

section \<open>Parameters of the driver\<close>

definition WINNT_REG_PARAM :: string where
  "WINNT_REG_PARAM =
     ''SYSTEM'' @ backslash # ''CurrentControlSet'' @ backslash # ''Services'' @ backslash # ''ndisrd'' @ backslash # ''Parameters''"

definition WIN9X_REG_PARAM :: string where
  "WIN9X_REG_PARAM =
     ''System'' @ backslash # ''CurrentControlSet'' @ backslash # ''Services'' @ backslash # ''VxD'' @ backslash # ''ndisrd'' @
     backslash # ''Parameters''"

text \<open>The keys and the bytes of the values, and what the process may create and write.\<close>

record registry_values =
  created_keys :: "string set"
  key_values :: "string \<times> string \<Rightarrow> u8 list option"
  may_create :: "string \<Rightarrow> bool"
  may_write :: "string \<Rightarrow> bool"

definition reg_create_key :: "string \<Rightarrow> registry_values \<Rightarrow> bool \<times> registry_values" where
  "reg_create_key key r = (if may_create r key then (True, r\<lparr>created_keys := insert key (created_keys r)\<rparr>) else (False, r))"

definition parameter_key :: "bool \<Rightarrow> string" where
  "parameter_key nt = (if nt then WINNT_REG_PARAM else WIN9X_REG_PARAM)"

definition bytes_to_dword :: "u8 list \<Rightarrow> u32" where
  "bytes_to_dword bs = le32 (bs ! 0) (bs ! 1) (bs ! 2) (bs ! 3)"

definition set_parameter :: "string \<Rightarrow> bool \<Rightarrow> u32 \<Rightarrow> registry_values \<Rightarrow> bool \<times> registry_values" where
  "set_parameter name nt w r =
     (let (ok, r) = reg_create_key (parameter_key nt) r in
      if ok \<and> may_write r (parameter_key nt)
      then (True, r\<lparr>key_values := (key_values r)((parameter_key nt, name) \<mapsto> dword_bytes w)\<rparr>) else (False, r))"

text \<open>
  Reading creates the key, too.  Neither the type nor the length of the value is looked at: a longer
  value does not fit, a shorter one leaves \<open>junk\<close> in the rest of the result.
\<close>

definition get_parameter :: "string \<Rightarrow> bool \<Rightarrow> u8 list \<Rightarrow> registry_values \<Rightarrow> u32 \<times> registry_values" where
  "get_parameter name nt junk r =
     (let (ok, r) = reg_create_key (parameter_key nt) r in
      case key_values r (parameter_key nt, name) of
        Some bs \<Rightarrow> (if ok \<and> length bs \<le> 4 then bytes_to_dword (bs @ drop (length bs) junk) else 0, r)
      | None \<Rightarrow> (0, r))"

definition SetMTUDecrement :: "bool \<Rightarrow> u32 \<Rightarrow> registry_values \<Rightarrow> bool \<times> registry_values" where
  "SetMTUDecrement = set_parameter ''MTUDecrement''"

definition GetMTUDecrement :: "bool \<Rightarrow> u8 list \<Rightarrow> registry_values \<Rightarrow> u32 \<times> registry_values" where
  "GetMTUDecrement = get_parameter ''MTUDecrement''"

definition SetAdaptersStartupMode :: "bool \<Rightarrow> u32 \<Rightarrow> registry_values \<Rightarrow> bool \<times> registry_values" where
  "SetAdaptersStartupMode = set_parameter ''StartupMode''"

definition GetAdaptersStartupMode :: "bool \<Rightarrow> u8 list \<Rightarrow> registry_values \<Rightarrow> u32 \<times> registry_values" where
  "GetAdaptersStartupMode = get_parameter ''StartupMode''"

definition SetPoolSize :: "bool \<Rightarrow> u32 \<Rightarrow> registry_values \<Rightarrow> bool \<times> registry_values" where
  "SetPoolSize = set_parameter ''PoolSize''"

definition GetPoolSize :: "bool \<Rightarrow> u8 list \<Rightarrow> registry_values \<Rightarrow> u32 \<times> registry_values" where
  "GetPoolSize = get_parameter ''PoolSize''"

section \<open>The kind of an adapter\<close>

text \<open>The answers that the construction of a \<^verbatim>\<open>network_adapter\<close> takes, when all of the queries return.\<close>

definition system_registry ::
  "bool \<Rightarrow> class_keys option \<Rightarrow> (string \<Rightarrow> string \<Rightarrow> nat \<Rightarrow> string option) \<Rightarrow> registry" where
  "system_registry windows10 target query =
     \<lparr>IsNdiswanIp = \<lambda>name. is_ndiswan_ip windows10 target name = Some True,
      IsNdiswanIpv6 = \<lambda>name. is_ndiswan_ipv6 windows10 target name = Some True,
      IsNdiswanBh = \<lambda>name. is_ndiswan_bh windows10 target name = Some True,
      friendly_name_of = \<lambda>name. (case ConvertWindows2000AdapterName windows10 target query name (MAX_PATH * 4) of
        Some (Converted friendly) \<Rightarrow> Some friendly | _ \<Rightarrow> None)\<rparr>"

text \<open>A registry with a list of keys, and no changes meanwhile.\<close>

definition lists_keys :: "class_keys \<Rightarrow> string list \<Rightarrow> bool" where
  "lists_keys keys names \<longleftrightarrow> (\<forall>i. enumerate keys i = (if i < length names then Enumerated (names ! i) else No_more_items))"

lemma find_ndiswan_listed:
  assumes "lists_keys keys names"
  shows "find_ndiswan keys adapter component i buffer = Some (list_ex (exports keys adapter component) (drop i names))"
proof (induction "length names - i" arbitrary: i buffer)
  case 0
  then have "enumerate keys i = No_more_items"
    using assms by (simp add: lists_keys_def)
  then show ?case
    using 0 by (simp add: find_ndiswan.simps)
next
  case (Suc n)
  then have "i < length names" by simp
  moreover have "enumerate keys i = Enumerated (names ! i)"
    using assms \<open>i < length names\<close> by (simp add: lists_keys_def)
  moreover have "find_ndiswan keys adapter component (Suc i) (names ! i) = Some (list_ex (exports keys adapter component) (drop (Suc i) names))"
    using Suc by simp
  ultimately show ?case
    by (simp add: find_ndiswan.simps [of _ _ _ i] Cons_nth_drop_Suc [symmetric] Let_def)
qed

lemma is_ndiswan_interface_listed:
  "lists_keys keys names \<Longrightarrow> is_ndiswan_interface (Some keys) adapter component = Some (list_ex (exports keys adapter component) names)"
  by (simp add: is_ndiswan_interface_def find_ndiswan_listed)


text \<open>
  When a key of the network class cannot be enumerated any more, for another reason than that there
  are none left, an adapter that was not found before is looked for without end.
\<close>

theorem failed_enumeration_hangs:
  assumes "\<forall>j. enumerate keys j = (if j < length names then Enumerated (names ! j) else Enum_failed)"
    and "\<forall>n \<in> set names. \<not> exports keys adapter component n" "names \<noteq> []"
  shows "is_ndiswan_interface (Some keys) adapter component = None"
proof -
  define P where "P ks a c b \<longleftrightarrow> ks = keys \<and> a = adapter \<and> c = component \<and> \<not> exports keys adapter component b" for ks a c b
  have "\<not> P ks a c b" if "find_ndiswan ks a c i b = Some r" for ks a c i b r
    using _ that
  proof (rule find_ndiswan.raw_induct)
    fix rec ks a c i b r
    assume IH: "\<And>ks a c i b r. rec ks a c i b = Some r \<Longrightarrow> \<not> P ks a c b"
      and step: "(case enumerate ks i of No_more_items \<Rightarrow> Some False
        | answer \<Rightarrow> (let b = (case answer of Enumerated n \<Rightarrow> n | _ \<Rightarrow> b) in if exports ks a c b then Some True else rec ks a c (Suc i) b)) = Some (r :: bool)"
    let ?b = "if i < length names then names ! i else b"
    show "\<not> P ks a c b"
    proof
      assume P: "P ks a c b"
      then have "P ks a c ?b"
        using assms(2) by (simp add: P_def)
      moreover from P have "rec ks a c (Suc i) ?b = Some r"
        using step assms(1,2) by (simp add: P_def Let_def split: if_splits)
      ultimately show False
        using IH by blast
    qed
  qed
  moreover have "P keys adapter component (names ! 0)"
    using assms(2,3) by (simp add: P_def)
  ultimately have "find_ndiswan keys adapter component 1 (names ! 0) = None"
    by (metis not_None_eq)
  moreover have "find_ndiswan keys adapter component 0 [] = find_ndiswan keys adapter component 1 (names ! 0)"
    using assms by (simp add: find_ndiswan.simps [of _ _ _ 0])
  ultimately show ?thesis
    by (simp add: is_ndiswan_interface_def)
qed

text \<open>
  For the names that the driver lists, of less than 256 characters and with the prefix of devices,
  and the buffer that the packet filter gives, no copy overflows and nothing is read beyond the name:
  a conversion that returns gives a name or reports that there is none.
\<close>

theorem friendly_name_fits:
  assumes "length name < 256" "take 8 name = device_prefix"
    and "ConvertWindows2000AdapterName windows10 target query name (MAX_PATH * 4) = Some r"
  shows "r = Not_converted \<or> (\<exists>friendly. r = Converted friendly)"
proof -
  have n: "length device_prefix = 8" "8 \<le> length name"
    using arg_cong [OF assms(2), of length] by (simp_all add: device_prefix_def)
  have k: "length REGSTR_NETWORK_CONTROL_KEY = 80" "length REGSTR_VAL_CONNECTION = 11"
    by (simp_all add: REGSTR_NETWORK_CONTROL_KEY_def REGSTR_VAL_CONNECTION_def)
  have "connection_name query name s = Not_converted \<or> (\<exists>friendly. connection_name query name s = Converted friendly)" for s
    using assms(1) n k by (auto simp: connection_name_def strcpy_s_def MAX_PATH_def split: option.splits)
  then show ?thesis
    using assms(3)
    by (auto simp: ConvertWindows2000AdapterName_def bind_eq_Some_conv copied_name_def strcpy_s_def MAX_PATH_def
        USER_NDISWANIP_def USER_NDISWANBH_def USER_NDISWANIPV6_def split: if_splits)
qed

text \<open>On Windows NT 4 an adapter without a card is reported as converted although nothing is written.\<close>

lemma windows_nt_name_not_written:
  "list_all (\<lambda>c. case c of None \<Rightarrow> False | Some c \<Rightarrow> \<exists>s. service_name c = Some s \<and> \<not> stricmp_equal s (drop (length device_prefix) adapter)) cards \<Longrightarrow>
   ConvertWindowsNTAdapterName (Some cards) adapter room = (True, None)"
  by (simp add: ConvertWindowsNTAdapterName_def, induction cards) (auto split: option.splits)

text \<open>An adapter without a name for users gets that of the adapter before it.\<close>

lemma name_of_previous_adapter:
  assumes "friendly_name_of reg a = Some x" "friendly_name_of reg b = None"
  shows "map friendly_name (initialize_network_interfaces reg [(h, mac, a, med, mtu), (h', mac', b, med', mtu')]) = [x, x]"
  using assms by (simp add: initialize_network_interfaces_def new_network_adapter_def)

text \<open>What is set is read again, and other parameters are as before.\<close>

lemma parameter_set_and_read:
  assumes "set_parameter name nt w r = (True, r')"
  shows "fst (get_parameter name nt junk r') = w"
    and "other \<noteq> name \<Longrightarrow> length bs = 4 \<Longrightarrow> key_values r (parameter_key nt, other) = Some bs \<Longrightarrow> fst (get_parameter other nt junk r') = bytes_to_dword bs"
proof -
  have r': "may_create r (parameter_key nt)" "may_create r' = may_create r"
    "key_values r' = (key_values r)((parameter_key nt, name) \<mapsto> dword_bytes w)"
    using assms by (auto simp: set_parameter_def reg_create_key_def split: if_splits)
  have "bytes_to_dword (dword_bytes w @ xs) = w" for xs
    by (simp add: bytes_to_dword_def dword_bytes_def le32_eta)
  then show "fst (get_parameter name nt junk r') = w"
    using r' by (simp add: get_parameter_def reg_create_key_def)
  show "other \<noteq> name \<Longrightarrow> length bs = 4 \<Longrightarrow> key_values r (parameter_key nt, other) = Some bs \<Longrightarrow> fst (get_parameter other nt junk r') = bytes_to_dword bs"
    using r' by (auto simp: get_parameter_def reg_create_key_def bytes_to_dword_def nth_append)
qed

section \<open>Witnesses\<close>

definition sample_keys :: "enum_answer \<Rightarrow> class_keys" where
  "sample_keys end =
     \<lparr>enumerate = \<lambda>i. if i = 0 then Enumerated ''0007'' else end,
      open_key = \<lambda>n. if n = ''0007'' then Some \<lparr>component_id = Some ''MS_NdisWanIp'', linkage_export = Some ''wan''\<rparr> else None\<rparr>"


theorem failed_enumeration_hangs_witness:
  "is_ndiswan_interface (Some (sample_keys Enum_failed)) ''LAN'' ''ms_ndiswanip'' = None"
proof -
  have "\<not> exports (sample_keys Enum_failed) ''LAN'' ''ms_ndiswanip'' ''0007''"
    by code_simp
  moreover have "\<forall>j. enumerate (sample_keys Enum_failed) j = (if j < length [''0007''] then Enumerated ([''0007''] ! j) else Enum_failed)"
    by (simp add: sample_keys_def)
  ultimately show ?thesis
    using failed_enumeration_hangs [of "sample_keys Enum_failed" "[''0007'']"] by simp
qed

theorem friendly_name_fits_witness:
  "connection_name (\<lambda>key _ _. Some (drop 80 key)) (device_prefix @ ''{A}'') (MAX_PATH * 4) \<noteq> Aborted \<and>
   ConvertWindows2000AdapterName True None (\<lambda>key _ _. Some (drop 80 key)) (device_prefix @ ''{A}'') (MAX_PATH * 4) \<notin> {Some Aborted, Some Beyond_name}"
proof -
  let ?r = "connection_name (\<lambda>key _ _. Some (drop 80 key)) (device_prefix @ ''{A}'') (MAX_PATH * 4)"
  have r: "ConvertWindows2000AdapterName True None (\<lambda>key _ _. Some (drop 80 key)) (device_prefix @ ''{A}'') (MAX_PATH * 4) = Some ?r"
    by (simp add: ConvertWindows2000AdapterName_def is_ndiswan_ip_def is_ndiswan_bh_def is_ndiswan_ipv6_def is_ndiswan_interface_def)
  from friendly_name_fits [OF _ _ this] have "?r = Not_converted \<or> (\<exists>friendly. ?r = Converted friendly)"
    by (simp add: device_prefix_def)
  then show ?thesis
    using r by auto
qed

end
