(* ===== verification/Gateway.thy ===== *)
theory Gateway
  imports Lifecycle_Properties
begin

text \<open>
  The gateway that the service of ProxiFyre uses: \<^verbatim>\<open>Socksifier\<close> and \<^verbatim>\<open>socksify_unmanaged\<close> over the router
  (socksify/Socksifier.cpp, socksify/socksify_unmanaged.cpp), the store of log entries
  (socksify/logger.h) and the lines of the log (netlib/src/log/log.h).
\<close>

section \<open>Levels and lines of the log\<close>

datatype log_level = Log_error | Log_warning | Log_info | Log_debug | Log_all

fun level_code :: "log_level \<Rightarrow> u8" where
  "level_code Log_error = 0"
| "level_code Log_warning = 1"
| "level_code Log_info = 2"
| "level_code Log_debug = 4"
| "level_code Log_all = 255"

lemma level_code_inj [simp]: "level_code a = level_code b \<longleftrightarrow> a = b"
  by (cases a; cases b) simp_all

instantiation log_level :: linorder
begin

definition less_log_level :: "log_level \<Rightarrow> log_level \<Rightarrow> bool" where
  "less_log_level a b \<longleftrightarrow> level_code a < level_code b"

definition less_eq_log_level :: "log_level \<Rightarrow> log_level \<Rightarrow> bool" where
  "less_eq_log_level a b \<longleftrightarrow> level_code a \<le> level_code b"

instance
  by standard (auto simp: less_log_level_def less_eq_log_level_def intro: order.trans dest: order.antisym)

end

fun level_to_string :: "log_level \<Rightarrow> string" where
  "level_to_string Log_error = ''error''"
| "level_to_string Log_warning = ''warning''"
| "level_to_string Log_info = ''info''"
| "level_to_string Log_debug = ''debug''"
| "level_to_string Log_all = ''all''"

definition level_from_string :: "string \<Rightarrow> log_level" where
  "level_from_string s =
     (if s = ''error'' then Log_error else if s = ''warning'' then Log_warning else if s = ''info'' then Log_info
      else if s = ''debug'' then Log_debug else if s = ''all'' then Log_all else Log_error)"

definition is_enabled :: "log_level \<Rightarrow> log_level \<Rightarrow> bool" where
  "is_enabled configured msg \<longleftrightarrow> configured = Log_all \<or> level_code msg \<le> level_code configured"

definition verbosity_timestamp :: u8 where "verbosity_timestamp = 0x01"
definition verbosity_thread :: u8 where "verbosity_thread = 0x02"
definition verbosity_logger :: u8 where "verbosity_logger = 0x04"
definition verbosity_path :: u8 where "verbosity_path = 0x08"
definition verbosity_level :: u8 where "verbosity_level = 0x10"
definition verbosity_all :: u8 where "verbosity_all = 0x1F"

definition has_verbosity_flag :: "u8 \<Rightarrow> u8 \<Rightarrow> bool" where
  "has_verbosity_flag flags flag \<longleftrightarrow> flags AND flag \<noteq> 0"

text \<open>What a line tells of its origin: the texts of time, thread, logger and place.\<close>

record log_origin =
  timestamp_text :: string
  thread_text :: string
  logger_text :: string
  path_text :: string

definition line_components :: "u8 \<Rightarrow> log_level \<Rightarrow> log_origin \<Rightarrow> string list" where
  "line_components v level origin =
     (if has_verbosity_flag v verbosity_level then [''['' @ level_to_string level @ '']''] else []) @
     (if has_verbosity_flag v verbosity_timestamp then [timestamp_text origin] else []) @
     (if has_verbosity_flag v verbosity_thread then [''[T '' @ thread_text origin @ '']''] else []) @
     (if has_verbosity_flag v verbosity_logger then [''['' @ logger_text origin @ '']''] else []) @
     (if has_verbosity_flag v verbosity_path then [''['' @ path_text origin @ '']''] else [])"

definition emit_log_entry :: "u8 \<Rightarrow> log_level \<Rightarrow> log_origin \<Rightarrow> string \<Rightarrow> string" where
  "emit_log_entry v level origin message = concat (map (\<lambda>c. c @ '' '') (line_components v level origin)) @ message @ [CHR 0x0A]"

text \<open>The text that goes to the stream, when there is one.\<close>

definition print_log :: "bool \<Rightarrow> log_level \<Rightarrow> u8 \<Rightarrow> log_level \<Rightarrow> log_origin \<Rightarrow> string \<Rightarrow> string" where
  "print_log has_stream configured v level origin message =
     (if has_stream \<and> is_enabled configured level then emit_log_entry v level origin message else [])"

section \<open>The store of log entries\<close>

datatype event_type = Ev_connected | Ev_disconnected | Ev_address_error

datatype log_entry = Log_message string | Log_event event_type nat

text \<open>
  Entries have the time in milliseconds.  The limit does not bound the store: beyond it the event is
  signalled, when one is set.  \<open>line_buffer\<close> is what was written since the last end of a line.
\<close>

record log_store =
  log_entries :: "(int \<times> log_entry) list"
  log_limit :: nat
  log_event_set :: bool
  log_signalled :: bool
  line_buffer :: string

definition default_log_limit :: nat where "default_log_limit = 100"

definition new_log_store :: log_store where
  "new_log_store = \<lparr>log_entries = [], log_limit = default_log_limit, log_event_set = False, log_signalled = False, line_buffer = []\<rparr>"

definition signal_beyond_limit :: "log_store \<Rightarrow> log_store" where
  "signal_beyond_limit s = (if log_event_set s \<and> log_limit s < length (log_entries s) then s\<lparr>log_signalled := True\<rparr> else s)"

text \<open>A message is a C string.\<close>

definition log_printer :: "int \<Rightarrow> string \<Rightarrow> log_store \<Rightarrow> log_store" where
  "log_printer ms log s =
     signal_beyond_limit (s\<lparr>log_entries := log_entries s @ [(ms, Log_message (takeWhile (\<lambda>c. c \<noteq> CHR 0x00) log))]\<rparr>)"

definition log_event :: "int \<Rightarrow> event_type \<Rightarrow> nat \<Rightarrow> log_store \<Rightarrow> log_store" where
  "log_event ms ev data s = signal_beyond_limit (s\<lparr>log_entries := log_entries s @ [(ms, Log_event ev data)]\<rparr>)"

definition overflow :: "int \<Rightarrow> char \<Rightarrow> log_store \<Rightarrow> log_store" where
  "overflow ms c s =
     (let s = s\<lparr>line_buffer := line_buffer s @ [c]\<rparr> in
      if c = CHR 0x0A then (log_printer ms (line_buffer s) s)\<lparr>line_buffer := []\<rparr> else s)"

definition write_text :: "int \<Rightarrow> string \<Rightarrow> log_store \<Rightarrow> log_store" where
  "write_text ms text s = fold (overflow ms) text s"

definition read_log :: "log_store \<Rightarrow> (int \<times> log_entry) list \<times> log_store" where
  "read_log s = (log_entries s, s\<lparr>log_entries := []\<rparr>)"

definition set_log_limit :: "u32 \<Rightarrow> log_store \<Rightarrow> log_store" where
  "set_log_limit n s = s\<lparr>log_limit := unat n\<rparr>"

definition get_log_limit :: "log_store \<Rightarrow> u32" where
  "get_log_limit s = of_nat (log_limit s)"

definition set_log_event :: "bool \<Rightarrow> log_store \<Rightarrow> log_store" where
  "set_log_event present s = s\<lparr>log_event_set := present\<rparr>"

section \<open>The gateway\<close>

record 'd gateway =
  gateway_router :: "'d local_router"
  gateway_log :: log_store
  gateway_level :: log_level
  gateway_verbosity :: u8

definition update_gateway_router :: "('d local_router \<Rightarrow> 'd local_router) \<Rightarrow> 'd gateway \<Rightarrow> 'd gateway" where
  "update_gateway_router f g = g\<lparr>gateway_router := f (gateway_router g)\<rparr>"

text \<open>Its own messages are printed when their level is lower than that of the gateway.\<close>

definition gateway_print :: "int \<Rightarrow> log_level \<Rightarrow> string \<Rightarrow> 'd gateway \<Rightarrow> 'd gateway" where
  "gateway_print ms level message g =
     (if level < gateway_level g then g\<lparr>gateway_log := log_printer ms message (gateway_log g)\<rparr> else g)"

fun level_verbosity :: "log_level \<Rightarrow> u8" where
  "level_verbosity Log_error = verbosity_level"
| "level_verbosity Log_warning = verbosity_level"
| "level_verbosity Log_info = verbosity_logger OR verbosity_level"
| "level_verbosity Log_debug = verbosity_thread OR verbosity_path OR verbosity_level"
| "level_verbosity Log_all = verbosity_all"

text \<open>\<open>None\<close> is the exception when the file for the packets cannot be opened, which only the level \<open>all\<close> needs.\<close>

definition new_gateway :: "int \<Rightarrow> bool \<Rightarrow> bool \<Rightarrow> log_level \<Rightarrow> 'd local_router \<Rightarrow> log_store \<Rightarrow> 'd gateway option" where
  "new_gateway ms winsock_ok file_ok level router log =
     (let g = \<lparr>gateway_router = router, gateway_log = log, gateway_level = level, gateway_verbosity = level_verbosity level\<rparr>;
          g = (if winsock_ok then g else gateway_print ms Log_info (''WSAStartup failed with error'' @ [CHR 0x0A]) g);
          g = gateway_print ms Log_info ''Creating SOCKS5 Local Router instance...'' g
      in if Log_debug < level \<and> \<not> file_ok then None
         else Some (gateway_print ms Log_info ''SOCKS5 Local Router instance successfully created.'' g))"

definition gateway_start :: "int \<Rightarrow> ('t, router) handlers \<Rightarrow> start_answers \<Rightarrow> 'd gateway \<Rightarrow> (bool \<times> 'd gateway) option" where
  "gateway_start ms hs env g =
     (case start_router hs env (gateway_router g) of
        None \<Rightarrow> None
      | Some (ok, router) \<Rightarrow>
          Some (ok, gateway_print ms Log_info
            (if ok then ''SOCKS5 Local Router instance started successfully.''
             else ''[ERROR]: Failed to start the SOCKS5 Local Router instance!'') (g\<lparr>gateway_router := router\<rparr>)))"

definition gateway_stop :: "int \<Rightarrow> bool \<Rightarrow> router packet_filter \<Rightarrow> 'd gateway \<Rightarrow> bool \<times> 'd gateway" where
  "gateway_stop ms cancelled p g =
     (case stop_router cancelled p (gateway_router g) of (stopped, router) \<Rightarrow>
        if stopped then (False, gateway_print ms Log_info ''[ERROR]: Failed to stop the SOCKS5 Local Router instance.'' (g\<lparr>gateway_router := router\<rparr>))
        else (True, gateway_print ms Log_info ''SOCKS5 Local Router instance stopped successfully.'' (g\<lparr>gateway_router := router\<rparr>)))"

definition gateway_set_bypass_lan :: "'d driver \<Rightarrow> 'd gateway \<Rightarrow> 'd gateway" where
  "gateway_set_bypass_lan drv = update_gateway_router (set_bypass_lan drv)"

text \<open>\<open>parse\<close> is \<^verbatim>\<open>parse_endpoint\<close>; an empty login stands for no credentials.\<close>

definition gateway_add_socks5_proxy ::
  "'d driver \<Rightarrow> server_results \<Rightarrow> (string \<Rightarrow> ip_address_v4 ip_endpoint option) \<Rightarrow> string \<Rightarrow> supported_protocols \<Rightarrow> bool \<Rightarrow> string \<Rightarrow> string \<Rightarrow>
   'd gateway \<Rightarrow> int \<times> 'd gateway" where
  "gateway_add_socks5_proxy drv w parse address protocols begin_now user password g =
     (let cred = (if user = [] then None else Some (user, password)) in
      case add_socks5_proxy drv w (parse address) protocols cred begin_now (gateway_router g) of
        (Some i, router) \<Rightarrow> (int i, g\<lparr>gateway_router := router\<rparr>)
      | (None, router) \<Rightarrow> (- 1, g\<lparr>gateway_router := router\<rparr>))"

text \<open>A handle of 64 bits read as a position.\<close>

definition proxy_position :: "int \<Rightarrow> nat" where
  "proxy_position handle = nat (handle mod 2 ^ 64)"

definition update_routes :: "(router_config \<Rightarrow> bool \<times> router_config) \<Rightarrow> 'd gateway \<Rightarrow> bool \<times> 'd gateway" where
  "update_routes f g =
     (case f (config (routing_of (gateway_router g))) of (ok, cfg) \<Rightarrow>
        (ok, update_gateway_router (update_routing (\<lambda>r. r\<lparr>config := cfg\<rparr>)) g))"

definition gateway_associate_name :: "wstring \<Rightarrow> int \<Rightarrow> 'd gateway \<Rightarrow> bool \<times> 'd gateway" where
  "gateway_associate_name name handle = update_routes (associate_process_name_to_proxy name (proxy_position handle))"

definition gateway_exclude_name :: "wstring \<Rightarrow> 'd gateway \<Rightarrow> bool \<times> 'd gateway" where
  "gateway_exclude_name name = update_routes (exclude_process_name name)"

definition gateway_add_direct_rule ::
  "(string \<Rightarrow> ip_address_v4 option) \<Rightarrow> string \<Rightarrow> wstring list \<Rightarrow> wstring list \<Rightarrow> string list \<Rightarrow> string list \<Rightarrow> string list \<Rightarrow>
   'd gateway \<Rightarrow> bool \<times> 'd gateway" where
  "gateway_add_direct_rule from_string name names paths networks ports cidrs =
     update_routes (add_destination_direct_rule from_string name names paths networks ports cidrs)"

definition gateway_associate_pid :: "u32 \<Rightarrow> int \<Rightarrow> filetime \<Rightarrow> 'd gateway \<Rightarrow> bool \<times> 'd gateway" where
  "gateway_associate_pid pid handle creation = update_routes (set_pid_route pid (proxy_position handle) creation)"

definition gateway_remove_pid :: "u32 \<Rightarrow> 'd gateway \<Rightarrow> bool \<times> 'd gateway" where
  "gateway_remove_pid pid = update_routes (remove_process_id pid)"

definition gateway_clear_pids :: "'d gateway \<Rightarrow> 'd gateway" where
  "gateway_clear_pids g = snd (update_routes (\<lambda>cfg. (True, clear_pid_routes cfg)) g)"

section \<open>The managed class\<close>

text \<open>References that may be null; \<open>unmanaged\<close> is gone after the object is finalized.\<close>

definition managed_add_socks5_proxy ::
  "'d driver \<Rightarrow> server_results \<Rightarrow> (string \<Rightarrow> ip_address_v4 ip_endpoint option) \<Rightarrow> string \<Rightarrow> string option \<Rightarrow> string option \<Rightarrow>
   supported_protocols \<Rightarrow> bool \<Rightarrow> 'd gateway option \<Rightarrow> int \<times> 'd gateway option" where
  "managed_add_socks5_proxy drv w parse address username password protocols begin_now unmanaged =
     (case unmanaged of
        None \<Rightarrow> (- 1, None)
      | Some g \<Rightarrow>
          let (user, pass) = (case (username, password) of (Some u, Some p) \<Rightarrow> (u, p) | _ \<Rightarrow> ([], []));
              (handle, g) = gateway_add_socks5_proxy drv w parse address protocols begin_now user pass g
          in (handle, Some g))"

text \<open>The operations that only ask whether there is an object.\<close>

definition managed_operation :: "('d gateway \<Rightarrow> bool \<times> 'd gateway) \<Rightarrow> 'd gateway option \<Rightarrow> bool \<times> 'd gateway option" where
  "managed_operation f unmanaged =
     (case unmanaged of None \<Rightarrow> (False, None) | Some g \<Rightarrow> (case f g of (ok, g) \<Rightarrow> (ok, Some g)))"

definition managed_stop :: "int \<Rightarrow> bool \<Rightarrow> router packet_filter \<Rightarrow> 'd gateway option \<Rightarrow> bool \<times> 'd gateway option" where
  "managed_stop ms cancelled p = managed_operation (gateway_stop ms cancelled p)"

definition managed_associate_name :: "wstring \<Rightarrow> int \<Rightarrow> 'd gateway option \<Rightarrow> bool \<times> 'd gateway option" where
  "managed_associate_name name handle = managed_operation (gateway_associate_name name handle)"

definition managed_exclude_name :: "wstring \<Rightarrow> 'd gateway option \<Rightarrow> bool \<times> 'd gateway option" where
  "managed_exclude_name name = managed_operation (gateway_exclude_name name)"

definition managed_remove_pid :: "u32 \<Rightarrow> 'd gateway option \<Rightarrow> bool \<times> 'd gateway option" where
  "managed_remove_pid pid = managed_operation (gateway_remove_pid pid)"

text \<open>\<open>white\<close> tells the characters that are white space; \<open>None\<close> is a null reference.\<close>

definition null_or_white :: "('c \<Rightarrow> bool) \<Rightarrow> 'c list option \<Rightarrow> bool" where
  "null_or_white white s = (case s of None \<Rightarrow> True | Some s \<Rightarrow> list_all white s)"

definition to_vector :: "('c \<Rightarrow> bool) \<Rightarrow> 'c list option list option \<Rightarrow> 'c list list" where
  "to_vector white values =
     (case values of None \<Rightarrow> [] | Some values \<Rightarrow> List.map_filter (\<lambda>v. if null_or_white white v then None else v) values)"

definition managed_add_direct_rule ::
  "(string \<Rightarrow> ip_address_v4 option) \<Rightarrow> (char \<Rightarrow> bool) \<Rightarrow> (u16 \<Rightarrow> bool) \<Rightarrow> string option \<Rightarrow> wstring option list option \<Rightarrow> wstring option list option \<Rightarrow>
   string option list option \<Rightarrow> string option list option \<Rightarrow> string option list option \<Rightarrow> 'd gateway option \<Rightarrow> bool \<times> 'd gateway option" where
  "managed_add_direct_rule from_string white wide_white name names paths networks ports cidrs unmanaged =
     (case unmanaged of
        None \<Rightarrow> (False, None)
      | Some g \<Rightarrow>
          let (ok, g) = gateway_add_direct_rule from_string (if null_or_white white name then ''direct'' else the name)
                (to_vector wide_white names) (to_vector wide_white paths) (to_vector white networks) (to_vector white ports)
                (to_vector white cidrs) g
          in (ok, Some g))"

definition split_filetime :: "u64 \<Rightarrow> filetime" where
  "split_filetime t = \<lparr>dwLowDateTime = ucast t, dwHighDateTime = ucast (drop_bit 32 t)\<rparr>"

definition managed_associate_pid :: "u32 \<Rightarrow> int \<Rightarrow> u64 \<Rightarrow> 'd gateway option \<Rightarrow> bool \<times> 'd gateway option" where
  "managed_associate_pid pid handle creation_time unmanaged =
     (case unmanaged of
        None \<Rightarrow> (False, None)
      | Some g \<Rightarrow> let (ok, g) = gateway_associate_pid pid handle (split_filetime creation_time) g in (ok, Some g))"

text \<open>
  The thread that delivers the log: woken by the event or after an interval, it ends when the object
  is being finalized and else hands over what there is, if anything.
\<close>

definition log_thread_round :: "bool \<Rightarrow> log_store \<Rightarrow> (int \<times> log_entry) list option \<times> log_store" where
  "log_thread_round active s =
     (let s = s\<lparr>log_signalled := False\<rparr> in
      if \<not> active then (None, s)
      else case read_log s of (entries, s) \<Rightarrow> (if entries = [] then None else Some entries, s))"

section \<open>Levels\<close>

lemma level_string_round_trip: "level_from_string (level_to_string l) = l"
  by (cases l) (simp_all add: level_from_string_def)

text \<open>The test of the macros, on the order of the levels, is that of the print itself.\<close>

lemma macro_test_is_enabled: "level \<le> configured \<longleftrightarrow> is_enabled configured level"
proof -
  have "level_code l \<le> 255" for l
    using unsigned_less [of "level_code l"] by (simp add: word_le_nat_alt)
  then show ?thesis
    by (auto simp: is_enabled_def less_eq_log_level_def)
qed

section \<open>Delivery of the log\<close>

datatype log_action =
  Write int string
| Print int string
| Event int event_type nat
| Limit u32
| Deliver bool

text \<open>The batches delivered so far and the store.\<close>

fun log_step :: "log_action \<Rightarrow> (int \<times> log_entry) list list \<times> log_store \<Rightarrow> (int \<times> log_entry) list list \<times> log_store" where
  "log_step (Write ms text) (out, s) = (out, write_text ms text s)"
| "log_step (Print ms text) (out, s) = (out, log_printer ms text s)"
| "log_step (Event ms ev data) (out, s) = (out, log_event ms ev data s)"
| "log_step (Limit n) (out, s) = (out, set_log_limit n s)"
| "log_step (Deliver active) (out, s) =
     (case log_thread_round active s of (None, s) \<Rightarrow> (out, s) | (Some entries, s) \<Rightarrow> (out @ [entries], s))"

text \<open>What is logged: the lines of all text, and the messages and events, in the order of their ends.\<close>

fun text_lines :: "int \<Rightarrow> string \<Rightarrow> string \<Rightarrow> (int \<times> log_entry) list \<times> string" where
  "text_lines ms pending_line [] = ([], pending_line)"
| "text_lines ms pending_line (c # cs) =
     (if c = CHR 0x0A
      then (case text_lines ms [] cs of (es, rest) \<Rightarrow> ((ms, Log_message (takeWhile (\<lambda>c. c \<noteq> CHR 0x00) (pending_line @ [c]))) # es, rest))
      else text_lines ms (pending_line @ [c]) cs)"

fun logged :: "string \<Rightarrow> log_action list \<Rightarrow> (int \<times> log_entry) list" where
  "logged pending_line [] = []"
| "logged pending_line (Write ms text # acts) = (case text_lines ms pending_line text of (es, rest) \<Rightarrow> es @ logged rest acts)"
| "logged pending_line (Print ms text # acts) = (ms, Log_message (takeWhile (\<lambda>c. c \<noteq> CHR 0x00) text)) # logged pending_line acts"
| "logged pending_line (Event ms ev data # acts) = (ms, Log_event ev data) # logged pending_line acts"
| "logged pending_line (Limit n # acts) = logged pending_line acts"
| "logged pending_line (Deliver active # acts) = logged pending_line acts"

lemma signal_beyond_limit_simps [simp]:
  "log_entries (signal_beyond_limit s) = log_entries s" "line_buffer (signal_beyond_limit s) = line_buffer s"
  by (simp_all add: signal_beyond_limit_def)

lemma log_printer_simps [simp]:
  "log_entries (log_printer ms text s) = log_entries s @ [(ms, Log_message (takeWhile (\<lambda>c. c \<noteq> CHR 0x00) text))]"
  "line_buffer (log_printer ms text s) = line_buffer s"
  by (simp_all add: log_printer_def)

lemma log_event_simps [simp]:
  "log_entries (log_event ms ev data s) = log_entries s @ [(ms, Log_event ev data)]" "line_buffer (log_event ms ev data s) = line_buffer s"
  by (simp_all add: log_event_def)

lemma write_text_lines:
  "log_entries (write_text ms chars s) = log_entries s @ fst (text_lines ms (line_buffer s) chars) \<and>
   line_buffer (write_text ms chars s) = snd (text_lines ms (line_buffer s) chars)"
proof (induction chars arbitrary: s)
  case (Cons c chars)
  then show ?case
    using Cons.IH [of "overflow ms c s"] by (simp add: write_text_def overflow_def Let_def split: prod.split)
qed (simp add: write_text_def)

lemma log_thread_round_simps [simp]:
  "log_thread_round True s =
     (if log_entries s = [] then None else Some (log_entries s), s\<lparr>log_signalled := False, log_entries := []\<rparr>)"
  "log_thread_round False s = (None, s\<lparr>log_signalled := False\<rparr>)"
  by (simp_all add: log_thread_round_def read_log_def Let_def)

lemma log_run:
  "fold log_step acts (out, s) = (out', s') \<Longrightarrow> concat out' @ log_entries s' = concat out @ log_entries s @ logged (line_buffer s) acts"
proof (induction acts arbitrary: out s)
  case (Cons a acts)
  show ?case
  proof (cases a)
    case (Write ms chars)
    then have "concat out' @ log_entries s' = concat out @ log_entries (write_text ms chars s) @ logged (line_buffer (write_text ms chars s)) acts"
      using Cons by simp
    then show ?thesis
      using Write write_text_lines [of ms chars s] by (simp split: prod.split)
  next
    case (Limit n)
    then show ?thesis
      using Cons.IH [of out "set_log_limit n s"] Cons.prems by (simp add: set_log_limit_def)
  next
    case (Deliver active)
    then show ?thesis
      using Cons.IH [of "out @ [log_entries s]" "s\<lparr>log_signalled := False, log_entries := []\<rparr>"]
        Cons.IH [of out "s\<lparr>log_signalled := False, log_entries := []\<rparr>"] Cons.IH [of out "s\<lparr>log_signalled := False\<rparr>"] Cons.prems
      by (cases active) (simp_all split: if_splits)
  qed (use Cons.IH [of out] Cons.prems in auto)
qed simp

text \<open>
  C23: whatever is written, printed and logged, and whatever the limit, what the log thread has
  delivered and what the store still holds are together exactly what was logged, in order, each line
  once: the limit makes nothing be lost.
\<close>

theorem log_delivered_in_order:
  assumes "fold log_step actions ([], new_log_store) = (delivered, s)"
  shows "concat delivered @ log_entries s = logged [] actions"
  using log_run [OF assms] by (simp add: new_log_store_def)

text \<open>
  What is logged after the last delivery stays in the store when the object is finalized: the thread
  then ends without a delivery.
\<close>

lemma last_entries_not_delivered:
  "log_step (Deliver False) (out, s) = (out, s\<lparr>log_signalled := False\<rparr>)"
  by simp

section \<open>What the gateway reports\<close>

text \<open>
  C38: stopping a gateway that runs stops the router and reports a failure; stopping one that does not
  run reports success.
\<close>

theorem stop_report_inverted:
  "(fst (gateway_stop ms cancelled p g) \<longleftrightarrow> \<not> is_active (gateway_router g)) \<and>
   \<not> is_active (gateway_router (snd (gateway_stop ms cancelled p g)))"
  by (auto simp: gateway_stop_def stop_router_def gateway_print_def update_routing_def)

lemma update_routing_twice [simp]: "routing_of (update_routing f l) = f (routing_of l)"
  by (simp add: update_routing_def)


text \<open>The time of creation goes through its two halves unchanged.\<close>

lemma filetime_round_trip: "filetime_to_uint64 (split_filetime t) = t"
  by (rule bit_word_eqI) (auto simp: filetime_to_uint64_def split_filetime_def bit_simps)

section \<open>Witnesses\<close>

definition sample_actions :: "log_action list" where
  "sample_actions = [Limit 0, Write 1 (''one'' @ CHR 0x0A # ''tw''), Deliver True, Event 2 Ev_connected 0, Write 3 (''o'' @ [CHR 0x0A])]"

theorem log_delivered_in_order_witness:
  "(case fold log_step sample_actions ([], new_log_store) of (delivered, s) \<Rightarrow> concat delivered @ log_entries s) =
   [(1, Log_message (''one'' @ [CHR 0x0A])), (2, Log_event Ev_connected 0), (3, Log_message (''two'' @ [CHR 0x0A]))]"
proof -
  have "logged [] sample_actions =
      [(1, Log_message (''one'' @ [CHR 0x0A])), (2, Log_event Ev_connected 0), (3, Log_message (''two'' @ [CHR 0x0A]))]"
    by (simp add: sample_actions_def)
  then show ?thesis
    using log_delivered_in_order [of sample_actions] by (simp split: prod.split)
qed

definition sample_gateway :: "static_filter list gateway" where
  "sample_gateway = \<lparr>gateway_router = sample_router, gateway_log = new_log_store, gateway_level = Log_info, gateway_verbosity = 0\<rparr>"


end
