(* ===== verification/Capture.thy ===== *)
theory Capture
  imports Packet_Buffer "HOL-Library.Signed_Division"
begin

text \<open>
  The capture of packets: the file format (netlib/src/pcap/pcap.h), the logger that writes it
  (netlib/src/pcap/pcap_stream_logger.h) and what the router makes of its stream
  (proxy/socks_local_router.h).
\<close>

section \<open>The file\<close>

definition LINKTYPE_ETHERNET :: u32 where "LINKTYPE_ETHERNET = 1"

record pcap_hdr =
  magic_number :: u32
  version_major :: u16
  version_minor :: u16
  thiszone :: u32
  sigfigs :: u32
  snaplen :: u32
  network :: u32

record pcaprec_hdr =
  ts_sec :: u32
  ts_usec :: u32
  incl_len :: u32
  orig_len :: u32

definition pcap_file_header :: "u16 \<Rightarrow> u16 \<Rightarrow> u32 \<Rightarrow> u32 \<Rightarrow> u32 \<Rightarrow> u32 \<Rightarrow> pcap_hdr" where
  "pcap_file_header major minor this_zone sig_figs snap_len link =
     \<lparr>magic_number = 0xa1b2c3d4, version_major = major, version_minor = minor, thiszone = this_zone, sigfigs = sig_figs,
      snaplen = snap_len, network = link\<rparr>"

definition file_header_bytes :: "pcap_hdr \<Rightarrow> u8 list" where
  "file_header_bytes h =
     dword_bytes (magic_number h) @ word_bytes (version_major h) @ word_bytes (version_minor h) @ dword_bytes (thiszone h) @
     dword_bytes (sigfigs h) @ dword_bytes (snaplen h) @ dword_bytes (network h)"

text \<open>The data behind a record header; \<open>None\<close>: the length exceeds the array that is written from.\<close>

definition record_bytes :: "pcaprec_hdr \<Rightarrow> frame \<Rightarrow> u8 list option" where
  "record_bytes h data =
     (if unat (incl_len h) \<le> MAX_ETHER_FRAME
      then Some (dword_bytes (ts_sec h) @ dword_bytes (ts_usec h) @ dword_bytes (incl_len h) @ dword_bytes (orig_len h) @
                 map data [0..<unat (incl_len h)])
      else None)"

section \<open>The logger\<close>

text \<open>
  Readings of the clocks, in nanoseconds: the first call of the process keeps its own of both clocks,
  each call reads the fine one again.
\<close>

record clock_reads =
  start_read :: time_point
  system_read :: time_point
  now_read :: time_point

type_synonym stamp_base = "(time_point \<times> u32) option"

definition base_of :: "clock_reads \<Rightarrow> stamp_base \<Rightarrow> time_point \<times> u32" where
  "base_of r base =
     (case base of None \<Rightarrow> (start_read r, of_int (system_read r sdiv seconds 1)) | Some b \<Rightarrow> b)"

definition get_timestamp :: "clock_reads \<Rightarrow> stamp_base \<Rightarrow> (u32 \<times> u32) \<times> stamp_base" where
  "get_timestamp r base =
     (case base_of r base of (start_time, seconds_since_epoch) \<Rightarrow>
        let milliseconds = (now_read r - start_time) sdiv 1000000
        in ((of_int (milliseconds sdiv 1000) + seconds_since_epoch, of_int (milliseconds smod 1000 * 1000)),
            Some (start_time, seconds_since_epoch)))"

record pcap_stream_logger =
  output_stream :: "u8 list"
  stamps :: stamp_base

definition new_pcap_stream_logger :: "u8 list \<Rightarrow> stamp_base \<Rightarrow> pcap_stream_logger" where
  "new_pcap_stream_logger out base =
     \<lparr>output_stream = out @ file_header_bytes (pcap_file_header 2 4 0 0 (of_nat MAX_ETHER_FRAME) LINKTYPE_ETHERNET), stamps = base\<rparr>"

definition log_buffer :: "clock_reads \<Rightarrow> intermediate_buffer \<Rightarrow> pcap_stream_logger \<Rightarrow> pcap_stream_logger option" where
  "log_buffer r buffer l =
     (case get_timestamp r (stamps l) of ((sec, usec), base) \<Rightarrow>
        map_option (\<lambda>bs. \<lparr>output_stream = output_stream l @ bs, stamps = base\<rparr>)
          (record_bytes \<lparr>ts_sec = sec, ts_usec = usec, incl_len = m_Length buffer, orig_len = m_Length buffer\<rparr> (m_IBuffer buffer)))"

fun log_buffers :: "(clock_reads \<times> intermediate_buffer) list \<Rightarrow> pcap_stream_logger \<Rightarrow> pcap_stream_logger option" where
  "log_buffers [] l = Some l"
| "log_buffers ((r, b) # bs) l = Option.bind (log_buffer r b l) (log_buffers bs)"

section \<open>The router\<close>

text \<open>
  The stream a router was given, and its logger, which writes to that stream.  The constructor moves
  its parameter into the member, which leaves the parameter empty, and then asks the parameter.
\<close>

record capture =
  pcap_log_stream :: "u8 list option"
  pcap_logger :: "pcap_stream_logger option"

definition new_capture :: "u8 list option \<Rightarrow> stamp_base \<Rightarrow> capture" where
  "new_capture param base =
     (let c = \<lparr>pcap_log_stream = param, pcap_logger = None\<rparr>; param = (None :: u8 list option) in
      if param \<noteq> None then c\<lparr>pcap_logger := map_option (\<lambda>out. new_pcap_stream_logger out base) (pcap_log_stream c)\<rparr> else c)"

definition log_packet_to_pcap :: "clock_reads \<Rightarrow> intermediate_buffer \<Rightarrow> capture \<Rightarrow> capture option" where
  "log_packet_to_pcap r packet c =
     (case pcap_logger c of
        None \<Rightarrow> Some c
      | Some l \<Rightarrow> map_option (\<lambda>l. c\<lparr>pcap_logger := Some l, pcap_log_stream := Some (output_stream l)\<rparr>) (log_buffer r packet l))"

fun log_packets_to_pcap :: "(clock_reads \<times> intermediate_buffer) list \<Rightarrow> capture \<Rightarrow> capture option" where
  "log_packets_to_pcap [] c = Some c"
| "log_packets_to_pcap ((r, b) # bs) c = Option.bind (log_packet_to_pcap r b c) (log_packets_to_pcap bs)"

section \<open>A reader of the format\<close>

text \<open>The records of a file: header and data; \<open>None\<close>: what is left is not a whole record.\<close>

function read_records :: "u8 list \<Rightarrow> (pcaprec_hdr \<times> u8 list) list option" where
  "read_records bs =
     (if bs = [] then Some []
      else if length bs < 16 then None
      else let word = (\<lambda>i. le32 (bs ! i) (bs ! (i + 1)) (bs ! (i + 2)) (bs ! (i + 3)));
               h = \<lparr>ts_sec = word 0, ts_usec = word 4, incl_len = word 8, orig_len = word 12\<rparr>;
               rest = drop 16 bs;
               n = unat (incl_len h)
           in if length rest < n then None
              else map_option (Cons (h, take n rest)) (read_records (drop n rest)))"
  by pat_completeness auto

termination
  by (relation "measure length") (auto simp: Let_def)

declare read_records.simps [simp del]

text \<open>The link type, the limit of a record and the records of a whole file of version 2.4.\<close>

definition read_capture :: "u8 list \<Rightarrow> (u32 \<times> u32 \<times> (pcaprec_hdr \<times> u8 list) list) option" where
  "read_capture bs =
     (if take 8 bs = dword_bytes 0xa1b2c3d4 @ word_bytes 2 @ word_bytes 4 \<and> 24 \<le> length bs
      then map_option (\<lambda>rs. (le32 (bs ! 20) (bs ! 21) (bs ! 22) (bs ! 23), le32 (bs ! 16) (bs ! 17) (bs ! 18) (bs ! 19), rs))
             (read_records (drop 24 bs))
      else None)"

lemma read_records_Nil [simp]: "read_records [] = Some []"
  by (simp add: read_records.simps)

lemma read_records_append:
  assumes "record_bytes h data = Some bs"
  shows "read_records (bs @ rest) = map_option (Cons (h, map data [0..<unat (incl_len h)])) (read_records rest)"
proof -
  have bs: "bs = dword_bytes (ts_sec h) @ dword_bytes (ts_usec h) @ dword_bytes (incl_len h) @ dword_bytes (orig_len h) @
      map data [0..<unat (incl_len h)]"
    using assms by (auto simp: record_bytes_def split: if_splits)
  show ?thesis
    unfolding bs
    by (subst read_records.simps) (cases h; simp add: Let_def nth_append dword_bytes_def le32_eta)
qed

text \<open>What the logger writes for one packet, and for a run of packets.\<close>

definition stamped :: "clock_reads \<Rightarrow> intermediate_buffer \<Rightarrow> stamp_base \<Rightarrow> pcaprec_hdr \<times> u8 list" where
  "stamped r b base =
     (case fst (get_timestamp r base) of (sec, usec) \<Rightarrow>
        (\<lparr>ts_sec = sec, ts_usec = usec, incl_len = m_Length b, orig_len = m_Length b\<rparr>, map (m_IBuffer b) [0..<unat (m_Length b)]))"

fun all_stamped :: "(clock_reads \<times> intermediate_buffer) list \<Rightarrow> stamp_base \<Rightarrow> (pcaprec_hdr \<times> u8 list) list" where
  "all_stamped [] base = []"
| "all_stamped ((r, b) # bs) base = stamped r b base # all_stamped bs (snd (get_timestamp r base))"

lemma log_buffer_written:
  assumes "unat (m_Length b) \<le> MAX_ETHER_FRAME"
  obtains bs where "log_buffer r b l = Some \<lparr>output_stream = output_stream l @ bs, stamps = snd (get_timestamp r (stamps l))\<rparr>"
    "\<And>rest. read_records (bs @ rest) = map_option (Cons (stamped r b (stamps l))) (read_records rest)"
proof -
  obtain sec usec base where stamp: "get_timestamp r (stamps l) = ((sec, usec), base)"
    by (cases "get_timestamp r (stamps l)") auto
  define h where "h = \<lparr>ts_sec = sec, ts_usec = usec, incl_len = m_Length b, orig_len = m_Length b\<rparr>"
  obtain bs where bs: "record_bytes h (m_IBuffer b) = Some bs"
    using assms by (simp add: record_bytes_def h_def)
  show thesis
  proof (rule that)
    show "log_buffer r b l = Some \<lparr>output_stream = output_stream l @ bs, stamps = snd (get_timestamp r (stamps l))\<rparr>"
      using bs by (simp add: log_buffer_def stamp h_def)
    show "read_records (bs @ rest) = map_option (Cons (stamped r b (stamps l))) (read_records rest)" for rest
      using read_records_append [OF bs] by (simp add: stamped_def stamp h_def)
  qed
qed

lemma log_buffers_read:
  "\<forall>(r, b) \<in> set log. unat (m_Length b) \<le> MAX_ETHER_FRAME \<Longrightarrow>
   \<exists>l' bs. log_buffers log l = Some l' \<and> output_stream l' = output_stream l @ bs \<and> read_records bs = Some (all_stamped log (stamps l))"
proof (induction log arbitrary: l)
  case (Cons a log)
  obtain r b where a: "a = (r, b)"
    by fastforce
  with Cons.prems obtain bs where bs:
    "log_buffer r b l = Some \<lparr>output_stream = output_stream l @ bs, stamps = snd (get_timestamp r (stamps l))\<rparr>"
    "\<And>rest. read_records (bs @ rest) = map_option (Cons (stamped r b (stamps l))) (read_records rest)"
    using log_buffer_written [of b r l] by auto
  from Cons.IH [of "\<lparr>output_stream = output_stream l @ bs, stamps = snd (get_timestamp r (stamps l))\<rparr>"] Cons.prems
  obtain l' cs where "log_buffers log \<lparr>output_stream = output_stream l @ bs, stamps = snd (get_timestamp r (stamps l))\<rparr> = Some l'"
    "output_stream l' = (output_stream l @ bs) @ cs" "read_records cs = Some (all_stamped log (snd (get_timestamp r (stamps l))))"
    by auto
  then show ?case
    using bs a by (intro exI [of _ l'] exI [of _ "bs @ cs"]) simp
qed simp


text \<open>
  The stamps: while the clock does not run backwards the milliseconds are those since the first call,
  counted on from the seconds of that call, and the microseconds are less than a second.
\<close>

lemma sdiv_nonneg:
  fixes a b :: int
  assumes "0 \<le> a" "0 < b"
  shows "a sdiv b = a div b" "a smod b = a mod b"
  using assms by (cases "a = 0"; simp add: signed_divide_int_def signed_modulo_int_def sgn_if)+

lemma unat_of_int_u32: "0 \<le> k \<Longrightarrow> k < 2 ^ 32 \<Longrightarrow> int (unat (of_int k :: u32)) = k"
  by (simp add: unsigned_of_int take_bit_int_eq_self_iff)

lemma stamp_exact:
  assumes "get_timestamp r (Some (start_time, epoch)) = ((sec, usec), base)" "start_time \<le> now_read r"
    and "(now_read r - start_time) div seconds 1 + int (unat epoch) < 2 ^ 32"
  shows "1000 * int (unat sec) + int (unat usec) div 1000 = 1000 * int (unat epoch) + (now_read r - start_time) div 1000000 \<and>
    unat usec < 1000000"
proof -
  define ms where "ms = (now_read r - start_time) div 1000000"
  have pos: "0 \<le> ms"
    using assms(2) by (simp add: ms_def pos_imp_zdiv_nonneg_iff)
  have secs: "ms div 1000 = (now_read r - start_time) div seconds 1"
    by (simp add: ms_def zdiv_zmult2_eq [symmetric])
  have div_pos: "0 \<le> (now_read r - start_time) div seconds 1"
    using assms(2) by (simp add: pos_imp_zdiv_nonneg_iff)
  have "sec = of_int (ms div 1000) + epoch" and usec: "usec = of_int (ms mod 1000 * 1000)"
    using assms(1,2) pos by (auto simp: get_timestamp_def base_of_def Let_def sdiv_nonneg ms_def [symmetric])
  then have "sec = of_int (ms div 1000 + int (unat epoch))"
    by simp
  then have sec: "int (unat sec) = ms div 1000 + int (unat epoch)"
    using unat_of_int_u32 [of "ms div 1000 + int (unat epoch)"] assms(3) pos div_pos
    unfolding secs by simp
  have bound: "0 \<le> ms mod 1000" "ms mod 1000 < 1000"
    by simp_all
  then have usec': "int (unat usec) = ms mod 1000 * 1000"
    using unat_of_int_u32 [of "ms mod 1000 * 1000"] usec by simp
  have "1000 * int (unat sec) + int (unat usec) div 1000 = 1000 * int (unat epoch) + ms"
    using sec usec' mult_div_mod_eq [of 1000 ms] by simp
  moreover have "unat usec < 1000000"
    using usec' bound by linarith
  ultimately show ?thesis
    by (simp add: ms_def)
qed

text \<open>
  A router captures nothing: whatever stream it is given and whatever packets pass, the stream stays
  as it was.
\<close>

theorem nothing_captured:
  "log_packets_to_pcap log (new_capture param base) = Some (new_capture param base) \<and>
   pcap_log_stream (new_capture param base) = param"
proof -
  have "pcap_logger (new_capture param base) = None" "pcap_log_stream (new_capture param base) = param"
    by (simp_all add: new_capture_def Let_def)
  moreover from this(1) have "log_packets_to_pcap log (new_capture param base) = Some (new_capture param base)"
    by (induction log) (auto simp: log_packet_to_pcap_def)
  ultimately show ?thesis
    by simp
qed

section \<open>Witness\<close>

definition sample_log :: "(clock_reads \<times> intermediate_buffer) list" where
  "sample_log =
     [(\<lparr>start_read = 5, system_read = seconds 1700000000, now_read = 7\<rparr>, \<lparr>m_dwDeviceFlags = 0, m_Length = 3, m_IBuffer = of_nat\<rparr>),
      (\<lparr>start_read = 9, system_read = 0, now_read = seconds 2\<rparr>, \<lparr>m_dwDeviceFlags = 0, m_Length = 1, m_IBuffer = (\<lambda>_. 7)\<rparr>)]"


end
