(* ===== verification/Net_Text.thy ===== *)
theory Net_Text
  imports Net_Address
begin

text \<open>
  Text: the string tools (netlib/src/tools/strings.h), the hardware address read from text
  (netlib/src/net/mac_address.h) and the conversions of IP addresses (netlib/src/net/ip_address.h).
\<close>

section \<open>String tools\<close>

text \<open>Reading with \<^verbatim>\<open>std::getline\<close> until nothing is left: after a separator at the end there is no segment.\<close>

function split_string :: "'c list \<Rightarrow> 'c \<Rightarrow> 'c list list" where
  "split_string input sep =
     (if input = [] then []
      else takeWhile (\<lambda>c. c \<noteq> sep) input # split_string (drop 1 (dropWhile (\<lambda>c. c \<noteq> sep) input)) sep)"
  by pat_completeness auto

termination
proof (relation "measure (\<lambda>(input, sep). length input)")
  show "((drop 1 (dropWhile (\<lambda>c. c \<noteq> sep) input), sep), input, sep) \<in> measure (\<lambda>(input, sep). length input)"
    if "input \<noteq> []" for input :: "'c list" and sep
    using that length_dropWhile_le [of "\<lambda>c. c \<noteq> sep" "tl input"] by (cases input) auto
qed simp

declare split_string.simps [simp del]

text \<open>In the classic locale only the letters of ASCII have lower case.\<close>

definition to_lower_char :: "char \<Rightarrow> char" where
  "to_lower_char c = (let n = of_char c :: nat in if 65 \<le> n \<and> n \<le> 90 then char_of (n + 32) else c)"

definition to_lower :: "string \<Rightarrow> string" where
  "to_lower input = map to_lower_char input"

definition to_lower_wide :: "u16 list \<Rightarrow> u16 list" where
  "to_lower_wide input = map (\<lambda>c. if 65 \<le> c \<and> c \<le> 90 then c + 32 else c) input"

text \<open>
  The conversions between UTF-8 and wide text take C strings; \<open>system\<close> is the function of Windows on the
  text before the zero, \<open>None\<close> its failure.
\<close>

definition to_wstring :: "(string \<Rightarrow> u16 list option) \<Rightarrow> string \<Rightarrow> u16 list" where
  "to_wstring system s = (case system (takeWhile (\<lambda>c. c \<noteq> CHR 0x00) s) of None \<Rightarrow> [] | Some w \<Rightarrow> w)"

definition wide_to_string :: "(u16 list \<Rightarrow> string option) \<Rightarrow> u16 list \<Rightarrow> string" where
  "wide_to_string system s = (case system (takeWhile (\<lambda>c. c \<noteq> 0) s) of None \<Rightarrow> [] | Some w \<Rightarrow> w)"

section \<open>Hardware addresses from text\<close>

definition is_white :: "char \<Rightarrow> bool" where
  "is_white c \<longleftrightarrow> (of_char c :: nat) \<in> {9, 10, 11, 12, 13, 32}"

definition hex_value :: "char \<Rightarrow> nat option" where
  "hex_value c =
     (let n = of_char c in
      if 48 \<le> n \<and> n \<le> 57 then Some (n - 48) else if 65 \<le> n \<and> n \<le> 70 then Some (n - 55)
      else if 97 \<le> n \<and> n \<le> 102 then Some (n - 87) else None)"

definition hex_number :: "string \<Rightarrow> nat" where
  "hex_number ds = foldl (\<lambda>n c. 16 * n + (case hex_value c of None \<Rightarrow> 0 | Some d \<Rightarrow> d)) 0 ds"

text \<open>
  \<^verbatim>\<open>stream >> std::hex >> b\<close> for 32 bits: nothing is stored when only white space is left, 0 without a
  digit, the greatest value when there are too many.  What a library stores behind a minus sign differs:
  \<open>negated\<close>.
\<close>

definition extract_hex :: "(nat \<Rightarrow> u32) \<Rightarrow> string \<Rightarrow> u32 option" where
  "extract_hex negated s =
     (let s = dropWhile is_white s in
      if s = [] then None
      else let minus = (hd s = CHR ''-'');
               s = (if hd s \<in> {CHR ''-'', CHR ''+''} then tl s else s);
               s = (if take 2 s \<in> {''0x'', ''0X''} then drop 2 s else s);
               ds = takeWhile (\<lambda>c. hex_value c \<noteq> None) s;
               n = hex_number ds
           in Some (if ds = [] then 0 else if minus then negated n else if n < 2 ^ 32 then of_nat n else - 1))"

text \<open>
  The variable that is read into is not initialised: \<open>junk i\<close> is what it holds for segment \<open>i\<close>.
\<close>

definition mac_from_string :: "(nat \<Rightarrow> u32) \<Rightarrow> (nat \<Rightarrow> u32) \<Rightarrow> string \<Rightarrow> mac_address" where
  "mac_from_string negated junk address =
     (let segments = split_string address (CHR '':'');
          mac = map (\<lambda>(i, hex). ucast (case extract_hex negated hex of None \<Rightarrow> junk i | Some b \<Rightarrow> b)) (List.enumerate 0 segments)
      in if length mac = eth_address_length then mac else replicate eth_address_length 0)"

definition mac_reverse :: "mac_address \<Rightarrow> mac_address" where
  "mac_reverse = rev"

section \<open>IP addresses and text\<close>

text \<open>
  The parsers of Windows return whether they succeeded, where the text they took ends, and the address,
  starting from what the target held; where the text ends is not looked at.
\<close>

definition ip_from_string :: "('s \<Rightarrow> 'a \<Rightarrow> bool \<times> nat \<times> 'a) \<Rightarrow> 'a \<Rightarrow> 's \<Rightarrow> bool \<times> 'a" where
  "ip_from_string rtl zero s = (case rtl s zero of (ok, terminator, address) \<Rightarrow> (ok, address))"

definition ip_of_text :: "('s \<Rightarrow> 'a \<Rightarrow> bool \<times> nat \<times> 'a) \<Rightarrow> 'a \<Rightarrow> 's \<Rightarrow> 'a" where
  "ip_of_text rtl zero s = (case rtl s zero of (ok, terminator, address) \<Rightarrow> address)"

text \<open>Printed into a zeroed buffer of \<open>room\<close> characters, read as a C string; \<open>None\<close>: the text and its zero do not fit.\<close>

definition ip_to_text :: "nat \<Rightarrow> ('a \<Rightarrow> string) \<Rightarrow> 'a \<Rightarrow> string option" where
  "ip_to_text room rtl address =
     (let written = rtl address @ [CHR 0x00] in
      if length written \<le> room
      then Some (takeWhile (\<lambda>c. c \<noteq> CHR 0x00) (written @ replicate (room - length written) (CHR 0x00)))
      else None)"

definition ipv4_address_max_length :: nat where "ipv4_address_max_length = 16"
definition ipv6_address_max_string_length :: nat where "ipv6_address_max_string_length = 48"

section \<open>Splitting\<close>

lemma split_string_Nil [simp]: "split_string [] sep = []"
  by (simp add: split_string.simps)

lemma split_string_segment [simp]:
  assumes "sep \<notin> set x"
  shows "split_string (x @ sep # rest) sep = x # split_string rest sep"
proof -
  have "takeWhile (\<lambda>c. c \<noteq> sep) (x @ sep # rest) = x" "dropWhile (\<lambda>c. c \<noteq> sep) (x @ sep # rest) = sep # rest"
    using assms by (auto simp: takeWhile_append dropWhile_append)
  then show ?thesis
    by (subst split_string.simps) simp
qed

lemma split_string_last [simp]:
  assumes "sep \<notin> set x" "x \<noteq> []"
  shows "split_string x sep = [x]"
proof -
  have "takeWhile (\<lambda>c. c \<noteq> sep) x = x" "dropWhile (\<lambda>c. c \<noteq> sep) x = []"
    using assms by auto
  then show ?thesis
    using assms(2) by (subst split_string.simps) (simp del: takeWhile_eq_all_conv dropWhile_eq_Nil_conv)
qed

fun join :: "'c \<Rightarrow> 'c list list \<Rightarrow> 'c list" where
  "join sep [] = []"
| "join sep [x] = x"
| "join sep (x # y # zs) = x @ sep # join sep (y # zs)"

text \<open>
  Splitting undoes joining, but for an empty segment at the end, which is lost.
\<close>

lemma split_join:
  assumes "\<forall>x \<in> set xs. sep \<notin> set x" "xs \<noteq> []"
  shows "split_string (join sep xs) sep = (if last xs = [] then butlast xs else xs)"
  using assms by (induction sep xs rule: join.induct) auto

section \<open>Reading hardware addresses\<close>

definition byte_text :: "u8 \<Rightarrow> string" where
  "byte_text b = [hex_digit (unat b div 16), hex_digit (unat b mod 16)]"

lemma hex_digit_facts:
  assumes "d < 16"
  shows "hex_value (hex_digit d) = Some d" "\<not> is_white (hex_digit d)" "hex_digit d \<notin> {CHR '':'', CHR ''-'', CHR ''+'', CHR ''x'', CHR ''X''}"
proof -
  have "\<forall>d \<in> set [0..<16]. hex_value (hex_digit d) = Some d \<and> \<not> is_white (hex_digit d) \<and>
      hex_digit d \<notin> {CHR '':'', CHR ''-'', CHR ''+'', CHR ''x'', CHR ''X''}"
    by code_simp
  with assms show "hex_value (hex_digit d) = Some d" "\<not> is_white (hex_digit d)"
    "hex_digit d \<notin> {CHR '':'', CHR ''-'', CHR ''+'', CHR ''x'', CHR ''X''}"
    by auto
qed

lemma byte_digits: "unat (b :: u8) div 16 < 16" "unat (b :: u8) mod 16 < 16"
  using unat_u8_less [of b] by (simp_all only: less_mult_imp_div_less [of _ 16 16, simplified] mod_less_divisor zero_less_numeral)

lemma extract_hex_byte [simp]: "extract_hex negated (byte_text b) = Some (ucast b)"
proof -
  have "of_nat (unat b) = (ucast b :: u32)"
    by simp
  moreover have "16 * (unat b div 16) + unat b mod 16 = unat b"
    by simp
  ultimately show ?thesis
    using hex_digit_facts [OF byte_digits(1) [of b]] hex_digit_facts [OF byte_digits(2) [of b]] unat_u8_less [of b]
    by (auto simp: extract_hex_def byte_text_def hex_number_def Let_def) (use unat_u8_less [of b] in linarith)
qed

lemma byte_through_u32: "ucast (ucast b :: u32) = (b :: u8)"
  by (rule bit_word_eqI) (simp add: bit_simps)

lemma byte_text_no_colon [simp]: "CHR '':'' \<notin> set (byte_text b)" "byte_text b \<noteq> []"
  using hex_digit_facts(3) [OF byte_digits(1) [of b]] hex_digit_facts(3) [OF byte_digits(2) [of b]] by (auto simp: byte_text_def)

text \<open>
  Six bytes, each written with two hexadecimal digits and separated by colons, are read back exactly,
  whatever memory held; the text that the class itself prints for an address has no colons and is read as
  the zero address.
\<close>

theorem mac_text:
  assumes "length mac = eth_address_length"
  shows "mac_from_string negated junk (join (CHR '':'') (map byte_text mac)) = mac \<and>
    mac_from_string negated junk (mac_to_string mac) = replicate eth_address_length 0"
proof
  have bytes: "map (\<lambda>(i, hex). ucast (case extract_hex negated hex of None \<Rightarrow> junk i | Some b \<Rightarrow> b))
      (List.enumerate 0 (map byte_text mac)) = mac"
    by (rule nth_equalityI) (simp_all add: nth_enumerate_eq byte_through_u32)
  have "mac \<noteq> []"
    using assms by (auto simp: eth_address_length_def)
  then have "split_string (join (CHR '':'') (map byte_text mac)) (CHR '':'') = map byte_text mac"
    by (subst split_join) (auto simp: last_map)
  then show "mac_from_string negated junk (join (CHR '':'') (map byte_text mac)) = mac"
    using assms bytes by (simp add: mac_from_string_def Let_def)
  have printed: "mac_to_string mac = concat (map byte_text mac)"
    by (simp add: mac_to_string_def byte_text_def [abs_def])
  have "CHR '':'' \<notin> set (mac_to_string mac)"
    by (simp add: printed)
  moreover have "mac_to_string mac \<noteq> []"
    using assms by (auto simp: printed eth_address_length_def)
  ultimately have "split_string (mac_to_string mac) (CHR '':'') = [mac_to_string mac]"
    by simp
  then show "mac_from_string negated junk (mac_to_string mac) = replicate eth_address_length 0"
    by (simp add: mac_from_string_def Let_def eth_address_length_def)
qed

theorem mac_text_witness:
  "mac_from_string (\<lambda>_. 0) (\<lambda>_. 0) ''01:00:5E:00:00:FB'' = [1, 0, 0x5E, 0, 0, 0xFB] \<and>
   mac_from_string (\<lambda>_. 0) (\<lambda>_. 0) (mac_to_string [1, 0, 0x5E, 0, 0, 0xFB]) = [0, 0, 0, 0, 0, 0]"
proof -
  have "join (CHR '':'') (map byte_text [1, 0, 0x5E, 0, 0, 0xFB]) = ''01:00:5E:00:00:FB''"
    by code_simp
  then show ?thesis
    using mac_text [of "[1, 0, 0x5E, 0, 0, 0xFB]" "\<lambda>_. 0" "\<lambda>_. 0"] by (simp add: eth_address_length_def numeral_eq_Suc)
qed

text \<open>A segment without text leaves in its byte what memory held.\<close>

lemma mac_empty_segment: "mac_from_string negated junk ''1:2:3::5:6'' ! 3 = ucast (junk 3)"
proof -
  have "split_string ''1:2:3::5:6'' (CHR '':'') = [''1'', ''2'', ''3'', [], ''5'', ''6'']"
    by code_simp
  then show ?thesis
    by (simp add: mac_from_string_def Let_def eth_address_length_def extract_hex_def numeral_eq_Suc)
qed

end
