(* ===== verification/Handles.thy ===== *)
theory Handles
  imports Prelude
begin

text \<open>
  The owners of Windows handles and events: \<^verbatim>\<open>safe_object_handle\<close> (netlib/src/winsys/object.h), which is a
  \<^verbatim>\<open>std::unique_ptr\<close> with its own deleter, and \<^verbatim>\<open>safe_event\<close> (netlib/src/winsys/event.h).
\<close>

section \<open>Owners\<close>

type_synonym handle = u64

definition INVALID_HANDLE_VALUE :: handle where "INVALID_HANDLE_VALUE = - 1"

definition valid_handle :: "handle \<Rightarrow> bool" where
  "valid_handle h \<longleftrightarrow> h \<noteq> 0 \<and> h \<noteq> INVALID_HANDLE_VALUE"

definition new_safe_handle :: "handle \<Rightarrow> handle" where
  "new_safe_handle h = (if h = INVALID_HANDLE_VALUE then 0 else h)"

text \<open>The owners that live, by name, with what each stores, and the calls of \<^verbatim>\<open>CloseHandle\<close>.\<close>

record owners =
  stored :: "nat \<rightharpoonup> handle"
  closed_handles :: "handle list"

definition no_owners :: owners where
  "no_owners = \<lparr>stored = Map.empty, closed_handles = []\<rparr>"

definition handle_deleter :: "handle \<Rightarrow> owners \<Rightarrow> owners" where
  "handle_deleter h s = (if h \<noteq> 0 \<and> h \<noteq> INVALID_HANDLE_VALUE then s\<lparr>closed_handles := closed_handles s @ [h]\<rparr> else s)"

text \<open>\<^verbatim>\<open>reset\<close> deletes what was stored, unless it was null, behind storing the new value.\<close>

definition reset_owner :: "nat \<Rightarrow> handle \<Rightarrow> owners \<Rightarrow> owners option" where
  "reset_owner i h s =
     (case stored s i of
        None \<Rightarrow> None
      | Some old \<Rightarrow>
          let s = s\<lparr>stored := (stored s)(i \<mapsto> h)\<rparr>
          in Some (if old \<noteq> 0 then handle_deleter old s else s))"

definition release_owner :: "nat \<Rightarrow> owners \<Rightarrow> (handle \<times> owners) option" where
  "release_owner i s = map_option (\<lambda>h. (h, s\<lparr>stored := (stored s)(i \<mapsto> 0)\<rparr>)) (stored s i)"

datatype owner_op =
  Construct nat handle
| Move_construct nat nat
| Move_assign nat nat
| Reset nat handle
| Release nat
| Destroy nat

text \<open>\<open>None\<close>: an owner is used that does not live, or one that lives is constructed.\<close>

fun owner_step :: "owner_op \<Rightarrow> owners \<Rightarrow> owners option" where
  "owner_step (Construct i h) s =
     (if stored s i = None then Some (s\<lparr>stored := (stored s)(i \<mapsto> new_safe_handle h)\<rparr>) else None)"
| "owner_step (Move_construct i j) s =
     (if stored s i = None
      then map_option (\<lambda>(h, s). s\<lparr>stored := (stored s)(i \<mapsto> h)\<rparr>) (release_owner j s) else None)"
| "owner_step (Move_assign i j) s = Option.bind (release_owner j s) (\<lambda>(h, s). reset_owner i h s)"
| "owner_step (Reset i h) s = reset_owner i h s"
| "owner_step (Release i) s = map_option snd (release_owner i s)"
| "owner_step (Destroy i) s =
     map_option (\<lambda>s. s\<lparr>stored := (stored s)(i := None)\<rparr>) (reset_owner i 0 s)"

fun run_owners :: "owner_op list \<Rightarrow> owners \<Rightarrow> owners option" where
  "run_owners [] s = Some s"
| "run_owners (op # ops) s = Option.bind (owner_step op s) (run_owners ops)"

section \<open>Events\<close>

definition INFINITE :: u32 where "INFINITE = 0xFFFFFFFF"
definition WAIT_OBJECT_0 :: u32 where "WAIT_OBJECT_0 = 0"
definition WAIT_FAILED :: u32 where "WAIT_FAILED = 0xFFFFFFFF"

text \<open>\<open>system\<close> is \<^verbatim>\<open>WaitForSingleObject\<close>, \<open>create\<close> is \<^verbatim>\<open>CreateEventW\<close>: manual reset, first state, name.\<close>

definition create_manual_reset :: "(bool \<Rightarrow> bool \<Rightarrow> 'n \<Rightarrow> handle) \<Rightarrow> bool \<Rightarrow> 'n \<Rightarrow> handle" where
  "create_manual_reset create initially_signaled name = new_safe_handle (create True initially_signaled name)"

definition create_auto_reset :: "(bool \<Rightarrow> bool \<Rightarrow> 'n \<Rightarrow> handle) \<Rightarrow> bool \<Rightarrow> 'n \<Rightarrow> handle" where
  "create_auto_reset create initially_signaled name = new_safe_handle (create False initially_signaled name)"

definition event_wait :: "(handle \<Rightarrow> u32 \<Rightarrow> u32) \<Rightarrow> handle \<Rightarrow> u32 \<Rightarrow> u32" where
  "event_wait system h ms = (if \<not> valid_handle h then WAIT_FAILED else system h ms)"

text \<open>The duration is a count of milliseconds with a sign.\<close>

definition event_wait_for :: "(handle \<Rightarrow> u32 \<Rightarrow> u32) \<Rightarrow> handle \<Rightarrow> int \<Rightarrow> u32" where
  "event_wait_for system h count =
     (if \<not> valid_handle h then WAIT_FAILED
      else if count \<le> 0 then system h 0
      else if 2 ^ 32 - 1 \<le> count then system h INFINITE
      else system h (of_int count))"

definition wait_signaled :: "(handle \<Rightarrow> u32 \<Rightarrow> u32) \<Rightarrow> handle \<Rightarrow> u32 \<Rightarrow> bool" where
  "wait_signaled system h ms \<longleftrightarrow> event_wait system h ms = WAIT_OBJECT_0"

definition is_signaled :: "(handle \<Rightarrow> u32 \<Rightarrow> u32) \<Rightarrow> handle \<Rightarrow> bool" where
  "is_signaled system h \<longleftrightarrow> event_wait system h 0 = WAIT_OBJECT_0"

section \<open>Every handle is closed once\<close>

text \<open>The handles that operations hand to owners.\<close>

fun handed :: "owner_op \<Rightarrow> handle list" where
  "handed (Construct i h) = (if valid_handle h then [h] else [])"
| "handed (Reset i h) = (if valid_handle h then [h] else [])"
| "handed _ = []"

text \<open>\<open>G\<close> are the handles handed over so far.\<close>

definition owned_once :: "handle set \<Rightarrow> owners \<Rightarrow> bool" where
  "owned_once G s \<longleftrightarrow>
     distinct (closed_handles s) \<and> set (closed_handles s) \<subseteq> G \<and>
     (\<forall>i h. stored s i = Some h \<longrightarrow> valid_handle h \<longrightarrow> h \<in> G \<and> h \<notin> set (closed_handles s)) \<and>
     (\<forall>i j h. stored s i = Some h \<longrightarrow> stored s j = Some h \<longrightarrow> valid_handle h \<longrightarrow> i = j)"

definition none_lost :: "handle set \<Rightarrow> owners \<Rightarrow> bool" where
  "none_lost G s \<longleftrightarrow> (\<forall>h \<in> G. h \<in> set (closed_handles s) \<or> (\<exists>i. stored s i = Some h))"

lemma valid_handle_simps [simp]: "\<not> valid_handle 0" "\<not> valid_handle INVALID_HANDLE_VALUE"
  "valid_handle (new_safe_handle h) \<longleftrightarrow> valid_handle h" "valid_handle h \<Longrightarrow> new_safe_handle h = h"
  by (auto simp: valid_handle_def new_safe_handle_def)

lemma handle_deleter_valid: "handle_deleter h s = (if valid_handle h then s\<lparr>closed_handles := closed_handles s @ [h]\<rparr> else s)"
  by (simp add: handle_deleter_def valid_handle_def)

text \<open>Every operation is made of three: storing in a place that holds no handle, emptying a place, and closing.\<close>

lemma reset_owner_owned:
  assumes "owned_once G s" "reset_owner i h s = Some s'" "valid_handle h \<Longrightarrow> h \<in> G'" "valid_handle h \<Longrightarrow> h \<notin> set (closed_handles s)"
    "\<And>j. stored s j = Some h \<Longrightarrow> \<not> valid_handle h" "G \<subseteq> G'"
  shows "owned_once G' s'"
  using assms unfolding owned_once_def reset_owner_def Let_def handle_deleter_valid
  by (auto split: option.splits if_splits) blast+

lemma release_owner_owned:
  assumes "owned_once G s" "release_owner j s = Some (h, s')"
  shows "owned_once G s'" "valid_handle h \<Longrightarrow> h \<in> G" "valid_handle h \<Longrightarrow> h \<notin> set (closed_handles s')"
    "stored s' i = Some h \<Longrightarrow> \<not> valid_handle h" "stored s' = (stored s)(j \<mapsto> 0)" "closed_handles s' = closed_handles s"
  using assms by (auto simp: release_owner_def owned_once_def split: if_splits)

lemma construct_owned:
  assumes "owned_once G s" "stored s i = None" "valid_handle h \<Longrightarrow> h \<in> G'" "valid_handle h \<Longrightarrow> h \<notin> set (closed_handles s)"
    "\<And>j. stored s j = Some h \<Longrightarrow> \<not> valid_handle h" "G \<subseteq> G'"
  shows "owned_once G' (s\<lparr>stored := (stored s)(i \<mapsto> h)\<rparr>)"
  using assms unfolding owned_once_def by (auto split: if_splits)

lemma owner_step_owned:
  assumes "owned_once G s" "owner_step op s = Some s'" "set (handed op) \<inter> G = {}"
  shows "owned_once (G \<union> set (handed op)) s'"
proof -
  have known: "valid_handle h \<Longrightarrow> h \<in> G" "valid_handle h \<Longrightarrow> h \<notin> G \<Longrightarrow> False" if "stored s j = Some h" for h j
    using assms(1) that by (auto simp: owned_once_def)
  have closed: "set (closed_handles s) \<subseteq> G"
    using assms(1) by (simp add: owned_once_def)
  show ?thesis
  proof (cases op)
    case (Construct i h)
    show ?thesis
    proof (cases "valid_handle h")
      case True
      then show ?thesis
        using assms Construct known(1) closed by (auto split: if_splits intro!: construct_owned [OF assms(1)])
    next
      case False
      then have "\<not> valid_handle (new_safe_handle h)"
        by simp
      then show ?thesis
        using assms Construct False by (auto simp del: valid_handle_simps split: if_splits intro!: construct_owned [OF assms(1)])
    qed
  next
    case (Move_construct i j)
    then obtain h t where t: "stored s i = None" "release_owner j s = Some (h, t)" "s' = t\<lparr>stored := (stored t)(i \<mapsto> h)\<rparr>"
      using assms(2) by (auto split: if_splits)
    note released = release_owner_owned [OF assms(1) t(2)]
    have "stored t i = None"
      using t(1,2) released(5) by (auto simp: release_owner_def)
    then have "owned_once G (t\<lparr>stored := (stored t)(i \<mapsto> h)\<rparr>)"
      using released(2-4,6) by (intro construct_owned [OF released(1)]) auto
    then show ?thesis
      using Move_construct t(3) by simp
  next
    case (Move_assign i j)
    then obtain h t where t: "release_owner j s = Some (h, t)" "reset_owner i h t = Some s'"
      using assms(2) by (auto simp: bind_eq_Some_conv)
    note released = release_owner_owned [OF assms(1) t(1)]
    have "owned_once G s'"
      using released(2-4,6) by (intro reset_owner_owned [OF released(1) t(2)]) auto
    then show ?thesis
      using Move_assign by simp
  next
    case (Reset i h)
    then show ?thesis
      using assms known(1) closed by (auto intro!: reset_owner_owned [OF assms(1)] split: if_splits)
  next
    case (Release i)
    then show ?thesis
      using assms release_owner_owned(1) [OF assms(1)] by auto
  next
    case (Destroy i)
    then obtain t where t: "reset_owner i 0 s = Some t" "s' = t\<lparr>stored := (stored t)(i := None)\<rparr>"
      using assms(2) by auto
    have "owned_once G t"
      using reset_owner_owned [OF assms(1) t(1), of G] by simp
    then show ?thesis
      using Destroy t(2) by (auto simp: owned_once_def split: if_splits)
  qed
qed

lemma reset_owner_SomeD:
  assumes "reset_owner i h s = Some s'"
  obtains old where "stored s i = Some old" "stored s' = (stored s)(i \<mapsto> h)"
    "set (closed_handles s') = set (closed_handles s) \<union> (if valid_handle old then {old} else {})"
  using assms by (auto simp: reset_owner_def handle_deleter_valid Let_def split: option.splits if_splits)

text \<open>A valid handle that was stored or closed still is.\<close>

lemma owner_step_kept:
  assumes "owner_step op s = Some s'" "\<And>i. op \<noteq> Release i" "valid_handle h"
    "h \<in> set (closed_handles s) \<or> stored s k = Some h"
  shows "h \<in> set (closed_handles s') \<or> (\<exists>i. stored s' i = Some h)"
proof (cases op)
  case (Move_assign i j)
  then obtain h' t where t: "stored s j = Some h'" "t = s\<lparr>stored := (stored s)(j \<mapsto> 0)\<rparr>" "reset_owner i h' t = Some s'"
    using assms(1) by (auto simp: bind_eq_Some_conv release_owner_def)
  from t(3) obtain old where "stored t i = Some old" "stored s' = (stored t)(i \<mapsto> h')"
    "set (closed_handles s') = set (closed_handles t) \<union> (if valid_handle old then {old} else {})"
    by (rule reset_owner_SomeD)
  then show ?thesis
    using t(1,2) assms(3,4) by (cases "k = j"; cases "k = i") auto
next
  case (Reset i h')
  then have "reset_owner i h' s = Some s'"
    using assms(1) by simp
  then obtain old where "stored s i = Some old" "stored s' = (stored s)(i \<mapsto> h')"
    "set (closed_handles s') = set (closed_handles s) \<union> (if valid_handle old then {old} else {})"
    by (rule reset_owner_SomeD)
  then show ?thesis
    using assms(3,4) by (cases "k = i") auto
next
  case (Destroy i)
  then obtain t where t: "reset_owner i 0 s = Some t" "s' = t\<lparr>stored := (stored t)(i := None)\<rparr>"
    using assms(1) by auto
  from t(1) obtain old where "stored s i = Some old" "stored t = (stored s)(i \<mapsto> 0)"
    "set (closed_handles t) = set (closed_handles s) \<union> (if valid_handle old then {old} else {})"
    by (rule reset_owner_SomeD)
  then show ?thesis
    using t(2) assms(3,4) by (cases "k = i") auto
next
  case (Construct i h')
  then show ?thesis
    using assms by (cases "k = i") (auto split: if_splits)
next
  case (Move_construct i j)
  then show ?thesis
    using assms by (cases "k = i"; cases "k = j") (auto simp: release_owner_def split: if_splits)
qed (use assms in simp)

text \<open>
  C32: while each handle is handed to one owner once, no handle is ever closed twice, and no owner that
  lives holds one that was closed; where nothing is released, each handle that was handed over is closed
  or still owned.
\<close>

theorem handles_closed_once:
  assumes "run_owners ops no_owners = Some s" "distinct (concat (map handed ops))"
  shows "distinct (closed_handles s) \<and> (\<forall>i h. stored s i = Some h \<longrightarrow> valid_handle h \<longrightarrow> h \<notin> set (closed_handles s)) \<and>
    ((\<forall>i. Release i \<notin> set ops) \<longrightarrow>
      (\<forall>h \<in> set (concat (map handed ops)). h \<in> set (closed_handles s) \<or> (\<exists>i. stored s i = Some h)))"
proof -
  have handed_valid: "valid_handle h" if "h \<in> set (handed op)" for h op
    using that by (cases op) (auto split: if_splits)
  have handed_stored: "\<exists>i. stored t' i = Some h" if "h \<in> set (handed op)" "owner_step op t = Some t'" for h op t t'
    using that by (cases op) (auto simp: reset_owner_def handle_deleter_valid Let_def split: if_splits option.splits)
  have "owned_once (G \<union> set (concat (map handed ops))) s \<and>
      ((\<forall>i. Release i \<notin> set ops) \<longrightarrow> none_lost G t \<longrightarrow> none_lost (G \<union> set (concat (map handed ops))) s)"
    if "run_owners ops t = Some s" "owned_once G t" "distinct (concat (map handed ops))" "set (concat (map handed ops)) \<inter> G = {}"
      "\<forall>h \<in> G. valid_handle h" for G t
    using that
  proof (induction ops arbitrary: G t)
    case (Cons op ops)
    obtain t' where t': "owner_step op t = Some t'" "run_owners ops t' = Some s"
      using Cons.prems(1) by (auto simp: bind_eq_Some_conv)
    have owned: "owned_once (G \<union> set (handed op)) t'"
      using owner_step_owned [OF Cons.prems(2) t'(1)] Cons.prems(4) by auto
    have lost: "none_lost (G \<union> set (handed op)) t'" if "\<And>i. op \<noteq> Release i" "none_lost G t"
    proof -
      have "h \<in> set (closed_handles t') \<or> (\<exists>i. stored t' i = Some h)" if h: "h \<in> G" for h
      proof -
        obtain k where "h \<in> set (closed_handles t) \<or> stored t k = Some h"
          using \<open>none_lost G t\<close> h unfolding none_lost_def by blast
        then show ?thesis
          using owner_step_kept [OF t'(1) \<open>\<And>i. op \<noteq> Release i\<close>] Cons.prems(5) h by blast
      qed
      then show ?thesis
        using handed_stored [OF _ t'(1)] by (auto simp: none_lost_def)
    qed
    have "\<forall>h \<in> G \<union> set (handed op). valid_handle h" "set (concat (map handed ops)) \<inter> (G \<union> set (handed op)) = {}"
      using Cons.prems(3,4,5) handed_valid by auto
    from Cons.IH [OF t'(2) owned _ this(2,1)] Cons.prems(3) lost show ?case
      by (auto simp: Un_assoc)
  qed simp
  from this [OF assms(1) _ assms(2), of "{}"] show ?thesis
    by (auto simp: owned_once_def no_owners_def none_lost_def)
qed

definition sample_owner_ops :: "owner_op list" where
  "sample_owner_ops =
     [Construct 0 7, Construct 1 8, Construct 2 INVALID_HANDLE_VALUE, Move_assign 0 1, Move_construct 3 0, Reset 3 9,
      Destroy 0, Destroy 1, Destroy 3, Destroy 2]"

theorem handles_closed_once_witness:
  "case run_owners sample_owner_ops no_owners of None \<Rightarrow> False
   | Some s \<Rightarrow> distinct (closed_handles s) \<and> {7, 8, 9} \<subseteq> set (closed_handles s)"
proof -
  obtain s where s: "run_owners sample_owner_ops no_owners = Some s" "stored s = Map.empty"
    by (simp add: sample_owner_ops_def no_owners_def new_safe_handle_def INVALID_HANDLE_VALUE_def release_owner_def reset_owner_def
        handle_deleter_def fun_eq_iff)
  have releases: "Release i \<notin> set sample_owner_ops" for i
    by (simp add: sample_owner_ops_def)
  have handed: "concat (map handed sample_owner_ops) = [7, 8, 9]"
    by (simp add: sample_owner_ops_def valid_handle_def INVALID_HANDLE_VALUE_def)
  show ?thesis
    using handles_closed_once [OF s(1)] s handed releases by simp
qed

text \<open>
  A wait for a duration asks Windows for that time exactly when it is positive and below the greatest
  count, for no time when it is not positive, and without end from there on; what it asks for never wraps.
\<close>

theorem wait_duration_exact:
  assumes "valid_handle h"
  shows "\<exists>ms. event_wait_for system h count = system h ms \<and>
    (ms = INFINITE \<longleftrightarrow> 2 ^ 32 - 1 \<le> count) \<and> (ms \<noteq> INFINITE \<longrightarrow> int (unat ms) = max 0 count)"
proof -
  consider "count \<le> 0" | "0 < count" "2 ^ 32 - 1 \<le> count" | "0 < count" "count < 2 ^ 32 - 1"
    by linarith
  then show ?thesis
  proof cases
    case 3
    then have "int (unat (of_int count :: u32)) = count"
      by (simp add: unsigned_of_int take_bit_int_eq_self_iff)
    moreover from this have "(of_int count :: u32) \<noteq> INFINITE"
      using 3 by (auto simp: INFINITE_def)
    ultimately show ?thesis
      using 3 assms by (intro exI [of _ "of_int count"]) (simp add: event_wait_for_def)
  qed (use assms in \<open>auto simp: event_wait_for_def INFINITE_def\<close>)
qed

theorem wait_duration_exact_witness:
  "event_wait_for (\<lambda>_ ms. ms) 4 (5000000000) = INFINITE \<and> event_wait_for (\<lambda>_ ms. ms) 4 1500 = 1500"
proof -
  have "valid_handle 4"
    by (simp add: valid_handle_def INVALID_HANDLE_VALUE_def)
  have long: "event_wait_for (\<lambda>_ ms. ms) 4 5000000000 = INFINITE"
    using wait_duration_exact [OF \<open>valid_handle 4\<close>, of "\<lambda>_ ms. ms" 5000000000] by auto
  obtain ms where ms: "event_wait_for (\<lambda>_ ms. ms) 4 1500 = ms" "ms \<noteq> INFINITE" "int (unat ms) = 1500"
    using wait_duration_exact [OF \<open>valid_handle 4\<close>, of "\<lambda>_ ms. ms" 1500] by auto
  from ms(3) have "unat ms = 1500"
    by linarith
  then have "ms = of_nat 1500"
    by (metis of_nat_unat ucast_id)
  with long ms show ?thesis
    by simp
qed

end
