(* ===== verification/Spec2Isabelle.thy ===== *)
theory Spec2Isabelle
  imports Prelude Packet_Buffer Checksums Net_Address Ipv6_Helper Aging_Table Tcp_Redirect Udp_Redirect Process_Lookup Static_Filters
    Router_Config Router Router_Queue Router_Paths Tcp_Relay Socks5_Protocol Socks5_Tcp Tcp_Server Router_Sessions Packet_Pool Udp_Server
    Udp_Relay Udp_Sessions Router_Udp Filter_Properties Lifecycle_Properties Completion_Port Driver_Api Owner_Module Network_Rows Adapter_Names Gateway
    Capture Net_Text Handles
begin

text \<open>
  Verification development of ProxyFyre/ProxySwitch, a Windows tool that sends the traffic of
  selected processes through SOCKS5 proxies.  All paths are under src/ProxiFyre; netlib stands for
  netlib/src.

  \<^bold>\<open>The program.\<close>  A packet filter (netlib/ndisapi/queued_multi_interface_packet_filter.h) takes each
  packet from the driver through \<^verbatim>\<open>CNdisApi\<close> (ndisapi/ndisapi.cpp) and asks the router
  (netlib/proxy/socks_local_router.h) what becomes of it.  The router finds the process of the packet
  (netlib/iphelper/process_lookup.h), chooses a proxy by process identifier, name or rule, and lets a
  redirector turn the packet back to a local server on the same computer
  (netlib/ndisapi/tcp_local_redirect.h, socks5_udp_local_redirect.h).  The local servers
  (netlib/proxy/tcp_proxy_server.h, socks5_local_udp_proxy_server.h) ask a mapper for the destination
  the packet had, negotiate with the SOCKS5 server and relay the data.  Packets whose process is not
  known yet wait in a queue for a resolver thread.  The gateway (socksify) offers all this to a
  service written in C#.

  \<^bold>\<open>Foundations.\<close>  Prelude has the fixed-width integers, byte orders and the erasing walk of
  netlib/tools/generic.h.  Packet_Buffer has \<^verbatim>\<open>INTERMEDIATE_BUFFER\<close>: a frame is a store from offsets to
  bytes, and an access outside the array of 1514 bytes is \<open>None\<close>.  Checksums and Ipv6_Helper have the
  sums of ndisapi.cpp and netlib/net/ipv6_helper.h, proved against the one's complement sum of the
  standards, and the walk over extension headers, which ends because the offset grows.  Net_Address
  and Net_Text have addresses, subnets, endpoints and their text.  Aging_Table is the interface of
  all tables that are stamped and swept; the tables of the redirectors, the mapper and the process
  lookup are its interpretations.

  \<^bold>\<open>Packets.\<close>  Tcp_Redirect and Udp_Redirect have both families of the redirectors with their
  rewriting in place; what goes out and comes back is shown to be inverse.  Static_Filters has the
  filter table and its copy in the driver.  Packet_Filter has the four threads of the filter as state
  machines around queues, locks and condition variables; Filter_Runs shows that every interleaving
  does to the packets what one sequential thread would do, and Filter_Properties draws from it that
  no thread sleeps on work, that packets for the network are unaltered and when a stop ends.

  \<^bold>\<open>The router.\<close>  Router_Config has the configuration and the choice of the proxy, Router the packet
  path with the mappers, Router_Queue the postponed packets with their bound under concurrency,
  Router_Lifecycle and Lifecycle_Properties construction, proxies, start, stop and the choice of the
  adapters.  Router_Paths, Router_Sessions and Router_Udp put router, redirectors and servers together:
  a connection or datagram of a routed process asks the SOCKS5 server for the destination the process
  had, and everything else passes unaltered.

  \<^bold>\<open>The servers.\<close>  Tcp_Relay has the two rings of a connection; the ring refines a byte channel
  (locale \<open>byte_channel\<close>), so data arrive in order and never stall.  Socks5_Protocol and Socks5_Tcp have
  the negotiation, Tcp_Server the accepting, connecting and clearing threads.  Packet_Pool has the
  buffers (locale \<open>buffer_pool\<close>), Udp_Server, Udp_Relay and Udp_Sessions the association and the relay of
  datagrams from buffers no two operations share.  Completion_Port has the port and its threads.

  \<^bold>\<open>The system.\<close>  Process_Lookup and Owner_Module have the tables of processes, the names of processes
  and services with their cache.  Network_Config and Network_Rows have
  netlib/iphelper/network_adapter_info.h.  Driver_Api has the calls of \<^verbatim>\<open>CNdisApi\<close> in a process of 64 and
  of 32 bits with the table of handles, Adapter_Names what it reads in the registry.  Handles has the
  owners of handles and events (netlib/winsys), Capture the capture files (netlib/pcap), Gateway the
  gateway and the log (socksify, netlib/log).

  \<^bold>\<open>Conventions.\<close>  Records are the classes, with the names of their members; each operation takes the
  state and returns it changed.  Errors, exceptions and undefined behaviour are \<open>None\<close> or a result of
  their own.  Windows, Winsock, the driver, the registry and the clocks are parameters: functions or
  records of answers; what a theorem asks of them is among its hypotheses, and its witness instantiates
  them.  Threads are interleavings of steps, a step for each section under a lock.  Times are integers
  in nanoseconds.

  \<^bold>\<open>Bounds.\<close>  Loops are structural or have a measure: the extension headers end with the frame, the
  lookup of paths with its growing buffer, splitting of text with the text.  Where a loop of the code
  may not end it is a \<^verbatim>\<open>partial_function\<close> and its end or its failure to end is a theorem, as for the
  enumeration of registry keys in Adapter_Names; where a thread may wait for ever, the steps it can
  take are the subject of the theorem, as in \<open>stop_ends\<close>.  There is no fuel.

  \<^bold>\<open>Not modelled.\<close>  The texts of log messages and \<^verbatim>\<open>GetLastError\<close>; exceptions of the allocator and of
  the creation of threads; \<^verbatim>\<open>inject_to_local\<close> and \<^verbatim>\<open>inject_to_remote\<close> of the relays, which nothing calls; the
  branches of ndisapi.cpp for Windows 9x, its fast input and output, the calls without an adapter that
  only pass an argument to the driver, and its flat C functions, which only forward; hash functions of
  the standard library; copies of packets and their pool
  (netlib/ndisapi/intermediate_buffer.h, intermediate_buffer_pool.h), since packets are values here;
  declarations of headers; the service in C#.
\<close>

end
